(* ===== verification/Prelude.thy ===== *)
theory Prelude
  imports Main "HOL-Library.List_Lexorder" "HOL-Library.Char_ord" "HOL-Library.Signed_Division"
begin

text \<open>
  What every component shares: error values and results, 64-bit integer arithmetic,
  instants and durations of the Go standard library, the string operations of
  \<^verbatim>\<open>strings\<close>, \<^verbatim>\<open>strconv\<close> and \<^verbatim>\<open>fmt\<close> the program calls, and the lemma collections.

  A Go string is a sequence of bytes, here a \<^typ>\<open>string\<close> whose characters are bytes.
  A Go \<^verbatim>\<open>int\<close> is 64 bits wide: a model keeps it as \<^typ>\<open>int\<close> and applies \<open>wrap64\<close>
  where the code's arithmetic can leave the range. A \<^verbatim>\<open>time.Time\<close> is the number of
  nanoseconds since the Unix epoch, a \<^verbatim>\<open>time.Duration\<close> a number of nanoseconds.
\<close>

named_theorems io_simps \<open>unfolding of the input/output combinators\<close>
named_theorems inv_intros \<open>preservation of a component's invariant by its operations\<close>
named_theorems read_intros \<open>operations that only read the world\<close>

section \<open>Errors and results\<close>

datatype sentinel =
    ErrNotFound | ErrRetired | ErrInvalidCredential | ErrMalformed | ErrExpired
  | ErrInvalidSignature | ErrUnauthenticated | ErrNoRows | ContextCanceled | ContextDeadlineExceeded

datatype go_error =
    Sentinel sentinel
  | IOFailure
  | Errorf string
  | Wrap string go_error
  | Joined "go_error list"

type_synonym 'a result = "go_error + 'a"

text \<open>\<^verbatim>\<open>errors.Is\<close>: unwraps every \<^verbatim>\<open>%w\<close> layer and every joined error.\<close>

fun errors_is :: "go_error \<Rightarrow> sentinel \<Rightarrow> bool" where
  "errors_is (Sentinel s) t = (s = t)"
| "errors_is IOFailure t = False"
| "errors_is (Errorf _) t = False"
| "errors_is (Wrap _ e) t = errors_is e t"
| "errors_is (Joined es) t = (\<exists>e \<in> set es. errors_is e t)"

definition is_ok :: "'a result \<Rightarrow> bool" where
  "is_ok r = (case r of Inl _ \<Rightarrow> False | Inr _ \<Rightarrow> True)"

definition res_bind :: "'a result \<Rightarrow> ('a \<Rightarrow> 'b result) \<Rightarrow> 'b result" where
  "res_bind r f = (case r of Inl e \<Rightarrow> Inl e | Inr x \<Rightarrow> f x)"

definition wrap_err :: "string \<Rightarrow> 'a result \<Rightarrow> 'a result" where
  "wrap_err msg r = (case r of Inl e \<Rightarrow> Inl (Wrap msg e) | Inr x \<Rightarrow> Inr x)"

lemma is_ok_simps [simp]: "is_ok (Inr x)" "\<not> is_ok (Inl e)"
  by (simp_all add: is_ok_def)

lemma res_bind_simps [simp]: "res_bind (Inl e) f = Inl e" "res_bind (Inr x) f = f x"
  by (simp_all add: res_bind_def)

lemma wrap_err_simps [simp]: "wrap_err m (Inl e) = Inl (Wrap m e)" "wrap_err m (Inr x) = Inr x"
  by (simp_all add: wrap_err_def)

lemma wrap_err_Inr_iff [simp]: "wrap_err m r = Inr x \<longleftrightarrow> r = Inr x"
  by (cases r) simp_all

lemma res_bind_Inr_iff: "res_bind r f = Inr y \<longleftrightarrow> (\<exists>x. r = Inr x \<and> f x = Inr y)"
  by (cases r) simp_all

text \<open>\<^verbatim>\<open>errors.Join\<close>: nil when every joined error is nil.\<close>

definition errors_join :: "go_error list \<Rightarrow> unit result" where
  "errors_join es = (if es = [] then Inr () else Inl (Joined es))"

lemma errors_join_ok [simp]: "errors_join es = Inr u \<longleftrightarrow> es = []"
  by (simp add: errors_join_def)

text \<open>The list of errors a check contributes: \<^verbatim>\<open>if err != nil { errs = append(errs, err) }\<close>.\<close>

definition errs_of :: "unit result \<Rightarrow> go_error list" where
  "errs_of r = (case r of Inl e \<Rightarrow> [e] | Inr _ \<Rightarrow> [])"

lemma errs_of_Nil [simp]: "errs_of r = [] \<longleftrightarrow> r = Inr ()"
  by (cases r) (simp_all add: errs_of_def)

lemma errs_of_ok [simp]: "errs_of (Inr ()) = []"
  by (simp add: errs_of_def)

text \<open>A loop that stops at the first error: \<^verbatim>\<open>for ... { x, err := f(e); if err != nil { return } }\<close>.\<close>

fun map_result :: "('a \<Rightarrow> 'b result) \<Rightarrow> 'a list \<Rightarrow> 'b list result" where
  "map_result f [] = Inr []"
| "map_result f (x # xs) =
     (case f x of Inl e \<Rightarrow> Inl e
      | Inr y \<Rightarrow> (case map_result f xs of Inl e \<Rightarrow> Inl e | Inr ys \<Rightarrow> Inr (y # ys)))"

lemma map_result_Inr_length: "map_result f xs = Inr ys \<Longrightarrow> length ys = length xs"
  by (induction xs arbitrary: ys) (auto split: sum.splits)

lemma map_result_Inr_iff:
  "map_result f xs = Inr ys \<longleftrightarrow> list_all2 (\<lambda>x y. f x = Inr y) xs ys"
proof (induction xs arbitrary: ys)
  case Nil
  show ?case by (cases ys) simp_all
next
  case (Cons x xs)
  show ?case
  proof (cases ys)
    case Nil
    then show ?thesis by (simp split: sum.splits)
  next
    case (Cons y zs)
    show ?thesis by (simp add: Cons Cons.IH [symmetric] split: sum.splits) 
  qed
qed

lemma map_result_cong [fundef_cong]:
  "xs = ys \<Longrightarrow> (\<And>x. x \<in> set ys \<Longrightarrow> f x = g x) \<Longrightarrow> map_result f xs = map_result g ys"
  by (induction ys arbitrary: xs) (auto split: sum.splits)

lemma map_result_roundtrip:
  "(\<And>x. x \<in> set xs \<Longrightarrow> f (g x) = Inr x) \<Longrightarrow> map_result f (map g xs) = Inr xs"
  by (induction xs) simp_all

text \<open>
  The contract of a wire form: what is good reads back as it was written. A slice of such values does too, and two
  values written alike are equal.
\<close>

locale codec =
  fixes enc :: "'a \<Rightarrow> 'b"
    and dec :: "'b \<Rightarrow> 'a result"
    and good :: "'a \<Rightarrow> bool"
  assumes dec_enc: "good x \<Longrightarrow> dec (enc x) = Inr x"
begin

lemma enc_inj: "good x \<Longrightarrow> good y \<Longrightarrow> enc x = enc y \<longleftrightarrow> x = y"
  by (metis dec_enc sum.inject(2))

lemma slice_dec_enc: "list_all good xs \<Longrightarrow> map_result dec (map enc xs) = Inr xs"
  by (rule map_result_roundtrip) (simp add: dec_enc list_all_iff)

end

lemma map_result_pure: "(\<And>x. x \<in> set xs \<Longrightarrow> f x = Inr (g x)) \<Longrightarrow> map_result f xs = Inr (map g xs)"
  by (induction xs) simp_all

section \<open>64-bit integers\<close>

definition wrap64 :: "int \<Rightarrow> int" where
  "wrap64 x = (x + 9223372036854775808) mod 18446744073709551616 - 9223372036854775808"

definition min_int64 :: int where "min_int64 = - 9223372036854775808"
definition max_int64 :: int where "max_int64 = 9223372036854775807"

lemma wrap64_id: "min_int64 \<le> x \<Longrightarrow> x \<le> max_int64 \<Longrightarrow> wrap64 x = x"
  by (simp add: wrap64_def min_int64_def max_int64_def)

lemma wrap64_range: "min_int64 \<le> wrap64 x \<and> wrap64 x \<le> max_int64"
proof -
  have "0 \<le> (x + 9223372036854775808) mod 18446744073709551616"
    "(x + 9223372036854775808) mod 18446744073709551616 < 18446744073709551616"
    by simp_all
  then show ?thesis by (simp add: wrap64_def min_int64_def max_int64_def)
qed

lemma wrap64_small: "0 \<le> x \<Longrightarrow> x \<le> 1000000000000 \<Longrightarrow> wrap64 x = x"
  by (rule wrap64_id) (simp_all add: min_int64_def max_int64_def)

text \<open>The conversion \<^verbatim>\<open>uint32(x)\<close> of a 64-bit integer keeps its low 32 bits.\<close>

definition to_uint32 :: "int \<Rightarrow> nat" where
  "to_uint32 x = nat (x mod 4294967296)"

lemma to_uint32_small: "0 \<le> x \<Longrightarrow> x < 4294967296 \<Longrightarrow> int (to_uint32 x) = x"
  by (simp add: to_uint32_def)

section \<open>Instants and durations\<close>

type_synonym time = int
type_synonym duration = int

definition second :: duration where "second = 1000000000"
definition minute :: duration where "minute = 60 * second"
definition hour :: duration where "hour = 60 * minute"

text \<open>\<^verbatim>\<open>Time.Unix\<close> and \<^verbatim>\<open>Time.UnixNano\<close>; the latter wraps outside the 64-bit range.\<close>

definition unix :: "time \<Rightarrow> int" where "unix t = t div second"
definition unix_nano :: "time \<Rightarrow> int" where "unix_nano t = wrap64 t"

text \<open>\<^verbatim>\<open>Time.Sub\<close> saturates to the range of a duration.\<close>

definition time_sub :: "time \<Rightarrow> time \<Rightarrow> duration" where
  "time_sub t u = max min_int64 (min max_int64 (t - u))"

definition time_add :: "time \<Rightarrow> duration \<Rightarrow> time" where
  "time_add t d = t + d"

text \<open>The zero \<^verbatim>\<open>time.Time\<close>: the first of January of year 1.\<close>

definition zero_time :: time where "zero_time = - 62135596800 * second"

lemma time_sub_id: "\<bar>t - u\<bar> \<le> max_int64 \<Longrightarrow> time_sub t u = t - u"
  by (simp add: time_sub_def min_int64_def max_int64_def)

lemma second_pos [simp]: "0 < second"
  by (simp add: second_def)

end
