(* ===== verification/Fnv.thy ===== *)
theory Fnv
  imports Prelude "HOL-Library.Word"
begin

text \<open>
  \<^verbatim>\<open>hash/fnv\<close>'s 64-bit FNV-1a, the one hash the program computes itself: bucketing
  (\<^verbatim>\<open>assign.Bucket\<close>), the reach sketch (\<^verbatim>\<open>hll.AddIdentity\<close>), the entity tag
  (\<^verbatim>\<open>etag.Compute\<close>) and the membership hash (\<^verbatim>\<open>reverse.Hash\<close>). The state is a 64-bit word; each
  byte is xored in and the state multiplied by the FNV prime, wrapping.
\<close>

unbundle bit_operations_syntax

definition fnv_offset :: "64 word" where "fnv_offset = 14695981039346656037"
definition fnv_prime :: "64 word" where "fnv_prime = 1099511628211"

definition fnv_byte :: "64 word \<Rightarrow> char \<Rightarrow> 64 word" where
  "fnv_byte h c = (h XOR of_nat (of_char c)) * fnv_prime"

definition fnv_write :: "64 word \<Rightarrow> string \<Rightarrow> 64 word" where
  "fnv_write h s = foldl fnv_byte h s"

definition fnv64a :: "string \<Rightarrow> 64 word" where
  "fnv64a s = fnv_write fnv_offset s"

lemma fnv_write_simps [simp]:
  "fnv_write h [] = h"
  "fnv_write h (c # s) = fnv_write (fnv_byte h c) s"
  "fnv_write h (s @ t) = fnv_write (fnv_write h s) t"
  by (simp_all add: fnv_write_def)

text \<open>Writing in several calls is writing the concatenation.\<close>

lemma fnv64a_append: "fnv64a (s @ t) = fnv_write (fnv64a s) t"
  by (simp add: fnv64a_def)

text \<open>Each step is injective in the state: the prime is odd, so it has an inverse modulo \<open>2\<^sup>6\<^sup>4\<close>.\<close>

lemma fnv_prime_inverse: "fnv_prime * 14886173955864302971 = 1"
  by (simp add: fnv_prime_def)

lemma fnv_prime_cancel: "a * fnv_prime = b * fnv_prime \<longleftrightarrow> a = b"
proof
  assume "a * fnv_prime = b * fnv_prime"
  then have "a * fnv_prime * 14886173955864302971 = b * fnv_prime * 14886173955864302971" by simp
  then show "a = b" by (simp add: mult.assoc fnv_prime_inverse)
qed simp

lemma xor_word_cancel: "(a :: 64 word) XOR c = b XOR c \<longleftrightarrow> a = b"
proof
  assume "a XOR c = b XOR c"
  then have "(a XOR c) XOR c = (b XOR c) XOR c" by simp
  then show "a = b" by (simp add: xor.assoc)
qed simp

lemma fnv_byte_inject: "fnv_byte g c = fnv_byte h c \<longleftrightarrow> g = h"
  by (simp add: fnv_byte_def fnv_prime_cancel xor_word_cancel)

lemma fnv_write_inject: "fnv_write g s = fnv_write h s \<longleftrightarrow> g = h"
  by (induction s arbitrary: g h) (simp_all add: fnv_byte_inject)

lemma fnv_byte_char_inject: "fnv_byte h c = fnv_byte h d \<longleftrightarrow> c = d"
proof
  assume "fnv_byte h c = fnv_byte h d"
  then have "h XOR of_nat (of_char c) = h XOR of_nat (of_char d)"
    by (simp add: fnv_byte_def fnv_prime_cancel)
  then have "(of_nat (of_char c) :: 64 word) = of_nat (of_char d)"
    by (simp only: xor.commute [of h] xor_word_cancel)
  then have "unat (of_nat (of_char c) :: 64 word) = unat (of_nat (of_char d) :: 64 word)" by simp
  moreover have "(of_char c :: nat) < 256" "(of_char d :: nat) < 256" by simp_all
  ultimately have "(of_char c :: nat) = of_char d"
    by (simp add: unat_of_nat)
  then show "c = d" by simp
qed simp

text \<open>
  So two inputs of one length that differ in exactly one byte never collide: the hash
  is a bijection in each single byte.
\<close>

lemma fnv64a_one_byte:
  "fnv64a (p @ c # s) = fnv64a (p @ d # s) \<longleftrightarrow> c = d"
  by (simp add: fnv64a_def fnv_write_inject fnv_byte_char_inject)

end
