(* ===== verification/Text.thy ===== *)
theory Text
  imports Prelude
begin

text \<open>
  The functions of \<^verbatim>\<open>strings\<close>, \<^verbatim>\<open>strconv\<close> and \<^verbatim>\<open>fmt\<close> the program calls, on byte
  strings, with the round trips between an integer and its decimal form and between
  splitting and joining that the codecs of the other theories rest on.
\<close>

section \<open>Prefixes, splitting, joining, trimming\<close>

definition has_prefix :: "string \<Rightarrow> string \<Rightarrow> bool" where
  "has_prefix s p \<longleftrightarrow> take (length p) s = p"

definition trim_prefix :: "string \<Rightarrow> string \<Rightarrow> string" where
  "trim_prefix s p = (if has_prefix s p then drop (length p) s else s)"

fun contains :: "string \<Rightarrow> string \<Rightarrow> bool" where
  "contains [] p = (p = [])"
| "contains (c # s) p = (has_prefix (c # s) p \<or> contains s p)"

text \<open>\<^verbatim>\<open>strings.Split(s, sep)\<close> for a one-byte separator.\<close>

fun split_on :: "char \<Rightarrow> string \<Rightarrow> string list" where
  "split_on sep [] = [[]]"
| "split_on sep (c # s) =
     (if c = sep then [] # split_on sep s
      else (case split_on sep s of [] \<Rightarrow> [[c]] | p # ps \<Rightarrow> (c # p) # ps))"

text \<open>\<^verbatim>\<open>strings.SplitN(s, sep, Suc n)\<close>: at most \<open>n\<close> cuts, the last piece keeps the rest.\<close>

fun split_cuts :: "char \<Rightarrow> nat \<Rightarrow> string \<Rightarrow> string list" where
  "split_cuts sep 0 s = [s]"
| "split_cuts sep (Suc n) [] = [[]]"
| "split_cuts sep (Suc n) (c # s) =
     (if c = sep then [] # split_cuts sep n s
      else (case split_cuts sep (Suc n) s of [] \<Rightarrow> [[c]] | p # ps \<Rightarrow> (c # p) # ps))"

fun join :: "string \<Rightarrow> string list \<Rightarrow> string" where
  "join sep [] = []"
| "join sep [p] = p"
| "join sep (p # q # ps) = p @ sep @ join sep (q # ps)"

lemma split_on_nonempty [simp]: "split_on sep s \<noteq> []"
  by (induction s) (auto split: list.splits)

lemma split_cuts_nonempty [simp]: "split_cuts sep n s \<noteq> []"
  by (induction sep n s rule: split_cuts.induct) (auto split: list.splits)

lemma split_on_no_sep: "sep \<notin> set s \<Longrightarrow> split_on sep s = [s]"
  by (induction s) auto

lemma split_on_append: "sep \<notin> set p \<Longrightarrow> split_on sep (p @ sep # s) = p # split_on sep s"
  by (induction p) auto

lemma split_cuts_append:
  "sep \<notin> set p \<Longrightarrow> split_cuts sep (Suc n) (p @ sep # s) = p # split_cuts sep n s"
  by (induction p) auto

lemma split_cuts_first:
  "split_cuts sep (Suc n) s = p # q # ps \<Longrightarrow>
     sep \<notin> set p \<and> (\<exists>rest. s = p @ sep # rest \<and> split_cuts sep n rest = q # ps)"
proof (induction s arbitrary: p)
  case Nil
  then show ?case by simp
next
  case (Cons c s)
  show ?case
  proof (cases "c = sep")
    case True
    with Cons.prems show ?thesis by auto
  next
    case False
    obtain r rs where r: "split_cuts sep (Suc n) s = r # rs"
      by (cases "split_cuts sep (Suc n) s") auto
    with Cons.prems False have "p = c # r" "rs = q # ps" by auto
    with Cons.IH [of r] r False show ?thesis by auto
  qed
qed

lemma split_cuts_no_sep: "sep \<notin> set s \<Longrightarrow> split_cuts sep n s = [s]"
  by (induction sep n s rule: split_cuts.induct) auto

lemma join_split_on: "join [sep] (split_on sep s) = s"
proof (induction s)
  case Nil
  show ?case by simp
next
  case (Cons c s)
  obtain p ps where "split_on sep s = p # ps"
    using split_on_nonempty [of sep s] by (cases "split_on sep s") auto
  with Cons show ?case by (cases ps) auto
qed

lemma split_on_pieces: "p \<in> set (split_on sep s) \<Longrightarrow> sep \<notin> set p"
proof (induction s arbitrary: p)
  case Nil
  then show ?case by simp
next
  case (Cons c s)
  obtain q qs where "split_on sep s = q # qs"
    using split_on_nonempty [of sep s] by (cases "split_on sep s") auto
  with Cons show ?case by (auto split: if_splits)
qed

text \<open>
  \<^verbatim>\<open>strings.TrimSpace\<close> on the ASCII white space characters (tab, newline, vertical tab,
  form feed, carriage return, space).
\<close>

definition is_space :: "char \<Rightarrow> bool" where
  "is_space c \<longleftrightarrow> of_char c \<in> {9 :: nat, 10, 11, 12, 13, 32}"

definition trim_space :: "string \<Rightarrow> string" where
  "trim_space s = rev (dropWhile is_space (rev (dropWhile is_space s)))"

definition trim_right :: "char \<Rightarrow> string \<Rightarrow> string" where
  "trim_right c s = rev (dropWhile (\<lambda>d. d = c) (rev s))"

lemma trim_space_id: "s = [] \<or> \<not> is_space (hd s) \<and> \<not> is_space (last s) \<Longrightarrow> trim_space s = s"
proof -
  assume h: "s = [] \<or> \<not> is_space (hd s) \<and> \<not> is_space (last s)"
  then have "dropWhile is_space s = s" "dropWhile is_space (rev s) = rev s"
    by (auto simp: dropWhile_eq_self_iff hd_rev)
  then show ?thesis by (simp add: trim_space_def)
qed

text \<open>
  \<^verbatim>\<open>strings.ToLower\<close>: the ASCII letters, and the two code points outside ASCII whose lower
  case is an ASCII letter (U+0130 gives i, U+212A gives k). Other letters outside ASCII
  keep their bytes here: their lower case is outside ASCII again, so no comparison
  with an ASCII pattern tells the difference.
\<close>

definition lower_char :: "char \<Rightarrow> char" where
  "lower_char c =
     (if 65 \<le> (of_char c :: nat) \<and> (of_char c :: nat) \<le> 90 then char_of ((of_char c :: nat) + 32) else c)"

fun to_lower :: "string \<Rightarrow> string" where
  "to_lower [] = []"
| "to_lower (a # s) =
     (case s of
        b # s' \<Rightarrow>
          if a = CHR 0xC4 \<and> b = CHR 0xB0 then CHR ''i'' # to_lower s'
          else (case s' of
                  c # s'' \<Rightarrow>
                    if a = CHR 0xE2 \<and> b = CHR 0x84 \<and> c = CHR 0xAA then CHR ''k'' # to_lower s''
                    else lower_char a # to_lower s
                | [] \<Rightarrow> lower_char a # to_lower s)
      | [] \<Rightarrow> [lower_char a])"

section \<open>Decimal numerals\<close>

definition digit_char :: "nat \<Rightarrow> char" where "digit_char d = char_of (48 + d)"
definition digit_val :: "char \<Rightarrow> nat" where "digit_val c = of_char c - 48"
definition is_digit :: "char \<Rightarrow> bool" where
  "is_digit c \<longleftrightarrow> 48 \<le> (of_char c :: nat) \<and> (of_char c :: nat) \<le> 57"

lemma digit_val_char [simp]: "d < 10 \<Longrightarrow> digit_val (digit_char d) = d"
  by (simp add: digit_val_def digit_char_def)

lemma is_digit_char [simp]: "d < 10 \<Longrightarrow> is_digit (digit_char d)"
  by (simp add: is_digit_def digit_char_def)

fun dec_of_nat :: "nat \<Rightarrow> string" where
  "dec_of_nat n =
     (if n < 10 then [digit_char n] else dec_of_nat (n div 10) @ [digit_char (n mod 10)])"

declare dec_of_nat.simps [simp del]

definition nat_of_dec :: "string \<Rightarrow> nat" where
  "nat_of_dec s = foldl (\<lambda>n c. 10 * n + digit_val c) 0 s"

lemma nat_of_dec_snoc [simp]: "nat_of_dec (s @ [c]) = 10 * nat_of_dec s + digit_val c"
  by (simp add: nat_of_dec_def)

lemma nat_of_dec_Nil [simp]: "nat_of_dec [] = 0"
  by (simp add: nat_of_dec_def)

lemma dec_of_nat_digits: "c \<in> set (dec_of_nat n) \<Longrightarrow> is_digit c"
proof (induction n rule: dec_of_nat.induct)
  case (1 n)
  then show ?case
    by (subst (asm) dec_of_nat.simps) (auto split: if_splits)
qed

lemma dec_of_nat_nonempty [simp]: "dec_of_nat n \<noteq> []"
  by (subst dec_of_nat.simps) simp

lemma nat_of_dec_of_nat [simp]: "nat_of_dec (dec_of_nat n) = n"
proof (induction n rule: dec_of_nat.induct)
  case (1 n)
  show ?case
  proof (cases "n < 10")
    case True
    then have "nat_of_dec ([] @ [digit_char n]) = n"
      unfolding nat_of_dec_snoc by simp
    with True show ?thesis by (subst dec_of_nat.simps) simp
  next
    case False
    with "1.IH" have "10 * nat_of_dec (dec_of_nat (n div 10)) + n mod 10 = n" by simp
    with False show ?thesis by (subst dec_of_nat.simps) simp
  qed
qed

lemma dec_of_nat_inject [simp]: "dec_of_nat m = dec_of_nat n \<longleftrightarrow> m = n"
  by (metis nat_of_dec_of_nat)

text \<open>\<^verbatim>\<open>fmt.Sprintf("%d", x)\<close>.\<close>

definition dec_of_int :: "int \<Rightarrow> string" where
  "dec_of_int x = (if x < 0 then CHR ''-'' # dec_of_nat (nat (- x)) else dec_of_nat (nat x))"

text \<open>\<^verbatim>\<open>strconv.ParseUint(s, 10, 64)\<close> and \<^verbatim>\<open>strconv.ParseInt(s, 10, 64)\<close>: \<^const>\<open>None\<close> is the error.\<close>

definition parse_uint64 :: "string \<Rightarrow> nat option" where
  "parse_uint64 s =
     (if s = [] \<or> \<not> list_all is_digit s then None
      else if nat_of_dec s < 18446744073709551616 then Some (nat_of_dec s) else None)"

definition parse_int64 :: "string \<Rightarrow> int option" where
  "parse_int64 s =
     (let neg = (s \<noteq> [] \<and> hd s = CHR ''-'');
          body = (if s \<noteq> [] \<and> (hd s = CHR ''-'' \<or> hd s = CHR ''+'') then tl s else s)
      in if body = [] \<or> \<not> list_all is_digit body then None
         else let v = (if neg then - int (nat_of_dec body) else int (nat_of_dec body))
              in if min_int64 \<le> v \<and> v \<le> max_int64 then Some v else None)"

lemma digit_not_sign: "is_digit c \<Longrightarrow> c \<noteq> CHR ''-'' \<and> c \<noteq> CHR ''+'' \<and> c \<noteq> CHR '':'' \<and> c \<noteq> CHR ''.''"
  by (auto simp: is_digit_def)

lemma dec_of_nat_no_char: "\<not> is_digit c \<Longrightarrow> c \<notin> set (dec_of_nat n)"
  using dec_of_nat_digits by blast

lemma dec_of_int_no_colon: "CHR '':'' \<notin> set (dec_of_int x)"
  using dec_of_nat_no_char [of "CHR '':''"] by (simp add: dec_of_int_def is_digit_def)

lemma parse_uint64_dec: "n < 18446744073709551616 \<Longrightarrow> parse_uint64 (dec_of_nat n) = Some n"
  by (auto simp: parse_uint64_def list_all_iff dest: dec_of_nat_digits)

lemma parse_int64_dec:
  assumes "min_int64 \<le> x" "x \<le> max_int64"
  shows "parse_int64 (dec_of_int x) = Some x"
proof (cases "x < 0")
  case True
  with assms show ?thesis
    by (auto simp: parse_int64_def dec_of_int_def list_all_iff Let_def dest: dec_of_nat_digits)
next
  case False
  have "is_digit (hd (dec_of_nat (nat x)))"
    using dec_of_nat_digits hd_in_set dec_of_nat_nonempty by blast
  with False assms show ?thesis
    by (auto simp: parse_int64_def dec_of_int_def list_all_iff Let_def
        dest: dec_of_nat_digits digit_not_sign)
qed

lemma parse_int64_range: "parse_int64 s = Some v \<Longrightarrow> min_int64 \<le> v \<and> v \<le> max_int64"
  by (auto simp: parse_int64_def Let_def split: if_splits)

text \<open>\<^verbatim>\<open>fmt.Sprintf("%0*d", w, n)\<close>: zero-padded to at least \<open>w\<close> digits.\<close>

definition pad_dec :: "nat \<Rightarrow> nat \<Rightarrow> string" where
  "pad_dec w n = replicate (w - length (dec_of_nat n)) (CHR ''0'') @ dec_of_nat n"

section \<open>Hexadecimal numerals\<close>

definition hex_char :: "nat \<Rightarrow> char" where
  "hex_char d = (if d < 10 then char_of (48 + d) else char_of (87 + d))"

definition hex_val :: "char \<Rightarrow> nat" where
  "hex_val c = (if is_digit c then of_char c - 48 else of_char c - 87)"

fun hex_of_nat :: "nat \<Rightarrow> string" where
  "hex_of_nat n =
     (if n < 16 then [hex_char n] else hex_of_nat (n div 16) @ [hex_char (n mod 16)])"

declare hex_of_nat.simps [simp del]

lemma hex_val_char [simp]: "d < 16 \<Longrightarrow> hex_val (hex_char d) = d"
  by (auto simp: hex_val_def hex_char_def is_digit_def)

definition nat_of_hex :: "string \<Rightarrow> nat" where
  "nat_of_hex s = foldl (\<lambda>n c. 16 * n + hex_val c) 0 s"

lemma nat_of_hex_of_nat [simp]: "nat_of_hex (hex_of_nat n) = n"
proof (induction n rule: hex_of_nat.induct)
  case (1 n)
  then show ?case
    by (subst hex_of_nat.simps) (auto simp: nat_of_hex_def)
qed

lemma hex_of_nat_inject [simp]: "hex_of_nat m = hex_of_nat n \<longleftrightarrow> m = n"
  by (metis nat_of_hex_of_nat)

lemma hex_char_not_colon: "d < 16 \<Longrightarrow> hex_char d \<noteq> CHR '':''"
  by (auto simp: hex_char_def dest!: arg_cong [where f = "of_char :: char \<Rightarrow> nat"])

lemma hex_of_nat_no_colon: "CHR '':'' \<notin> set (hex_of_nat n)"
proof (induction n rule: hex_of_nat.induct)
  case (1 n)
  then show ?case
    using hex_char_not_colon [of n] hex_char_not_colon [of "n mod 16"]
    by (subst hex_of_nat.simps) auto
qed

end
