(* ===== verification/Assign.thy ===== *)
theory Assign
  imports Fnv Text
begin

text \<open>
  \<^verbatim>\<open>internal/experiment/assign\<close>: the identity an experiment hashes, its bucket, the range
  table that maps buckets to variants, and the assignment composed from them. A table
  that \<^verbatim>\<open>NewRangeTable\<close> accepts partitions the buckets, each variant gets as many
  buckets as its weight says, and \<^verbatim>\<open>Assign\<close> on it never fails.
\<close>

section \<open>Identity and bucket\<close>

definition identity :: "string \<Rightarrow> string \<Rightarrow> string" where
  "identity userID channelID = (if userID \<noteq> [] then userID else channelID)"

definition BucketCount :: int where "BucketCount = 10000"

definition identity_separator :: string where "identity_separator = [CHR 0x00]"

definition bucket_hash :: "string \<Rightarrow> string \<Rightarrow> 64 word" where
  "bucket_hash salt ident =
     fnv_write (fnv_write (fnv_write fnv_offset salt) identity_separator) ident"

definition bucket :: "string \<Rightarrow> string \<Rightarrow> int" where
  "bucket salt ident = int (unat (bucket_hash salt ident) mod nat BucketCount)"

section \<open>The range table\<close>

record variant_range =
  vr_variant :: string
  vr_start :: int
  vr_end :: int
  vr_is_holdout :: bool

record range_table =
  ranges :: "variant_range list"

text \<open>
  The loop of \<^verbatim>\<open>NewRangeTable\<close>: \<open>seen\<close> and \<open>cumulative\<close> are its variables, the result
  the ranges appended and the final \<open>cumulative\<close>.
\<close>

fun variant_ranges ::
  "string list \<Rightarrow> (string \<rightharpoonup> int) \<Rightarrow> string list \<Rightarrow> int \<Rightarrow> (variant_range list \<times> int) result" where
  "variant_ranges [] weights seen cumulative = Inr ([], cumulative)"
| "variant_ranges (variant # order) weights seen cumulative =
     (if variant \<in> set seen then Inl (Errorf ''assign: duplicate variant in order'')
      else case weights variant of
        None \<Rightarrow> Inl (Errorf ''assign: no weight given for variant'')
      | Some width \<Rightarrow>
          if width < 0 then Inl (Errorf ''assign: variant has a negative weight'')
          else
            let next = wrap64 (cumulative + width) in
            res_bind (variant_ranges order weights (variant # seen) next) (\<lambda>(rs, total).
              Inr (\<lparr>vr_variant = variant, vr_start = cumulative, vr_end = next,
                     vr_is_holdout = False\<rparr> # rs, total)))"

definition new_range_table ::
  "string list \<Rightarrow> (string \<rightharpoonup> int) \<Rightarrow> int \<Rightarrow> range_table result" where
  "new_range_table order weights holdoutWeight =
     (if order = [] then Inl (Errorf ''assign: range table needs at least one variant'')
      else res_bind (variant_ranges order weights [] 0) (\<lambda>(rs, cumulative).
        if holdoutWeight < 0 then Inl (Errorf ''assign: holdout weight is negative'')
        else
          let total = wrap64 (cumulative + holdoutWeight) in
          if total \<noteq> BucketCount then Inl (Errorf ''assign: weights and holdout do not sum to the bucket count'')
          else Inr \<lparr>ranges = rs @ [\<lparr>vr_variant = [], vr_start = cumulative, vr_end = total,
                                     vr_is_holdout = True\<rparr>]\<rparr>))"

definition reweight ::
  "range_table \<Rightarrow> (string \<rightharpoonup> int) \<Rightarrow> int \<Rightarrow> range_table result" where
  "reweight current newWeights newHoldoutWeight =
     new_range_table (map vr_variant (filter (\<lambda>r. \<not> vr_is_holdout r) (ranges current)))
       newWeights newHoldoutWeight"

fun lookup_ranges :: "variant_range list \<Rightarrow> int \<Rightarrow> (string \<times> bool) result" where
  "lookup_ranges [] bkt = Inl (Errorf ''assign: bucket is not covered by any range in the table'')"
| "lookup_ranges (r # rs) bkt =
     (if vr_start r \<le> bkt \<and> bkt < vr_end r then Inr (vr_variant r, vr_is_holdout r)
      else lookup_ranges rs bkt)"

definition lookup :: "range_table \<Rightarrow> int \<Rightarrow> (string \<times> bool) result" where
  "lookup t bkt = lookup_ranges (ranges t) bkt"

section \<open>Assignment\<close>

record assign_result =
  ar_bucket :: int
  ar_variant :: string
  ar_is_holdout :: bool

definition assign :: "range_table \<Rightarrow> string \<Rightarrow> string \<Rightarrow> assign_result result" where
  "assign table salt ident =
     (let bkt = bucket salt ident in
      res_bind (lookup table bkt) (\<lambda>(variant, isHoldout).
        Inr \<lparr>ar_bucket = bkt, ar_variant = variant, ar_is_holdout = isHoldout\<rparr>))"

definition in_project_holdout :: "string \<Rightarrow> int \<Rightarrow> string \<Rightarrow> bool" where
  "in_project_holdout projectSalt holdoutBucketCount ident \<longleftrightarrow>
     bucket projectSalt ident < holdoutBucketCount"

section \<open>Buckets\<close>

lemma bucket_range: "0 \<le> bucket salt ident \<and> bucket salt ident < BucketCount"
  by (simp add: bucket_def BucketCount_def)

lemma bucket_hash_input: "bucket_hash salt ident = fnv64a (salt @ CHR 0x00 # ident)"
  by (simp add: bucket_hash_def identity_separator_def fnv64a_def)

text \<open>The separator keeps the hashed input unambiguous for salts without a null byte.\<close>

lemma separated_inject:
  assumes "c \<notin> set s" "c \<notin> set s'"
  shows "s @ c # i = s' @ c # i' \<longleftrightarrow> s = s' \<and> i = i'"
  using assms by (induction s arbitrary: s') (case_tac s', auto)+

section \<open>Chained ranges\<close>

text \<open>The ranges a table is built from follow one another without gap or overlap.\<close>

fun chained :: "int \<Rightarrow> variant_range list \<Rightarrow> int \<Rightarrow> bool" where
  "chained c [] d = (c = d)"
| "chained c (r # rs) d = (vr_start r = c \<and> c \<le> vr_end r \<and> chained (vr_end r) rs d)"

lemma chained_le: "chained c rs d \<Longrightarrow> c \<le> d"
  by (induction rs arbitrary: c) (auto, force)

lemma chained_append:
  "chained c (rs @ ss) d \<longleftrightarrow> (\<exists>m. chained c rs m \<and> chained m ss d)"
  by (induction rs arbitrary: c) auto

lemma chained_start_ge: "chained c rs d \<Longrightarrow> r \<in> set rs \<Longrightarrow> c \<le> vr_start r \<and> vr_start r \<le> vr_end r \<and> vr_end r \<le> d"
  by (induction rs arbitrary: c) (auto dest: chained_le, force+)

lemma lookup_chained_below: "chained c rs d \<Longrightarrow> b < c \<Longrightarrow> \<not> is_ok (lookup_ranges rs b)"
proof (induction rs arbitrary: c)
  case Nil
  then show ?case by simp
next
  case (Cons r rs)
  then have "b < vr_end r" by auto
  then show ?case using Cons.IH [of "vr_end r"] Cons.prems by auto
qed

lemma lookup_chained_covers:
  "chained c rs d \<Longrightarrow> c \<le> b \<Longrightarrow> b < d \<Longrightarrow> is_ok (lookup_ranges rs b)"
  by (induction rs arbitrary: c) auto

lemma lookup_chained_range:
  "chained c rs d \<Longrightarrow> is_ok (lookup_ranges rs b) \<longleftrightarrow> c \<le> b \<and> b < d"
proof (induction rs arbitrary: c)
  case Nil
  then show ?case by simp
next
  case (Cons r rs)
  from Cons.prems have "vr_end r \<le> d" by (auto dest: chained_le)
  with Cons show ?case
    using lookup_chained_below [OF Cons.prems, of b] by (cases "c \<le> b") auto
qed

text \<open>How many buckets carry a given label: the sum of the widths under that label.\<close>

definition label :: "variant_range \<Rightarrow> string \<times> bool" where
  "label r = (vr_variant r, vr_is_holdout r)"

lemma lookup_chained_count:
  assumes "chained c rs d"
  shows "int (card {b. c \<le> b \<and> b < d \<and> lookup_ranges rs b = Inr l}) =
    (\<Sum>r \<leftarrow> filter (\<lambda>r. label r = l) rs. vr_end r - vr_start r)"
  using assms
proof (induction rs arbitrary: c)
  case Nil
  then show ?case by simp
next
  case (Cons r rs)
  then have start: "vr_start r = c" "c \<le> vr_end r" and rest: "chained (vr_end r) rs d" by auto
  have le: "vr_end r \<le> d" by (rule chained_le [OF rest])
  let ?A = "{b. c \<le> b \<and> b < vr_end r \<and> label r = l}"
  let ?B = "{b. vr_end r \<le> b \<and> b < d \<and> lookup_ranges rs b = Inr l}"
  have split: "{b. c \<le> b \<and> b < d \<and> lookup_ranges (r # rs) b = Inr l} = ?A \<union> ?B"
    using start le by (auto simp: label_def)
  have fin: "finite ?A" "finite ?B"
    by (rule finite_subset [of _ "{c..vr_end r}"]; force)
       (rule finite_subset [of _ "{vr_end r..d}"]; force)
  have "card (?A \<union> ?B) = card ?A + card ?B"
    by (rule card_Un_disjoint [OF fin]) auto
  moreover have "int (card ?A) = (if label r = l then vr_end r - vr_start r else 0)"
  proof -
    have "?A = (if label r = l then {c..<vr_end r} else {})" by auto
    then show ?thesis using start by simp
  qed
  ultimately show ?case using Cons.IH [OF rest] by (simp only: split) simp
qed

section \<open>What NewRangeTable builds\<close>

definition weight_sum :: "(string \<rightharpoonup> int) \<Rightarrow> string list \<Rightarrow> int" where
  "weight_sum w order = (\<Sum>v \<leftarrow> order. case w v of Some k \<Rightarrow> k | None \<Rightarrow> 0)"

definition weights_given :: "(string \<rightharpoonup> int) \<Rightarrow> string list \<Rightarrow> bool" where
  "weights_given w order \<longleftrightarrow> (\<forall>v \<in> set order. case w v of Some k \<Rightarrow> 0 \<le> k | None \<Rightarrow> False)"

lemma weight_sum_simps [simp]:
  "weight_sum w [] = 0"
  "weight_sum w (v # vs) = (case w v of Some k \<Rightarrow> k | None \<Rightarrow> 0) + weight_sum w vs"
  by (simp_all add: weight_sum_def)

lemma weights_given_simps [simp]:
  "weights_given w []"
  "weights_given w (v # vs) \<longleftrightarrow> (case w v of Some k \<Rightarrow> 0 \<le> k | None \<Rightarrow> False) \<and> weights_given w vs"
  by (simp_all add: weights_given_def)

lemma weight_sum_nonneg: "weights_given w order \<Longrightarrow> 0 \<le> weight_sum w order"
  by (induction order) (auto split: option.splits)

lemma wrap64_add_wrap64 [simp]: "wrap64 (wrap64 a + b) = wrap64 (a + b)"
  by (simp add: wrap64_def mod_simps algebra_simps)

lemma variant_ranges_ok_iff:
  "is_ok (variant_ranges order w seen c) \<longleftrightarrow>
     distinct order \<and> set order \<inter> set seen = {} \<and> weights_given w order"
proof (induction order arbitrary: seen c)
  case Nil
  show ?case by simp
next
  case (Cons v order)
  show ?case
  proof (cases "v \<in> set seen \<or> w v = None")
    case True
    then show ?thesis by (auto split: option.splits)
  next
    case False
    then obtain k where k: "w v = Some k" by auto
    have "is_ok (variant_ranges (v # order) w seen c) \<longleftrightarrow>
        0 \<le> k \<and> is_ok (variant_ranges order w (v # seen) (wrap64 (c + k)))"
      using False k by (auto simp: Let_def is_ok_def res_bind_def split: sum.splits)
    then show ?thesis using False k by (auto simp: Cons.IH)
  qed
qed

lemma variant_ranges_total:
  "variant_ranges order w seen c = Inr (rs, tot) \<Longrightarrow> wrap64 c = c \<Longrightarrow>
     tot = wrap64 (c + weight_sum w order)"
proof (induction order arbitrary: seen c rs)
  case Nil
  then show ?case by simp
next
  case (Cons v order)
  from Cons.prems(1) obtain k rs' where k: "w v = Some k"
    and rest: "variant_ranges order w (v # seen) (wrap64 (c + k)) = Inr (rs', tot)"
    by (auto simp: Let_def res_bind_Inr_iff split: option.splits if_splits)
  have "wrap64 (wrap64 (c + k)) = wrap64 (c + k)" using wrap64_add_wrap64 [of "c + k" 0] by simp
  from Cons.IH [OF rest this] show ?case by (simp add: k add.assoc)
qed

lemma variant_ranges_chained:
  "variant_ranges order w seen c = Inr (rs, tot) \<Longrightarrow> 0 \<le> c \<Longrightarrow>
     c + weight_sum w order \<le> max_int64 \<Longrightarrow>
     chained c rs tot \<and> tot = c + weight_sum w order \<and> map label rs = map (\<lambda>v. (v, False)) order
     \<and> (\<forall>r \<in> set rs. w (vr_variant r) = Some (vr_end r - vr_start r))"
proof (induction order arbitrary: seen c rs)
  case Nil
  then show ?case by simp
next
  case (Cons v order)
  from Cons.prems(1) obtain k rs' where k: "w v = Some k" "0 \<le> k"
    and rest: "variant_ranges order w (v # seen) (wrap64 (c + k)) = Inr (rs', tot)"
    and rs: "rs = \<lparr>vr_variant = v, vr_start = c, vr_end = wrap64 (c + k), vr_is_holdout = False\<rparr> # rs'"
    by (auto simp: Let_def res_bind_Inr_iff split: option.splits if_splits)
  have "is_ok (variant_ranges order w (v # seen) (wrap64 (c + k)))" by (simp add: rest)
  then have nn: "0 \<le> weight_sum w order"
    by (intro weight_sum_nonneg) (simp add: variant_ranges_ok_iff)
  have wrap: "wrap64 (c + k) = c + k"
    by (rule wrap64_id) (use Cons.prems(2,3) k nn in \<open>simp_all add: min_int64_def\<close>)
  from Cons.IH [OF rest [unfolded wrap]] Cons.prems(2,3) k
  show ?case by (auto simp: rs wrap label_def add.assoc)
qed

lemma new_range_table_ok_iff:
  "is_ok (new_range_table order w h) \<longleftrightarrow>
     order \<noteq> [] \<and> distinct order \<and> weights_given w order \<and> 0 \<le> h \<and>
     wrap64 (weight_sum w order + h) = BucketCount"
proof (cases "order = [] \<or> \<not> is_ok (variant_ranges order w [] 0)")
  case True
  then show ?thesis
    by (cases "variant_ranges order w [] 0")
      (use variant_ranges_ok_iff [where order = order and w = w and seen = "[]" and c = 0] in
        \<open>auto simp: new_range_table_def\<close>)
next
  case False
  then obtain rs tot where ok: "variant_ranges order w [] 0 = Inr (rs, tot)"
    by (cases "variant_ranges order w [] 0") auto
  have "tot = wrap64 (weight_sum w order)"
    using variant_ranges_total [OF ok] by (simp add: wrap64_def)
  then show ?thesis
    using False variant_ranges_ok_iff [where order = order and w = w and seen = "[]" and c = 0]
    by (auto simp: new_range_table_def ok Let_def)
qed

text \<open>
  The table of weights whose exact sum fits 64 bits: a chain from 0 to the bucket count,
  one range per variant in the given order and the holdout last.
\<close>

lemma new_range_table_shape:
  assumes "new_range_table order w h = Inr t" "weight_sum w order + h \<le> max_int64"
  shows "chained 0 (ranges t) BucketCount"
    and "map label (ranges t) = map (\<lambda>v. (v, False)) order @ [([], True)]"
    and "\<forall>r \<in> set (ranges t). vr_end r - vr_start r =
           (if vr_is_holdout r then h else (case w (vr_variant r) of Some k \<Rightarrow> k | None \<Rightarrow> 0))"
    and "weight_sum w order + h = BucketCount"
proof -
  from assms(1) obtain rs tot where ok: "variant_ranges order w [] 0 = Inr (rs, tot)" and h: "0 \<le> h"
    and sum: "wrap64 (tot + h) = BucketCount"
    and t: "t = \<lparr>ranges = rs @ [\<lparr>vr_variant = [], vr_start = tot, vr_end = wrap64 (tot + h),
              vr_is_holdout = True\<rparr>]\<rparr>"
    by (auto simp: new_range_table_def res_bind_Inr_iff Let_def split: if_splits)
  have le: "0 + weight_sum w order \<le> max_int64" using assms(2) h by simp
  note vr = variant_ranges_chained [OF ok _ le, simplified]
  have "0 \<le> tot" using vr chained_le by blast
  then have wrap: "wrap64 (tot + h) = tot + h"
    using vr h assms(2) by (intro wrap64_id) (auto simp: min_int64_def)
  have flags: "\<forall>r \<in> set rs. \<not> vr_is_holdout r"
  proof
    fix r assume "r \<in> set rs"
    then have "label r \<in> set (map label rs)" by simp
    with vr show "\<not> vr_is_holdout r" by (auto simp: label_def)
  qed
  from vr h wrap sum show "chained 0 (ranges t) BucketCount"
    by (auto simp: t chained_append)
  from vr show "map label (ranges t) = map (\<lambda>v. (v, False)) order @ [([], True)]"
    by (simp add: t label_def)
  from vr wrap sum flags show "\<forall>r \<in> set (ranges t). vr_end r - vr_start r =
           (if vr_is_holdout r then h else (case w (vr_variant r) of Some k \<Rightarrow> k | None \<Rightarrow> 0))"
    by (auto simp: t)
  from vr wrap sum show "weight_sum w order + h = BucketCount" by simp
qed

section \<open>The contract assignment relies on\<close>

text \<open>
  \<^verbatim>\<open>Assign\<close> uses two things only: a bucket function into \<open>[0, n)\<close> and a table that
  answers every bucket of that interval. The locale states them; the model's bucket and
  range table provide them.
\<close>

locale bucket_table =
  fixes bkt :: "string \<Rightarrow> string \<Rightarrow> int"
    and find_label :: "'t \<Rightarrow> int \<Rightarrow> 'l result"
    and valid :: "'t \<Rightarrow> bool"
    and n :: int
  assumes bkt_range: "0 \<le> bkt salt ident \<and> bkt salt ident < n"
    and find_total: "valid t \<Longrightarrow> 0 \<le> b \<Longrightarrow> b < n \<Longrightarrow> is_ok (find_label t b)"
begin

lemma assigned: "valid t \<Longrightarrow> \<exists>l. find_label t (bkt salt ident) = Inr l"
  using find_total [of t "bkt salt ident"] bkt_range [of salt ident]
  by (cases "find_label t (bkt salt ident)") auto

lemma same_label_same_bucket:
  "bkt s i = bkt s j \<Longrightarrow> find_label t (bkt s i) = find_label t (bkt s j)"
  by simp

end

definition valid_table :: "range_table \<Rightarrow> bool" where
  "valid_table t \<longleftrightarrow> chained 0 (ranges t) BucketCount"

interpretation bt: bucket_table bucket lookup valid_table BucketCount
proof unfold_locales
  show "0 \<le> bucket salt ident \<and> bucket salt ident < BucketCount" for salt ident
    by (rule bucket_range)
  show "is_ok (lookup t b)" if "valid_table t" "0 \<le> b" "b < BucketCount" for t b
    using that lookup_chained_covers by (auto simp: lookup_def valid_table_def)
qed

lemma new_range_table_valid:
  "new_range_table order w h = Inr t \<Longrightarrow> weight_sum w order + h \<le> max_int64 \<Longrightarrow> valid_table t"
  by (simp add: valid_table_def new_range_table_shape(1))

lemma lookup_ranges_label: "lookup_ranges rs b = Inr l \<Longrightarrow> l \<in> set (map label rs)"
  by (induction rs) (auto simp: label_def split: if_splits)

lemma filter_distinct_map:
  "distinct (map f xs) \<Longrightarrow> x \<in> set xs \<Longrightarrow> filter (\<lambda>y. f y = f x) xs = [x]"
proof (induction xs)
  case Nil
  then show ?case by simp
next
  case (Cons y ys)
  show ?case
  proof (cases "x = y")
    case True
    with Cons.prems have "f x \<notin> f ` set ys" by simp
    then have "\<forall>z \<in> set ys. f z \<noteq> f x" by (metis imageI)
    with True show ?thesis by simp
  next
    case False
    with Cons.prems have "f y \<noteq> f x" by auto
    with False Cons show ?thesis by simp
  qed
qed

lemma table_label_count:
  assumes "chained 0 (ranges t) d" "distinct (map label (ranges t))" "r \<in> set (ranges t)"
  shows "int (card {b. 0 \<le> b \<and> b < d \<and> lookup t b = Inr (label r)}) = vr_end r - vr_start r"
  using lookup_chained_count [OF assms(1), of "label r"] filter_distinct_map [OF assms(2,3)]
  by (simp add: lookup_def)

lemma distinct_labels:
  "distinct order \<Longrightarrow> distinct (map (\<lambda>v. (v, False)) order @ [([] :: string, True)])"
  by (auto simp: distinct_map inj_on_def)

lemma new_range_table_order:
  "new_range_table order w h = Inr t \<Longrightarrow> order \<noteq> [] \<and> distinct order \<and> weights_given w order \<and> 0 \<le> h"
  using new_range_table_ok_iff [of order w h] by simp

section \<open>Properties\<close>

text \<open>
  C17: a range table that \<^verbatim>\<open>NewRangeTable\<close> accepts, of weights whose sum fits an int64, splits the buckets exactly as the
  weights say. Every bucket is covered, each variant of the order receives as many
  buckets as its weight, and the holdout as many as its own, so the shares an author
  writes are the shares identities fall into.
\<close>

theorem range_table_split:
  assumes "new_range_table order w h = Inr t" "weight_sum w order + h \<le> max_int64"
  shows "(\<forall>b. 0 \<le> b \<and> b < BucketCount \<longrightarrow> is_ok (lookup t b))
    \<and> (\<forall>v \<in> set order.
         Some (int (card {b. 0 \<le> b \<and> b < BucketCount \<and> lookup t b = Inr (v, False)})) = w v)
    \<and> int (card {b. 0 \<le> b \<and> b < BucketCount \<and> lookup t b = Inr ([], True)}) = h"
proof (intro conjI ballI allI impI)
  note shape = new_range_table_shape [OF assms]
  have dist: "distinct (map label (ranges t))"
    unfolding shape(2) using new_range_table_order [OF assms(1)] by (intro distinct_labels) blast
  show "is_ok (lookup t b)" if "0 \<le> b \<and> b < BucketCount" for b
    using that bt.find_total [OF new_range_table_valid [OF assms]] by blast
  have label_range: "\<exists>r \<in> set (ranges t). label r = l"
    if "l \<in> set (map (\<lambda>v. (v, False)) order @ [([], True)])" for l
    using that unfolding shape(2) [symmetric] by auto
  show "Some (int (card {b. 0 \<le> b \<and> b < BucketCount \<and> lookup t b = Inr (v, False)})) = w v"
    if v: "v \<in> set order" for v
  proof -
    from v label_range [of "(v, False)"] obtain r where r: "r \<in> set (ranges t)" "label r = (v, False)"
      by auto
    obtain k where "w v = Some k"
      using v new_range_table_order [OF assms(1)] by (auto simp: weights_given_def split: option.splits)
    with r shape(3) have "vr_end r - vr_start r = k" by (auto simp: label_def)
    with table_label_count [OF shape(1) dist r(1)] r(2) \<open>w v = Some k\<close> show ?thesis by simp
  qed
  from label_range [of "([], True)"] obtain r where r: "r \<in> set (ranges t)" "label r = ([], True)"
    by auto
  with shape(3) have "vr_end r - vr_start r = h" by (auto simp: label_def)
  with table_label_count [OF shape(1) dist r(1)] r(2)
  show "int (card {b. 0 \<le> b \<and> b < BucketCount \<and> lookup t b = Inr ([], True)}) = h" by simp
qed

theorem range_table_split_witness:
  "\<exists>t. new_range_table [''a'', ''b''] [''a'' \<mapsto> 3000, ''b'' \<mapsto> 6000] 1000 = Inr t
     \<and> (\<forall>v \<in> set [''a'', ''b'']. Some (int (card {b. 0 \<le> b \<and> b < BucketCount \<and>
          lookup t b = Inr (v, False)})) = ([''a'' \<mapsto> 3000, ''b'' \<mapsto> 6000] :: string \<rightharpoonup> int) v)"
proof -
  let ?w = "[''a'' \<mapsto> 3000, ''b'' \<mapsto> 6000] :: string \<rightharpoonup> int"
  have "is_ok (new_range_table [''a'', ''b''] ?w 1000)"
    by (simp add: new_range_table_ok_iff BucketCount_def wrap64_def)
  then obtain t where t: "new_range_table [''a'', ''b''] ?w 1000 = Inr t"
    by (cases "new_range_table [''a'', ''b''] ?w 1000") auto
  have "weight_sum ?w [''a'', ''b''] + 1000 \<le> max_int64" by (simp add: max_int64_def)
  from range_table_split [OF t this] t show ?thesis by blast
qed

text \<open>
  Assignment is total on an accepted table and stays inside the experiment: every
  identity gets a bucket below the bucket count and either one of the variants of the
  order or the holdout, and the answer depends on the salt and the identity only through
  that bucket.
\<close>

theorem assign_total:
  assumes "new_range_table order w h = Inr t" "weight_sum w order + h \<le> max_int64"
  shows "\<exists>r. assign t salt ident = Inr r \<and> ar_bucket r = bucket salt ident
    \<and> 0 \<le> ar_bucket r \<and> ar_bucket r < BucketCount
    \<and> (if ar_is_holdout r then ar_variant r = [] else ar_variant r \<in> set order)
    \<and> (\<forall>salt' ident'. bucket salt' ident' = bucket salt ident \<longrightarrow>
          assign t salt' ident' = assign t salt ident)"
proof -
  obtain v b where l: "lookup t (bucket salt ident) = Inr (v, b)"
    using bt.assigned [OF new_range_table_valid [OF assms]] by fastforce
  then have "(v, b) \<in> set (map label (ranges t))"
    by (auto simp: lookup_def dest: lookup_ranges_label)
  then have "if b then v = [] else v \<in> set order"
    by (auto simp: new_range_table_shape(2) [OF assms])
  with l bucket_range [of salt ident] show ?thesis by (simp add: assign_def)
qed

theorem assign_total_witness:
  "\<exists>t r. new_range_table [''a''] [''a'' \<mapsto> 9000] 1000 = Inr t \<and> assign t ''salt'' ''id'' = Inr r"
proof -
  have "is_ok (new_range_table [''a''] [''a'' \<mapsto> 9000] 1000)"
    by (simp add: new_range_table_ok_iff BucketCount_def wrap64_def)
  then obtain t where t: "new_range_table [''a''] [''a'' \<mapsto> 9000] 1000 = Inr t"
    by (cases "new_range_table [''a''] [''a'' \<mapsto> 9000] 1000") auto
  have "weight_sum [''a'' \<mapsto> 9000] [''a''] + 1000 \<le> max_int64" by (simp add: max_int64_def)
  from assign_total [OF t this, of "''salt''" "''id''"] t show ?thesis by blast
qed

text \<open>
  Reweighting: the two tables have the same labels, so a bucket whose label differs lies
  between the old and the new end of some range.
\<close>

lemma moved_between_ends:
  assumes "chained c rs d" "chained c' rs' d" "map label rs = map label rs'"
    and "c \<le> b" "c' \<le> b" "b < d" "lookup_ranges rs b \<noteq> lookup_ranges rs' b"
  shows "\<exists>(r, r') \<in> set (zip rs rs'). min (vr_end r) (vr_end r') \<le> b \<and> b < max (vr_end r) (vr_end r')"
  using assms
proof (induction rs arbitrary: c c' rs')
  case Nil
  then show ?case by simp
next
  case (Cons r rs)
  then obtain r' ss where rs': "rs' = r' # ss" by (cases rs') auto
  show ?case
  proof (cases "b < vr_end r \<longleftrightarrow> b < vr_end r'")
    case True
    with Cons.prems rs' have out: "vr_end r \<le> b" "vr_end r' \<le> b"
      by (auto simp: label_def split: if_splits)
    then show ?thesis
      using Cons.IH [of "vr_end r" "vr_end r'" ss] Cons.prems by (auto simp: rs')
  next
    case False
    then show ?thesis by (auto simp: rs' min_def max_def)
  qed
qed

lemma reweight_of_new:
  assumes "new_range_table order w h = Inr t" "weight_sum w order + h \<le> max_int64"
  shows "reweight t w' h' = new_range_table order w' h'"
proof -
  let ?keep = "filter (\<lambda>l. \<not> snd l)"
  have "map vr_variant (filter (\<lambda>r. \<not> vr_is_holdout r) (ranges t)) = map fst (?keep (map label (ranges t)))"
    by (simp add: filter_map o_def label_def)
  also have "\<dots> = order"
    by (simp add: new_range_table_shape(2) [OF assms] filter_map o_def)
  finally show ?thesis by (simp add: reweight_def)
qed

text \<open>
  Reweighting keeps the variants and their order, and moves a bucket only if it lies
  past a boundary that shifted, between the old end and the new end of one of the
  ranges; every other bucket keeps its variant.
\<close>

theorem reweight_moves_past_shifted_boundary:
  assumes "new_range_table order w h = Inr t" "weight_sum w order + h \<le> max_int64"
    and "reweight t w' h' = Inr t'" "weight_sum w' order + h' \<le> max_int64"
  shows "map label (ranges t') = map label (ranges t)
    \<and> (\<forall>b. 0 \<le> b \<and> b < BucketCount \<and> lookup t b \<noteq> lookup t' b \<longrightarrow>
        (\<exists>(r, r') \<in> set (zip (ranges t) (ranges t')).
           min (vr_end r) (vr_end r') \<le> b \<and> b < max (vr_end r) (vr_end r')))"
proof -
  from assms(3) have t': "new_range_table order w' h' = Inr t'"
    by (simp add: reweight_of_new [OF assms(1,2)])
  note old = new_range_table_shape [OF assms(1,2)] and new = new_range_table_shape [OF t' assms(4)]
  have labels: "map label (ranges t) = map label (ranges t')" by (simp add: old(2) new(2))
  then show ?thesis
    using moved_between_ends [OF old(1) new(1) labels] by (auto simp: lookup_def)
qed

theorem reweight_moves_past_shifted_boundary_witness:
  "\<exists>t t'. new_range_table [''a''] [''a'' \<mapsto> 10000] 0 = Inr t \<and> reweight t [''a'' \<mapsto> 9000] 1000 = Inr t'
     \<and> map label (ranges t') = map label (ranges t)"
proof -
  let ?t = "\<lparr>ranges = [\<lparr>vr_variant = ''a'', vr_start = 0, vr_end = 10000, vr_is_holdout = False\<rparr>,
      \<lparr>vr_variant = [], vr_start = 10000, vr_end = 10000, vr_is_holdout = True\<rparr>]\<rparr>"
  have t: "new_range_table [''a''] [''a'' \<mapsto> 10000] 0 = Inr ?t"
    by (simp add: new_range_table_def BucketCount_def wrap64_def)
  have le: "weight_sum [''a'' \<mapsto> 10000] [''a''] + 0 \<le> max_int64"
    "weight_sum [''a'' \<mapsto> 9000] [''a''] + 1000 \<le> max_int64" by (simp_all add: max_int64_def)
  obtain t' where t': "reweight ?t [''a'' \<mapsto> 9000] 1000 = Inr t'"
    by (simp add: reweight_def new_range_table_def BucketCount_def wrap64_def)
  from reweight_moves_past_shifted_boundary [OF t le(1) t' le(2)] t t' show ?thesis by blast
qed

text \<open>
  The minimum \<^verbatim>\<open>Reweight\<close>'s comment claims is not reached: from weights 2000, 6000, 2000 to
  4000, 6000, 0 it moves the 2000 buckets from 2000 on and the 2000 buckets from 8000 on,
  while giving the third variant's range to the first moves half as many and has the same
  shares.
\<close>

definition moved :: "range_table \<Rightarrow> range_table \<Rightarrow> int set" where
  "moved t t' = {b. 0 \<le> b \<and> b < BucketCount \<and> lookup t b \<noteq> lookup t' b}"

definition demo_range :: "string \<Rightarrow> int \<Rightarrow> int \<Rightarrow> variant_range" where
  "demo_range v s e = \<lparr>vr_variant = v, vr_start = s, vr_end = e, vr_is_holdout = False\<rparr>"

definition demo_holdout :: variant_range where
  "demo_holdout = \<lparr>vr_variant = [], vr_start = 10000, vr_end = 10000, vr_is_holdout = True\<rparr>"

lemma moved_eq:
  "moved \<lparr>ranges = rs\<rparr> \<lparr>ranges = rs'\<rparr> =
     {b. 0 \<le> b \<and> b < 10000 \<and> lookup_ranges rs b \<noteq> lookup_ranges rs' b}"
  by (simp add: moved_def lookup_def BucketCount_def)

text \<open>
  \<^verbatim>\<open>Reweight\<close> does not always move the fewest buckets. From 2000, 6000, 2000 to 4000,
  6000, 0 it moves 4000 of them, and a table with the same shares that partitions the
  buckets moves 2000.
\<close>

theorem reweight_not_minimal:
  "\<exists>t t' u.
     new_range_table [''a'', ''b'', ''c''] [''a'' \<mapsto> 2000, ''b'' \<mapsto> 6000, ''c'' \<mapsto> 2000] 0 = Inr t
     \<and> reweight t [''a'' \<mapsto> 4000, ''b'' \<mapsto> 6000, ''c'' \<mapsto> 0] 0 = Inr t'
     \<and> valid_table u
     \<and> (\<forall>l. card {b. 0 \<le> b \<and> b < BucketCount \<and> lookup u b = Inr l}
            = card {b. 0 \<le> b \<and> b < BucketCount \<and> lookup t' b = Inr l})
     \<and> card (moved t u) = 2000 \<and> card (moved t t') = 4000"
proof (intro exI conjI)
  let ?t = "[demo_range ''a'' 0 2000, demo_range ''b'' 2000 8000, demo_range ''c'' 8000 10000, demo_holdout]"
  let ?t' = "[demo_range ''a'' 0 4000, demo_range ''b'' 4000 10000, demo_range ''c'' 10000 10000, demo_holdout]"
  let ?u = "[demo_range ''a'' 0 2000, demo_range ''b'' 2000 8000, demo_range ''a'' 8000 10000]"
  show "new_range_table [''a'', ''b'', ''c''] [''a'' \<mapsto> 2000, ''b'' \<mapsto> 6000, ''c'' \<mapsto> 2000] 0
      = Inr \<lparr>ranges = ?t\<rparr>"
    by (simp add: new_range_table_def BucketCount_def wrap64_def demo_range_def demo_holdout_def)
  show "reweight \<lparr>ranges = ?t\<rparr> [''a'' \<mapsto> 4000, ''b'' \<mapsto> 6000, ''c'' \<mapsto> 0] 0 = Inr \<lparr>ranges = ?t'\<rparr>"
    by (simp add: reweight_def new_range_table_def BucketCount_def wrap64_def demo_range_def demo_holdout_def)
  show "valid_table \<lparr>ranges = ?u\<rparr>"
    by (simp add: valid_table_def BucketCount_def demo_range_def)
  have "chained 0 ?u BucketCount" "chained 0 ?t' BucketCount"
    by (simp_all add: BucketCount_def demo_range_def demo_holdout_def)
  note counts = this [THEN lookup_chained_count]
  show "\<forall>l. card {b. 0 \<le> b \<and> b < BucketCount \<and> lookup \<lparr>ranges = ?u\<rparr> b = Inr l}
      = card {b. 0 \<le> b \<and> b < BucketCount \<and> lookup \<lparr>ranges = ?t'\<rparr> b = Inr l}"
  proof
    fix l
    have "int (card {b. 0 \<le> b \<and> b < BucketCount \<and> lookup \<lparr>ranges = ?u\<rparr> b = Inr l})
      = int (card {b. 0 \<le> b \<and> b < BucketCount \<and> lookup \<lparr>ranges = ?t'\<rparr> b = Inr l})"
      using counts [of l] by (simp add: lookup_def demo_range_def demo_holdout_def label_def)
    then show "card {b. 0 \<le> b \<and> b < BucketCount \<and> lookup \<lparr>ranges = ?u\<rparr> b = Inr l}
      = card {b. 0 \<le> b \<and> b < BucketCount \<and> lookup \<lparr>ranges = ?t'\<rparr> b = Inr l}" by simp
  qed
  have "moved \<lparr>ranges = ?t\<rparr> \<lparr>ranges = ?u\<rparr> = {8000..<10000}"
    by (auto simp: moved_eq demo_range_def demo_holdout_def split: if_splits)
  then show "card (moved \<lparr>ranges = ?t\<rparr> \<lparr>ranges = ?u\<rparr>) = 2000" by simp
  have "moved \<lparr>ranges = ?t\<rparr> \<lparr>ranges = ?t'\<rparr> = {2000..<4000} \<union> {8000..<10000}"
    by (auto simp: moved_eq demo_range_def demo_holdout_def split: if_splits)
  moreover have "card ({2000..<4000} \<union> {8000..<10000} :: int set) = 2000 + 2000"
    by (subst card_Un_disjoint) auto
  ultimately show "card (moved \<lparr>ranges = ?t\<rparr> \<lparr>ranges = ?t'\<rparr>) = 4000" by simp
qed

end
