(* ===== verification/Hll.thy ===== *)
theory Hll
  imports Fnv
begin

text \<open>
  \<^verbatim>\<open>internal/event/hll\<close>: the HyperLogLog register set behind the unique-reach estimate.
  A sketch is the list of its one-byte registers. The theorems are what the rollup
  consumer and the report use it for: adding an identity twice or in another order makes
  no difference, and merging the sketches of two slices is the sketch of both.
\<close>

section \<open>The register set\<close>

definition precision :: nat where "precision = 14"
definition registerCount :: nat where "registerCount = 16384"

lemma registerCount_eq: "registerCount = 2 ^ precision"
  by (simp add: registerCount_def precision_def)

record sketch =
  registers :: "8 word list"

definition new_sketch :: sketch where
  "new_sketch = \<lparr>registers = replicate registerCount 0\<rparr>"

text \<open>\<^verbatim>\<open>bits.TrailingZeros64\<close>.\<close>

definition trailing_zeros :: "64 word \<Rightarrow> nat" where
  "trailing_zeros w = length (takeWhile (\<lambda>i. \<not> bit w i) [0..<64])"

definition register_index :: "64 word \<Rightarrow> nat" where
  "register_index h = unat (h AND (of_nat registerCount - 1))"

definition register_rank :: "64 word \<Rightarrow> 8 word" where
  "register_rank h =
     (let rest = drop_bit precision h
      in if rest = 0 then of_nat (64 - precision) + 1 else of_nat (trailing_zeros rest) + 1)"

definition add_hash :: "sketch \<Rightarrow> 64 word \<Rightarrow> sketch" where
  "add_hash s h =
     (let idx = register_index h; rank = register_rank h
      in if rank > registers s ! idx then s\<lparr>registers := (registers s)[idx := rank]\<rparr> else s)"

definition add_identity :: "sketch \<Rightarrow> string \<Rightarrow> sketch" where
  "add_identity s ident = add_hash s (fnv64a ident)"

text \<open>The loop of \<^verbatim>\<open>Merge\<close> over the other sketch's registers, from position \<open>i\<close> on.\<close>

fun merge_registers :: "8 word list \<Rightarrow> nat \<Rightarrow> 8 word list \<Rightarrow> 8 word list" where
  "merge_registers rs i [] = rs"
| "merge_registers rs i (r # others) =
     merge_registers (if r > rs ! i then rs[i := r] else rs) (Suc i) others"

definition merge_sketch :: "sketch \<Rightarrow> sketch \<Rightarrow> sketch result" where
  "merge_sketch s other =
     (if length (registers other) \<noteq> length (registers s)
      then Inl (Errorf ''hll: merge: register count mismatch'')
      else Inr (s\<lparr>registers := merge_registers (registers s) 0 (registers other)\<rparr>))"

definition marshal_sketch :: "sketch \<Rightarrow> 8 word list" where
  "marshal_sketch s = registers s"

definition unmarshal_sketch :: "8 word list \<Rightarrow> sketch result" where
  "unmarshal_sketch b =
     (if length b \<noteq> registerCount then Inl (Errorf ''hll: unmarshal: wrong length'')
      else Inr \<lparr>registers = b\<rparr>)"

definition wf_sketch :: "sketch \<Rightarrow> bool" where
  "wf_sketch s \<longleftrightarrow> length (registers s) = registerCount"

section \<open>Registers pointwise\<close>

lemma register_index_bound: "register_index h < registerCount"
proof -
  have "h AND (of_nat registerCount - 1) \<le> (of_nat registerCount - 1 :: 64 word)"
    by (rule word_and_le1)
  then have "unat (h AND (of_nat registerCount - 1)) \<le> unat (of_nat registerCount - 1 :: 64 word)"
    by (simp add: word_le_nat_alt)
  then show ?thesis by (simp add: register_index_def registerCount_def)
qed

lemma add_hash_eq:
  "add_hash s h = s\<lparr>registers := (registers s)
     [register_index h := max (registers s ! register_index h) (register_rank h)]\<rparr>"
  by (auto simp: add_hash_def Let_def max_def not_less)

lemma add_hash_nth:
  "i < length (registers s) \<Longrightarrow> registers (add_hash s h) ! i =
     (if i = register_index h then max (registers s ! i) (register_rank h) else registers s ! i)"
  by (auto simp: add_hash_eq)

lemma merge_registers_length [simp]: "length (merge_registers rs i os) = length rs"
  by (induction rs i os rule: merge_registers.induct) auto

lemma merge_registers_nth:
  "i + length os \<le> length rs \<Longrightarrow> j < length rs \<Longrightarrow>
     merge_registers rs i os ! j =
       (if i \<le> j \<and> j < i + length os then max (rs ! j) (os ! (j - i)) else rs ! j)"
proof (induction rs i os rule: merge_registers.induct)
  case (1 rs i)
  then show ?case by auto
next
  case (2 rs i r os)
  let ?rs = "if r > rs ! i then rs[i := r] else rs"
  have "merge_registers rs i (r # os) ! j =
      (if Suc i \<le> j \<and> j < Suc i + length os then max (?rs ! j) (os ! (j - Suc i)) else ?rs ! j)"
    using 2 by auto
  also have "\<dots> = (if i \<le> j \<and> j < i + length (r # os) then max (rs ! j) ((r # os) ! (j - i)) else rs ! j)"
    using 2(2) by (cases "i = j") (auto simp: max_def not_less)
  finally show ?case .
qed

lemma merge_sketch_registers:
  assumes "length (registers u) = length (registers s)"
  shows "merge_sketch s u = Inr (s\<lparr>registers := map2 max (registers s) (registers u)\<rparr>)"
proof -
  have "merge_registers (registers s) 0 (registers u) = map2 max (registers s) (registers u)"
    using assms by (intro nth_equalityI) (simp_all add: merge_registers_nth)
  then show ?thesis using assms by (simp add: merge_sketch_def)
qed

section \<open>The contract of a mergeable distinct counter\<close>

text \<open>
  The consumer folds identities into stored sketches and the report merges the days of a
  campaign; what they rely on is this interface.
\<close>

locale distinct_counter =
  fixes empty :: 's
    and add :: "'s \<Rightarrow> 'k \<Rightarrow> 's"
    and merge :: "'s \<Rightarrow> 's \<Rightarrow> 's result"
    and wf :: "'s \<Rightarrow> bool"
  assumes wf_empty: "wf empty"
    and wf_add: "wf s \<Longrightarrow> wf (add s k)"
    and add_commute: "add (add s j) k = add (add s k) j"
    and add_idem: "add (add s k) k = add s k"
    and merge_empty: "wf s \<Longrightarrow> merge s empty = Inr s"
    and merge_add: "wf s \<Longrightarrow> wf u \<Longrightarrow> merge s u = Inr m \<Longrightarrow> merge s (add u k) = Inr (add m k)"
begin

lemma wf_foldl: "wf s \<Longrightarrow> wf (foldl add s ks)"
  by (induction ks arbitrary: s) (auto simp: wf_add)

lemma foldl_set: "foldl add s ks = Finite_Set.fold (\<lambda>k s. add s k) s (set ks)"
proof -
  have "comp_fun_idem_on UNIV (\<lambda>k s. add s k)"
    by unfold_locales (auto simp: fun_eq_iff add_commute add_idem)
  from comp_fun_idem_on.fold_set_fold [OF this, of ks s]
  show ?thesis by (simp add: foldl_conv_fold)
qed

lemma foldl_same_set: "set ks = set ls \<Longrightarrow> foldl add s ks = foldl add s ls"
  by (simp add: foldl_set)

lemma merge_foldl: "wf s \<Longrightarrow> merge s (foldl add empty ks) = Inr (foldl add s ks)"
proof (induction ks rule: rev_induct)
  case Nil
  then show ?case by (simp add: merge_empty)
next
  case (snoc k ks)
  then show ?case
    using merge_add [OF snoc.prems wf_foldl [OF wf_empty] snoc.IH [OF snoc.prems], of k] by simp
qed

lemma merge_slices: "merge (foldl add empty ks) (foldl add empty ls) = Inr (foldl add empty (ks @ ls))"
  using merge_foldl [OF wf_foldl [OF wf_empty], of ks ls] by simp

end

lemma wf_new_sketch: "wf_sketch new_sketch"
  by (simp add: wf_sketch_def new_sketch_def)

lemma wf_add_identity: "wf_sketch s \<Longrightarrow> wf_sketch (add_identity s ident)"
  by (simp add: wf_sketch_def add_identity_def add_hash_eq)

lemma sketch_eqI:
  "length (registers s) = length (registers (u :: sketch)) \<Longrightarrow>
     (\<And>i. i < length (registers u) \<Longrightarrow> registers s ! i = registers u ! i) \<Longrightarrow> s = u"
  by (cases s, cases u) (auto intro: nth_equalityI)

lemma add_hash_length [simp]: "length (registers (add_hash s h)) = length (registers s)"
  by (simp add: add_hash_eq)

lemma add_hash_commute: "add_hash (add_hash s g) h = add_hash (add_hash s h) g"
  by (rule sketch_eqI) (auto simp: add_hash_nth max.assoc max.commute max.left_commute)

lemma add_hash_idem: "add_hash (add_hash s h) h = add_hash s h"
  by (rule sketch_eqI) (auto simp: add_hash_nth)

lemma merge_add_hash:
  assumes "wf_sketch s" "wf_sketch u" "merge_sketch s u = Inr m"
  shows "merge_sketch s (add_hash u h) = Inr (add_hash m h)"
proof -
  from assms have len: "length (registers u) = length (registers s)"
    and m: "m = s\<lparr>registers := map2 max (registers s) (registers u)\<rparr>"
    by (simp_all add: wf_sketch_def merge_sketch_registers)
  have idx: "register_index h < length (registers u)"
    using assms(2) register_index_bound [of h] by (simp add: wf_sketch_def)
  have "s\<lparr>registers := map2 max (registers s) (registers (add_hash u h))\<rparr> = add_hash m h"
    by (rule sketch_eqI)
      (use len idx in \<open>auto simp: add_hash_nth m max.assoc\<close>)
  with len show ?thesis by (simp add: merge_sketch_registers)
qed

lemma merge_new: "wf_sketch s \<Longrightarrow> merge_sketch s new_sketch = Inr s"
proof -
  assume wf: "wf_sketch s"
  then have "s\<lparr>registers := map2 max (registers s) (registers new_sketch)\<rparr> = s"
    by (intro sketch_eqI) (simp_all add: wf_sketch_def new_sketch_def max_def)
  with wf show ?thesis by (simp add: merge_sketch_registers wf_sketch_def new_sketch_def)
qed

interpretation reach: distinct_counter new_sketch add_identity merge_sketch wf_sketch
proof unfold_locales
  show "wf_sketch new_sketch" by (rule wf_new_sketch)
  show "wf_sketch (add_identity s k)" if "wf_sketch s" for s k
    using that by (rule wf_add_identity)
  show "add_identity (add_identity s j) k = add_identity (add_identity s k) j" for s j k
    by (simp add: add_identity_def add_hash_commute)
  show "add_identity (add_identity s k) k = add_identity s k" for s k
    by (simp add: add_identity_def add_hash_idem)
  show "merge_sketch s new_sketch = Inr s" if "wf_sketch s" for s
    using that by (rule merge_new)
  show "merge_sketch s (add_identity u k) = Inr (add_identity m k)"
    if "wf_sketch s" "wf_sketch u" "merge_sketch s u = Inr m" for s u m k
    using that by (simp add: add_identity_def merge_add_hash)
qed

section \<open>Properties\<close>

text \<open>
  Merging is union. The sketch of one slice merged with the sketch of another is the
  sketch of the identities of both, whatever their order and however often they repeat,
  so a week's reach needs no rescan of the days.
\<close>

theorem merge_is_union:
  "merge_sketch (foldl add_identity new_sketch ks) (foldl add_identity new_sketch ls)
     = Inr (foldl add_identity new_sketch (ks @ ls))
   \<and> (set ks = set ls \<longrightarrow> foldl add_identity new_sketch ks = foldl add_identity new_sketch ls)"
  using reach.merge_slices reach.foldl_same_set by blast

theorem merge_is_union_witness:
  "foldl add_identity new_sketch [''c1'', ''c2''] = foldl add_identity new_sketch [''c2'', ''c1'', ''c2'']"
proof -
  have "set [''c1'', ''c2''] = set [''c2'', ''c1'', ''c2'']" by auto
  then show ?thesis using merge_is_union [of "[''c1'', ''c2'']" "[''c2'', ''c1'', ''c2'']"] by blast
qed

text \<open>
  The stored form of a sketch reads back as the sketch, for every sketch the program
  builds: each operation keeps the register count that \<^verbatim>\<open>Unmarshal\<close> requires, and no other
  length is accepted.
\<close>

theorem sketch_roundtrip:
  "unmarshal_sketch (marshal_sketch (foldl add_identity new_sketch ks))
     = Inr (foldl add_identity new_sketch ks)
   \<and> (is_ok (unmarshal_sketch b) \<longleftrightarrow> length b = registerCount)"
  using reach.wf_foldl [OF wf_new_sketch, of ks]
  by (simp add: marshal_sketch_def unmarshal_sketch_def wf_sketch_def)

end
