(* ===== verification/Base64.thy ===== *)
theory Base64
  imports Text
begin

text \<open>
  \<^verbatim>\<open>base64.RawURLEncoding\<close>, the encoding of the delivery cursor and of the device
  token: three bytes become four characters of the URL-safe alphabet, without padding.
  Decoding skips line breaks, refuses any other foreign character and a lone trailing
  character, and does not check the unused low bits of the last one.
\<close>

fun sextets :: "nat list \<Rightarrow> nat list" where
  "sextets (a # b # c # bs) =
     (a div 4) # (a mod 4 * 16 + b div 16) # (b mod 16 * 4 + c div 64) # (c mod 64) # sextets bs"
| "sextets [a, b] = [a div 4, a mod 4 * 16 + b div 16, b mod 16 * 4]"
| "sextets [a] = [a div 4, a mod 4 * 16]"
| "sextets [] = []"

fun octets :: "nat list \<Rightarrow> nat list option" where
  "octets (p # q # r # s # vs) =
     map_option (\<lambda>bs. (p * 4 + q div 16) # (q mod 16 * 16 + r div 4) # (r mod 4 * 64 + s) # bs) (octets vs)"
| "octets [p, q, r] = Some [p * 4 + q div 16, q mod 16 * 16 + r div 4]"
| "octets [p, q] = Some [p * 4 + q div 16]"
| "octets [p] = None"
| "octets [] = Some []"

definition b64_char :: "nat \<Rightarrow> char" where
  "b64_char v =
     (if v < 26 then char_of (65 + v) else if v < 52 then char_of (71 + v)
      else if v < 62 then char_of (v - 4) else if v = 62 then CHR ''-'' else CHR ''_'')"

definition b64_val :: "char \<Rightarrow> nat option" where
  "b64_val c =
     (let n = (of_char c :: nat) in
      if 65 \<le> n \<and> n \<le> 90 then Some (n - 65)
      else if 97 \<le> n \<and> n \<le> 122 then Some (n - 71)
      else if 48 \<le> n \<and> n \<le> 57 then Some (n + 4)
      else if c = CHR ''-'' then Some 62
      else if c = CHR ''_'' then Some 63 else None)"

definition b64_encode :: "string \<Rightarrow> string" where
  "b64_encode s = map b64_char (sextets (map of_char s))"

definition b64_decode :: "string \<Rightarrow> string option" where
  "b64_decode s =
     (let cs = filter (\<lambda>c. c \<noteq> CHR 0x0A \<and> c \<noteq> CHR 0x0D) s; vs = map b64_val cs
      in if None \<in> set vs then None else map_option (map char_of) (octets (map the vs)))"

lemma sextets_bound: "\<forall>b \<in> set bs. b < 256 \<Longrightarrow> v \<in> set (sextets bs) \<Longrightarrow> v < 64"
proof (induction bs rule: sextets.induct)
  case (1 a b c bs)
  then show ?case by auto
qed auto

lemma byte_split:
  assumes "(a :: nat) < 256" "b < 256" "c < 256"
  shows "a div 4 * 4 + (a mod 4 * 16 + b div 16) div 16 = a"
    and "(a mod 4 * 16 + b div 16) mod 16 * 16 + (b mod 16 * 4 + c div 64) div 4 = b"
    and "(b mod 16 * 4 + c div 64) mod 4 * 64 + c mod 64 = c"
proof -
  have "b div 16 < 16" "c div 64 < 4" using assms by auto
  then show "a div 4 * 4 + (a mod 4 * 16 + b div 16) div 16 = a"
    "(a mod 4 * 16 + b div 16) mod 16 * 16 + (b mod 16 * 4 + c div 64) div 4 = b"
    "(b mod 16 * 4 + c div 64) mod 4 * 64 + c mod 64 = c"
    by (simp_all add: div_mult_mod_eq) 
qed

lemma octets_sextets: "\<forall>b \<in> set bs. b < 256 \<Longrightarrow> octets (sextets bs) = Some bs"
proof (induction bs rule: sextets.induct)
  case (1 a b c bs)
  then show ?case using byte_split [of a b c] by simp
next
  case (2 a b)
  then show ?case using byte_split [of a b 0] by simp
next
  case (3 a)
  then show ?case using byte_split [of a 0 0] by simp
qed simp

lemma b64_val_char: "v < 64 \<Longrightarrow> b64_val (b64_char v) = Some v"
  by (auto simp: b64_char_def b64_val_def Let_def) 

lemma b64_char_no_break: "v < 64 \<Longrightarrow> b64_char v \<noteq> CHR 0x0A \<and> b64_char v \<noteq> CHR 0x0D"
  using b64_val_char [of v] by (auto simp: b64_val_def)

theorem b64_roundtrip: "b64_decode (b64_encode s) = Some s"
proof -
  let ?vs = "sextets (map of_char s)"
  have bytes: "\<forall>b \<in> set (map of_char s :: nat list). b < 256" by auto
  then have small: "\<And>v. v \<in> set ?vs \<Longrightarrow> v < 64" using sextets_bound by blast
  have filt: "filter (\<lambda>c. c \<noteq> CHR 0x0A \<and> c \<noteq> CHR 0x0D) (b64_encode s) = b64_encode s"
    using b64_char_no_break small by (auto simp: b64_encode_def filter_id_conv)
  have vals: "map b64_val (b64_encode s) = map Some ?vs"
    using b64_val_char small by (auto simp: b64_encode_def)
  then have "b64_val ` set (b64_encode s) = Some ` set ?vs" by (metis list.set_map)
  then have none: "None \<notin> b64_val ` set (b64_encode s)" by auto
  show ?thesis
    by (simp add: b64_decode_def filt vals none o_def octets_sextets [OF bytes] Let_def)
qed

lemma b64_encode_chars: "c \<in> set (b64_encode s) \<Longrightarrow> \<exists>v < 64. c = b64_char v"
  using sextets_bound [of "map of_char s"] by (auto simp: b64_encode_def)

lemma b64_encode_no_dot: "CHR ''.'' \<notin> set (b64_encode s)"
proof
  assume "CHR ''.'' \<in> set (b64_encode s)"
  then obtain v where "v < 64" "CHR ''.'' = b64_char v" using b64_encode_chars by blast
  with b64_val_char [of v] have "b64_val (CHR ''.'') = Some v" by simp
  then show False by (simp add: b64_val_def)
qed

lemma b64_encode_inject: "b64_encode s = b64_encode t \<longleftrightarrow> s = t"
  by (metis b64_roundtrip option.inject)

lemma b64_encode_Nil [simp]: "b64_encode s = [] \<longleftrightarrow> s = []"
  by (metis b64_encode_def b64_encode_inject list.map(1) sextets.simps(4))

end
