(* ===== verification/Cursor.thy ===== *)
theory Cursor
  imports Base64 Fnv
begin

text \<open>
  \<^verbatim>\<open>internal/delivery/cursor\<close>: the version cursor of delta synchronization, rendered as an
  opaque string and parsed back. A cursor the server issues decodes to itself, so an
  honest device is never pushed to a full payload by the encoding; whatever else a
  device sends either decodes to a cursor in range or is not honoured.
\<close>

record cursor =
  seq :: int
  membership_hash :: string
  issued_at :: time

definition version :: string where "version = ''v1''"

definition encode_cursor :: "cursor \<Rightarrow> string" where
  "encode_cursor c =
     b64_encode (version @ '':'' @ dec_of_int (seq c) @ '':'' @ membership_hash c @ '':''
       @ dec_of_int (unix_nano (issued_at c)))"

definition decode_cursor :: "string \<Rightarrow> cursor option" where
  "decode_cursor s =
     (if s = [] then None
      else case b64_decode s of
        None \<Rightarrow> None
      | Some raw \<Rightarrow>
          (case split_cuts (CHR '':'') 3 raw of
             [ver, seqPart, hash, nanosPart] \<Rightarrow>
               if ver \<noteq> version then None
               else (case parse_int64 seqPart of
                  None \<Rightarrow> None
                | Some sq \<Rightarrow>
                    (case parse_int64 nanosPart of
                       None \<Rightarrow> None
                     | Some nanos \<Rightarrow>
                         Some \<lparr>seq = sq, membership_hash = hash, issued_at = nanos\<rparr>))
           | _ \<Rightarrow> None))"

lemma split_cursor_text:
  assumes "CHR '':'' \<notin> set h"
  shows "split_cuts (CHR '':'') 3
      (version @ CHR '':'' # dec_of_int a @ CHR '':'' # h @ CHR '':'' # dec_of_int b)
    = [version, dec_of_int a, h, dec_of_int b]"
proof -
  have v: "CHR '':'' \<notin> set version" by (simp add: version_def)
  show ?thesis
    by (simp add: eval_nat_numeral split_cuts_append [OF v] split_cuts_append [OF dec_of_int_no_colon]
        split_cuts_append [OF assms])
qed

lemma encode_cursor_nonempty: "encode_cursor c \<noteq> []"
  by (simp add: encode_cursor_def version_def)

lemma cursor_reencode:
  assumes "min_int64 \<le> seq c" "seq c \<le> max_int64" "CHR '':'' \<notin> set (membership_hash c)"
    and "min_int64 \<le> issued_at c" "issued_at c \<le> max_int64"
  shows "decode_cursor (encode_cursor c) = Some c"
proof -
  have nano: "unix_nano (issued_at c) = issued_at c"
    using assms(4,5) by (simp add: unix_nano_def wrap64_id)
  show ?thesis
    using encode_cursor_nonempty [of c] assms
    by (simp add: decode_cursor_def encode_cursor_def b64_roundtrip split_cursor_text
        parse_int64_dec nano)
qed

text \<open>
  A cursor the server issues decodes to itself, for every 64-bit sequence number,
  every membership hash without a colon and every instant of the 64-bit nanosecond range.
\<close>

theorem cursor_roundtrip:
  assumes "min_int64 \<le> seq c" "seq c \<le> max_int64" "CHR '':'' \<notin> set (membership_hash c)"
    and "min_int64 \<le> issued_at c" "issued_at c \<le> max_int64"
  shows "decode_cursor (encode_cursor c) = Some c"
  using assms by (rule cursor_reencode)

theorem cursor_roundtrip_witness:
  "decode_cursor (encode_cursor \<lparr>seq = 7, membership_hash = hex_of_nat (unat (fnv64a ''bm'')),
      issued_at = 1700000000000000000\<rparr>)
     = Some \<lparr>seq = 7, membership_hash = hex_of_nat (unat (fnv64a ''bm'')), issued_at = 1700000000000000000\<rparr>"
  by (rule cursor_roundtrip) (simp_all add: min_int64_def max_int64_def hex_of_nat_no_colon)

text \<open>
  Whatever a device sends, a decoded cursor carries 64-bit numbers and a hash without
  a colon, and came from a non-empty string whose decoded text starts with this version;
  everything else is not honoured instead of being misread.
\<close>

theorem decode_cursor_sound:
  assumes "decode_cursor s = Some c"
  shows "s \<noteq> [] \<and> min_int64 \<le> seq c \<and> seq c \<le> max_int64
    \<and> min_int64 \<le> issued_at c \<and> issued_at c \<le> max_int64
    \<and> (\<exists>raw rest. b64_decode s = Some raw \<and> raw = version @ '':'' @ rest)
    \<and> decode_cursor (encode_cursor c) = Some c"
proof -
  from assms obtain raw sp np where s: "s \<noteq> []" and raw: "b64_decode s = Some raw"
    and parts: "split_cuts (CHR '':'') 3 raw = [version, sp, membership_hash c, np]"
    and nums: "parse_int64 sp = Some (seq c)" "parse_int64 np = Some (issued_at c)"
    by (auto simp: decode_cursor_def split: if_splits option.splits list.splits)
  from parts have "split_cuts (CHR '':'') (Suc 2) raw = [version, sp, membership_hash c, np]"
    by (simp add: eval_nat_numeral)
  from split_cuts_first [OF this] obtain rest where rest: "raw = version @ CHR '':'' # rest"
    "split_cuts (CHR '':'') (Suc 1) rest = [sp, membership_hash c, np]"
    by (auto simp: eval_nat_numeral)
  from split_cuts_first [OF rest(2)] obtain rest' where
    "split_cuts (CHR '':'') (Suc 0) rest' = [membership_hash c, np]" by auto
  from split_cuts_first [OF this] have "CHR '':'' \<notin> set (membership_hash c)" by auto
  with s raw rest(1) parse_int64_range [OF nums(1)] parse_int64_range [OF nums(2)]
  show ?thesis by (auto intro: cursor_reencode)
qed

theorem decode_cursor_sound_witness:
  "decode_cursor (encode_cursor \<lparr>seq = 7, membership_hash = ''ab'', issued_at = 5\<rparr>)
     = Some \<lparr>seq = 7, membership_hash = ''ab'', issued_at = 5\<rparr>
   \<and> encode_cursor \<lparr>seq = 7, membership_hash = ''ab'', issued_at = 5\<rparr> \<noteq> []"
proof -
  have d: "decode_cursor (encode_cursor \<lparr>seq = 7, membership_hash = ''ab'', issued_at = 5\<rparr>)
      = Some \<lparr>seq = 7, membership_hash = ''ab'', issued_at = 5\<rparr>"
    by (rule cursor_reencode) (simp_all add: min_int64_def max_int64_def)
  from decode_cursor_sound [OF d] d show ?thesis by blast
qed

end
