(* ===== verification/Float64.thy ===== *)
theory Float64
  imports Prelude Complex_Main "HOL-Library.Log_Nat"
begin

text \<open>
  The finite floating-point numbers of the program. A \<^verbatim>\<open>float64\<close> is the rational number
  it denotes, and \<open>fl\<close> is the rounding every arithmetic operation of IEEE 754
  binary64 applies to its exact result: to 53 significant bits, ties to even. The same
  rounding to 14 decimal digits is what Lua's \<^verbatim>\<open>tostring\<close> (format \<^verbatim>\<open>%.14g\<close>) prints.
  Overflow, subnormal results, infinities and NaN are outside the model: the program's
  quantities (bucket counts, fractions of a window, percentages) stay far from them.
\<close>

section \<open>Rounding to a number of significant digits\<close>

definition round_half_even :: "rat \<Rightarrow> int" where
  "round_half_even x =
     (let n = \<lfloor>x\<rfloor>; r = x - of_int n
      in if r < 1 / 2 then n else if 1 / 2 < r then n + 1 else if even n then n else n + 1)"

text \<open>The exponent \<open>e\<close> with \<open>b\<^sup>e \<le> x < b\<^sup>e\<^sup>+\<^sup>1\<close> of a positive \<open>x\<close>.\<close>

definition expo :: "nat \<Rightarrow> rat \<Rightarrow> int" where
  "expo b x =
     (if 1 \<le> x then int (floorlog b (nat \<lfloor>x\<rfloor>)) - 1
      else - int (floorlog b (nat (\<lceil>1 / x\<rceil> - 1))))"

definition round_sig :: "nat \<Rightarrow> nat \<Rightarrow> rat \<Rightarrow> rat" where
  "round_sig b p x =
     (if x = 0 then 0
      else let s = of_nat b powi (int p - 1 - expo b \<bar>x\<bar>)
           in of_int (round_half_even (x * s)) / s)"

definition fl :: "rat \<Rightarrow> rat" where
  "fl x = round_sig 2 53 x"

definition lua_tostring :: "rat \<Rightarrow> rat" where
  "lua_tostring x = round_sig 10 14 x"

section \<open>Conversions\<close>

text \<open>\<^verbatim>\<open>math.Round\<close>: to the nearest integer, halves away from zero. \<^verbatim>\<open>int(x)\<close> truncates.\<close>

definition math_round :: "rat \<Rightarrow> int" where
  "math_round x = (if 0 \<le> x then \<lfloor>x + 1 / 2\<rfloor> else - \<lfloor>1 / 2 - x\<rfloor>)"

definition trunc :: "rat \<Rightarrow> int" where
  "trunc x = (if 0 \<le> x then \<lfloor>x\<rfloor> else - \<lfloor>- x\<rfloor>)"

text \<open>\<^verbatim>\<open>Duration.Seconds\<close>, and its conversion back to an integer.\<close>

definition seconds :: "duration \<Rightarrow> rat" where
  "seconds d = fl (fl (of_int (d sdiv second)) + fl (of_int (d smod second) / 1000000000))"

definition whole_seconds :: "duration \<Rightarrow> int" where
  "whole_seconds d = trunc (seconds d)"

section \<open>Error bounds\<close>

lemma round_half_even_int [simp]: "round_half_even (of_int n) = n"
  by (simp add: round_half_even_def)

lemma round_half_even_error: "\<bar>of_int (round_half_even x) - x\<bar> \<le> 1 / 2"
proof -
  define n where "n = \<lfloor>x\<rfloor>"
  have n: "of_int n \<le> x" "x < of_int n + 1" unfolding n_def by linarith+
  consider "x - of_int n < 1 / 2" | "1 / 2 < x - of_int n" | "x - of_int n = 1 / 2" by linarith
  then show ?thesis
  proof cases
    case 1
    with n show ?thesis by (simp add: round_half_even_def n_def [symmetric] abs_le_iff)
  next
    case 2
    with n show ?thesis by (simp add: round_half_even_def n_def [symmetric] abs_le_iff)
  next
    case 3
    then show ?thesis
      unfolding round_half_even_def Let_def n_def [symmetric] by (simp add: abs_le_iff)
  qed
qed

lemma floorlog_le:
  assumes "1 < b" "0 < n" shows "b ^ (floorlog b n - 1) \<le> n"
  using floorlog_bounds [OF assms(2) assms(1)] by blast

lemma floorlog_gt: "1 < b \<Longrightarrow> n < b ^ floorlog b n"
  by (cases "n = 0") (use floorlog_bounds [of n b] in auto)

lemma floorlog_pos: "1 < b \<Longrightarrow> 0 < n \<Longrightarrow> 0 < floorlog b n"
  by (simp add: floorlog_def)

lemma expo_le:
  assumes b: "1 < b" and x: "0 < x"
  shows "of_nat b powi expo b x \<le> x"
proof (cases "1 \<le> x")
  case True
  let ?n = "nat \<lfloor>x\<rfloor>"
  have n: "0 < ?n" using True by simp
  have "(of_nat b :: rat) powi expo b x = of_nat (b ^ (floorlog b ?n - 1))"
    using floorlog_pos [OF b n] True
    by (simp add: expo_def power_int_def nat_diff_distrib)
  also have "\<dots> \<le> of_nat ?n"
    using floorlog_le [OF b n] by (rule of_nat_mono)
  also have "\<dots> \<le> x" using True by simp
  finally show ?thesis .
next
  case False
  define n where "n = nat (\<lceil>1 / x\<rceil> - 1)"
  have "1 / x \<le> of_int \<lceil>1 / x\<rceil>" by simp
  also have "\<lceil>1 / x\<rceil> \<le> int n + 1" unfolding n_def by linarith
  then have "of_int \<lceil>1 / x\<rceil> \<le> (of_int (int n + 1) :: rat)" using of_int_le_iff by blast
  also have "of_int (int n + 1) = (of_nat (n + 1) :: rat)" by simp
  also have "(of_nat (n + 1) :: rat) \<le> of_nat (b ^ floorlog b n)"
    using floorlog_gt [OF b, of n] by (intro of_nat_mono) simp
  finally have le: "1 / x \<le> of_nat b ^ floorlog b n" by simp
  have pos: "0 < (of_nat b :: rat) ^ floorlog b n" using b by simp
  have "(of_nat b :: rat) powi expo b x = inverse (of_nat b ^ floorlog b n)"
    using False by (simp add: expo_def n_def power_int_minus)
  also have "\<dots> \<le> x"
    using le pos x by (simp add: field_simps)
  finally show ?thesis .
qed

lemma round_sig_error:
  assumes b: "1 < b"
  shows "\<bar>round_sig b p x - x\<bar> \<le> \<bar>x\<bar> * of_nat b powi (1 - int p) / 2"
proof (cases "x = 0")
  case True
  then show ?thesis by (simp add: round_sig_def)
next
  case False
  let ?e = "expo b \<bar>x\<bar>" and ?B = "of_nat b :: rat"
  let ?s = "?B powi (int p - 1 - ?e)"
  have B: "0 < ?B" using b by simp
  then have s: "0 < ?s" by simp
  have "round_sig b p x - x = (of_int (round_half_even (x * ?s)) - x * ?s) / ?s"
    using False s b by (simp add: round_sig_def Let_def diff_divide_distrib)
  then have "\<bar>round_sig b p x - x\<bar> = \<bar>of_int (round_half_even (x * ?s)) - x * ?s\<bar> / ?s"
    using s by (simp add: abs_divide)
  also have "\<dots> \<le> (1 / 2) / ?s"
    by (rule divide_right_mono [OF round_half_even_error]) (use s in simp)
  also have "1 / ?s = ?B powi ?e * ?B powi (1 - int p)"
    using B by (simp add: power_int_add [symmetric] power_int_minus [symmetric] inverse_eq_divide [symmetric]
        algebra_simps)
  then have "(1 / 2) / ?s = ?B powi ?e * ?B powi (1 - int p) / 2" by simp
  also have "\<dots> \<le> \<bar>x\<bar> * ?B powi (1 - int p) / 2"
    using expo_le [OF b, of "\<bar>x\<bar>"] False B by (simp add: mult_right_mono)
  finally show ?thesis .
qed

lemma fl_error: "\<bar>fl x - x\<bar> \<le> \<bar>x\<bar> / 9007199254740992"
  using round_sig_error [of 2 53 x] by (simp add: fl_def power_int_def field_simps)

lemma fl_zero [simp]: "fl 0 = 0"
  by (simp add: fl_def round_sig_def)

lemma expo_int_le:
  assumes "0 < n" "n < 2 ^ k"
  shows "expo 2 (of_nat n) < int k"
proof -
  have "1 \<le> (of_nat n :: rat)" using assms by simp
  then have e: "expo 2 (of_nat n) = int (floorlog 2 n) - 1" by (simp add: expo_def)
  have "2 ^ (floorlog 2 n - 1) \<le> n" by (rule floorlog_le) (use assms in auto)
  with assms(2) have "(2::nat) ^ (floorlog 2 n - 1) < 2 ^ k" by linarith
  then have "floorlog 2 n - 1 < k" by simp
  with e floorlog_pos [of 2 n] assms(1) show ?thesis by linarith
qed

text \<open>Integers below \<open>2\<^sup>5\<^sup>3\<close> are exact.\<close>

lemma fl_int: 
  assumes "\<bar>n\<bar> < 2 ^ 53"
  shows "fl (of_int n) = of_int n"
proof (cases "n = 0")
  case True
  then show ?thesis by simp
next
  case False
  define k where "k = nat \<bar>n\<bar>"
  have abs: "\<bar>of_int n :: rat\<bar> = of_nat k" by (simp add: k_def)
  have k: "0 < k" "k < 2 ^ 53" using assms False by (auto simp: k_def)
  have "expo 2 (of_nat k) < int 53" by (rule expo_int_le [OF k])
  then have le: "0 \<le> int 53 - 1 - expo 2 \<bar>of_int n\<bar>" unfolding abs by linarith
  define m where "m = nat (int 53 - 1 - expo 2 \<bar>of_int n :: rat\<bar>)"
  have s: "(of_nat 2 :: rat) powi (int 53 - 1 - expo 2 \<bar>of_int n\<bar>) = of_int (2 ^ m)"
    using le by (simp add: power_int_def m_def)
  have "fl (of_int n) = of_int (round_half_even (of_int (n * 2 ^ m))) / of_int (2 ^ m)"
    using False by (simp only: fl_def round_sig_def s Let_def of_int_eq_0_iff if_False of_int_mult)
  also have "\<dots> = of_int (n * 2 ^ m) / of_int (2 ^ m)"
    by (simp only: round_half_even_int)
  finally show ?thesis by simp
qed

lemma fl_of_nat: "n < 2 ^ 53 \<Longrightarrow> fl (of_nat n) = of_nat n"
  using fl_int [of "int n"] by simp

lemma trunc_int [simp]: "trunc (of_int n) = n"
  by (simp add: trunc_def)

lemma trunc_floor: "0 \<le> x \<Longrightarrow> trunc x = \<lfloor>x\<rfloor>"
  by (simp add: trunc_def)

text \<open>A duration of whole seconds converts exactly.\<close>

lemma whole_seconds_exact:
  assumes "0 \<le> k" "k < 2 ^ 53"
  shows "whole_seconds (k * second) = k"
proof -
  have "(k * second) sdiv second = k" "(k * second) smod second = 0"
    using assms by (simp_all add: signed_divide_int_def signed_modulo_int_def second_def sgn_mult sgn_if)
  with assms show ?thesis
    by (simp add: whole_seconds_def seconds_def fl_int)
qed

end
