(* ===== verification/Json.thy ===== *)
theory Json
  imports Float64 Text
begin

text \<open>
  What the code relies on in \<^verbatim>\<open>encoding/json\<close>, at the level of value trees: a document is a
  tree, an object a list of its members in the order they are written, and decoding an
  object into a struct goes through the members one by one, as the library does. The text
  of a document is not modelled. A Go map with string keys is kept as an association list
  sorted by key, which is the order the library writes it in.
\<close>

section \<open>Maps with string keys, kept sorted\<close>

type_synonym 'v go_map = "(string \<times> 'v) list"

fun put :: "string \<Rightarrow> 'v \<Rightarrow> 'v go_map \<Rightarrow> 'v go_map" where
  "put k v [] = [(k, v)]"
| "put k v ((k', v') # m) =
     (if k < k' then (k, v) # (k', v') # m
      else if k = k' then (k, v) # m
      else (k', v') # put k v m)"

definition put_all :: "(string \<times> 'v) list \<Rightarrow> 'v go_map \<Rightarrow> 'v go_map" where
  "put_all kvs m = fold (\<lambda>(k, v). put k v) kvs m"

definition canonical :: "'v go_map \<Rightarrow> bool" where
  "canonical m = sorted_wrt (<) (map fst m)"

lemma map_of_put [simp]: "map_of (put k v m) = (map_of m)(k \<mapsto> v)"
  by (induction k v m rule: put.induct) auto

lemma keys_put [simp]: "fst ` set (put k v m) = insert k (fst ` set m)"
  by (induction k v m rule: put.induct) auto

lemma canonical_put [intro]: "canonical m \<Longrightarrow> canonical (put k v m)"
proof (induction k v m rule: put.induct)
  case (2 k v k' v' m)
  have "\<forall>x \<in> set (map fst (put k v m)). x = k \<or> x \<in> set (map fst m)"
    using keys_put [of k v m] by auto
  with 2 show ?case by (fastforce simp: canonical_def)
qed (simp add: canonical_def)

lemma put_append: "\<forall>k' \<in> fst ` set m. k' < k \<Longrightarrow> put k v m = m @ [(k, v)]"
proof (induction k v m rule: put.induct)
  case (2 k v k' v' m)
  then have "k' < k" by simp
  then have "\<not> k < k'" "k \<noteq> k'" by auto
  with 2 show ?case by simp
qed simp

lemma put_all_append: "canonical (m @ kvs) \<Longrightarrow> put_all kvs m = m @ kvs"
proof (induction kvs arbitrary: m)
  case Nil
  then show ?case by (simp add: put_all_def)
next
  case (Cons kv kvs)
  obtain k v where kv: "kv = (k, v)" by (cases kv)
  have "put k v m = m @ [(k, v)]"
    using Cons.prems kv by (intro put_append) (auto simp: canonical_def sorted_wrt_append)
  with Cons.IH [of "m @ [(k, v)]"] Cons.prems kv show ?case by (simp add: put_all_def)
qed

lemma put_all_id: "canonical kvs \<Longrightarrow> put_all kvs [] = kvs"
  using put_all_append [of "[]" kvs] by simp

lemma map_of_put_all: "map_of (put_all kvs m) = map_of m ++ map_of (rev kvs)"
  by (induction kvs arbitrary: m) (auto simp: put_all_def map_add_def fun_eq_iff split: option.splits)

section \<open>Documents\<close>

datatype json =
    JNull
  | JBool bool
  | JInt int
  | JDec rat
  | JStr string
  | JList "json list"
  | JObj "(string \<times> json) list"

text \<open>A float64 is written as an integer literal when it is one of moderate size.\<close>

definition json_of_float :: "rat \<Rightarrow> json" where
  "json_of_float f =
     (if of_int \<lfloor>f\<rfloor> = f \<and> \<bar>f\<bar> < 10 ^ 21 then JInt \<lfloor>f\<rfloor> else JDec f)"

definition type_error :: "'a result" where
  "type_error = Inl (Errorf ''json: cannot unmarshal'')"

lemma type_error_not_ok [simp]: "type_error \<noteq> Inr x"
  by (simp add: type_error_def)

text \<open>
  Decoding into an existing value: \<^term>\<open>JNull\<close> leaves a scalar as it is and empties a map, a
  slice or a pointer.
\<close>

fun dec_str :: "json \<Rightarrow> string \<Rightarrow> string result" where
  "dec_str JNull old = Inr old"
| "dec_str (JStr s) old = Inr s"
| "dec_str _ old = type_error"

fun dec_bool :: "json \<Rightarrow> bool \<Rightarrow> bool result" where
  "dec_bool JNull old = Inr old"
| "dec_bool (JBool b) old = Inr b"
| "dec_bool _ old = type_error"

fun dec_int :: "json \<Rightarrow> int \<Rightarrow> int result" where
  "dec_int JNull old = Inr old"
| "dec_int (JInt n) old = (if min_int64 \<le> n \<and> n \<le> max_int64 then Inr n else type_error)"
| "dec_int _ old = type_error"

fun dec_float :: "json \<Rightarrow> rat \<Rightarrow> rat result" where
  "dec_float JNull old = Inr old"
| "dec_float (JInt n) old = Inr (fl (of_int n))"
| "dec_float (JDec r) old = Inr (fl r)"
| "dec_float _ old = type_error"

fun dec_raw_list :: "json \<Rightarrow> json list result" where
  "dec_raw_list JNull = Inr []"
| "dec_raw_list (JList js) = Inr js"
| "dec_raw_list _ = type_error"

fun dec_str_map_members ::
  "(string \<times> json) list \<Rightarrow> string go_map \<Rightarrow> string go_map result" where
  "dec_str_map_members [] m = Inr m"
| "dec_str_map_members ((k, j) # kvs) m =
     res_bind (dec_str j []) (\<lambda>s. dec_str_map_members kvs (put k s m))"

fun dec_str_map :: "json \<Rightarrow> string go_map \<Rightarrow> string go_map result" where
  "dec_str_map JNull old = Inr []"
| "dec_str_map (JObj kvs) old = dec_str_map_members kvs old"
| "dec_str_map _ old = type_error"

fun dec_ptr :: "(json \<Rightarrow> 'a \<Rightarrow> 'a result) \<Rightarrow> 'a \<Rightarrow> json \<Rightarrow> 'a option \<Rightarrow> 'a option result" where
  "dec_ptr dec zero JNull old = Inr None"
| "dec_ptr dec zero j old =
     res_bind (dec j (case old of None \<Rightarrow> zero | Some v \<Rightarrow> v)) (\<lambda>v. Inr (Some v))"

text \<open>
  Decoding into a struct: each member is matched to a field by its name without regard to
  ASCII case, so the field decoder is given the lowered name; a member no field matches is
  ignored.
\<close>

fun dec_members ::
  "(string \<Rightarrow> json \<Rightarrow> 's \<Rightarrow> 's result) \<Rightarrow> (string \<times> json) list \<Rightarrow> 's \<Rightarrow> 's result" where
  "dec_members field [] s = Inr s"
| "dec_members field ((k, j) # kvs) s =
     res_bind (field (to_lower k) j s) (dec_members field kvs)"

fun dec_struct :: "(string \<Rightarrow> json \<Rightarrow> 's \<Rightarrow> 's result) \<Rightarrow> json \<Rightarrow> 's \<Rightarrow> 's result" where
  "dec_struct field JNull s = Inr s"
| "dec_struct field (JObj kvs) s = dec_members field kvs s"
| "dec_struct field _ s = type_error"

lemma dec_members_append:
  "dec_members field (xs @ ys) s = res_bind (dec_members field xs s) (dec_members field ys)"
  by (induction field xs s rule: dec_members.induct) (auto simp: res_bind_def split: sum.splits)

lemma dec_str_map_members_strings:
  "dec_str_map_members (map (\<lambda>(k, v). (k, JStr v)) kvs) m = Inr (put_all kvs m)"
  by (induction kvs arbitrary: m) (auto simp: res_bind_def put_all_def)

lemma dec_float_json [simp]: "fl f = f \<Longrightarrow> dec_float (json_of_float f) old = Inr f"
  by (auto simp: json_of_float_def)

lemma json_of_float_not_null [simp]: "json_of_float f \<noteq> JNull"
  by (simp add: json_of_float_def)

end
