(* ===== verification/DefModel.thy ===== *)
theory DefModel
  imports Json "HOL-Library.Product_Lexorder"
begin

text \<open>
  \<^verbatim>\<open>internal/definition/model\<close>: the campaign-side message, its lifecycle, its triggers,
  display conditions and variants, and the tagged union of content a variant carries, with
  its wire form.
\<close>

section \<open>Lifecycle\<close>

text \<open>\<^verbatim>\<open>MessageState\<close> is a string type; \<^verbatim>\<open>OtherState\<close> stands for every other string.\<close>

datatype message_state =
    StateDraft
  | StateScheduled
  | StateActive
  | StatePaused
  | StateCompleted
  | StateArchived
  | OtherState string

fun forward_message_states :: "message_state \<Rightarrow> message_state list" where
  "forward_message_states StateDraft = [StateDraft, StateScheduled, StateActive, StateArchived]"
| "forward_message_states StateScheduled = [StateScheduled, StateActive, StatePaused, StateArchived]"
| "forward_message_states StateActive = [StateActive, StatePaused, StateCompleted, StateArchived]"
| "forward_message_states StatePaused = [StatePaused, StateActive, StateCompleted, StateArchived]"
| "forward_message_states StateCompleted = [StateCompleted, StateArchived]"
| "forward_message_states StateArchived = [StateArchived]"
| "forward_message_states (OtherState _) = []"

definition can_transition :: "message_state \<Rightarrow> message_state \<Rightarrow> bool" where
  "can_transition from to = (to \<in> set (forward_message_states from))"

text \<open>
  The order of the list: the six states as they are declared, then the texts that are none of them. A transition moves
  forward in it, with one exception: a paused message may become active again.
\<close>

fun stage :: "message_state \<Rightarrow> nat \<times> string" where
  "stage StateDraft = (0, [])"
| "stage StateScheduled = (1, [])"
| "stage StateActive = (2, [])"
| "stage StatePaused = (3, [])"
| "stage StateCompleted = (4, [])"
| "stage StateArchived = (5, [])"
| "stage (OtherState t) = (6, t)"

lemma stage_inj: "stage s = stage t \<Longrightarrow> s = t"
  by (cases s; cases t) simp_all

instantiation message_state :: linorder
begin

definition less_eq_message_state :: "message_state \<Rightarrow> message_state \<Rightarrow> bool" where
  "less_eq_message_state s t = (stage s \<le> stage t)"

definition less_message_state :: "message_state \<Rightarrow> message_state \<Rightarrow> bool" where
  "less_message_state s t = (stage s < stage t)"

instance
  by standard (auto simp: less_eq_message_state_def less_message_state_def intro: stage_inj)

end

lemma transition_forward: "can_transition s t \<Longrightarrow> s \<le> t \<or> s = StatePaused \<and> t = StateActive"
  by (cases s) (auto simp: can_transition_def less_eq_message_state_def)

lemma transition_back: "can_transition StatePaused StateActive" "StateActive < StatePaused"
  by (simp_all add: can_transition_def less_message_state_def)

lemma transition_after_end: "StateCompleted \<le> s \<Longrightarrow> can_transition s t \<Longrightarrow> StateCompleted \<le> t"
  using transition_forward [of s t] by (auto simp: less_eq_message_state_def)

section \<open>Schema version\<close>

record schema_version =
  major :: int
  minor :: int

definition CurrentMajor :: int where "CurrentMajor = 1"

definition SupportedMajors :: "int list" where "SupportedMajors = [CurrentMajor]"

definition supports_schema_major :: "int \<Rightarrow> bool" where
  "supports_schema_major m = (m \<in> set SupportedMajors)"

definition supports_major :: "schema_version \<Rightarrow> int \<Rightarrow> bool" where
  "supports_major v declaredMajor = (major v = declaredMajor)"

section \<open>Actions and buttons\<close>

datatype action =
    CloseAction
  | OpenLinkAction string
  | NavigateAction string
  | EmitEventAction string "string go_map"
  | SetAttributeAction string string

record action_envelope =
  env_kind :: string
  env_url :: string
  env_destination :: string
  env_event_name :: string
  env_properties :: "string go_map"
  env_key :: string
  env_value :: string

definition empty_envelope :: action_envelope where
  "empty_envelope = \<lparr>env_kind = [], env_url = [], env_destination = [], env_event_name = [],
     env_properties = [], env_key = [], env_value = []\<rparr>"

fun action_kind :: "action \<Rightarrow> string" where
  "action_kind CloseAction = ''close''"
| "action_kind (OpenLinkAction _) = ''open_link''"
| "action_kind (NavigateAction _) = ''navigate''"
| "action_kind (EmitEventAction _ _) = ''emit_event''"
| "action_kind (SetAttributeAction _ _) = ''set_attribute''"

fun action_fields :: "action \<Rightarrow> action_envelope \<Rightarrow> action_envelope" where
  "action_fields CloseAction env = env"
| "action_fields (OpenLinkAction url) env = env\<lparr>env_url := url\<rparr>"
| "action_fields (NavigateAction dest) env = env\<lparr>env_destination := dest\<rparr>"
| "action_fields (EmitEventAction name props) env = env\<lparr>env_event_name := name, env_properties := props\<rparr>"
| "action_fields (SetAttributeAction k v) env = env\<lparr>env_key := k, env_value := v\<rparr>"

definition envelope_json :: "action_envelope \<Rightarrow> json" where
  "envelope_json env = JObj
     ([(''kind'', JStr (env_kind env)),
       (''url'', JStr (env_url env)),
       (''destination'', JStr (env_destination env)),
       (''event_name'', JStr (env_event_name env))]
      @ (if env_properties env = [] then []
         else [(''properties'', JObj (map (\<lambda>(k, v). (k, JStr v)) (env_properties env)))])
      @ [(''key'', JStr (env_key env)), (''value'', JStr (env_value env))])"

definition marshal_action :: "action \<Rightarrow> json" where
  "marshal_action a = envelope_json (action_fields a (empty_envelope\<lparr>env_kind := action_kind a\<rparr>))"

definition envelope_field :: "string \<Rightarrow> json \<Rightarrow> action_envelope \<Rightarrow> action_envelope result" where
  "envelope_field k j env =
     (if k = ''kind'' then res_bind (dec_str j (env_kind env)) (\<lambda>s. Inr (env\<lparr>env_kind := s\<rparr>))
      else if k = ''url'' then res_bind (dec_str j (env_url env)) (\<lambda>s. Inr (env\<lparr>env_url := s\<rparr>))
      else if k = ''destination'' then
        res_bind (dec_str j (env_destination env)) (\<lambda>s. Inr (env\<lparr>env_destination := s\<rparr>))
      else if k = ''event_name'' then
        res_bind (dec_str j (env_event_name env)) (\<lambda>s. Inr (env\<lparr>env_event_name := s\<rparr>))
      else if k = ''properties'' then
        res_bind (dec_str_map j (env_properties env)) (\<lambda>m. Inr (env\<lparr>env_properties := m\<rparr>))
      else if k = ''key'' then res_bind (dec_str j (env_key env)) (\<lambda>s. Inr (env\<lparr>env_key := s\<rparr>))
      else if k = ''value'' then res_bind (dec_str j (env_value env)) (\<lambda>s. Inr (env\<lparr>env_value := s\<rparr>))
      else Inr env)"

definition unmarshal_action :: "json \<Rightarrow> action result" where
  "unmarshal_action data =
     res_bind (wrap_err ''model: decode action'' (dec_struct envelope_field data empty_envelope))
       (\<lambda>env.
          if env_kind env = ''close'' then Inr CloseAction
          else if env_kind env = ''open_link'' then Inr (OpenLinkAction (env_url env))
          else if env_kind env = ''navigate'' then Inr (NavigateAction (env_destination env))
          else if env_kind env = ''emit_event'' then
            Inr (EmitEventAction (env_event_name env) (env_properties env))
          else if env_kind env = ''set_attribute'' then
            Inr (SetAttributeAction (env_key env) (env_value env))
          else Inl (Errorf ''model: unknown action kind''))"

record button =
  label :: string
  actions :: "action list"

record button_wire =
  wire_label :: string
  wire_actions :: "json list"

definition marshal_button :: "button \<Rightarrow> json" where
  "marshal_button b =
     JObj [(''label'', JStr (label b)), (''actions'', JList (map marshal_action (actions b)))]"

definition button_field :: "string \<Rightarrow> json \<Rightarrow> button_wire \<Rightarrow> button_wire result" where
  "button_field k j w =
     (if k = ''label'' then res_bind (dec_str j (wire_label w)) (\<lambda>s. Inr (w\<lparr>wire_label := s\<rparr>))
      else if k = ''actions'' then res_bind (dec_raw_list j) (\<lambda>js. Inr (w\<lparr>wire_actions := js\<rparr>))
      else Inr w)"

definition unmarshal_button :: "json \<Rightarrow> button result" where
  "unmarshal_button data =
     res_bind (wrap_err ''model: decode button''
         (dec_struct button_field data \<lparr>wire_label = [], wire_actions = []\<rparr>))
       (\<lambda>w. res_bind (wrap_err ''model: decode button action'' (map_result unmarshal_action (wire_actions w)))
          (\<lambda>acts. Inr \<lparr>label = wire_label w, actions = acts\<rparr>))"

definition wf_action :: "action \<Rightarrow> bool" where
  "wf_action a = (case a of EmitEventAction _ props \<Rightarrow> canonical props | _ \<Rightarrow> True)"

lemma marshal_action_roundtrip: "wf_action a \<Longrightarrow> unmarshal_action (marshal_action a) = Inr a"
  by (cases a) (auto simp: marshal_action_def unmarshal_action_def envelope_json_def
      envelope_field_def empty_envelope_def wf_action_def lower_char_def
      dec_str_map_members_strings put_all_id)

interpretation action_wire: codec marshal_action unmarshal_action wf_action
  by unfold_locales (rule marshal_action_roundtrip)

interpretation button_wire: codec marshal_button unmarshal_button "\<lambda>b. list_all wf_action (actions b)"
  by unfold_locales
    (simp add: unmarshal_button_def marshal_button_def button_field_def lower_char_def action_wire.slice_dec_enc)

end
