(* ===== verification/Content.thy ===== *)
theory Content
  imports DefModel
begin

text \<open>
  \<^verbatim>\<open>internal/definition/model\<close>, continued: the content a variant carries, its wire form, the
  content column of a variant, and the message entity. Marshalling a content object whose
  sequence steps are dialogs or full screens and decoding it gives it back.
\<close>

section \<open>The tagged union\<close>

record media_ref =
  media_url :: string

record colors =
  background :: string
  text_color :: string

record presentation =
  heading :: string
  body :: string
  media :: "media_ref option"
  buttons :: "button list"
  pres_colors :: colors
  corner_radius :: rat
  auto_close :: "int option"

datatype content =
    DialogContent presentation
  | BannerContent presentation string
  | FullScreenContent presentation
  | HTMLContent string
  | SequenceContent "content list"

fun content_layout :: "content \<Rightarrow> string" where
  "content_layout (DialogContent _) = ''dialog''"
| "content_layout (BannerContent _ _) = ''banner''"
| "content_layout (FullScreenContent _) = ''full_screen''"
| "content_layout (HTMLContent _) = ''html''"
| "content_layout (SequenceContent _) = ''sequence''"

section \<open>Marshalling\<close>

definition presentation_json :: "presentation \<Rightarrow> (string \<times> json) list" where
  "presentation_json p =
     [(''heading'', JStr (heading p)), (''body'', JStr (body p))]
     @ (case media p of None \<Rightarrow> [] | Some m \<Rightarrow> [(''media'', JObj [(''url'', JStr (media_url m))])])
     @ (if buttons p = [] then [] else [(''buttons'', JList (map marshal_button (buttons p)))])
     @ [(''colors'', JObj [(''background'', JStr (background (pres_colors p))),
                           (''text'', JStr (text_color (pres_colors p)))]),
        (''corner_radius'', json_of_float (corner_radius p))]
     @ (case auto_close p of None \<Rightarrow> [] | Some n \<Rightarrow> [(''auto_close_delay_seconds'', JInt n)])"

fun content_body :: "content \<Rightarrow> (string \<times> json) list" where
  "content_body (DialogContent p) = presentation_json p"
| "content_body (BannerContent p e) = presentation_json p @ [(''edge'', JStr e)]"
| "content_body (FullScreenContent p) = presentation_json p"
| "content_body (HTMLContent h) = [(''html'', JStr h)]"
| "content_body (SequenceContent steps) = []"

fun marshal_content :: "content \<Rightarrow> json" where
  "marshal_content (SequenceContent steps) =
     JObj [(''layout'', JStr ''sequence''), (''steps'', JList (map marshal_content steps))]"
| "marshal_content c =
     JObj (put ''layout'' (JStr (content_layout c)) (put_all (content_body c) []))"

section \<open>Decoding\<close>

definition media_field :: "string \<Rightarrow> json \<Rightarrow> media_ref \<Rightarrow> media_ref result" where
  "media_field k j m =
     (if k = ''url'' then res_bind (dec_str j (media_url m)) (\<lambda>s. Inr (m\<lparr>media_url := s\<rparr>)) else Inr m)"

definition colors_field :: "string \<Rightarrow> json \<Rightarrow> colors \<Rightarrow> colors result" where
  "colors_field k j c =
     (if k = ''background'' then
        res_bind (dec_str j (background c)) (\<lambda>s. Inr (c\<lparr>background := s\<rparr>))
      else if k = ''text'' then
        res_bind (dec_str j (text_color c)) (\<lambda>s. Inr (c\<lparr>text_color := s\<rparr>))
      else Inr c)"

definition empty_presentation :: presentation where
  "empty_presentation = \<lparr>heading = [], body = [], media = None, buttons = [],
     pres_colors = \<lparr>background = [], text_color = []\<rparr>, corner_radius = 0, auto_close = None\<rparr>"

definition presentation_field :: "string \<Rightarrow> json \<Rightarrow> presentation \<Rightarrow> presentation result" where
  "presentation_field k j p =
     (if k = ''heading'' then res_bind (dec_str j (heading p)) (\<lambda>s. Inr (p\<lparr>heading := s\<rparr>))
      else if k = ''body'' then res_bind (dec_str j (body p)) (\<lambda>s. Inr (p\<lparr>body := s\<rparr>))
      else if k = ''media'' then
        res_bind (dec_ptr (dec_struct media_field) \<lparr>media_url = []\<rparr> j (media p))
          (\<lambda>m. Inr (p\<lparr>media := m\<rparr>))
      else if k = ''buttons'' then
        res_bind (dec_raw_list j) (\<lambda>js.
          res_bind (map_result unmarshal_button js) (\<lambda>bs. Inr (p\<lparr>buttons := bs\<rparr>)))
      else if k = ''colors'' then
        res_bind (dec_struct colors_field j (pres_colors p)) (\<lambda>c. Inr (p\<lparr>pres_colors := c\<rparr>))
      else if k = ''corner_radius'' then
        res_bind (dec_float j (corner_radius p)) (\<lambda>f. Inr (p\<lparr>corner_radius := f\<rparr>))
      else if k = ''auto_close_delay_seconds'' then
        res_bind (dec_ptr dec_int 0 j (auto_close p)) (\<lambda>n. Inr (p\<lparr>auto_close := n\<rparr>))
      else Inr p)"

definition banner_field :: "string \<Rightarrow> json \<Rightarrow> presentation \<times> string \<Rightarrow> (presentation \<times> string) result" where
  "banner_field k j b =
     (if k = ''edge'' then res_bind (dec_str j (snd b)) (\<lambda>s. Inr (fst b, s))
      else res_bind (presentation_field k j (fst b)) (\<lambda>p. Inr (p, snd b)))"

definition html_field :: "string \<Rightarrow> json \<Rightarrow> string \<Rightarrow> string result" where
  "html_field k j h = (if k = ''html'' then dec_str j h else Inr h)"

definition layout_field :: "string \<Rightarrow> json \<Rightarrow> string \<Rightarrow> string result" where
  "layout_field k j l = (if k = ''layout'' then dec_str j l else Inr l)"

definition layout_sniff :: "json \<Rightarrow> string result" where
  "layout_sniff data = dec_struct layout_field data []"

definition steps_field :: "string \<Rightarrow> json \<Rightarrow> json list \<Rightarrow> json list result" where
  "steps_field k j js = (if k = ''steps'' then dec_raw_list j else Inr js)"

definition sequence_steps :: "json \<Rightarrow> json list result" where
  "sequence_steps data = dec_struct steps_field data []"

lemma dec_raw_list_smaller:
  "dec_raw_list j = Inr js \<Longrightarrow> r \<in> set js \<Longrightarrow> size r < size j"
  by (cases j) (auto simp: less_Suc_eq_le intro: size_list_estimation')

lemma steps_members_smaller:
  "dec_members steps_field kvs js0 = Inr js \<Longrightarrow> r \<in> set js \<Longrightarrow>
     r \<in> set js0 \<or> size r < size_list (size_prod (\<lambda>_. 0) size) kvs"
proof (induction kvs arbitrary: js0)
  case (Cons kv kvs)
  obtain k j where kv: "kv = (k, j)" by (cases kv)
  with Cons.prems(1) obtain js1 where js1: "steps_field (to_lower k) j js0 = Inr js1"
    "dec_members steps_field kvs js1 = Inr js"
    by (auto simp: res_bind_Inr_iff)
  from Cons.IH [OF js1(2) Cons.prems(2)] js1(1) kv show ?case
    by (auto simp: steps_field_def dest: dec_raw_list_smaller split: if_splits)
qed simp

lemma sequence_steps_smaller: "sequence_steps data = Inr js \<Longrightarrow> r \<in> set js \<Longrightarrow> size r < size data"
  by (cases data) (auto simp: sequence_steps_def dest!: steps_members_smaller)

definition check_step :: "content \<Rightarrow> content result" where
  "check_step step =
     (if content_layout step \<noteq> ''dialog'' \<and> content_layout step \<noteq> ''full_screen''
      then Inl (Errorf ''model: sequence step has wrong layout'') else Inr step)"

function unmarshal_content :: "json \<Rightarrow> content result" where
  "unmarshal_content data =
     res_bind (wrap_err ''model: decode content'' (layout_sniff data)) (\<lambda>layout.
       if layout = ''dialog'' then
         wrap_err ''model: decode dialog content''
           (res_bind (dec_struct presentation_field data empty_presentation) (\<lambda>p. Inr (DialogContent p)))
       else if layout = ''banner'' then
         wrap_err ''model: decode banner content''
           (res_bind (dec_struct banner_field data (empty_presentation, []))
              (\<lambda>b. Inr (BannerContent (fst b) (snd b))))
       else if layout = ''full_screen'' then
         wrap_err ''model: decode full_screen content''
           (res_bind (dec_struct presentation_field data empty_presentation) (\<lambda>p. Inr (FullScreenContent p)))
       else if layout = ''html'' then
         wrap_err ''model: decode html content''
           (res_bind (dec_struct html_field data []) (\<lambda>h. Inr (HTMLContent h)))
       else if layout = ''sequence'' then
         (case sequence_steps data of
            Inl e \<Rightarrow> Inl (Wrap ''model: decode sequence'' e)
          | Inr raws \<Rightarrow>
              res_bind (map_result (\<lambda>raw.
                  res_bind (wrap_err ''model: decode sequence step'' (unmarshal_content raw)) check_step) raws)
                (\<lambda>steps. Inr (SequenceContent steps)))
       else Inl (Errorf ''model: unknown layout''))"
  by pat_completeness auto
termination
  by (relation "measure size") (auto dest: sequence_steps_smaller)

declare unmarshal_content.simps [simp del]


section \<open>Round trip\<close>

definition wf_presentation :: "presentation \<Rightarrow> bool" where
  "wf_presentation p =
     (list_all (\<lambda>b. list_all wf_action (actions b)) (buttons p)
      \<and> fl (corner_radius p) = corner_radius p
      \<and> (case auto_close p of None \<Rightarrow> True | Some n \<Rightarrow> min_int64 \<le> n \<and> n \<le> max_int64))"

fun wf_content :: "content \<Rightarrow> bool" where
  "wf_content (DialogContent p) = wf_presentation p"
| "wf_content (BannerContent p e) = wf_presentation p"
| "wf_content (FullScreenContent p) = wf_presentation p"
| "wf_content (HTMLContent h) = True"
| "wf_content (SequenceContent steps) =
     list_all (\<lambda>s. wf_content s \<and> content_layout s \<in> {''dialog'', ''full_screen''}) steps"

lemma buttons_roundtrip:
  assumes "wf_presentation p"
  shows "map_result unmarshal_button (map marshal_button (buttons p)) = Inr (buttons p)"
  using assms by (intro button_wire.slice_dec_enc) (auto simp: wf_presentation_def list_all_iff)

lemmas field_defs = presentation_field_def banner_field_def media_field_def colors_field_def
  layout_field_def html_field_def steps_field_def empty_presentation_def lower_char_def

lemma dec_presentation:
  assumes "wf_presentation p"
  shows "dec_members presentation_field (put ''layout'' l (put_all (presentation_json p) []))
           empty_presentation = Inr p"
  using assms buttons_roundtrip [OF assms]
  by (cases "media p"; cases "auto_close p"; cases "buttons p = []")
    (auto simp: wf_presentation_def presentation_json_def put_all_def field_defs)

lemma dec_banner:
  assumes "wf_presentation p"
  shows "dec_members banner_field (put ''layout'' l (put_all (presentation_json p @ [(''edge'', JStr e)]) []))
           (empty_presentation, []) = Inr (p, e)"
  using assms buttons_roundtrip [OF assms]
  by (cases "media p"; cases "auto_close p"; cases "buttons p = []")
    (auto simp: wf_presentation_def presentation_json_def put_all_def field_defs)

lemma sniff_presentation:
  "dec_members layout_field (put ''layout'' (JStr l) (put_all (presentation_json p) [])) [] = Inr l"
  "dec_members layout_field
     (put ''layout'' (JStr l) (put_all (presentation_json p @ [(''edge'', JStr e)]) [])) [] = Inr l"
  by (cases "media p"; cases "auto_close p"; cases "buttons p = []";
      simp add: presentation_json_def put_all_def field_defs)+

lemma content_roundtrip_step: "wf_content c \<Longrightarrow> unmarshal_content (marshal_content c) = Inr c"
proof (induction c)
  case (SequenceContent steps)
  have "map_result (\<lambda>raw. res_bind (wrap_err ''model: decode sequence step'' (unmarshal_content raw))
      check_step) (map marshal_content steps) = Inr steps"
  proof (rule map_result_roundtrip)
    fix s assume s: "s \<in> set steps"
    with SequenceContent.prems have w: "wf_content s" "content_layout s \<in> {''dialog'', ''full_screen''}"
      by (auto simp: list_all_iff)
    with SequenceContent.IH [OF s] show "res_bind (wrap_err ''model: decode sequence step''
        (unmarshal_content (marshal_content s))) check_step = Inr s"
      by (auto simp: check_step_def)
  qed
  then show ?case
    by (subst unmarshal_content.simps)
      (simp add: layout_sniff_def sequence_steps_def field_defs)
qed (subst unmarshal_content.simps;
    simp add: layout_sniff_def dec_presentation dec_banner sniff_presentation;
    simp add: put_all_def field_defs)+

interpretation content_wire: codec marshal_content unmarshal_content wf_content
  by unfold_locales (rule content_roundtrip_step)

section \<open>The content column of a variant, and the message\<close>

record variant =
  variant_id :: string
  variant_message :: string
  weight :: int
  language :: string
  schema :: schema_version
  variant_content :: content

definition marshal_content_column :: "variant \<Rightarrow> json" where
  "marshal_content_column v =
     JObj [(''schema_version'', JObj [(''major'', JInt (major (schema v))), (''minor'', JInt (minor (schema v)))]),
           (''content'', marshal_content (variant_content v))]"

definition schema_field :: "string \<Rightarrow> json \<Rightarrow> schema_version \<Rightarrow> schema_version result" where
  "schema_field k j s =
     (if k = ''major'' then res_bind (dec_int j (major s)) (\<lambda>n. Inr (s\<lparr>major := n\<rparr>))
      else if k = ''minor'' then res_bind (dec_int j (minor s)) (\<lambda>n. Inr (s\<lparr>minor := n\<rparr>))
      else Inr s)"

text \<open>
  \<^verbatim>\<open>json.RawMessage\<close> keeps the member as it is, \<^term>\<open>JNull\<close> included; a column with no content
  member leaves it empty, which does not parse.
\<close>

definition column_field ::
  "string \<Rightarrow> json \<Rightarrow> schema_version \<times> json option \<Rightarrow> (schema_version \<times> json option) result" where
  "column_field k j w =
     (if k = ''schema_version'' then
        res_bind (dec_struct schema_field j (fst w)) (\<lambda>s. Inr (s, snd w))
      else if k = ''content'' then Inr (fst w, Some j)
      else Inr w)"

definition unmarshal_content_column :: "variant \<Rightarrow> json \<Rightarrow> variant result" where
  "unmarshal_content_column v data =
     res_bind (wrap_err ''model: decode variant content column''
         (dec_struct column_field data (\<lparr>major = 0, minor = 0\<rparr>, None)))
       (\<lambda>w. res_bind (wrap_err ''model: decode variant content''
           (case snd w of None \<Rightarrow> Inl (Errorf ''unexpected end of JSON input'')
            | Some raw \<Rightarrow> unmarshal_content raw))
         (\<lambda>c. Inr (v\<lparr>schema := fst w, variant_content := c\<rparr>)))"

record trigger =
  trigger_id :: string
  trigger_kind :: string
  occurrence_goal :: int
  event_predicate :: string

record display_condition =
  delay :: duration
  screen_filter_mode :: string
  screens :: "string list option"
  connectivity_required :: string

record control_policy =
  per_message_cap :: int
  min_interval_between :: duration
  exempt_from_project_cap :: bool
  requires_server_confirmation :: bool

record window =
  win_start :: time
  win_end :: time

record message =
  msg_id :: string
  msg_name :: string
  msg_state :: message_state
  priority :: int
  msg_window :: window
  msg_version :: int
  audience_ref :: string
  policy :: control_policy
  holdout_fraction :: rat
  experiment_salt :: string
  conversion_event :: string
  triggers :: "trigger list"
  display_conditions :: "display_condition list"
  variants :: "variant list"

lemma content_column_step:
  assumes "wf_content (variant_content v)"
    and "min_int64 \<le> major (schema v)" "major (schema v) \<le> max_int64"
    and "min_int64 \<le> minor (schema v)" "minor (schema v) \<le> max_int64"
  shows "unmarshal_content_column w (marshal_content_column v)
    = Inr (w\<lparr>schema := schema v, variant_content := variant_content v\<rparr>)"
  using assms
  by (simp add: unmarshal_content_column_def marshal_content_column_def column_field_def
      schema_field_def lower_char_def content_roundtrip_step)

text \<open>
  C28: decoding the content column of a variant gives back its schema version and its content,
  whatever the variant it is decoded into, for every content whose sequence steps are
  dialogs or full screens, whose corner radius is a float64 and whose integers have 64 bits.
\<close>

theorem content_column_roundtrip:
  assumes "wf_content (variant_content v)"
    and "min_int64 \<le> major (schema v)" "major (schema v) \<le> max_int64"
    and "min_int64 \<le> minor (schema v)" "minor (schema v) \<le> max_int64"
  shows "unmarshal_content_column w (marshal_content_column v)
    = Inr (w\<lparr>schema := schema v, variant_content := variant_content v\<rparr>)"
  using assms by (rule content_column_step)

definition demo_presentation :: presentation where
  "demo_presentation = empty_presentation\<lparr>heading := ''Hi'', corner_radius := 8,
     auto_close := Some 5, media := Some \<lparr>media_url = ''m''\<rparr>,
     buttons := [\<lparr>label = ''Go'', actions = [EmitEventAction ''go'' [(''a'', ''1'')], CloseAction]\<rparr>]\<rparr>"

definition demo_variant :: variant where
  "demo_variant = \<lparr>variant_id = ''v'', variant_message = ''m'', weight = 100, language = ''en'',
     schema = \<lparr>major = 1, minor = 2\<rparr>,
     variant_content = SequenceContent [DialogContent demo_presentation, FullScreenContent demo_presentation]\<rparr>"

lemma fl_eight: "fl 8 = 8"
  using fl_int [of 8] by simp

theorem content_column_roundtrip_witness:
  "unmarshal_content_column (demo_variant\<lparr>variant_content := HTMLContent []\<rparr>)
     (marshal_content_column demo_variant) = Inr demo_variant"
proof -
  have "wf_content (variant_content demo_variant)"
    by (simp add: demo_variant_def demo_presentation_def wf_presentation_def empty_presentation_def
        wf_action_def canonical_def fl_eight min_int64_def max_int64_def)
  then have "unmarshal_content_column (demo_variant\<lparr>variant_content := HTMLContent []\<rparr>)
      (marshal_content_column demo_variant)
    = Inr (demo_variant\<lparr>variant_content := HTMLContent [], schema := schema demo_variant,
        variant_content := variant_content demo_variant\<rparr>)"
    by (rule content_column_roundtrip) (simp_all add: demo_variant_def min_int64_def max_int64_def)
  then show ?thesis by simp
qed

text \<open>
  Decoding never produces a nested sequence: whatever the document, a decoded sequence has
  only dialog and full-screen steps, so the checks that walk one level of steps see every screen.
\<close>

theorem decoded_steps_presented:
  assumes "unmarshal_content data = Inr (SequenceContent steps)" "s \<in> set steps"
  shows "content_layout s = ''dialog'' \<or> content_layout s = ''full_screen''"
proof -
  from assms(1) obtain raws where "map_result (\<lambda>raw.
      res_bind (wrap_err ''model: decode sequence step'' (unmarshal_content raw)) check_step) raws = Inr steps"
    by (subst (asm) unmarshal_content.simps)
      (auto simp: res_bind_Inr_iff split: if_splits sum.splits)
  with assms(2) show ?thesis
    by (auto simp: map_result_Inr_iff list_all2_conv_all_nth in_set_conv_nth res_bind_Inr_iff
        check_step_def split: if_splits)
qed

theorem decoded_steps_presented_witness:
  "content_layout (FullScreenContent demo_presentation) = ''dialog''
    \<or> content_layout (FullScreenContent demo_presentation) = ''full_screen''"
proof -
  have "wf_content (SequenceContent [FullScreenContent demo_presentation])"
    by (simp add: demo_presentation_def wf_presentation_def empty_presentation_def
        wf_action_def canonical_def fl_eight min_int64_def max_int64_def)
  from decoded_steps_presented [OF content_roundtrip_step [OF this]] show ?thesis by simp
qed

end
