(* ===== verification/Url.thy ===== *)
theory Url
  imports Text
begin

text \<open>
  \<^verbatim>\<open>net/url.Parse\<close> of the standard library, as far as the scheme, the host and the path of
  a URL go: the fragment and query are cut off, the authority is split from the path, and
  percent escapes are decoded or refused.
\<close>

definition cut_at :: "char \<Rightarrow> string \<Rightarrow> string \<times> string" where
  "cut_at c s = (takeWhile (\<lambda>x. x \<noteq> c) s, drop 1 (dropWhile (\<lambda>x. x \<noteq> c) s))"

definition is_letter :: "char \<Rightarrow> bool" where
  "is_letter c = ((CHR ''a'' \<le> c \<and> c \<le> CHR ''z'') \<or> (CHR ''A'' \<le> c \<and> c \<le> CHR ''Z''))"

definition is_hex :: "char \<Rightarrow> bool" where
  "is_hex c = (is_digit c \<or> (CHR ''a'' \<le> c \<and> c \<le> CHR ''f'') \<or> (CHR ''A'' \<le> c \<and> c \<le> CHR ''F''))"

definition unhex :: "char \<Rightarrow> nat" where
  "unhex c = (if is_digit c then of_char c - 48
              else if CHR ''a'' \<le> c then of_char c - 87 else of_char c - 55)"

definition is_ctl :: "char \<Rightarrow> bool" where
  "is_ctl c = (of_char c < (32::nat) \<or> of_char c = (127::nat))"

datatype unescape_mode = PathMode | HostMode | ZoneMode | UserMode

definition host_char :: "char \<Rightarrow> bool" where
  "host_char c = (is_letter c \<or> is_digit c \<or> c \<in> set ''-_.~!$&()*+,;=:[]<>'' \<or> c = CHR 0x27 \<or> c = CHR 0x22
     \<or> (128::nat) \<le> of_char c)"

fun unescape :: "unescape_mode \<Rightarrow> string \<Rightarrow> string result" where
  "unescape mode [] = Inr []"
| "unescape mode (c # s) =
     (if c = CHR ''%'' then
        (case s of
           a # b # rest \<Rightarrow>
             if \<not> is_hex a \<or> \<not> is_hex b then Inl (Errorf ''invalid URL escape'')
             else if mode = HostMode \<and> unhex a < 8 \<and> \<not> (a = CHR ''2'' \<and> b = CHR ''5'') then
               Inl (Errorf ''invalid URL escape'')
             else if mode = ZoneMode \<and> \<not> (a = CHR ''2'' \<and> b = CHR ''5'')
                 \<and> 16 * unhex a + unhex b \<noteq> 32 \<and> \<not> host_char (char_of (16 * unhex a + unhex b)) then
               Inl (Errorf ''invalid URL escape'')
             else (case unescape mode rest of
                 Inl e \<Rightarrow> Inl e | Inr t \<Rightarrow> Inr (char_of (16 * unhex a + unhex b) # t))
         | _ \<Rightarrow> Inl (Errorf ''invalid URL escape''))
      else if mode \<in> {HostMode, ZoneMode} \<and> \<not> host_char c then Inl (Errorf ''invalid character in host name'')
      else (case unescape mode s of Inl e \<Rightarrow> Inl e | Inr t \<Rightarrow> Inr (c # t)))"

text \<open>The scheme and the rest; an empty scheme when there is none.\<close>

fun scan_scheme :: "bool \<Rightarrow> string \<Rightarrow> (string \<times> string) option result" where
  "scan_scheme first [] = Inr None"
| "scan_scheme first (c # s) =
     (if is_letter c then
        (case scan_scheme False s of
           Inr (Some (sch, rest)) \<Rightarrow> Inr (Some (c # sch, rest)) | r \<Rightarrow> r)
      else if is_digit c \<or> c \<in> set ''+-.'' then
        (if first then Inr None
         else (case scan_scheme False s of
                 Inr (Some (sch, rest)) \<Rightarrow> Inr (Some (c # sch, rest)) | r \<Rightarrow> r))
      else if c = CHR '':'' then
        (if first then Inl (Errorf ''missing protocol scheme'') else Inr (Some ([], s)))
      else Inr None)"

definition get_scheme :: "string \<Rightarrow> (string \<times> string) result" where
  "get_scheme s = (case scan_scheme True s of
     Inl e \<Rightarrow> Inl e | Inr None \<Rightarrow> Inr ([], s) | Inr (Some (sch, rest)) \<Rightarrow> Inr (to_lower sch, rest))"

definition last_index :: "char \<Rightarrow> string \<Rightarrow> nat option" where
  "last_index c s = (if c \<in> set s then Some (length s - 1 - length (takeWhile (\<lambda>x. x \<noteq> c) (rev s))) else None)"

definition valid_optional_port :: "string \<Rightarrow> bool" where
  "valid_optional_port p = (p = [] \<or> (hd p = CHR '':'' \<and> list_all is_digit (tl p)))"

fun zone_split :: "string \<Rightarrow> (string \<times> string) option" where
  "zone_split [] = None"
| "zone_split (c # s) =
     (if has_prefix (c # s) ''%25'' then Some ([], c # s)
      else map_option (\<lambda>(h, z). (c # h, z)) (zone_split s))"

definition parse_host :: "string \<Rightarrow> string result" where
  "parse_host host =
     (if has_prefix host ''['' then
        (case last_index (CHR '']'') host of
           None \<Rightarrow> Inl (Errorf ''missing bracket in host'')
         | Some i \<Rightarrow>
             if \<not> valid_optional_port (drop (i + 1) host) then Inl (Errorf ''invalid port'')
             else (case zone_split (take i host) of
                 Some (h1, z) \<Rightarrow>
                   res_bind (unescape HostMode h1) (\<lambda>a. res_bind (unescape ZoneMode z) (\<lambda>b.
                     res_bind (unescape HostMode (drop i host)) (\<lambda>d. Inr (a @ b @ d))))
               | None \<Rightarrow> unescape HostMode host))
      else
        (case last_index (CHR '':'') host of
           Some i \<Rightarrow> if valid_optional_port (drop i host) then unescape HostMode host
                     else Inl (Errorf ''invalid port'')
         | None \<Rightarrow> unescape HostMode host))"

definition userinfo_char :: "char \<Rightarrow> bool" where
  "userinfo_char c = (is_letter c \<or> is_digit c \<or> c \<in> set ''-._:~!$&()*+,;=%@'' \<or> c = CHR 0x27)"

definition parse_authority :: "string \<Rightarrow> string result" where
  "parse_authority a =
     (case last_index (CHR ''@'') a of
        None \<Rightarrow> parse_host a
      | Some i \<Rightarrow>
          res_bind (parse_host (drop (i + 1) a)) (\<lambda>host.
            if \<not> list_all userinfo_char (take i a) then Inl (Errorf ''invalid userinfo'')
            else (let (user, pass) = cut_at (CHR '':'') (take i a) in
              res_bind (unescape UserMode user) (\<lambda>_. res_bind (unescape UserMode pass) (\<lambda>_. Inr host)))))"

record url =
  url_scheme :: string
  url_host :: string
  url_path :: string

definition url_parse_body :: "string \<Rightarrow> url result" where
  "url_parse_body raw =
     (if list_ex is_ctl raw then Inl (Errorf ''invalid control character in URL'')
      else if raw = ''*'' then Inr \<lparr>url_scheme = [], url_host = [], url_path = ''*''\<rparr>
      else res_bind (get_scheme raw) (\<lambda>(scheme, rest0).
        let rest = fst (cut_at (CHR ''?'') rest0) in
        if \<not> has_prefix rest ''/'' \<and> scheme \<noteq> [] then
          Inr \<lparr>url_scheme = scheme, url_host = [], url_path = []\<rparr>
        else if \<not> has_prefix rest ''/'' \<and> CHR '':'' \<in> set (fst (cut_at (CHR ''/'') rest)) then
          Inl (Errorf ''first path segment in URL cannot contain colon'')
        else
          let has_auth = ((scheme \<noteq> [] \<or> \<not> has_prefix rest ''///'') \<and> has_prefix rest ''//'');
              authority = (if has_auth then takeWhile (\<lambda>x. x \<noteq> CHR ''/'') (drop 2 rest) else []);
              path = (if has_auth then dropWhile (\<lambda>x. x \<noteq> CHR ''/'') (drop 2 rest) else rest)
          in res_bind (if has_auth then parse_authority authority else Inr []) (\<lambda>host.
               res_bind (unescape PathMode path) (\<lambda>p.
                 Inr \<lparr>url_scheme = scheme, url_host = host, url_path = p\<rparr>))))"

definition url_parse :: "string \<Rightarrow> url result" where
  "url_parse raw =
     (let (u, frag) = cut_at (CHR ''#'') raw in
      res_bind (url_parse_body u) (\<lambda>r. res_bind (unescape PathMode frag) (\<lambda>_. Inr r)))"

lemma unescape_plain_path: "CHR ''%'' \<notin> set s \<Longrightarrow> unescape PathMode s = Inr s"
  by (induction s) auto

lemma unescape_plain_host: "list_all host_char s \<Longrightarrow> unescape HostMode s = Inr s"
  by (induction s) (auto simp: host_char_def is_letter_def is_digit_def less_eq_char_def)

lemma cut_at_absent: "c \<notin> set s \<Longrightarrow> cut_at c s = (s, [])"
  by (induction s) (auto simp: cut_at_def)

lemma parse_host_plain:
  assumes "list_all host_char h" "CHR '':'' \<notin> set h" "CHR ''['' \<notin> set h"
  shows "parse_host h = Inr h"
proof -
  have "\<not> has_prefix h ''[''" using assms(3) by (cases h) (auto simp: has_prefix_def)
  then show ?thesis
    using assms by (simp add: parse_host_def last_index_def unescape_plain_host)
qed

lemma parse_authority_plain:
  assumes "list_all host_char h" "CHR '':'' \<notin> set h" "CHR ''['' \<notin> set h"
  shows "parse_authority h = Inr h"
proof -
  have "CHR ''@'' \<notin> set h" using assms(1) by (auto simp: list_all_iff host_char_def is_letter_def is_digit_def less_eq_char_def)
  then show ?thesis by (simp add: parse_authority_def last_index_def parse_host_plain [OF assms])
qed

text \<open>An HTTPS URL of a plain host and a plain path parses to them.\<close>

definition plain_path :: "string \<Rightarrow> bool" where
  "plain_path p = (list_all (\<lambda>c. \<not> is_ctl c \<and> c \<notin> set ''%?#'') p \<and> has_prefix p ''/'')"

lemma https_scheme: "get_scheme (''https://'' @ s) = Inr (''https'', ''//'' @ s)"
  by (simp add: get_scheme_def is_letter_def is_digit_def less_eq_char_def lower_char_def)

lemma url_parse_https:
  assumes h: "list_all host_char h" "CHR '':'' \<notin> set h" "CHR ''['' \<notin> set h"
    and hc: "list_all (\<lambda>c. \<not> is_ctl c) h"
    and p: "plain_path p"
  shows "url_parse (''https://'' @ h @ p) = Inr \<lparr>url_scheme = ''https'', url_host = h, url_path = p\<rparr>"
proof -
  have hs: "x \<noteq> CHR ''/'' \<and> x \<noteq> CHR ''#'' \<and> x \<noteq> CHR ''?''" if "x \<in> set h" for x
    using that h(1) by (auto simp: list_all_iff host_char_def is_letter_def is_digit_def less_eq_char_def)
  have ps: "CHR ''%'' \<notin> set p" "CHR ''?'' \<notin> set p" "CHR ''#'' \<notin> set p" "list_all (\<lambda>c. \<not> is_ctl c) p"
    using p by (auto simp: plain_path_def list_all_iff)
  obtain q where q: "p = CHR ''/'' # q"
    using p by (cases p) (auto simp: plain_path_def has_prefix_def)
  have frag: "cut_at (CHR ''#'') (''https://'' @ h @ p) = (''https://'' @ h @ p, [])"
    using hs ps by (intro cut_at_absent) auto
  have query: "cut_at (CHR ''?'') (''//'' @ h @ p) = (''//'' @ h @ p, [])"
    using hs ps by (intro cut_at_absent) auto
  have ctl: "\<not> list_ex is_ctl (''https://'' @ h @ p)"
    using hc ps by (auto simp: list_ex_iff list_all_iff is_ctl_def)
  have tw: "takeWhile (\<lambda>x. x \<noteq> CHR ''/'') (h @ p) = h" "dropWhile (\<lambda>x. x \<noteq> CHR ''/'') (h @ p) = p"
    using hs q by (induction h) auto
  have "url_parse_body (''https://'' @ h @ p) = Inr \<lparr>url_scheme = ''https'', url_host = h, url_path = p\<rparr>"
    using ctl query tw https_scheme [of "h @ p"]
    by (simp add: url_parse_body_def has_prefix_def parse_authority_plain [OF h]
        unescape_plain_path [OF ps(1)] Let_def)
  with frag show ?thesis by (simp add: url_parse_def)
qed

end
