(* ===== verification/Sha256.thy ===== *)
theory Sha256
  imports Text "HOL-Library.Word"
begin

unbundle bit_operations_syntax

text \<open>
  \<^verbatim>\<open>crypto/sha256\<close>, \<^verbatim>\<open>encoding/hex\<close> and \<^verbatim>\<open>crypto/hmac\<close> as the code uses them: the digest of
  a byte string, its 64 hexadecimal digits, and the keyed digest device tokens are signed
  with.
\<close>

text \<open>
  The constants of the standard: the first 32 bits of the fractional parts of the cube roots
  and the square roots of the first primes, found bit by bit from the top.
\<close>

fun root_from :: "nat \<Rightarrow> nat \<Rightarrow> nat \<Rightarrow> nat \<Rightarrow> nat" where
  "root_from k n r 0 = r"
| "root_from k n r (Suc b) = root_from k n (if (r + 2 ^ b) ^ k \<le> n then r + 2 ^ b else r) b"

definition root_bits :: "nat \<Rightarrow> nat \<Rightarrow> 32 word" where
  "root_bits k p = of_nat (root_from k (p * 2 ^ (32 * k)) 0 40)"

fun primes_from :: "nat \<Rightarrow> nat list \<Rightarrow> nat \<Rightarrow> nat list" where
  "primes_from p acc 0 = acc"
| "primes_from p acc (Suc n) =
     primes_from (Suc p) (if list_all (\<lambda>q. p mod q \<noteq> 0) acc then acc @ [p] else acc) n"

definition first_primes :: "nat list" where "first_primes = take 64 (primes_from 2 [] 312)"

definition sha_constants :: "32 word list" where "sha_constants = map (root_bits 3) first_primes"

record sha_state =
  h_a :: "32 word"
  h_b :: "32 word"
  h_c :: "32 word"
  h_d :: "32 word"
  h_e :: "32 word"
  h_f :: "32 word"
  h_g :: "32 word"
  h_h :: "32 word"

definition sha_initial :: sha_state where
  "sha_initial =
     (let r = \<lambda>i. root_bits 2 (first_primes ! i)
      in \<lparr>h_a = r 0, h_b = r 1, h_c = r 2, h_d = r 3, h_e = r 4, h_f = r 5, h_g = r 6, h_h = r 7\<rparr>)"

definition byte_of :: "char \<Rightarrow> 32 word" where "byte_of c = of_nat (of_char c)"

fun block_words :: "string \<Rightarrow> 32 word list" where
  "block_words (a # b # c # d # s) =
     (push_bit 24 (byte_of a) OR push_bit 16 (byte_of b) OR push_bit 8 (byte_of c) OR byte_of d)
       # block_words s"
| "block_words _ = []"

definition rotr :: "nat \<Rightarrow> 32 word \<Rightarrow> 32 word" where "rotr n w = word_rotr n w"

fun extend_schedule :: "nat \<Rightarrow> 32 word list \<Rightarrow> 32 word list" where
  "extend_schedule 0 ws = ws"
| "extend_schedule (Suc n) ws =
     (let i = length ws;
          w15 = ws ! (i - 15); w2 = ws ! (i - 2);
          s0 = rotr 7 w15 XOR rotr 18 w15 XOR drop_bit 3 w15;
          s1 = rotr 17 w2 XOR rotr 19 w2 XOR drop_bit 10 w2
      in extend_schedule n (ws @ [ws ! (i - 16) + s0 + ws ! (i - 7) + s1]))"

definition sha_round :: "32 word \<times> 32 word \<Rightarrow> sha_state \<Rightarrow> sha_state" where
  "sha_round kw st =
     (let s1 = rotr 6 (h_e st) XOR rotr 11 (h_e st) XOR rotr 25 (h_e st);
          ch = (h_e st AND h_f st) XOR (NOT (h_e st) AND h_g st);
          t1 = h_h st + s1 + ch + fst kw + snd kw;
          s0 = rotr 2 (h_a st) XOR rotr 13 (h_a st) XOR rotr 22 (h_a st);
          maj = (h_a st AND h_b st) XOR (h_a st AND h_c st) XOR (h_b st AND h_c st)
      in \<lparr>h_a = t1 + (s0 + maj), h_b = h_a st, h_c = h_b st, h_d = h_c st,
          h_e = h_d st + t1, h_f = h_e st, h_g = h_f st, h_h = h_g st\<rparr>)"

definition sha_block :: "string \<Rightarrow> sha_state \<Rightarrow> sha_state" where
  "sha_block blk st =
     (let r = fold sha_round (zip sha_constants (extend_schedule 48 (block_words blk))) st
      in \<lparr>h_a = h_a st + h_a r, h_b = h_b st + h_b r, h_c = h_c st + h_c r, h_d = h_d st + h_d r,
          h_e = h_e st + h_e r, h_f = h_f st + h_f r, h_g = h_g st + h_g r, h_h = h_h st + h_h r\<rparr>)"

definition be_bytes :: "nat \<Rightarrow> nat \<Rightarrow> string" where
  "be_bytes n v = map (\<lambda>i. char_of (v div 256 ^ (n - 1 - i))) [0..<n]"

definition sha_pad :: "string \<Rightarrow> string" where
  "sha_pad s = s @ [CHR 0x80] @ replicate ((119 - length s mod 64) mod 64) (CHR 0x00)
     @ be_bytes 8 (8 * length s)"

fun sha_blocks :: "nat \<Rightarrow> string \<Rightarrow> sha_state \<Rightarrow> sha_state" where
  "sha_blocks 0 s st = st"
| "sha_blocks (Suc n) s st = sha_blocks n (drop 64 s) (sha_block (take 64 s) st)"

definition sha256 :: "string \<Rightarrow> string" where
  "sha256 s =
     (let p = sha_pad s; st = sha_blocks (length p div 64) p sha_initial
      in concat (map (\<lambda>w. be_bytes 4 (unat w))
           [h_a st, h_b st, h_c st, h_d st, h_e st, h_f st, h_g st, h_h st]))"

definition hex_encode :: "string \<Rightarrow> string" where
  "hex_encode s = concat (map (\<lambda>c. [hex_char (of_char c div 16), hex_char (of_char c mod 16)]) s)"

definition xor_char :: "nat \<Rightarrow> char \<Rightarrow> char" where
  "xor_char k c = char_of (k XOR (of_char c :: nat))"

definition hmac_sha256 :: "string \<Rightarrow> string \<Rightarrow> string" where
  "hmac_sha256 secret msg =
     (let k = (if length secret > 64 then sha256 secret else secret);
          kpad = k @ replicate (64 - length k) (CHR 0x00)
      in sha256 (map (xor_char 0x5c) kpad @ sha256 (map (xor_char 0x36) kpad @ msg)))"

lemma length_be_bytes [simp]: "length (be_bytes n v) = n"
  by (simp add: be_bytes_def)

lemma length_sha256 [simp]: "length (sha256 s) = 32"
  by (simp add: sha256_def Let_def)

lemma length_hmac [simp]: "length (hmac_sha256 k s) = 32"
  by (simp add: hmac_sha256_def Let_def)

lemma length_hex_encode [simp]: "length (hex_encode s) = 2 * length s"
  by (induction s) (simp_all add: hex_encode_def)

end
