(* ===== verification/ObjectStorage.thy ===== *)
theory ObjectStorage
  imports Url Sha256
begin

text \<open>
  \<^verbatim>\<open>internal/platform/objectstorage\<close>: content-addressed asset keys, the URL an upload
  returns, the check that recognises such a URL, and the client's operations over a store.
  The store behind the client is the MinIO service: its objects are a map from key to
  bytes, and whether it answers a request is part of its state.
\<close>

section \<open>Keys and URLs\<close>

definition keyPrefix :: string where "keyPrefix = ''assets/sha256/''"

definition hashHexLength :: nat where "hashHexLength = 64"

definition hash_data :: "string \<Rightarrow> string" where "hash_data data = hex_encode (sha256 data)"

definition asset_key :: "string \<Rightarrow> string" where "asset_key h = keyPrefix @ h"

definition asset_url :: "string \<Rightarrow> string \<Rightarrow> string" where
  "asset_url baseURL k = trim_right (CHR ''/'') baseURL @ ''/'' @ k"

definition lower_hex :: "char \<Rightarrow> bool" where
  "lower_hex c = (is_digit c \<or> (CHR ''a'' \<le> c \<and> c \<le> CHR ''f''))"

text \<open>The pattern has one length and is anchored at the end, so it matches the last bytes or nothing.\<close>

definition asset_path_match :: "string \<Rightarrow> string" where
  "asset_path_match p =
     (let n = 1 + length keyPrefix + hashHexLength; t = drop (length p - n) p in
      if n \<le> length p \<and> has_prefix t (''/'' @ keyPrefix)
        \<and> list_all lower_hex (drop (1 + length keyPrefix) t)
      then t else [])"

definition key_from_url :: "string \<Rightarrow> string option" where
  "key_from_url rawURL =
     (case url_parse rawURL of
        Inl _ \<Rightarrow> None
      | Inr u \<Rightarrow>
          if url_scheme u \<noteq> ''https'' \<or> url_host u = [] then None
          else (let match = asset_path_match (url_path u) in
                if match = [] then None else Some (trim_prefix match ''/'')))"

definition is_content_addressed_url :: "string \<Rightarrow> bool" where
  "is_content_addressed_url rawURL = (key_from_url rawURL \<noteq> None)"

section \<open>The client\<close>

text \<open>
  The store answers \<^term>\<open>stat_ok\<close> with whether the key exists and fails otherwise; a put that
  fails may still have written the object.
\<close>

record object_store =
  objects :: "string \<rightharpoonup> string"
  bucket_exists :: bool
  check_ok :: bool
  stat_ok :: bool
  put_ok :: bool
  put_applied :: bool

record storage_client =
  storage_bucket :: string
  public_base_url :: string

definition new_storage_client :: "object_store \<Rightarrow> bool \<Rightarrow> string \<Rightarrow> string \<Rightarrow> storage_client result" where
  "new_storage_client st built bkt baseURL =
     (if \<not> built then Inl (Wrap ''objectstorage: build client'' IOFailure)
      else if \<not> check_ok st then Inl (Wrap ''objectstorage: check bucket'' IOFailure)
      else if \<not> bucket_exists st then Inl (Errorf ''objectstorage: bucket does not exist'')
      else Inr \<lparr>storage_bucket = bkt, public_base_url = baseURL\<rparr>)"

definition upload :: "storage_client \<Rightarrow> string \<Rightarrow> object_store \<Rightarrow> string result \<times> object_store" where
  "upload c data st =
     (let k = asset_key (hash_data data) in
      if \<not> stat_ok st then (Inl (Wrap ''objectstorage: stat'' IOFailure), st)
      else if objects st k \<noteq> None then (Inr (asset_url (public_base_url c) k), st)
      else if \<not> put_ok st then
        (Inl (Wrap ''objectstorage: put'' IOFailure),
         if put_applied st then st\<lparr>objects := (objects st)(k \<mapsto> data)\<rparr> else st)
      else (Inr (asset_url (public_base_url c) k), st\<lparr>objects := (objects st)(k \<mapsto> data)\<rparr>))"

definition exists_asset :: "string \<Rightarrow> object_store \<Rightarrow> bool result" where
  "exists_asset rawURL st =
     (case key_from_url rawURL of
        None \<Rightarrow> Inl (Errorf ''objectstorage: not a content-addressed asset URL'')
      | Some k \<Rightarrow>
          if \<not> stat_ok st then Inl (Wrap ''objectstorage: stat'' IOFailure)
          else Inr (objects st k \<noteq> None))"

section \<open>What an upload returns is recognised\<close>

lemma not_cut_char: "(of_char c :: nat) \<notin> {37, 63, 35} \<Longrightarrow> c \<notin> set ''%?#''"
  by auto

lemma hex_char_lower:
  assumes "d < 16"
  shows "lower_hex (hex_char d)" "\<not> is_ctl (hex_char d)" "hex_char d \<notin> set ''%?#''"
proof -
  have "(of_char (hex_char d) :: nat) = (if d < 10 then 48 + d else 87 + d)"
    using assms by (simp add: hex_char_def)
  with assms show "lower_hex (hex_char d)" "\<not> is_ctl (hex_char d)" "hex_char d \<notin> set ''%?#''"
    by (auto simp: lower_hex_def is_digit_def is_ctl_def less_eq_char_def intro!: not_cut_char
        simp del: list.set split: if_splits)
qed

lemma hash_shape:
  "length (hash_data data) = hashHexLength" "list_all lower_hex (hash_data data)"
  "list_all (\<lambda>c. \<not> is_ctl c \<and> c \<notin> set ''%?#'') (hash_data data)"
proof -
  show "length (hash_data data) = hashHexLength" by (simp add: hash_data_def hashHexLength_def)
  have "of_char c div 16 < (16::nat)" for c
    by (rule less_mult_imp_div_less) simp
  then show "list_all lower_hex (hash_data data)"
    "list_all (\<lambda>c. \<not> is_ctl c \<and> c \<notin> set ''%?#'') (hash_data data)"
    using hex_char_lower by (auto simp: hash_data_def hex_encode_def list_all_iff)
qed

lemma asset_path_match_key:
  assumes "length h = hashHexLength" "list_all lower_hex h"
  shows "asset_path_match (pre @ ''/'' @ asset_key h) = ''/'' @ asset_key h"
  using assms by (simp add: asset_path_match_def asset_key_def keyPrefix_def hashHexLength_def has_prefix_def)

lemma key_of_asset_url:
  assumes "list_all host_char host" "CHR '':'' \<notin> set host" "CHR ''['' \<notin> set host" "host \<noteq> []"
    and "list_all (\<lambda>c. \<not> is_ctl c) host"
    and "pre = [] \<or> plain_path pre" "trim_right (CHR ''/'') base = ''https://'' @ host @ pre"
  shows "key_from_url (asset_url base (asset_key (hash_data data))) = Some (asset_key (hash_data data))"
proof -
  let ?p = "pre @ ''/'' @ asset_key (hash_data data)"
  have "plain_path ?p"
    using assms(6) hash_shape(3) [of data]
    by (cases pre) (auto simp: plain_path_def asset_key_def keyPrefix_def is_ctl_def has_prefix_def)
  then have "url_parse (''https://'' @ host @ ?p)
      = Inr \<lparr>url_scheme = ''https'', url_host = host, url_path = ?p\<rparr>"
    using assms by (intro url_parse_https)
  then show ?thesis
    using assms(4,7) asset_path_match_key [OF hash_shape(1,2)]
    by (simp add: asset_url_def key_from_url_def Let_def trim_prefix_def has_prefix_def)
qed

text \<open>
  C37: an uploaded asset can be referenced and found. On a store that answers, with a public base URL of
  https and a host without a port, an upload
  returns a URL that the save-time media check accepts, whose object the store holds
  afterwards, and uploading the same bytes again changes nothing.
\<close>

theorem upload_is_referencable:
  assumes "list_all host_char host" "CHR '':'' \<notin> set host" "CHR ''['' \<notin> set host" "host \<noteq> []"
    and "list_all (\<lambda>c. \<not> is_ctl c) host" "pre = [] \<or> plain_path pre"
    and "trim_right (CHR ''/'') (public_base_url c) = ''https://'' @ host @ pre"
    and "stat_ok st" "put_ok st"
  shows "\<exists>u st'. upload c data st = (Inr u, st') \<and> is_content_addressed_url u
    \<and> exists_asset u st' = Inr True \<and> upload c data st' = (Inr u, st')
    \<and> (\<forall>k. k \<noteq> asset_key (hash_data data) \<longrightarrow> objects st' k = objects st k)"
  using key_of_asset_url [OF assms(1-7), of data] assms(8,9)
  by (auto simp: upload_def Let_def is_content_addressed_url_def exists_asset_def)

definition demo_store :: object_store where
  "demo_store = \<lparr>objects = Map.empty, bucket_exists = True, check_ok = True, stat_ok = True,
     put_ok = True, put_applied = True\<rparr>"

theorem upload_is_referencable_witness:
  "\<exists>u st'. upload \<lparr>storage_bucket = ''b'', public_base_url = ''https://cdn.example/a/''\<rparr> ''png'' demo_store
      = (Inr u, st') \<and> is_content_addressed_url u \<and> exists_asset u st' = Inr True"
proof -
  have "\<exists>u st'. upload \<lparr>storage_bucket = ''b'', public_base_url = ''https://cdn.example/a/''\<rparr> ''png'' demo_store
      = (Inr u, st') \<and> is_content_addressed_url u \<and> exists_asset u st' = Inr True
    \<and> upload \<lparr>storage_bucket = ''b'', public_base_url = ''https://cdn.example/a/''\<rparr> ''png'' st' = (Inr u, st')
    \<and> (\<forall>k. k \<noteq> asset_key (hash_data ''png'') \<longrightarrow> objects st' k = objects demo_store k)"
    by (rule upload_is_referencable [where host = "''cdn.example''" and pre = "''/a''"])
      (simp_all add: host_char_def is_letter_def is_digit_def less_eq_char_def is_ctl_def
        plain_path_def has_prefix_def trim_right_def demo_store_def)
  then show ?thesis by blast
qed

end
