(* ===== verification/Validate.thy ===== *)
theory Validate
  imports Content ObjectStorage
begin

text \<open>
  \<^verbatim>\<open>internal/definition/validate\<close>: the checks a message must pass to be saved. A message is
  accepted exactly when its window, the weights of each of its languages, the schema, the
  links, the markup and the media of every screen, and its audience reference are sound.
\<close>

section \<open>Walking the content\<close>

definition walk_content :: "content \<Rightarrow> content list" where
  "walk_content c = c # (case c of SequenceContent steps \<Rightarrow> steps | _ \<Rightarrow> [])"

fun buttons_of :: "content \<Rightarrow> button list" where
  "buttons_of (DialogContent p) = buttons p"
| "buttons_of (BannerContent p _) = buttons p"
| "buttons_of (FullScreenContent p) = buttons p"
| "buttons_of _ = []"

fun media_of :: "content \<Rightarrow> media_ref option" where
  "media_of (DialogContent p) = media p"
| "media_of (BannerContent p _) = media p"
| "media_of (FullScreenContent p) = media p"
| "media_of _ = None"

definition allowedLinkSchemes :: "string list" where
  "allowedLinkSchemes = [''https://'']"

definition forbiddenHTMLSchemes :: "string list" where
  "forbiddenHTMLSchemes = [''javascript:'', ''vbscript:'', ''data:text/html'']"

definition has_allowed_scheme :: "string \<Rightarrow> bool" where
  "has_allowed_scheme u = list_ex (\<lambda>scheme. has_prefix (to_lower u) scheme) allowedLinkSchemes"

section \<open>The checks\<close>

definition validate_temporal_sanity :: "window \<Rightarrow> time \<Rightarrow> unit result" where
  "validate_temporal_sanity w now =
     errors_join
       ((if \<not> win_start w < win_end w then [Errorf ''window start must precede end''] else [])
        @ (if \<not> win_end w > now then [Errorf ''window end must be in the future''] else []))"

definition expectedVariantWeightTotal :: int where "expectedVariantWeightTotal = 100"

text \<open>
  The totals by language; the code visits the languages in the order of a Go map, here it
  is the order in which they first occur.
\<close>

fun add_weight :: "string \<Rightarrow> int \<Rightarrow> (string \<times> int) list \<Rightarrow> (string \<times> int) list" where
  "add_weight l w [] = [(l, wrap64 w)]"
| "add_weight l w ((l', t) # ts) =
     (if l = l' then (l', wrap64 (t + w)) # ts else (l', t) # add_weight l w ts)"

definition weight_totals :: "variant list \<Rightarrow> (string \<times> int) list" where
  "weight_totals vs = fold (\<lambda>v. add_weight (language v) (weight v)) vs []"

definition validate_variant_weights :: "variant list \<Rightarrow> unit result" where
  "validate_variant_weights vs =
     errors_join (concat (map (\<lambda>(l, t).
       if t \<noteq> expectedVariantWeightTotal then [Errorf (''variant weights for language '' @ l)] else [])
       (weight_totals vs)))"

definition validate_schema_version :: "variant \<Rightarrow> unit result" where
  "validate_schema_version v =
     (if \<not> supports_schema_major (major (schema v)) then Inl (Errorf ''variant declares schema major'')
      else Inr ())"

fun link_errors :: "action \<Rightarrow> go_error list" where
  "link_errors (OpenLinkAction u) =
     (if \<not> has_allowed_scheme u then [Errorf ''button opens URL with a disallowed scheme''] else [])"
| "link_errors _ = []"

fun security_errors :: "content \<Rightarrow> go_error list" where
  "security_errors (HTMLContent h) =
     concat (map (\<lambda>scheme. if contains (to_lower h) scheme
       then [Errorf ''HTML content contains forbidden scheme''] else []) forbiddenHTMLSchemes)"
| "security_errors c = concat (map (\<lambda>b. concat (map link_errors (actions b))) (buttons_of c))"

definition validate_content_security :: "variant \<Rightarrow> unit result" where
  "validate_content_security v =
     errors_join (concat (map security_errors (walk_content (variant_content v))))"

definition media_errors :: "content \<Rightarrow> go_error list" where
  "media_errors c = (case media_of c of
     None \<Rightarrow> []
   | Some m \<Rightarrow> if \<not> is_content_addressed_url (media_url m)
               then [Errorf ''media reference is not a content-addressed URL''] else [])"

definition validate_media_ref :: "variant \<Rightarrow> unit result" where
  "validate_media_ref v = errors_join (concat (map media_errors (walk_content (variant_content v))))"

text \<open>
  The only check with a query: whether a segment of that id exists. The segments table is
  its list of ids, and the query may fail.
\<close>

definition validate_audience_ref :: "bool \<Rightarrow> string list \<Rightarrow> string \<Rightarrow> unit result" where
  "validate_audience_ref query_ok segment_ids ref =
     (if ref = [] then Inr ()
      else if \<not> query_ok then Inl (Wrap ''check audience_ref'' IOFailure)
      else if ref \<notin> set segment_ids then Inl (Errorf ''audience_ref does not name an existing segment'')
      else Inr ())"

definition validate :: "bool \<Rightarrow> string list \<Rightarrow> message \<Rightarrow> time \<Rightarrow> unit result" where
  "validate query_ok segment_ids msg now =
     errors_join
       (errs_of (validate_temporal_sanity (msg_window msg) now)
        @ errs_of (validate_variant_weights (variants msg))
        @ concat (map (\<lambda>v. errs_of (validate_schema_version v)
             @ errs_of (validate_content_security v)
             @ errs_of (validate_media_ref v)) (variants msg))
        @ errs_of (validate_audience_ref query_ok segment_ids (audience_ref msg)))"

section \<open>What the checks mean\<close>

lemma wrap64_add_left: "wrap64 (wrap64 a + b) = wrap64 (a + b)"
  by (simp add: wrap64_def mod_simps) (simp add: ac_simps)

lemma map_of_add_weight:
  "map_of (add_weight l w ts) =
     (map_of ts)(l \<mapsto> wrap64 ((case map_of ts l of None \<Rightarrow> 0 | Some t \<Rightarrow> t) + w))"
  by (induction l w ts rule: add_weight.induct) auto

lemma distinct_add_weight: "distinct (map fst ts) \<Longrightarrow> distinct (map fst (add_weight l w ts))"
proof (induction l w ts rule: add_weight.induct)
  case (2 l w l' t ts)
  have "fst ` set (add_weight l w ts) = insert l (fst ` set ts)"
    by (induction l w ts rule: add_weight.induct) auto
  with 2 show ?case by auto
qed simp

definition language_sum :: "string \<Rightarrow> variant list \<Rightarrow> int" where
  "language_sum l vs = sum_list (map weight (filter (\<lambda>v. language v = l) vs))"

lemma language_sum_simps [simp]:
  "language_sum l [] = 0"
  "language_sum l (v # vs) = (if language v = l then weight v else 0) + language_sum l vs"
  by (simp_all add: language_sum_def)

lemma language_sum_absent: "l \<notin> language ` set vs \<Longrightarrow> language_sum l vs = 0"
  by (induction vs) auto

lemma weight_totals_gen:
  assumes "\<And>l t. map_of ts l = Some t \<Longrightarrow> wrap64 t = t"
  shows "map_of (fold (\<lambda>v. add_weight (language v) (weight v)) vs ts) l =
     (if l \<in> language ` set vs
      then Some (wrap64 ((case map_of ts l of None \<Rightarrow> 0 | Some t \<Rightarrow> t) + language_sum l vs))
      else map_of ts l)"
  using assms
proof (induction vs arbitrary: ts)
  case (Cons v vs)
  let ?ts = "add_weight (language v) (weight v) ts"
  have inv: "\<And>l t. map_of ?ts l = Some t \<Longrightarrow> wrap64 t = t"
    using Cons.prems wrap64_add_left [of _ 0] by (auto simp: map_of_add_weight split: if_splits)
  note ih = Cons.IH [of ?ts, OF inv]
  show ?case
  proof (cases "l = language v")
    case True
    with ih show ?thesis
      by (auto simp: map_of_add_weight wrap64_add_left add.assoc language_sum_absent)
  next
    case False
    with ih show ?thesis by (auto simp: map_of_add_weight)
  qed
qed simp

lemma weight_totals_lookup:
  "map_of (weight_totals vs) l = (if l \<in> language ` set vs then Some (wrap64 (language_sum l vs)) else None)"
  using weight_totals_gen [of "[]" vs l] by (simp add: weight_totals_def)

lemma distinct_weight_totals: "distinct (map fst (weight_totals vs))"
proof -
  have "distinct (map fst ts) \<Longrightarrow>
      distinct (map fst (fold (\<lambda>v. add_weight (language v) (weight v)) vs ts))" for ts
    by (induction vs arbitrary: ts) (auto intro: distinct_add_weight)
  from this [of "[]"] show ?thesis by (simp add: weight_totals_def)
qed

lemma weights_ok_iff:
  "validate_variant_weights vs = Inr () \<longleftrightarrow> (\<forall>v \<in> set vs. wrap64 (language_sum (language v) vs) = 100)"
proof -
  have "validate_variant_weights vs = Inr () \<longleftrightarrow> (\<forall>(l, t) \<in> set (weight_totals vs). t = 100)"
    by (auto simp: validate_variant_weights_def expectedVariantWeightTotal_def split: if_splits)
  also have "\<dots> \<longleftrightarrow> (\<forall>l t. map_of (weight_totals vs) l = Some t \<longrightarrow> t = 100)"
    using distinct_weight_totals [of vs] by (auto simp: map_of_eq_Some_iff)
  also have "\<dots> \<longleftrightarrow> (\<forall>v \<in> set vs. wrap64 (language_sum (language v) vs) = 100)"
    by (auto simp: weight_totals_lookup)
  finally show ?thesis .
qed

definition links_of :: "content \<Rightarrow> string list" where
  "links_of c = concat (map (\<lambda>b. concat (map (\<lambda>a. case a of OpenLinkAction u \<Rightarrow> [u] | _ \<Rightarrow> []) (actions b)))
     (buttons_of c))"

definition secure_screen :: "content \<Rightarrow> bool" where
  "secure_screen c =
     ((\<forall>u \<in> set (links_of c). has_prefix (to_lower u) ''https://'')
      \<and> (\<forall>h. c = HTMLContent h \<longrightarrow> (\<forall>s \<in> set forbiddenHTMLSchemes. \<not> contains (to_lower h) s))
      \<and> (\<forall>m. media_of c = Some m \<longrightarrow> is_content_addressed_url (media_url m)))"

lemma link_errors_Nil: "link_errors a = [] \<longleftrightarrow> (\<forall>u. a = OpenLinkAction u \<longrightarrow> has_allowed_scheme u)"
  by (cases a) auto

lemma secure_screen_iff: "security_errors c = [] \<and> media_errors c = [] \<longleftrightarrow> secure_screen c"
  by (cases c) (auto simp: secure_screen_def media_errors_def links_of_def link_errors_Nil
      has_allowed_scheme_def allowedLinkSchemes_def forbiddenHTMLSchemes_def
      split: option.splits action.splits)

lemma validate_iff:
  "validate q segs msg now = Inr () \<longleftrightarrow>
     win_start (msg_window msg) < win_end (msg_window msg) \<and> now < win_end (msg_window msg)
   \<and> (\<forall>v \<in> set (variants msg). wrap64 (language_sum (language v) (variants msg)) = 100
        \<and> major (schema v) = 1 \<and> (\<forall>c \<in> set (walk_content (variant_content v)). secure_screen c))
   \<and> (audience_ref msg = [] \<or> q \<and> audience_ref msg \<in> set segs)"
proof -
  have t: "validate_temporal_sanity w now = Inr () \<longleftrightarrow> win_start w < win_end w \<and> now < win_end w" for w
    by (auto simp: validate_temporal_sanity_def)
  have s: "validate_schema_version v = Inr () \<longleftrightarrow> major (schema v) = 1" for v
    by (simp add: validate_schema_version_def supports_schema_major_def SupportedMajors_def CurrentMajor_def)
  have c: "validate_content_security v = Inr () \<and> validate_media_ref v = Inr ()
      \<longleftrightarrow> (\<forall>c \<in> set (walk_content (variant_content v)). secure_screen c)" for v
    by (auto simp: validate_content_security_def validate_media_ref_def secure_screen_iff [symmetric])
  have a: "validate_audience_ref q segs r = Inr () \<longleftrightarrow> r = [] \<or> q \<and> r \<in> set segs" for r
    by (simp add: validate_audience_ref_def)
  show ?thesis
    unfolding validate_def using c by (auto simp: t s a weights_ok_iff)
qed

text \<open>
  C20: a message is accepted exactly when it is sound: its window is proper and still open,
  for each language of its variants the weights sum to 100 (as 64-bit integers), each variant
  declares the supported schema, every link on every screen is https whatever its case, no
  markup holds a script scheme, every medium is content-addressed, and its audience is empty
  or an existing segment.
\<close>

theorem validate_accepts_sound:
  "validate q segs msg now = Inr () \<longleftrightarrow>
     win_start (msg_window msg) < win_end (msg_window msg) \<and> now < win_end (msg_window msg)
   \<and> (\<forall>v \<in> set (variants msg). wrap64 (language_sum (language v) (variants msg)) = 100
        \<and> major (schema v) = 1 \<and> (\<forall>c \<in> set (walk_content (variant_content v)). secure_screen c))
   \<and> (audience_ref msg = [] \<or> q \<and> audience_ref msg \<in> set segs)"
  by (rule validate_iff)

definition demo_message :: message where
  "demo_message = \<lparr>msg_id = ''m'', msg_name = ''welcome'', msg_state = StateActive, priority = 1,
     msg_window = \<lparr>win_start = 0, win_end = 100\<rparr>, msg_version = 1, audience_ref = ''s1'',
     policy = \<lparr>per_message_cap = 1, min_interval_between = 0, exempt_from_project_cap = False,
       requires_server_confirmation = False\<rparr>,
     holdout_fraction = 0, experiment_salt = ''salt'', conversion_event = [], triggers = [],
     display_conditions = [],
     variants = [demo_variant\<lparr>variant_content := HTMLContent ''<b>'', weight := 150\<rparr>,
       demo_variant\<lparr>variant_content := DialogContent (demo_presentation\<lparr>media := None,
         buttons := [\<lparr>label = ''x'', actions = [OpenLinkAction ''HTTPS://a'']\<rparr>]\<rparr>), weight := - 50\<rparr>]\<rparr>"

theorem validate_accepts_sound_witness: "validate True [''s0'', ''s1''] demo_message 50 = Inr ()"
  by (subst validate_accepts_sound)
    (auto simp: demo_message_def demo_variant_def demo_presentation_def empty_presentation_def
      walk_content_def secure_screen_def links_of_def has_prefix_def lower_char_def
      forbiddenHTMLSchemes_def wrap64_def char_of_eq_iff)

end
