(* ===== verification/Registry.thy ===== *)
theory Registry
  imports Text
begin

text \<open>
  \<^verbatim>\<open>internal/audience/registry\<close>: the typed attributes a predicate may reference, their
  aggregate granularities, and the normal form of a semantic version, whose byte order is
  the order of the versions.
\<close>

section \<open>Semantic versions\<close>

definition semVerFieldWidth :: nat where "semVerFieldWidth = 10"

definition semver_component :: "string list \<Rightarrow> nat \<Rightarrow> string result" where
  "semver_component parts i =
     (case parse_uint64 (if i < length parts then parts ! i else ''0'') of
        None \<Rightarrow> Inl (Errorf ''registry: component is not a non-negative integer'')
      | Some n \<Rightarrow> Inr (pad_dec semVerFieldWidth n))"

definition normalize_semver :: "string \<Rightarrow> string result" where
  "normalize_semver s =
     (let parts = split_on (CHR ''.'') s in
      if length parts > 3 then Inl (Errorf ''registry: more than three components'')
      else res_bind (map_result (semver_component parts) [0, 1, 2]) (\<lambda>padded. Inr (join ''.'' padded)))"

text \<open>The numbers of a version, a missing component being 0.\<close>

definition semver_numbers :: "string \<Rightarrow> (nat \<times> nat \<times> nat) option" where
  "semver_numbers s =
     (let parts = split_on (CHR ''.'') s; c = (\<lambda>i. if i < length parts then parts ! i else ''0'') in
      if length parts > 3 then None
      else (case (parse_uint64 (c 0), parse_uint64 (c 1), parse_uint64 (c 2)) of
          (Some a, Some b, Some d) \<Rightarrow> Some (a, b, d) | _ \<Rightarrow> None))"

lemma nat_of_dec_Cons: "nat_of_dec (c # s) = digit_val c * 10 ^ length s + nat_of_dec s"
proof (induction s rule: rev_induct)
  case (snoc x xs)
  have "nat_of_dec ((c # xs) @ [x]) = 10 * nat_of_dec (c # xs) + digit_val x"
    by (rule nat_of_dec_snoc)
  with snoc show ?case by simp
qed (simp add: nat_of_dec_def)

lemma digit_val_less: "is_digit c \<Longrightarrow> digit_val c < 10"
  by (auto simp: is_digit_def digit_val_def)

lemma digit_val_less_iff: "is_digit c \<Longrightarrow> is_digit d \<Longrightarrow> digit_val c < digit_val d \<longleftrightarrow> c < d"
  by (auto simp: is_digit_def digit_val_def less_char_def)

lemma digit_val_inject: "is_digit c \<Longrightarrow> is_digit d \<Longrightarrow> digit_val c = digit_val d \<longleftrightarrow> c = d"
  using digit_val_less_iff [of c d] digit_val_less_iff [of d c] by (metis linorder_neq_iff)

lemma nat_of_dec_bound: "list_all is_digit s \<Longrightarrow> nat_of_dec s < 10 ^ length s"
proof (induction s)
  case (Cons c s)
  then have "digit_val c * 10 ^ length s + nat_of_dec s < digit_val c * 10 ^ length s + 10 ^ length s"
    by simp
  also have "\<dots> \<le> 10 * 10 ^ length s"
    using digit_val_less [of c] Cons.prems by (simp flip: mult_Suc add: add.commute)
  finally show ?case by (simp add: nat_of_dec_Cons)
qed simp

lemma dec_less_iff:
  assumes "length s = length t" "list_all is_digit s" "list_all is_digit t"
  shows "s < t \<longleftrightarrow> nat_of_dec s < nat_of_dec t"
  using assms
proof (induction s t rule: list_induct2)
  case (Cons c s d t)
  note b = nat_of_dec_bound [of s] nat_of_dec_bound [of t]
  have key: "a * m + x < b * m + y" if "a < b" "x < m" for a b m x y :: nat
  proof -
    have "a * m + x < Suc a * m" using that(2) by simp
    also have "\<dots> \<le> b * m" using that(1) by (intro mult_le_mono1) simp
    finally show ?thesis by simp
  qed
  consider "c < d" | "c = d" | "d < c" by (rule linorder_cases)
  then show ?case
  proof cases
    case 1
    then have "digit_val c < digit_val d" using Cons.prems digit_val_less_iff by simp
    from key [OF this, of "nat_of_dec s" "10 ^ length s" "nat_of_dec t"] 1 Cons b show ?thesis
      by (simp add: nat_of_dec_Cons)
  next
    case 2
    with Cons show ?thesis by (simp add: nat_of_dec_Cons)
  next
    case 3
    then have "digit_val d < digit_val c" using Cons.prems digit_val_less_iff by simp
    from key [OF this, of "nat_of_dec t" "10 ^ length t" "nat_of_dec s"] Cons.hyps Cons.prems b
    have "\<not> nat_of_dec (c # s) < nat_of_dec (d # t)" by (simp add: nat_of_dec_Cons)
    moreover have "\<not> c # s < d # t" using 3 by auto
    ultimately show ?thesis by simp
  qed
qed simp

lemma append_less_iff:
  "length p = length q \<Longrightarrow> (p @ x < q @ y) \<longleftrightarrow> p < q \<or> (p = q \<and> x < (y :: string))"
  by (induction p q rule: list_induct2) auto

lemma nat_of_dec_zeros: "nat_of_dec (replicate n (CHR ''0'') @ s) = nat_of_dec s"
  by (induction n) (simp_all add: nat_of_dec_Cons digit_val_def)

lemma pad_dec_digits: "list_all is_digit (pad_dec w n)"
  by (auto simp: pad_dec_def list_all_iff is_digit_def dest: dec_of_nat_digits)

lemma nat_of_pad [simp]: "nat_of_dec (pad_dec w n) = n"
  by (simp add: pad_dec_def nat_of_dec_zeros)

lemma length_dec_le: "n < 10 ^ k \<Longrightarrow> 0 < k \<Longrightarrow> length (dec_of_nat n) \<le> k"
proof (induction n arbitrary: k rule: dec_of_nat.induct)
  case (1 n)
  show ?case
  proof (cases "n < 10")
    case True
    with "1.prems" show ?thesis by (subst dec_of_nat.simps) simp
  next
    case False
    from "1.prems" obtain j where j: "k = Suc j" by (cases k) auto
    with False "1.prems" have "0 < j" by (cases j) auto
    with j have k: "k = Suc j" "0 < j" by auto
    with "1.prems" have "n div 10 < 10 ^ j" by (simp add: less_mult_imp_div_less mult.commute)
    with "1.IH" [OF False this k(2)] False k show ?thesis by (subst dec_of_nat.simps) simp
  qed
qed

lemma length_pad_dec: "n < 10 ^ w \<Longrightarrow> 0 < w \<Longrightarrow> length (pad_dec w n) = w"
  using length_dec_le [of n w] by (simp add: pad_dec_def)

lemma pad_less_iff:
  "m < 10 ^ w \<Longrightarrow> n < 10 ^ w \<Longrightarrow> 0 < w \<Longrightarrow> pad_dec w m < pad_dec w n \<longleftrightarrow> m < n"
  by (simp add: dec_less_iff length_pad_dec pad_dec_digits)

lemma pad_inject: "pad_dec w m = pad_dec w n \<longleftrightarrow> m = n"
  by (metis nat_of_pad)

lemma normalize_semver_numbers:
  "semver_numbers s = Some (a, b, d) \<Longrightarrow>
     normalize_semver s = Inr (pad_dec 10 a @ ''.'' @ pad_dec 10 b @ ''.'' @ pad_dec 10 d)"
  by (auto simp: semver_numbers_def normalize_semver_def semver_component_def semVerFieldWidth_def Let_def
      split: if_splits option.splits)

lemma normalize_semver_error:
  "semver_numbers s = None \<Longrightarrow> \<exists>e. normalize_semver s = Inl e"
  by (auto simp: semver_numbers_def normalize_semver_def semver_component_def Let_def
      split: if_splits option.splits)

section \<open>Attributes\<close>

datatype attribute_type =
    TypeString
  | TypeNumber
  | TypeBool
  | TypeTimestamp
  | TypeSemVer
  | TypeStringSet
  | OtherType string

datatype source =
    SourceChannelField
  | SourceUserAttribute
  | SourceTag
  | SourceEventAggregate
  | OtherSource string

definition AggregateGranularityDay :: string where "AggregateGranularityDay = ''day''"

definition aggregate_bucket :: "string \<Rightarrow> duration option" where
  "aggregate_bucket g =
     (if g = ''hour'' then Some hour
      else if g = AggregateGranularityDay then Some (24 * hour)
      else if g = ''week'' then Some (7 * 24 * hour)
      else None)"

definition granularity_carries :: "string \<Rightarrow> string \<Rightarrow> bool result" where
  "granularity_carries have_g want =
     (case aggregate_bucket have_g of
        None \<Rightarrow> Inl (Errorf ''registry: unknown aggregate granularity'')
      | Some h \<Rightarrow> (case aggregate_bucket want of
          None \<Rightarrow> Inl (Errorf ''registry: unknown aggregate granularity'')
        | Some w \<Rightarrow> Inr (h \<le> w)))"

record attribute =
  attr_name :: string
  attr_type :: attribute_type
  attr_source :: source
  confidential :: bool
  aggregate_granularity :: string
  aggregate_event_name :: string
  aggregate_window_days :: int

record registry =
  reg_defs :: "string \<rightharpoonup> attribute"

fun register_all :: "attribute list \<Rightarrow> (string \<rightharpoonup> attribute) \<Rightarrow> registry result" where
  "register_all [] m = Inr \<lparr>reg_defs = m\<rparr>"
| "register_all (d # ds) m =
     (if attr_name d = [] then Inl (Errorf ''registry: attribute definition has an empty name'')
      else if m (attr_name d) \<noteq> None then Inl (Errorf ''registry: duplicate attribute name'')
      else if attr_source d = SourceEventAggregate \<and> aggregate_granularity d = [] then
        Inl (Errorf ''registry: event aggregate names no granularity'')
      else if attr_source d = SourceEventAggregate \<and> aggregate_event_name d = [] then
        Inl (Errorf ''registry: event aggregate names no event'')
      else if attr_source d = SourceEventAggregate \<and> aggregate_window_days d \<le> 0 then
        Inl (Errorf ''registry: event aggregate has a non-positive window'')
      else register_all ds (m(attr_name d \<mapsto> d)))"

definition new_registry :: "attribute list \<Rightarrow> registry result" where
  "new_registry ds = register_all ds Map.empty"

definition lookup_attribute :: "registry \<Rightarrow> string \<Rightarrow> attribute option" where
  "lookup_attribute r name = reg_defs r name"

datatype cel_type = CelString | CelDouble | CelBool | CelTimestamp | CelList cel_type

fun cel_type_of :: "attribute_type \<Rightarrow> cel_type result" where
  "cel_type_of TypeString = Inr CelString"
| "cel_type_of TypeSemVer = Inr CelString"
| "cel_type_of TypeNumber = Inr CelDouble"
| "cel_type_of TypeBool = Inr CelBool"
| "cel_type_of TypeTimestamp = Inr CelTimestamp"
| "cel_type_of TypeStringSet = Inr (CelList CelString)"
| "cel_type_of (OtherType _) = Inl (Errorf ''registry: unknown attribute type'')"

lemma register_all_keeps:
  "register_all ds m = Inr r \<Longrightarrow> m n = Some d \<Longrightarrow> reg_defs r n = Some d"
proof (induction ds arbitrary: m)
  case (Cons a ds)
  from Cons.prems have "register_all ds (m(attr_name a \<mapsto> a)) = Inr r" "m (attr_name a) = None"
    by (auto split: if_splits)
  moreover from this(2) Cons.prems(2) have "(m(attr_name a \<mapsto> a)) n = Some d" by auto
  ultimately show ?case by (intro Cons.IH)
qed auto

lemma register_all_sound:
  assumes "register_all ds m = Inr r" "reg_defs r n = Some d" "m n = None"
  shows "d \<in> set ds \<and> attr_name d = n \<and> n \<noteq> [] \<and> (attr_source d = SourceEventAggregate \<longrightarrow>
           aggregate_granularity d \<noteq> [] \<and> aggregate_event_name d \<noteq> [] \<and> 0 < aggregate_window_days d)"
  using assms
proof (induction ds arbitrary: m)
  case (Cons a ds)
  show ?case
  proof (cases "attr_name a = n")
    case True
    from Cons.prems(1) have rest: "register_all ds (m(attr_name a \<mapsto> a)) = Inr r"
      by (auto split: if_splits)
    from register_all_keeps [OF this, of n a] True Cons.prems(2) have "a = d" by simp
    with True Cons.prems(1) show ?thesis by (auto split: if_splits)
  next
    case False
    from Cons.prems(1) have "register_all ds (m(attr_name a \<mapsto> a)) = Inr r"
      by (auto split: if_splits)
    moreover from False Cons.prems(3) have "(m(attr_name a \<mapsto> a)) n = None" by simp
    ultimately show ?thesis using Cons.IH Cons.prems(2) by (metis list.set_intros(2))
  qed
qed auto

text \<open>
  Byte order on normal forms is version order: two versions whose components have at most
  ten digits normalise, and their normal forms compare as their numbers do.
\<close>

theorem semver_order:
  assumes "semver_numbers s = Some (a, b, c)" "semver_numbers t = Some (x, y, z)"
    and "a < 10 ^ 10" "b < 10 ^ 10" "c < 10 ^ 10" "x < 10 ^ 10" "y < 10 ^ 10" "z < 10 ^ 10"
  shows "\<exists>ns nt. normalize_semver s = Inr ns \<and> normalize_semver t = Inr nt
    \<and> (ns < nt \<longleftrightarrow> a < x \<or> a = x \<and> (b < y \<or> b = y \<and> c < z))
    \<and> (ns = nt \<longleftrightarrow> (a, b, c) = (x, y, z))"
proof -
  have l: "length (pad_dec 10 n) = 10" if "n < 10 ^ 10" for n
    using length_pad_dec [OF that] by simp
  have p: "pad_dec 10 m < pad_dec 10 n \<longleftrightarrow> m < n" if "m < 10 ^ 10" "n < 10 ^ 10" for m n
    using pad_less_iff [OF that] by simp
  have "pad_dec 10 a @ ''.'' @ pad_dec 10 b @ ''.'' @ pad_dec 10 c
      < pad_dec 10 x @ ''.'' @ pad_dec 10 y @ ''.'' @ pad_dec 10 z
    \<longleftrightarrow> a < x \<or> a = x \<and> (b < y \<or> b = y \<and> c < z)"
    using assms(3-) by (simp add: append_less_iff l p pad_inject)
  moreover have "pad_dec 10 a @ ''.'' @ pad_dec 10 b @ ''.'' @ pad_dec 10 c
      = pad_dec 10 x @ ''.'' @ pad_dec 10 y @ ''.'' @ pad_dec 10 z
    \<longleftrightarrow> (a, b, c) = (x, y, z)"
    using assms(3-) by (simp add: append_eq_append_conv l pad_inject)
  ultimately show ?thesis
    using normalize_semver_numbers [OF assms(1)] normalize_semver_numbers [OF assms(2)] by blast
qed

theorem semver_order_witness:
  "\<exists>ns nt. normalize_semver ''2.9'' = Inr ns \<and> normalize_semver ''2.10.0'' = Inr nt \<and> ns < nt"
proof -
  have "semver_numbers ''2.9'' = Some (2, 9, 0)" "semver_numbers ''2.10.0'' = Some (2, 10, 0)"
    by (simp_all add: semver_numbers_def parse_uint64_def nat_of_dec_def digit_val_def is_digit_def)
  from semver_order [OF this] show ?thesis by auto
qed

end
