(* ===== verification/SavedPredicate.thy ===== *)
theory SavedPredicate
  imports Registry Float64 Sha256
begin

text \<open>
  \<^verbatim>\<open>internal/audience/predicate\<close>: what a predicate must satisfy to be saved, on top of the
  CEL type checker, and the environment its names are declared in. A CEL expression is a
  tree of the kinds the CEL library has; its parser, its checker and its serialisation are
  parameters.
\<close>

section \<open>Expressions\<close>

datatype cel_value =
    VBool bool
  | VDouble rat
  | VString string
  | VTimestamp time
  | VInt int
  | VUint nat
  | VOther

text \<open>A call keeps its receiver apart from its arguments; a comprehension its five parts in order.\<close>

datatype cel_expr =
    CallE string "cel_expr option" "cel_expr list"
  | ComprehensionE "cel_expr list"
  | IdentE string
  | ListE "cel_expr list"
  | LiteralE cel_value
  | MapE "(cel_expr \<times> cel_expr) list"
  | SelectE cel_expr string
  | StructE string "(string \<times> cel_expr) list"

text \<open>\<^verbatim>\<open>celast.PreOrderVisit\<close>: the nodes in the order they are visited.\<close>

function pre_order :: "cel_expr \<Rightarrow> cel_expr list" where
  "pre_order (CallE f None args) = CallE f None args # concat (map pre_order args)"
| "pre_order (CallE f (Some t) args) = CallE f (Some t) args # pre_order t @ concat (map pre_order args)"
| "pre_order (ComprehensionE es) = ComprehensionE es # concat (map pre_order es)"
| "pre_order (IdentE n) = [IdentE n]"
| "pre_order (ListE es) = ListE es # concat (map pre_order es)"
| "pre_order (LiteralE v) = [LiteralE v]"
| "pre_order (MapE kvs) = MapE kvs # concat (map (\<lambda>(k, v). pre_order k @ pre_order v) kvs)"
| "pre_order (SelectE e f) = SelectE e f # pre_order e"
| "pre_order (StructE n fs) = StructE n fs # concat (map (\<lambda>(k, v). pre_order v) fs)"
  by pat_completeness auto
termination
  by (relation "measure size")
    (auto simp: less_Suc_eq_le dest!: size_list_estimation' [where f = size and y = "_", rotated]
      intro: size_list_estimation' le_SucI trans_le_add2 elim!: in_set_conv_decomp [THEN iffD1, THEN exE])

section \<open>The environment\<close>

definition semverFunctionName :: string where "semverFunctionName = ''semver''"

datatype env_option =
    EnvVariable string cel_type
  | EnvFunction string string "cel_type list" cel_type

text \<open>
  The options passed to \<^verbatim>\<open>cel.NewEnv\<close>; the definitions come in the order of a Go map, here the
  order of the list.
\<close>

definition build_env_options :: "attribute list \<Rightarrow> env_option list result" where
  "build_env_options ds =
     res_bind (map_result (\<lambda>d. res_bind (cel_type_of (attr_type d)) (\<lambda>t. Inr (EnvVariable (attr_name d) t))) ds)
       (\<lambda>opts. Inr (opts @ [EnvFunction semverFunctionName (semverFunctionName @ ''_string'') [CelString] CelString]))"

definition build_env :: "(env_option list \<Rightarrow> 'env result) \<Rightarrow> attribute list \<Rightarrow> 'env result" where
  "build_env new_env ds =
     res_bind (build_env_options ds) (\<lambda>opts. wrap_err ''predicate: build environment'' (new_env opts))"

definition semver_binding :: "cel_value \<Rightarrow> cel_value result" where
  "semver_binding v = (case v of
     VString s \<Rightarrow> res_bind (normalize_semver s) (\<lambda>n. Inr (VString n))
   | _ \<Rightarrow> Inl (Errorf ''no such overload''))"

section \<open>The checks of a saved predicate\<close>

definition comparisonOperators :: "string list" where
  "comparisonOperators = [''_==_'', ''_!=_'', ''_<_'', ''_<=_'', ''_>_'', ''_>=_'']"

fun semver_arg_error :: "registry \<Rightarrow> cel_expr list \<Rightarrow> go_error option" where
  "semver_arg_error reg [] = None"
| "semver_arg_error reg (IdentE name # args) =
     (case lookup_attribute reg name of
        Some d \<Rightarrow> if attr_type d = TypeSemVer
          then Some (Errorf ''predicate: a semver attribute must be compared via semver(...)'')
          else semver_arg_error reg args
      | None \<Rightarrow> semver_arg_error reg args)"
| "semver_arg_error reg (a # args) = semver_arg_error reg args"

fun semver_node_error :: "registry \<Rightarrow> cel_expr \<Rightarrow> go_error option" where
  "semver_node_error reg (CallE f _ args) =
     (if f \<notin> set comparisonOperators then None else semver_arg_error reg args)"
| "semver_node_error reg _ = None"

definition requestedAggregateGranularity :: string where
  "requestedAggregateGranularity = AggregateGranularityDay"

fun aggregate_node_error :: "registry \<Rightarrow> cel_expr \<Rightarrow> go_error option" where
  "aggregate_node_error reg (IdentE name) =
     (case lookup_attribute reg name of
        None \<Rightarrow> None
      | Some d \<Rightarrow>
          if attr_source d \<noteq> SourceEventAggregate then None
          else (case granularity_carries (aggregate_granularity d) requestedAggregateGranularity of
              Inl e \<Rightarrow> Some (Wrap ''predicate'' e)
            | Inr carries \<Rightarrow> if \<not> carries then Some (Errorf ''predicate: granularity too coarse'') else None))"
| "aggregate_node_error reg _ = None"

text \<open>The visitor keeps the first error it meets.\<close>

fun first_error :: "(cel_expr \<Rightarrow> go_error option) \<Rightarrow> cel_expr list \<Rightarrow> unit result" where
  "first_error visit [] = Inr ()"
| "first_error visit (e # es) = (case visit e of Some err \<Rightarrow> Inl err | None \<Rightarrow> first_error visit es)"

definition validate_semver_usage :: "cel_expr \<Rightarrow> registry \<Rightarrow> unit result" where
  "validate_semver_usage a reg = first_error (semver_node_error reg) (pre_order a)"

definition validate_aggregate_granularity :: "cel_expr \<Rightarrow> registry \<Rightarrow> unit result" where
  "validate_aggregate_granularity a reg = first_error (aggregate_node_error reg) (pre_order a)"

record predicate =
  pred_source :: string
  pred_tree :: string
  pred_hash :: string

text \<open>
  \<open>parse\<close> is \<^verbatim>\<open>env.Compile\<close>, \<open>serialise\<close> is \<^verbatim>\<open>AstToCheckedExpr\<close> followed by \<^verbatim>\<open>protojson.Marshal\<close>, and
  \<open>deserialise\<close> reads that text back.
\<close>

definition compile_predicate ::
  "(string \<Rightarrow> cel_expr result) \<Rightarrow> (cel_expr \<Rightarrow> string result) \<Rightarrow> registry \<Rightarrow> string \<Rightarrow> predicate result" where
  "compile_predicate parse serialise reg src =
     res_bind (wrap_err ''predicate: compile'' (parse src)) (\<lambda>a.
       res_bind (validate_semver_usage a reg) (\<lambda>_.
         res_bind (validate_aggregate_granularity a reg) (\<lambda>_.
           res_bind (wrap_err ''predicate: marshal tree'' (serialise a)) (\<lambda>t.
             Inr \<lparr>pred_source = src, pred_tree = t, pred_hash = hex_encode (sha256 t)\<rparr>))))"

definition load_predicate :: "(string \<Rightarrow> cel_expr result) \<Rightarrow> predicate \<Rightarrow> cel_expr result" where
  "load_predicate deserialise p = wrap_err ''predicate: unmarshal tree'' (deserialise (pred_tree p))"

section \<open>What a saved predicate satisfies\<close>

lemma first_error_ok: "first_error visit es = Inr u \<longleftrightarrow> (\<forall>e \<in> set es. visit e = None)"
  by (induction es) (auto split: option.splits)

lemma semver_arg_iff:
  "semver_arg_error reg args = None \<longleftrightarrow>
     (\<forall>n d. IdentE n \<in> set args \<longrightarrow> lookup_attribute reg n = Some d \<longrightarrow> attr_type d \<noteq> TypeSemVer)"
  by (induction reg args rule: semver_arg_error.induct) (auto split: option.splits if_splits)

lemma semver_usage_iff:
  "validate_semver_usage a reg = Inr () \<longleftrightarrow>
     (\<forall>f t args n d. CallE f t args \<in> set (pre_order a) \<longrightarrow> f \<in> set comparisonOperators
        \<longrightarrow> IdentE n \<in> set args \<longrightarrow> lookup_attribute reg n = Some d \<longrightarrow> attr_type d \<noteq> TypeSemVer)"
proof -
  have "semver_node_error reg e = None \<longleftrightarrow>
      (\<forall>f t args. e = CallE f t args \<longrightarrow> f \<in> set comparisonOperators \<longrightarrow> semver_arg_error reg args = None)" for e
    by (cases e) simp_all
  then show ?thesis unfolding validate_semver_usage_def first_error_ok semver_arg_iff by blast
qed

lemma compile_predicate_ok:
  assumes "compile_predicate parse serialise reg src = Inr p"
  obtains a where "parse src = Inr a" "serialise a = Inr (pred_tree p)"
    "validate_semver_usage a reg = Inr ()" "validate_aggregate_granularity a reg = Inr ()"
    "pred_hash p = hex_encode (sha256 (pred_tree p))" "pred_source p = src"
  using assms by (auto simp: compile_predicate_def res_bind_Inr_iff)

lemma granularity_day: "granularity_carries g requestedAggregateGranularity = Inr True \<longleftrightarrow> g \<in> {''hour'', ''day''}"
  by (auto simp: granularity_carries_def aggregate_bucket_def requestedAggregateGranularity_def
      AggregateGranularityDay_def hour_def minute_def second_def split: option.splits if_splits)

lemma aggregate_granularity_iff:
  "validate_aggregate_granularity a reg = Inr () \<longleftrightarrow>
     (\<forall>n d. IdentE n \<in> set (pre_order a) \<longrightarrow> lookup_attribute reg n = Some d
        \<longrightarrow> attr_source d = SourceEventAggregate \<longrightarrow> aggregate_granularity d \<in> {''hour'', ''day''})"
proof -
  have "(case granularity_carries g requestedAggregateGranularity of
      Inl e \<Rightarrow> Some (Wrap ''predicate'' e) | Inr carries \<Rightarrow> if \<not> carries then Some (Errorf m) else None) = None
      \<longleftrightarrow> g \<in> {''hour'', ''day''}" for g m
    using granularity_day [of g] by (auto split: sum.splits)
  then have "aggregate_node_error reg e = None \<longleftrightarrow>
      (\<forall>n d. e = IdentE n \<longrightarrow> lookup_attribute reg n = Some d \<longrightarrow> attr_source d = SourceEventAggregate
         \<longrightarrow> aggregate_granularity d \<in> {''hour'', ''day''})" for e
    by (cases e) (auto split: option.split)
  then show ?thesis unfolding validate_aggregate_granularity_def first_error_ok by blast
qed

text \<open>
  C29: whatever the parser, what is saved of a source is a tree it parses to, with the digest of that tree, and the tree reads
  back; and it is saved exactly when none of the six comparison operators has an attribute that is a semantic version
  among its arguments, and every aggregate the tree names is kept by the hour or by the day. Any other operator may
  take such an attribute: \<open>version_in_list_is_saved\<close> below.
\<close>

theorem saved_predicate_sound:
  assumes "\<And>a t. serialise a = Inr t \<Longrightarrow> deserialise t = Inr a"
  shows "compile_predicate parse serialise reg src = Inr p \<longleftrightarrow>
    (\<exists>a. parse src = Inr a \<and> serialise a = Inr (pred_tree p) \<and> load_predicate deserialise p = Inr a
      \<and> pred_source p = src \<and> pred_hash p = hex_encode (sha256 (pred_tree p))
      \<and> (\<forall>f t args n d. CallE f t args \<in> set (pre_order a) \<longrightarrow> f \<in> set comparisonOperators
           \<longrightarrow> IdentE n \<in> set args \<longrightarrow> lookup_attribute reg n = Some d \<longrightarrow> attr_type d \<noteq> TypeSemVer)
      \<and> (\<forall>n d. IdentE n \<in> set (pre_order a) \<longrightarrow> lookup_attribute reg n = Some d
           \<longrightarrow> attr_source d = SourceEventAggregate \<longrightarrow> aggregate_granularity d \<in> {''hour'', ''day''}))"
proof -
  have "compile_predicate parse serialise reg src = Inr p \<longleftrightarrow>
    (\<exists>a. parse src = Inr a \<and> validate_semver_usage a reg = Inr () \<and> validate_aggregate_granularity a reg = Inr ()
      \<and> serialise a = Inr (pred_tree p) \<and> pred_source p = src \<and> pred_hash p = hex_encode (sha256 (pred_tree p)))"
    by (cases p) (auto simp: compile_predicate_def res_bind_Inr_iff)
  moreover have "serialise a = Inr (pred_tree p) \<Longrightarrow> load_predicate deserialise p = Inr a" for a
    by (simp add: load_predicate_def assms)
  ultimately show ?thesis unfolding semver_usage_iff aggregate_granularity_iff by blast
qed

definition demo_attribute :: attribute where
  "demo_attribute = \<lparr>attr_name = ''app_version'', attr_type = TypeSemVer, attr_source = SourceChannelField,
     confidential = False, aggregate_granularity = [], aggregate_event_name = [], aggregate_window_days = 0\<rparr>"

definition demo_predicate_expr :: cel_expr where
  "demo_predicate_expr = CallE ''_>=_'' None
     [CallE ''semver'' None [IdentE ''app_version''], CallE ''semver'' None [LiteralE (VString ''2.9.0'')]]"

definition demo_serialise :: "cel_expr \<Rightarrow> cel_expr \<Rightarrow> string result" where
  "demo_serialise tree a = (if a = tree then Inr ''tree'' else Inl IOFailure)"

theorem saved_predicate_sound_witness:
  "\<exists>p. compile_predicate (\<lambda>_. Inr demo_predicate_expr) (demo_serialise demo_predicate_expr)
         \<lparr>reg_defs = [''app_version'' \<mapsto> demo_attribute]\<rparr> ''src'' = Inr p
     \<and> load_predicate (\<lambda>_. Inr demo_predicate_expr) p = Inr demo_predicate_expr"
proof -
  let ?p = "\<lparr>pred_source = ''src'', pred_tree = ''tree'', pred_hash = hex_encode (sha256 ''tree'')\<rparr>"
  have reads: "demo_serialise demo_predicate_expr a = Inr t \<Longrightarrow> Inr demo_predicate_expr = (Inr a :: cel_expr result)" for a t
    by (simp add: demo_serialise_def split: if_splits)
  have "compile_predicate (\<lambda>_. Inr demo_predicate_expr) (demo_serialise demo_predicate_expr)
         \<lparr>reg_defs = [''app_version'' \<mapsto> demo_attribute]\<rparr> ''src'' = Inr ?p"
    by (rule saved_predicate_sound [OF reads, THEN iffD2], assumption)
      (auto simp: load_predicate_def demo_serialise_def demo_predicate_expr_def comparisonOperators_def
        lookup_attribute_def demo_attribute_def)
  then show ?thesis by (auto simp: load_predicate_def)
qed

text \<open>Membership in a list compares versions as strings, and is saved.\<close>

lemma version_in_list_is_saved:
  defines "tree \<equiv> CallE ''@in'' None [IdentE ''app_version'', ListE [LiteralE (VString ''2.9'')]]"
  shows "is_ok (compile_predicate (\<lambda>_. Inr tree) (demo_serialise tree) \<lparr>reg_defs = [''app_version'' \<mapsto> demo_attribute]\<rparr>
    ''app_version in [\"2.9\"]'')"
  by (simp add: compile_predicate_def demo_serialise_def validate_semver_usage_def validate_aggregate_granularity_def tree_def
      comparisonOperators_def lookup_attribute_def demo_attribute_def)

section \<open>The registry the tests share\<close>

text \<open>
  \<^verbatim>\<open>audience/audiencetest\<close>: one attribute of every type and every source. Its construction panics when the registry
  refuses it, which it does not, and its environment can be built.
\<close>

definition fixture_attribute :: "string \<Rightarrow> attribute_type \<Rightarrow> source \<Rightarrow> attribute" where
  "fixture_attribute name ty src = \<lparr>attr_name = name, attr_type = ty, attr_source = src, confidential = False,
     aggregate_granularity = [], aggregate_event_name = [], aggregate_window_days = 0\<rparr>"

definition fixture_attributes :: "attribute list" where
  "fixture_attributes =
     [fixture_attribute ''app_version'' TypeSemVer SourceChannelField,
      fixture_attribute ''country'' TypeString SourceChannelField,
      fixture_attribute ''total_distance_km'' TypeNumber SourceUserAttribute,
      (fixture_attribute ''is_premium'' TypeBool SourceUserAttribute)\<lparr>confidential := True\<rparr>,
      fixture_attribute ''registered_at'' TypeTimestamp SourceUserAttribute,
      fixture_attribute ''favorite_routes'' TypeStringSet SourceTag,
      (fixture_attribute ''route_screen_views_7d'' TypeNumber SourceEventAggregate)
        \<lparr>aggregate_granularity := AggregateGranularityDay, aggregate_event_name := ''route_screen_view'', aggregate_window_days := 7\<rparr>]"

definition fixture_registry :: "registry result" where
  "fixture_registry = new_registry fixture_attributes"

definition fixture_env :: "(env_option list \<Rightarrow> 'env result) \<Rightarrow> 'env result" where
  "fixture_env new_env = build_env new_env fixture_attributes"

lemma fixture_does_not_panic: "is_ok fixture_registry" "is_ok (fixture_env Inr)"
  by code_simp+

end
