(* ===== verification/Eval.thy ===== *)
theory Eval
  imports SavedPredicate
begin

text \<open>
  \<^verbatim>\<open>internal/audience/eval\<close>: row-wise evaluation of a predicate with a cache of compiled
  programs keyed by the hash of the predicate. The CEL planner and interpreter are
  parameters: \<open>plan\<close> turns a tree into a program, \<open>run\<close> evaluates a program on the
  attributes of a channel.
\<close>

record 'prog evaluator =
  programs :: "string \<rightharpoonup> 'prog"

definition new_evaluator :: "'prog evaluator" where
  "new_evaluator = \<lparr>programs = Map.empty\<rparr>"

definition program ::
  "(string \<Rightarrow> cel_expr result) \<Rightarrow> (cel_expr \<Rightarrow> 'prog result) \<Rightarrow> 'prog evaluator \<Rightarrow> predicate
     \<Rightarrow> 'prog result \<times> 'prog evaluator" where
  "program deserialise plan ev p =
     (case programs ev (pred_hash p) of
        Some prog \<Rightarrow> (Inr prog, ev)
      | None \<Rightarrow>
          (case load_predicate deserialise p of
             Inl e \<Rightarrow> (Inl e, ev)
           | Inr a \<Rightarrow>
               (case plan a of
                  Inl e \<Rightarrow> (Inl (Wrap ''eval: plan program'' e), ev)
                | Inr prog \<Rightarrow> (Inr prog, ev\<lparr>programs := (programs ev)(pred_hash p \<mapsto> prog)\<rparr>))))"

definition run_program :: "('prog \<Rightarrow> 'attrs \<Rightarrow> cel_value result) \<Rightarrow> 'prog \<Rightarrow> 'attrs \<Rightarrow> bool result" where
  "run_program run prog attrs =
     res_bind (wrap_err ''eval: evaluate predicate'' (run prog attrs)) (\<lambda>v.
       case v of VBool b \<Rightarrow> Inr b | _ \<Rightarrow> Inl (Errorf ''eval: predicate did not evaluate to bool''))"

definition evaluate ::
  "(string \<Rightarrow> cel_expr result) \<Rightarrow> (cel_expr \<Rightarrow> 'prog result) \<Rightarrow> ('prog \<Rightarrow> 'attrs \<Rightarrow> cel_value result)
     \<Rightarrow> 'prog evaluator \<Rightarrow> predicate \<Rightarrow> 'attrs \<Rightarrow> bool result \<times> 'prog evaluator" where
  "evaluate deserialise plan run ev p attrs =
     (case program deserialise plan ev p of
        (Inl e, ev') \<Rightarrow> (Inl e, ev')
      | (Inr prog, ev') \<Rightarrow> (run_program run prog attrs, ev'))"

text \<open>A sequence of evaluations on one evaluator, as requests make them.\<close>

fun evaluate_all ::
  "(string \<Rightarrow> cel_expr result) \<Rightarrow> (cel_expr \<Rightarrow> 'prog result) \<Rightarrow> ('prog \<Rightarrow> 'attrs \<Rightarrow> cel_value result)
     \<Rightarrow> 'prog evaluator \<Rightarrow> (predicate \<times> 'attrs) list \<Rightarrow> bool result list \<times> 'prog evaluator" where
  "evaluate_all ds plan run ev [] = ([], ev)"
| "evaluate_all ds plan run ev ((p, attrs) # reqs) =
     (let (r, ev1) = evaluate ds plan run ev p attrs; (rs, ev2) = evaluate_all ds plan run ev1 reqs
      in (r # rs, ev2))"

definition fresh_evaluate ::
  "(string \<Rightarrow> cel_expr result) \<Rightarrow> (cel_expr \<Rightarrow> 'prog result) \<Rightarrow> ('prog \<Rightarrow> 'attrs \<Rightarrow> cel_value result)
     \<Rightarrow> predicate \<Rightarrow> 'attrs \<Rightarrow> bool result" where
  "fresh_evaluate ds plan run p attrs = fst (evaluate ds plan run new_evaluator p attrs)"

definition coherent ::
  "(string \<Rightarrow> cel_expr result) \<Rightarrow> (cel_expr \<Rightarrow> 'prog result) \<Rightarrow> (string \<Rightarrow> string option) \<Rightarrow> 'prog evaluator \<Rightarrow> bool" where
  "coherent ds plan tree_of ev =
     (\<forall>h prog. programs ev h = Some prog \<longrightarrow>
        (\<exists>t a. tree_of h = Some t \<and> ds t = Inr a \<and> plan a = Inr prog))"

lemma evaluate_coherent:
  assumes "coherent ds plan tree_of ev" "tree_of (pred_hash p) = Some (pred_tree p)"
  shows "fst (evaluate ds plan run ev p attrs) = fresh_evaluate ds plan run p attrs
    \<and> coherent ds plan tree_of (snd (evaluate ds plan run ev p attrs))"
proof (cases "programs ev (pred_hash p)")
  case (Some prog)
  with assms obtain a where "ds (pred_tree p) = Inr a" "plan a = Inr prog"
    unfolding coherent_def by (metis option.inject)
  with Some assms(1) show ?thesis
    by (simp add: evaluate_def program_def fresh_evaluate_def new_evaluator_def load_predicate_def)
next
  case None
  with assms show ?thesis
    by (auto simp: evaluate_def program_def fresh_evaluate_def new_evaluator_def load_predicate_def
        coherent_def wrap_err_def split: sum.splits)
qed

lemma evaluate_all_coherent:
  assumes "coherent ds plan tree_of ev" "\<forall>(p, attrs) \<in> set reqs. tree_of (pred_hash p) = Some (pred_tree p)"
  shows "fst (evaluate_all ds plan run ev reqs) = map (\<lambda>(p, attrs). fresh_evaluate ds plan run p attrs) reqs"
  using assms
proof (induction reqs arbitrary: ev)
  case (Cons r reqs)
  obtain p attrs where r: "r = (p, attrs)" by (cases r)
  from evaluate_coherent [OF Cons.prems(1), of p run attrs] Cons.prems(2) r Cons.IH show ?case
    by (auto simp: split_beta Let_def)
qed simp

text \<open>
  C30: the program cache is transparent: as long as a hash stands for one tree, any sequence of
  evaluations on one evaluator answers what a fresh evaluator would answer for each, errors
  included.
\<close>

theorem program_cache_transparent:
  assumes "\<forall>(p, attrs) \<in> set reqs. tree_of (pred_hash p) = Some (pred_tree p)"
  shows "fst (evaluate_all ds plan run new_evaluator reqs)
    = map (\<lambda>(p, attrs). fresh_evaluate ds plan run p attrs) reqs"
  using assms by (intro evaluate_all_coherent [where tree_of = tree_of])
    (auto simp: coherent_def new_evaluator_def)

definition demo_pred :: "string \<Rightarrow> string \<Rightarrow> predicate" where
  "demo_pred t h = \<lparr>pred_source = [], pred_tree = t, pred_hash = h\<rparr>"

definition demo_ds :: "string \<Rightarrow> cel_expr result" where "demo_ds t = Inr (IdentE t)"

definition demo_run :: "cel_expr \<Rightarrow> string \<Rightarrow> cel_value result" where
  "demo_run a attrs = Inr (VBool (a = IdentE attrs))"

theorem program_cache_transparent_witness:
  "fst (evaluate_all demo_ds Inr demo_run new_evaluator
      [(demo_pred ''a'' ''1'', ''a''), (demo_pred ''b'' ''2'', ''a''), (demo_pred ''a'' ''1'', ''b'')])
   = [Inr True, Inr False, Inr False]"
  by (subst program_cache_transparent [where tree_of = "[''1'' \<mapsto> ''a'', ''2'' \<mapsto> ''b'']"])
    (simp_all add: demo_pred_def fresh_evaluate_def evaluate_def program_def load_predicate_def
      run_program_def demo_ds_def demo_run_def new_evaluator_def)

text \<open>A predicate that has no hash, as the segment store loads it, is answered by the first such one.\<close>

lemma evaluate_unhashed:
  assumes "pred_hash p = pred_hash q" "ds (pred_tree p) = Inr a" "plan a = Inr prog"
  shows "fst (evaluate ds plan run (snd (evaluate ds plan run new_evaluator p x)) q y) = run_program run prog y"
  using assms by (simp add: evaluate_def program_def new_evaluator_def load_predicate_def)

end
