(* ===== verification/SqlCompile.thy ===== *)
theory SqlCompile
  imports SavedPredicate "HOL-Library.Multiset"
begin

text \<open>
  \<^verbatim>\<open>internal/audience/sqlcompile\<close>: the compiler of a predicate tree to the text of a SQL
  condition and its positional arguments. Nothing an author chooses is in the text, every
  argument is referred to exactly once, and a construct outside the supported fragment is
  an error. \<^verbatim>\<open>time.Parse\<close> is the parameter \<open>parse_time\<close>.
\<close>

section \<open>The compiler\<close>

datatype sql_arg =
    ABool bool
  | ADouble rat
  | AString string
  | ATime time
  | AInt int
  | AUint nat
  | AStrings "string list"

text \<open>The argument list only grows; the result of a step is the text and the new list.\<close>

type_synonym compiled = "(string \<times> sql_arg list) result"

definition placeholder :: "sql_arg \<Rightarrow> sql_arg list \<Rightarrow> string \<times> sql_arg list" where
  "placeholder a args = (''$'' @ dec_of_nat (length args + 1), args @ [a])"

definition comparison_sql :: "string \<Rightarrow> string option" where
  "comparison_sql f =
     (if f = ''_==_'' then Some ''='' else if f = ''_!=_'' then Some ''<>''
      else if f = ''_<_'' then Some ''<'' else if f = ''_<=_'' then Some ''<=''
      else if f = ''_>_'' then Some ''>'' else if f = ''_>=_'' then Some ''>='' else None)"

fun kind_name :: "cel_expr \<Rightarrow> string" where
  "kind_name (CallE _ _ _) = ''call''"
| "kind_name (ComprehensionE _) = ''comprehension''"
| "kind_name (IdentE _) = ''identifier''"
| "kind_name (ListE _) = ''list''"
| "kind_name (LiteralE _) = ''literal''"
| "kind_name (MapE _) = ''map''"
| "kind_name (SelectE _ _) = ''field selection''"
| "kind_name (StructE _ _) = ''struct''"

definition unsupported :: "string \<Rightarrow> 'a result" where
  "unsupported what = Inl (Errorf (''sqlcompile: unsupported construct: '' @ what))"

definition arity_error :: "string \<Rightarrow> 'a result" where
  "arity_error f = Inl (Errorf (''sqlcompile: wrong number of arguments: '' @ f))"

fun compile_literal :: "cel_value \<Rightarrow> sql_arg list \<Rightarrow> compiled" where
  "compile_literal (VBool b) args = Inr (placeholder (ABool b) args)"
| "compile_literal (VDouble r) args = Inr (placeholder (ADouble r) args)"
| "compile_literal (VString s) args = Inr (placeholder (AString s) args)"
| "compile_literal (VTimestamp t) args = Inr (placeholder (ATime t) args)"
| "compile_literal (VInt n) args = Inr (placeholder (AInt n) args)"
| "compile_literal (VUint n) args = Inr (placeholder (AUint n) args)"
| "compile_literal VOther args = unsupported ''literal''"

definition compile_event_aggregate :: "attribute \<Rightarrow> sql_arg list \<Rightarrow> string \<times> sql_arg list" where
  "compile_event_aggregate d args =
     (let (p1, args1) = placeholder (AString (aggregate_event_name d)) args;
          (p2, args2) = placeholder (AInt (aggregate_window_days d)) args1
      in (''(SELECT COALESCE(sum(count), 0)::double precision FROM targeting_rollup WHERE channel_id = c.id AND event_name = ''
          @ p1 @ '' AND day > current_date - '' @ p2 @ ''::int)'', args2))"

definition compile_ident_scalar :: "registry \<Rightarrow> string \<Rightarrow> sql_arg list \<Rightarrow> compiled" where
  "compile_ident_scalar reg name args =
     (case lookup_attribute reg name of
        None \<Rightarrow> Inl (Errorf ''sqlcompile: unknown attribute'')
      | Some d \<Rightarrow>
          if attr_source d = SourceEventAggregate then Inr (compile_event_aggregate d args)
          else (let (p, args1) = placeholder (AString name) args; column = ''(attributes->>'' @ p @ '')'' in
             (case attr_type d of
                TypeString \<Rightarrow> Inr (column, args1)
              | TypeSemVer \<Rightarrow> Inr (column, args1)
              | TypeNumber \<Rightarrow> Inr (column @ ''::double precision'', args1)
              | TypeBool \<Rightarrow> Inr (column @ ''::boolean'', args1)
              | TypeTimestamp \<Rightarrow> Inr (column @ ''::timestamptz'', args1)
              | TypeStringSet \<Rightarrow> unsupported ''string_set attribute used outside in''
              | OtherType _ \<Rightarrow> Inl (Errorf ''sqlcompile: unknown attribute type''))))"

fun literal_string_list :: "cel_expr list \<Rightarrow> string list result" where
  "literal_string_list [] = Inr []"
| "literal_string_list (LiteralE (VString s) # es) =
     res_bind (literal_string_list es) (\<lambda>ss. Inr (s # ss))"
| "literal_string_list (LiteralE v # es) = unsupported ''non-string list element''"
| "literal_string_list (e # es) = unsupported ''non-literal list element''"

definition compile_timestamp :: "(string \<Rightarrow> time option) \<Rightarrow> cel_expr \<Rightarrow> sql_arg list \<Rightarrow> compiled" where
  "compile_timestamp parse_time e args =
     (case e of
        LiteralE (VString s) \<Rightarrow>
          (case parse_time s of
             None \<Rightarrow> Inl (Errorf ''sqlcompile: timestamp() argument is not RFC 3339'')
           | Some t \<Rightarrow> Inr (placeholder (ATime t) args))
      | LiteralE _ \<Rightarrow> Inl (Errorf ''sqlcompile: timestamp() argument must be a string literal'')
      | _ \<Rightarrow> unsupported ''timestamp() over a non-literal argument'')"

text \<open>The right-hand side of \<^verbatim>\<open>in\<close>, once the left one is compiled.\<close>

definition compile_in :: "registry \<Rightarrow> cel_expr \<Rightarrow> string \<Rightarrow> sql_arg list \<Rightarrow> compiled" where
  "compile_in reg haystack needleSQL args =
     (case haystack of
        ListE es \<Rightarrow>
          res_bind (literal_string_list es) (\<lambda>elems.
            let (p, args1) = placeholder (AStrings elems) args
            in Inr (needleSQL @ '' = ANY('' @ p @ '')'', args1))
      | IdentE name \<Rightarrow>
          (case lookup_attribute reg name of
             None \<Rightarrow> Inl (Errorf ''sqlcompile: unknown attribute'')
           | Some d \<Rightarrow>
               if attr_type d \<noteq> TypeStringSet then
                 Inl (Errorf ''sqlcompile: not a string_set attribute, cannot be an in haystack'')
               else (let (p, args1) = placeholder (AString name) args
                     in Inr (''(attributes->'' @ p @ '') ? ('' @ needleSQL @ '')'', args1)))
      | _ \<Rightarrow> unsupported (''in over '' @ kind_name haystack))"

fun compile_expr :: "(string \<Rightarrow> time option) \<Rightarrow> registry \<Rightarrow> cel_expr \<Rightarrow> sql_arg list \<Rightarrow> compiled" where
  "compile_expr pt reg (CallE f tgt es) args =
     (if f = ''_&&_'' \<or> f = ''_||_'' then
        (case es of
           [l, r] \<Rightarrow>
             res_bind (compile_expr pt reg l args) (\<lambda>(left, args1).
               res_bind (compile_expr pt reg r args1) (\<lambda>(right, args2).
                 Inr (''('' @ left @ (if f = ''_||_'' then '' OR '' else '' AND '') @ right @ '')'', args2)))
         | _ \<Rightarrow> arity_error f)
      else if f = ''!_'' then
        (case es of
           [e] \<Rightarrow> res_bind (compile_expr pt reg e args) (\<lambda>(inner, args1). Inr (''(NOT '' @ inner @ '')'', args1))
         | _ \<Rightarrow> arity_error f)
      else if f = ''@in'' then
        (case es of
           [l, r] \<Rightarrow> res_bind (compile_expr pt reg l args) (\<lambda>(needle, args1). compile_in reg r needle args1)
         | _ \<Rightarrow> arity_error f)
      else if f = ''semver'' then
        (case es of
           [e] \<Rightarrow>
             (case e of
                LiteralE (VString s) \<Rightarrow>
                  res_bind (wrap_err ''sqlcompile'' (normalize_semver s)) (\<lambda>n. Inr (placeholder (AString n) args))
              | LiteralE _ \<Rightarrow> Inl (Errorf ''sqlcompile: semver() argument must be a string literal or attribute'')
              | _ \<Rightarrow> res_bind (compile_expr pt reg e args)
                       (\<lambda>(inner, args1). Inr (''semver_normalize('' @ inner @ '')'', args1)))
         | _ \<Rightarrow> arity_error f)
      else if f = ''timestamp'' then
        (case es of [e] \<Rightarrow> compile_timestamp pt e args | _ \<Rightarrow> arity_error f)
      else
        (case comparison_sql f of
           Some sqlOp \<Rightarrow>
             (case es of
                [l, r] \<Rightarrow>
                  res_bind (compile_expr pt reg l args) (\<lambda>(left, args1).
                    res_bind (compile_expr pt reg r args1) (\<lambda>(right, args2).
                      Inr (''('' @ left @ '' '' @ sqlOp @ '' '' @ right @ '')'', args2)))
              | _ \<Rightarrow> arity_error f)
         | None \<Rightarrow> unsupported (''function '' @ f)))"
| "compile_expr pt reg (IdentE name) args = compile_ident_scalar reg name args"
| "compile_expr pt reg (LiteralE v) args = compile_literal v args"
| "compile_expr pt reg e args = unsupported (kind_name e)"

definition compile_to_sql :: "(string \<Rightarrow> time option) \<Rightarrow> registry \<Rightarrow> cel_expr \<Rightarrow> compiled" where
  "compile_to_sql pt reg a = compile_expr pt reg a []"

section \<open>The placeholders of a text\<close>

text \<open>The numbers of the placeholders \<^verbatim>\<open>$n\<close> of a text, in the order they stand.\<close>

fun dollars :: "string \<Rightarrow> nat list" where
  "dollars [] = []"
| "dollars (c # s) =
     (if c = CHR ''$'' then nat_of_dec (takeWhile is_digit s) # dollars s else dollars s)"

definition plain_start :: "string \<Rightarrow> bool" where
  "plain_start s = (s = [] \<or> \<not> is_digit (hd s))"

lemma takeWhile_digits_append:
  "plain_start y \<Longrightarrow> takeWhile is_digit (x @ y) = takeWhile is_digit x"
  by (induction x) (auto simp: plain_start_def takeWhile_eq_Nil_iff)

lemma dollars_append: "plain_start y \<Longrightarrow> dollars (x @ y) = dollars x @ dollars y"
  by (induction x) (simp_all add: takeWhile_digits_append)

lemma dollars_none: "CHR ''$'' \<notin> set s \<Longrightarrow> dollars s = []"
  by (induction s) auto

lemma dollars_number: "dollars (CHR ''$'' # dec_of_nat n) = [n]"
proof -
  have "CHR ''$'' \<notin> set (dec_of_nat n)" by (rule dec_of_nat_no_char) (simp add: is_digit_def)
  moreover have tw: "takeWhile is_digit (dec_of_nat n) = dec_of_nat n"
    by (rule takeWhile_eq_all_conv [THEN iffD2]) (auto dest: dec_of_nat_digits)
  ultimately show ?thesis unfolding dollars.simps tw by (simp add: dollars_none)
qed

lemma plain_start_simps [simp]:
  "plain_start []" "plain_start (c # s) \<longleftrightarrow> \<not> is_digit c"
  by (simp_all add: plain_start_def)

lemma plain_start_append: "plain_start x \<Longrightarrow> x \<noteq> [] \<Longrightarrow> plain_start (x @ y)"
  by (cases x) simp_all

text \<open>A step emits each of its own arguments once, and text that begins with no digit.\<close>

definition emits :: "sql_arg list \<Rightarrow> string \<times> sql_arg list \<Rightarrow> bool" where
  "emits args0 r =
     ((\<exists>new. snd r = args0 @ new)
      \<and> mset (dollars (fst r)) = mset [length args0 + 1..<length (snd r) + 1]
      \<and> plain_start (fst r) \<and> fst r \<noteq> [])"

definition glue :: "string \<Rightarrow> bool" where
  "glue s = (CHR ''$'' \<notin> set s \<and> plain_start s \<and> s \<noteq> [])"

lemma emits_placeholder: "emits args (placeholder a args)"
  by (simp add: emits_def placeholder_def dollars_number is_digit_def del: dollars.simps)

lemma emits_wrap:
  assumes "emits args0 (s, args1)" "glue pre" "glue post"
  shows "emits args0 (pre @ s @ post, args1)"
  using assms
  by (auto simp: emits_def glue_def dollars_append dollars_none plain_start_append)

lemma emits_suffix:
  assumes "emits args0 (s, args1)" "glue post"
  shows "emits args0 (s @ post, args1)"
  using assms
  by (auto simp: emits_def glue_def dollars_append dollars_none plain_start_append)

lemma upt_split: "i \<le> j \<Longrightarrow> j \<le> k \<Longrightarrow> [i..<k] = [i..<j] @ [j..<k]"
  by (metis le_Suc_ex upt_add_eq_append)

lemma emits_seq:
  assumes "emits args0 (s, args1)" "emits args1 (t, args2)"
  shows "mset (dollars s @ dollars t) = mset [length args0 + 1..<length args2 + 1]"
    "\<exists>new. args2 = args0 @ new"
proof -
  from assms obtain n1 n2 where n: "args1 = args0 @ n1" "args2 = args1 @ n2"
    by (auto simp: emits_def)
  have "[length args0 + 1..<length args2 + 1]
      = [length args0 + 1..<length args1 + 1] @ [length args1 + 1..<length args2 + 1]"
    using n by (intro upt_split) auto
  with assms show "mset (dollars s @ dollars t) = mset [length args0 + 1..<length args2 + 1]"
    by (simp add: emits_def)
  show "\<exists>new. args2 = args0 @ new" using n by auto
qed

lemma emits_pair:
  assumes "emits args0 (s, args1)" "emits args1 (t, args2)" "glue pre" "glue mid" "glue post"
  shows "emits args0 (pre @ s @ mid @ t @ post, args2)"
proof -
  have "dollars (pre @ s @ mid @ t @ post) = dollars s @ dollars t"
    using assms by (simp add: emits_def glue_def dollars_append dollars_none plain_start_append)
  with emits_seq [OF assms(1,2)] assms(3) show ?thesis
    by (simp add: emits_def glue_def plain_start_append)
qed

lemma emits_pair_swapped:
  assumes "emits args0 (s, args1)" "emits args1 (t, args2)" "glue pre" "glue mid" "glue post"
  shows "emits args0 (pre @ t @ mid @ s @ post, args2)"
proof -
  have "dollars (pre @ t @ mid @ s @ post) = dollars t @ dollars s"
    using assms by (simp add: emits_def glue_def dollars_append dollars_none plain_start_append)
  with emits_seq [OF assms(1,2)] assms(3) show ?thesis
    by (simp add: emits_def glue_def plain_start_append add.commute)
qed

lemma emits_juxtapose:
  assumes "emits args0 (s, args1)" "emits args1 (t, args2)" "glue mid" "glue post"
  shows "emits args0 (s @ mid @ t @ post, args2)"
proof -
  have "dollars (s @ mid @ t @ post) = dollars s @ dollars t"
    using assms by (simp add: emits_def glue_def dollars_append dollars_none plain_start_append)
  with emits_seq [OF assms(1,2)] assms(1) show ?thesis
    by (simp add: emits_def plain_start_append)
qed

lemma emits_ident: "compile_ident_scalar reg name args = Inr r \<Longrightarrow> emits args r"
proof -
  have agg: "emits args (compile_event_aggregate d args)" for d
  proof -
    obtain p1 a1 where 1: "placeholder (AString (aggregate_event_name d)) args = (p1, a1)" by force
    obtain p2 a2 where 2: "placeholder (AInt (aggregate_window_days d)) a1 = (p2, a2)" by force
    have "emits args (p1, a1)" "emits a1 (p2, a2)"
      using emits_placeholder 1 2 by metis+
    then show ?thesis
      unfolding compile_event_aggregate_def 1 2 Let_def prod.case
      by (rule emits_pair) (simp_all add: glue_def is_digit_def)
  qed
  obtain p a1 where p: "placeholder (AString name) args = (p, a1)" by force
  then have "emits args (p, a1)" using emits_placeholder by metis
  from emits_wrap [OF this, of "''(attributes->>''" "'')''"]
    have col: "emits args (''(attributes->>'' @ p @ '')'', a1)" by (simp add: glue_def is_digit_def)
  have cast: "emits args (''(attributes->>'' @ p @ '')'' @ post, a1)" if "glue post" for post
    using emits_suffix [OF col that] by simp
  assume "compile_ident_scalar reg name args = Inr r"
  with agg col cast [of "''::double precision''"] cast [of "''::boolean''"] cast [of "''::timestamptz''"]
  show ?thesis
    by (auto simp: compile_ident_scalar_def p unsupported_def glue_def is_digit_def Let_def
        split: option.splits if_splits attribute_type.splits)
qed

lemma emits_literal: "compile_literal v args = Inr r \<Longrightarrow> emits args r"
  by (cases v) (auto simp: emits_placeholder unsupported_def)

lemma emits_timestamp: "compile_timestamp pt e args = Inr r \<Longrightarrow> emits args r"
  by (auto simp: compile_timestamp_def unsupported_def emits_placeholder
      split: cel_expr.splits cel_value.splits option.splits)

lemma emits_in:
  assumes "emits args0 (needle, args)" "compile_in reg h needle args = Inr r"
  shows "emits args0 r"
proof -
  have step: "emits args (placeholder a args)" for a by (rule emits_placeholder)
  from assms(2) show ?thesis
    using emits_juxtapose [OF assms(1), of "fst (placeholder _ args)" "snd (placeholder _ args)" "'' = ANY(''" "'')''"]
      emits_pair_swapped [OF assms(1), of "fst (placeholder _ args)" "snd (placeholder _ args)"
        "''(attributes->''" "'') ? (''" "'')''"] step
    by (auto simp: compile_in_def unsupported_def glue_def is_digit_def res_bind_Inr_iff Let_def split_beta
        split: cel_expr.splits option.splits if_splits)
qed

lemma emits_expr: "compile_expr pt reg e args = Inr r \<Longrightarrow> emits args r"
proof (induction e arbitrary: args r)
  case (CallE f tgt es)
  have ih: "emits a r'" if "e \<in> set es" "compile_expr pt reg e a = Inr r'" for e a r'
    using CallE.IH(2) [OF that] .
  note ok = CallE.prems
  consider (bool) "f = ''_&&_'' \<or> f = ''_||_''" | (neg) "f = ''!_''" | (member) "f = ''@in''"
    | (semver) "f = ''semver''" | (ts) "f = ''timestamp''"
    | (cmp) "f \<noteq> ''_&&_'' \<and> f \<noteq> ''_||_'' \<and> f \<noteq> ''!_'' \<and> f \<noteq> ''@in'' \<and> f \<noteq> ''semver'' \<and> f \<noteq> ''timestamp''"
    by blast
  then show ?case
  proof cases
    case bool
    with ok obtain l r' left args1 right args2 where es: "es = [l, r']"
      and l: "compile_expr pt reg l args = Inr (left, args1)"
      and r: "compile_expr pt reg r' args1 = Inr (right, args2)"
      and res: "r = (''('' @ left @ (if f = ''_||_'' then '' OR '' else '' AND '') @ right @ '')'', args2)"
      by (auto simp: res_bind_Inr_iff arity_error_def split: list.splits)
    have "emits args (left, args1)" "emits args1 (right, args2)"
      using ih [OF _ l] ih [OF _ r] es by auto
    then show ?thesis unfolding res by (rule emits_pair) (simp_all add: glue_def is_digit_def)
  next
    case neg
    with ok obtain e inner args1 where "es = [e]" "compile_expr pt reg e args = Inr (inner, args1)"
      and res: "r = (''(NOT '' @ inner @ '')'', args1)"
      by (auto simp: res_bind_Inr_iff arity_error_def split: list.splits)
    with ih have "emits args (inner, args1)" by simp
    then show ?thesis unfolding res by (rule emits_wrap) (simp_all add: glue_def is_digit_def)
  next
    case member
    with ok obtain l h needle args1 where "es = [l, h]" "compile_expr pt reg l args = Inr (needle, args1)"
      and res: "compile_in reg h needle args1 = Inr r"
      by (auto simp: res_bind_Inr_iff arity_error_def split: list.splits)
    with ih [of l] have "emits args (needle, args1)" by simp
    from emits_in [OF this res] show ?thesis .
  next
    case semver
    with ok obtain e where es: "es = [e]" by (auto simp: arity_error_def split: list.splits)
    have wrap: "emits args (''semver_normalize('' @ inner @ '')'', args1)"
      if "emits args (inner, args1)" for inner args1
      using that by (rule emits_wrap) (simp_all add: glue_def is_digit_def)
    show ?thesis
    proof (cases e)
      case (LiteralE v)
      with ok semver es show ?thesis
        by (cases v) (auto simp: res_bind_Inr_iff emits_placeholder)
    qed (use ok semver es ih [of e] wrap in \<open>auto simp: res_bind_Inr_iff\<close>)
  next
    case ts
    with ok show ?thesis by (auto simp: arity_error_def emits_timestamp split: list.splits)
  next
    case cmp
    with ok obtain sqlOp l r' left args1 right args2 where op: "comparison_sql f = Some sqlOp"
      and es: "es = [l, r']" and l: "compile_expr pt reg l args = Inr (left, args1)"
      and r: "compile_expr pt reg r' args1 = Inr (right, args2)"
      and res: "r = (''('' @ left @ ('' '' @ sqlOp @ '' '') @ right @ '')'', args2)"
      by (auto simp: res_bind_Inr_iff arity_error_def unsupported_def split: list.splits option.splits)
    have "emits args (left, args1)" "emits args1 (right, args2)"
      using ih [OF _ l] ih [OF _ r] es by auto
    moreover have "glue ('' '' @ sqlOp @ '' '')"
      using op by (auto simp: comparison_sql_def glue_def is_digit_def split: if_splits)
    ultimately show ?thesis unfolding res by (intro emits_pair) (simp_all add: glue_def is_digit_def)
  qed
qed (auto simp: emits_ident emits_literal unsupported_def)

text \<open>
  C16: a compiled condition and its arguments fit: every argument is referred to by exactly one
  placeholder and every placeholder refers to an argument.
\<close>

theorem placeholders_match_arguments:
  assumes "compile_to_sql pt reg a = Inr (sql, args)"
  shows "mset (dollars sql) = mset [1..<length args + 1]"
  using emits_expr [of pt reg a "[]" "(sql, args)"] assms by (simp add: compile_to_sql_def emits_def)

definition demo_tags :: attribute where
  "demo_tags = demo_attribute\<lparr>attr_name := ''tags'', attr_type := TypeStringSet\<rparr>"

definition demo_registry :: registry where
  "demo_registry = \<lparr>reg_defs = [''app_version'' \<mapsto> demo_attribute, ''tags'' \<mapsto> demo_tags]\<rparr>"

definition demo_condition :: "string \<Rightarrow> cel_expr" where
  "demo_condition s = CallE ''_&&_'' None
     [CallE ''@in'' None [LiteralE (VString s), IdentE ''tags''], demo_predicate_expr]"

lemma demo_condition_compiles:
  "\<exists>n args. compile_to_sql pt demo_registry (demo_condition s) = Inr
     (''((attributes->$2) ? ($1) AND (semver_normalize((attributes->>$3)) >= $4))'', args)
   \<and> args = [AString s, AString ''tags'', AString ''app_version'', AString n]"
proof -
  have "semver_numbers ''2.9.0'' = Some (2, 9, 0)"
    by (simp add: semver_numbers_def parse_uint64_def nat_of_dec_def digit_val_def is_digit_def)
  from normalize_semver_numbers [OF this] obtain n where n: "normalize_semver ''2.9.0'' = Inr n" by blast
  have d: "dec_of_nat (Suc 0) = ''1''" "dec_of_nat (Suc (Suc 0)) = ''2''"
    "dec_of_nat (Suc (Suc (Suc 0))) = ''3''" "dec_of_nat (Suc (Suc (Suc (Suc 0)))) = ''4''"
    by (subst dec_of_nat.simps; simp add: digit_char_def char_of_eq_iff)+
  have "compile_to_sql pt demo_registry (demo_condition s) = Inr
     (''((attributes->$2) ? ($1) AND (semver_normalize((attributes->>$3)) >= $4))'',
      [AString s, AString ''tags'', AString ''app_version'', AString n])"
    using n d
    by (simp add: compile_to_sql_def demo_condition_def demo_predicate_expr_def comparison_sql_def
        compile_in_def compile_ident_scalar_def demo_registry_def demo_tags_def demo_attribute_def
        lookup_attribute_def placeholder_def)
  then show ?thesis by blast
qed

theorem placeholders_match_arguments_witness:
  "mset (dollars ''((attributes->$2) ? ($1) AND (semver_normalize((attributes->>$3)) >= $4))'')
    = mset [1..<5]"
proof -
  obtain n args where c: "compile_to_sql (\<lambda>_. None) demo_registry (demo_condition ''x'') = Inr
     (''((attributes->$2) ? ($1) AND (semver_normalize((attributes->>$3)) >= $4))'', args)"
    and "args = [AString ''x'', AString ''tags'', AString ''app_version'', AString n]"
    using demo_condition_compiles by blast
  then have "length args + 1 = 5" by simp
  with placeholders_match_arguments [OF c] show ?thesis by (simp only:)
qed

section \<open>The text depends on the shape only\<close>

text \<open>
  Two expressions have the same shape when they differ only in the values of their literals
  and in the names of attributes of one type and source.
\<close>

definition same_attribute :: "registry \<Rightarrow> string \<Rightarrow> string \<Rightarrow> bool" where
  "same_attribute reg m n =
     (case (lookup_attribute reg m, lookup_attribute reg n) of
        (Some d, Some d') \<Rightarrow> attr_type d = attr_type d' \<and> attr_source d = attr_source d'
      | _ \<Rightarrow> False)"

inductive same_shape :: "registry \<Rightarrow> cel_expr \<Rightarrow> cel_expr \<Rightarrow> bool" for reg where
  shape_call: "list_all2 (same_shape reg) es es' \<Longrightarrow> same_shape reg (CallE f t es) (CallE f t' es')"
| shape_ident: "same_attribute reg m n \<Longrightarrow> same_shape reg (IdentE m) (IdentE n)"
| shape_literal: "same_shape reg (LiteralE v) (LiteralE w)"
| shape_list: "same_shape reg (ListE es) (ListE es')"
  monos list_all2_mono

inductive_cases same_shapeE: "same_shape reg e e'"
inductive_simps same_shape_simps [simp]:
  "same_shape reg (CallE f t es) e" "same_shape reg (IdentE m) e" "same_shape reg (LiteralE v) e"
  "same_shape reg (ListE es) e" "same_shape reg (MapE m') e" "same_shape reg (SelectE e0 f) e"
  "same_shape reg (StructE n fs) e" "same_shape reg (ComprehensionE es) e"

definition agree :: "compiled \<Rightarrow> compiled \<Rightarrow> bool" where
  "agree r r' = (case (r, r') of
     (Inr (s, a), Inr (s', a')) \<Rightarrow> s = s' \<and> length a = length a' | _ \<Rightarrow> True)"

lemma agree_Inl [simp]: "agree (Inl e) r" "agree r (Inl e)"
  by (simp_all add: agree_def split: sum.splits)

lemma agree_unsupported [simp]: "agree (unsupported w) r" "agree r (unsupported w)"
  by (simp_all add: unsupported_def)

lemma agree_arity [simp]: "agree (arity_error w) r" "agree r (arity_error w)"
  by (simp_all add: arity_error_def)

lemma agree_placeholder [simp]:
  "length a = length a' \<Longrightarrow> agree (Inr (placeholder x a)) (Inr (placeholder y a'))"
  by (simp add: agree_def placeholder_def)

lemma agree_bind:
  assumes "agree r r'"
    and "\<And>s a a'. length a = length a' \<Longrightarrow> agree (f (s, a)) (f' (s, a'))"
  shows "agree (res_bind r f) (res_bind r' f')"
  using assms by (cases r; cases r') (auto simp: agree_def [of "Inr _" "Inr _"])

lemma agree_done: "length a = length a' \<Longrightarrow> agree (Inr (s, a)) (Inr (s, a'))"
  by (simp add: agree_def)

lemma agree_binary:
  assumes "agree r r'" "\<And>a a'. length a = length a' \<Longrightarrow> agree (k a) (k' a')"
  shows "agree (res_bind r (\<lambda>(s, a). res_bind (k a) (\<lambda>(t, b). Inr (g s t, b))))
    (res_bind r' (\<lambda>(s, a). res_bind (k' a) (\<lambda>(t, b). Inr (g s t, b))))"
proof (rule agree_bind [OF assms(1)])
  fix s and a a' :: "sql_arg list" assume "length a = length a'"
  then have "agree (res_bind (k a) (\<lambda>(t, b). Inr (g s t, b))) (res_bind (k' a') (\<lambda>(t, b). Inr (g s t, b)))"
    using assms(2) by (intro agree_bind) (auto intro: agree_done)
  then show "agree (case (s, a) of (s, a) \<Rightarrow> res_bind (k a) (\<lambda>(t, b). Inr (g s t, b)))
      (case (s, a') of (s, a) \<Rightarrow> res_bind (k' a) (\<lambda>(t, b). Inr (g s t, b)))" by simp
qed

lemma agree_literal: "length a = length a' \<Longrightarrow> agree (compile_literal v a) (compile_literal w a')"
  by (cases v; cases w) auto

lemma agree_ident:
  assumes "same_attribute reg m n" "length a = length a'"
  shows "agree (compile_ident_scalar reg m a) (compile_ident_scalar reg n a')"
proof -
  from assms(1) obtain d d' where l: "lookup_attribute reg m = Some d" "lookup_attribute reg n = Some d'"
    and s: "attr_type d' = attr_type d" "attr_source d' = attr_source d"
    by (auto simp: same_attribute_def split: option.splits)
  show ?thesis
  proof (cases "attr_source d = SourceEventAggregate")
    case True
    with l s assms(2) show ?thesis
      by (simp add: compile_ident_scalar_def compile_event_aggregate_def placeholder_def agree_done
          del: append_Cons)
  next
    case False
    with l s assms(2) show ?thesis
      by (cases "attr_type d")
        (simp_all add: compile_ident_scalar_def placeholder_def agree_done Let_def del: append_Cons)
  qed
qed

lemma agree_in:
  assumes "same_shape reg h h'" "length a = length a'"
  shows "agree (compile_in reg h needle a) (compile_in reg h' needle a')"
  using assms(1)
proof cases
  case (shape_ident m n)
  with assms(2) show ?thesis
    by (simp add: compile_in_def same_attribute_def placeholder_def agree_done split: option.splits)
next
  case (shape_list es es')
  with assms(2) show ?thesis
    by (cases "literal_string_list es"; cases "literal_string_list es'")
      (simp_all add: compile_in_def placeholder_def agree_done)
qed (simp_all add: compile_in_def)

lemma list_all2_two: "list_all2 P [x, y] es' \<Longrightarrow> \<exists>x' y'. es' = [x', y'] \<and> P x x' \<and> P y y'"
  by (auto simp: list_all2_Cons1)

lemma list_all2_one: "list_all2 P [x] es' \<Longrightarrow> \<exists>x'. es' = [x'] \<and> P x x'"
  by (auto simp: list_all2_Cons1)

lemma agree_two:
  assumes "list_all2 P es es'"
    and "\<And>l r l' r'. P l l' \<Longrightarrow> P r r' \<Longrightarrow> agree (k l r) (k' l' r')"
  shows "agree (case es of [l, r] \<Rightarrow> k l r | _ \<Rightarrow> arity_error f) (case es' of [l, r] \<Rightarrow> k' l r | _ \<Rightarrow> arity_error f)"
  using assms by (auto split: list.splits)

lemma agree_one:
  assumes "list_all2 P es es'" "\<And>e e'. P e e' \<Longrightarrow> agree (k e) (k' e')"
  shows "agree (case es of [e] \<Rightarrow> k e | _ \<Rightarrow> arity_error f) (case es' of [e] \<Rightarrow> k' e | _ \<Rightarrow> arity_error f)"
  using assms by (auto split: list.splits)

lemma agree_timestamp:
  assumes "same_shape reg e e'" "length a = length a'"
  shows "agree (compile_timestamp pt e a) (compile_timestamp pt e' a')"
  using assms by (elim same_shapeE)
    (auto simp: compile_timestamp_def split: cel_value.splits option.splits)

lemma agree_semver:
  assumes "same_shape reg e e'" "length a = length a'"
    and "\<And>b b'. length b = length b' \<Longrightarrow> agree (compile_expr pt reg e b) (compile_expr pt reg e' b')"
  shows "agree (compile_expr pt reg (CallE ''semver'' t [e]) a) (compile_expr pt reg (CallE ''semver'' t' [e']) a')"
proof -
  have inner: "agree
      (res_bind (compile_expr pt reg e a) (\<lambda>(inner, args1). Inr (''semver_normalize('' @ inner @ '')'', args1)))
      (res_bind (compile_expr pt reg e' a') (\<lambda>(inner, args1). Inr (''semver_normalize('' @ inner @ '')'', args1)))"
    using assms(2,3) by (intro agree_bind) (auto intro: agree_done)
  from assms(1) show ?thesis
  proof cases
    case (shape_literal v w)
    with assms(2) show ?thesis
      by (cases v; cases w) (auto simp: res_bind_def wrap_err_def split: sum.splits)
  qed (use inner in simp_all)
qed

lemma compile_agrees:
  "same_shape reg e e' \<Longrightarrow> length args = length args' \<Longrightarrow>
     agree (compile_expr pt reg e args) (compile_expr pt reg e' args')"
proof (induction arbitrary: args args' rule: same_shape.induct)
  case (shape_call es es' f t t')
  define R where "R = (\<lambda>x y. same_shape reg x y \<and> (\<forall>xa xb. length xa = length xb \<longrightarrow>
      agree (compile_expr pt reg x xa) (compile_expr pt reg y xb)))"
  have all: "list_all2 R es es'"
    using shape_call.IH unfolding R_def by (rule list_all2_mono) blast
  have len: "length args = length args'" by (rule shape_call.prems)
  have Rd: "agree (compile_expr pt reg x a) (compile_expr pt reg y b)" "same_shape reg x y"
    if "R x y" "length a = length b" for x y a b
    using that by (auto simp: R_def)
  note two = agree_two [OF all] and one = agree_one [OF all]
  consider (bool) "f = ''_&&_'' \<or> f = ''_||_''" | (neg) "f = ''!_''" | (member) "f = ''@in''"
    | (semver) "f = ''semver''" | (ts) "f = ''timestamp''"
    | (cmp) "f \<noteq> ''_&&_'' \<and> f \<noteq> ''_||_'' \<and> f \<noteq> ''!_'' \<and> f \<noteq> ''@in'' \<and> f \<noteq> ''semver'' \<and> f \<noteq> ''timestamp''"
    by blast
  then show ?case
  proof cases
    case bool
    then show ?thesis
      unfolding compile_expr.simps if_P [OF bool]
      by (intro two agree_binary) (simp_all only: len Rd)
  next
    case neg
    then have n: "\<not> (f = ''_&&_'' \<or> f = ''_||_'')" by simp
    show ?thesis
      unfolding compile_expr.simps if_not_P [OF n] if_P [OF neg]
      by (intro one agree_bind) (simp_all only: prod.case len Rd agree_done)
  next
    case member
    then have n: "\<not> (f = ''_&&_'' \<or> f = ''_||_'')" "f \<noteq> ''!_''" by simp_all
    show ?thesis
      unfolding compile_expr.simps if_not_P [OF n(1)] if_not_P [OF n(2)] if_P [OF member]
      by (intro two agree_bind) (simp_all only: prod.case len Rd agree_in)
  next
    case semver
    show ?thesis
    proof (cases "\<exists>e. es = [e]")
      case True
      then obtain e e' where es: "es = [e]" "es' = [e']" "R e e'"
        using all list_all2_one by metis
      show ?thesis
        unfolding es semver using es(3) len by (intro agree_semver) (auto simp: R_def)
    next
      case False
      with semver show ?thesis by (cases es; cases "tl es") simp_all
    qed
  next
    case ts
    then have n: "\<not> (f = ''_&&_'' \<or> f = ''_||_'')" "f \<noteq> ''!_''" "f \<noteq> ''@in''" "f \<noteq> ''semver''" by simp_all
    show ?thesis
      unfolding compile_expr.simps if_not_P [OF n(1)] if_not_P [OF n(2)] if_not_P [OF n(3)]
        if_not_P [OF n(4)] if_P [OF ts]
      by (intro one agree_timestamp [where reg = reg, OF _ len]) (simp add: R_def)
  next
    case cmp
    then have n: "\<not> (f = ''_&&_'' \<or> f = ''_||_'')" "f \<noteq> ''!_''" "f \<noteq> ''@in''" "f \<noteq> ''semver''"
      "f \<noteq> ''timestamp''" by simp_all
    show ?thesis
    proof (cases "comparison_sql f")
      case (Some sqlOp)
      show ?thesis
        unfolding compile_expr.simps if_not_P [OF n(1)] if_not_P [OF n(2)] if_not_P [OF n(3)]
          if_not_P [OF n(4)] if_not_P [OF n(5)] Some option.case
        by (intro two agree_binary) (simp_all only: len Rd)
    qed (use n in simp)
  qed
qed (auto intro: agree_ident agree_literal)

text \<open>
  C15: nothing an author writes reaches the text of the SQL: two expressions of one shape, which
  may differ in every literal, every list and the names of attributes of one type, compile to
  the same text with as many arguments.
\<close>

theorem sql_text_has_no_values:
  assumes "same_shape reg a b"
    and "compile_to_sql pt reg a = Inr (sql, args)" "compile_to_sql pt reg b = Inr (sql', args')"
  shows "sql = sql' \<and> length args = length args'"
  using compile_agrees [OF assms(1), of "[]" "[]" pt] assms(2,3)
  by (simp add: compile_to_sql_def agree_def)

theorem sql_text_has_no_values_witness:
  "\<exists>sql args args'. compile_to_sql (\<lambda>_. None) demo_registry (demo_condition ''a'') = Inr (sql, args)
     \<and> compile_to_sql (\<lambda>_. None) demo_registry (demo_condition ''x OR 1=1'') = Inr (sql, args') \<and> args \<noteq> args'"
proof -
  obtain n args where 1: "compile_to_sql (\<lambda>_. None) demo_registry (demo_condition ''a'') = Inr
     (''((attributes->$2) ? ($1) AND (semver_normalize((attributes->>$3)) >= $4))'', args)"
    and a: "args = [AString ''a'', AString ''tags'', AString ''app_version'', AString n]"
    using demo_condition_compiles by blast
  obtain m sql' args' where 2: "compile_to_sql (\<lambda>_. None) demo_registry (demo_condition ''x OR 1=1'') = Inr
     (sql', args')"
    and b: "args' = [AString ''x OR 1=1'', AString ''tags'', AString ''app_version'', AString m]"
    using demo_condition_compiles by blast
  have "same_shape demo_registry (demo_condition ''a'') (demo_condition ''x OR 1=1'')"
    by (simp add: demo_condition_def demo_predicate_expr_def same_attribute_def demo_registry_def
        lookup_attribute_def)
  from sql_text_has_no_values [OF this 1 2] 1 2 a b show ?thesis by auto
qed

end
