(* ===== verification/World.thy ===== *)
theory World
  imports Prelude
begin

text \<open>
  The outside world the code talks to, and how it talks to it. A world is a record that the
  components extend with their tables and keys; what every world has is the schedule of
  the outcomes of the remote calls to come. A call is done, or it fails without an effect, or
  it takes effect and its answer is lost, so that the code sees an error. The code is a
  function from a world to a result and a world, composed by \<open>and_then\<close>.
\<close>

section \<open>Calls\<close>

datatype outcome = Done | Lost | Unacked

record world =
  faults :: "outcome list"

type_synonym ('w, 'a) io = "'w world_scheme \<Rightarrow> 'a result \<times> 'w world_scheme"

definition ret :: "'a \<Rightarrow> ('w, 'a) io" where "ret x = (\<lambda>w. (Inr x, w))"

definition fail :: "go_error \<Rightarrow> ('w, 'a) io" where "fail e = (\<lambda>w. (Inl e, w))"

definition of_result :: "'a result \<Rightarrow> ('w, 'a) io" where "of_result r = (\<lambda>w. (r, w))"

definition and_then :: "('w, 'a) io \<Rightarrow> ('a \<Rightarrow> ('w, 'b) io) \<Rightarrow> ('w, 'b) io" where
  "and_then m f = (\<lambda>w. case m w of (Inl e, w') \<Rightarrow> (Inl e, w') | (Inr x, w') \<Rightarrow> f x w')"

definition wrapping :: "string \<Rightarrow> ('w, 'a) io \<Rightarrow> ('w, 'a) io" where
  "wrapping msg m = (\<lambda>w. case m w of (Inl e, w') \<Rightarrow> (Inl (Wrap msg e), w') | (Inr x, w') \<Rightarrow> (Inr x, w'))"

definition remote :: "('w world_scheme \<Rightarrow> 'a result \<times> 'w world_scheme) \<Rightarrow> ('w, 'a) io" where
  "remote f = (\<lambda>w. case faults w of
     [] \<Rightarrow> f w
   | Done # fs \<Rightarrow> f (w\<lparr>faults := fs\<rparr>)
   | Lost # fs \<Rightarrow> (Inl IOFailure, w\<lparr>faults := fs\<rparr>)
   | Unacked # fs \<Rightarrow> (Inl IOFailure, snd (f (w\<lparr>faults := fs\<rparr>))))"

text \<open>A read and a write of the world.\<close>

definition query :: "('w world_scheme \<Rightarrow> 'a) \<Rightarrow> ('w, 'a) io" where
  "query f = remote (\<lambda>w. (Inr (f w), w))"

definition exec :: "('w world_scheme \<Rightarrow> 'w world_scheme) \<Rightarrow> ('w, unit) io" where
  "exec f = remote (\<lambda>w. (Inr (), f w))"

fun for_each :: "('a \<Rightarrow> ('w, unit) io) \<Rightarrow> 'a list \<Rightarrow> ('w, unit) io" where
  "for_each f [] = ret ()"
| "for_each f (x # xs) = and_then (f x) (\<lambda>_. for_each f xs)"

fun map_io :: "('a \<Rightarrow> ('w, 'b) io) \<Rightarrow> 'a list \<Rightarrow> ('w, 'b list) io" where
  "map_io f [] = ret []"
| "map_io f (x # xs) = and_then (f x) (\<lambda>y. and_then (map_io f xs) (\<lambda>ys. ret (y # ys)))"

text \<open>
  A table with a primary key: its rows in the order they came. An insert that updates on
  conflict gives the row's new value from the one it had.
\<close>

fun upsert :: "('v option \<Rightarrow> 'v) \<Rightarrow> 'k \<Rightarrow> ('k \<times> 'v) list \<Rightarrow> ('k \<times> 'v) list" where
  "upsert f k [] = [(k, f None)]"
| "upsert f k ((k', v) # t) = (if k' = k then (k', f (Some v)) # t else (k', v) # upsert f k t)"

lemma map_of_upsert [simp]: "map_of (upsert f k t) = (map_of t)(k \<mapsto> f (map_of t k))"
  by (induction t) (auto simp: fun_eq_iff)

lemma keys_upsert: "fst ` set (upsert f k t) = insert k (fst ` set t)"
  by (induction f k t rule: upsert.induct) auto

lemma distinct_upsert: "distinct (map fst t) \<Longrightarrow> distinct (map fst (upsert f k t))"
proof (induction t)
  case (Cons p t)
  have "fst ` set (upsert f k t) = insert k (fst ` set t)" by (rule keys_upsert)
  with Cons show ?case by (cases p) auto
qed simp

text \<open>A table of counters: \<^verbatim>\<open>ON CONFLICT ... DO UPDATE SET count = t.count + 1\<close>.\<close>

definition bump :: "'k \<Rightarrow> ('k \<times> int) list \<Rightarrow> ('k \<times> int) list" where
  "bump = upsert (\<lambda>v. case v of None \<Rightarrow> 1 | Some n \<Rightarrow> n + 1)"

definition count_of :: "('k \<times> int) list \<Rightarrow> 'k \<Rightarrow> int" where
  "count_of t k = (case map_of t k of None \<Rightarrow> 0 | Some n \<Rightarrow> n)"

lemma count_of_bump [simp]: "count_of (bump k t) = (count_of t)(k := count_of t k + 1)"
  by (auto simp: fun_eq_iff count_of_def bump_def split: option.splits)

lemma distinct_bump: "distinct (map fst t) \<Longrightarrow> distinct (map fst (bump k t))"
  by (simp add: bump_def distinct_upsert)

lemma count_of_Nil [simp]: "count_of [] k = 0"
  by (simp add: count_of_def)

text \<open>
  A transaction: \<^verbatim>\<open>Begin\<close>, the body, and \<^verbatim>\<open>Commit\<close>, with a rollback when the body fails. What a
  rolled back transaction did is gone, and so is what it read; the calls it made are spent.
\<close>

definition in_tx :: "string \<Rightarrow> string \<Rightarrow> ('w, 'a) io \<Rightarrow> ('w, 'a) io" where
  "in_tx begin_msg commit_msg body = (\<lambda>w.
     case remote (\<lambda>w. (Inr (), w)) w of
       (Inl e, w1) \<Rightarrow> (Inl (Wrap begin_msg e), w1)
     | (Inr _, w1) \<Rightarrow>
         (case body w1 of
            (Inl e, w2) \<Rightarrow> (Inl e, w1\<lparr>faults := faults w2\<rparr>)
          | (Inr x, w2) \<Rightarrow>
              (case faults w2 of
                 [] \<Rightarrow> (Inr x, w2)
               | Done # fs \<Rightarrow> (Inr x, w2\<lparr>faults := fs\<rparr>)
               | Lost # fs \<Rightarrow> (Inl (Wrap commit_msg IOFailure), w1\<lparr>faults := fs\<rparr>)
               | Unacked # fs \<Rightarrow> (Inl (Wrap commit_msg IOFailure), w2\<lparr>faults := fs\<rparr>))))"

lemma ret_simp [simp]: "ret x w = (Inr x, w)"
  by (simp add: ret_def)

lemma fail_simp [simp]: "fail e w = (Inl e, w)"
  by (simp add: fail_def)

lemma of_result_simp [simp]: "of_result r w = (r, w)"
  by (simp add: of_result_def)

lemma and_then_ok: "and_then m f w = (Inr y, w') \<longleftrightarrow> (\<exists>x w1. m w = (Inr x, w1) \<and> f x w1 = (Inr y, w'))"
  by (auto simp: and_then_def split: prod.splits sum.splits)

lemma wrapping_ok [simp]: "wrapping msg m w = (Inr x, w') \<longleftrightarrow> m w = (Inr x, w')"
  by (auto simp: wrapping_def split: prod.splits sum.splits)

lemma snd_wrapping [simp]: "snd (wrapping msg m w) = snd (m w)"
  by (simp add: wrapping_def split: prod.splits sum.splits)

lemma remote_calm [io_simps]: "faults w = [] \<Longrightarrow> remote f w = f w"
  by (simp add: remote_def)

lemma query_calm [io_simps]: "faults w = [] \<Longrightarrow> query f w = (Inr (f w), w)"
  by (simp add: query_def remote_def)

lemma exec_calm [io_simps]: "faults w = [] \<Longrightarrow> exec f w = (Inr (), f w)"
  by (simp add: exec_def remote_def)

lemma and_then_Inr [io_simps]: "m w = (Inr x, w1) \<Longrightarrow> and_then m f w = f x w1"
  by (simp add: and_then_def)

lemma and_then_Inl [io_simps]: "m w = (Inl e, w1) \<Longrightarrow> and_then m f w = (Inl e, w1)"
  by (simp add: and_then_def)

lemma wrapping_Inr [io_simps]: "m w = (Inr x, w1) \<Longrightarrow> wrapping msg m w = (Inr x, w1)"
  by (simp add: wrapping_def)

lemma wrapping_Inl [io_simps]: "m w = (Inl e, w1) \<Longrightarrow> wrapping msg m w = (Inl (Wrap msg e), w1)"
  by (simp add: wrapping_def)

lemma in_tx_calm:
  "faults w = [] \<Longrightarrow> body w = (Inr x, w') \<Longrightarrow> faults w' = [] \<Longrightarrow> in_tx b c body w = (Inr x, w')"
  by (simp add: in_tx_def remote_def)

lemma refault [simp]: "faults w = fs \<Longrightarrow> w\<lparr>faults := fs\<rparr> = w"
  by (cases w) simp

text \<open>What a call may have done: nothing, or what it does on some schedule.\<close>

lemma remote_ok:
  assumes "remote f w = (Inr x, w')"
  shows "\<exists>fs. f (w\<lparr>faults := fs\<rparr>) = (Inr x, w')"
proof (cases "faults w")
  case Nil
  with assms have "f (w\<lparr>faults := []\<rparr>) = (Inr x, w')" by (simp add: remote_def)
  then show ?thesis by blast
next
  case (Cons o' fs)
  with assms have "f (w\<lparr>faults := fs\<rparr>) = (Inr x, w')" by (cases o') (simp_all add: remote_def)
  then show ?thesis by blast
qed

lemma remote_any:
  assumes "remote f w = (r, w')"
  shows "\<exists>fs. w' = w\<lparr>faults := fs\<rparr> \<or> w' = snd (f (w\<lparr>faults := fs\<rparr>))"
proof (cases "faults w")
  case Nil
  with assms have "w' = snd (f (w\<lparr>faults := []\<rparr>))" by (simp add: remote_def)
  then show ?thesis by blast
next
  case (Cons o' fs)
  with assms have "w' = w\<lparr>faults := fs\<rparr> \<or> w' = snd (f (w\<lparr>faults := fs\<rparr>))"
    by (cases o') (auto simp: remote_def)
  then show ?thesis by blast
qed

lemma exec_ok: "exec f w = (Inr x, w') \<Longrightarrow> \<exists>fs. w' = f (w\<lparr>faults := fs\<rparr>)"
  unfolding exec_def using remote_ok by fastforce

lemma exec_any: "exec f w = (r, w') \<Longrightarrow> \<exists>fs. w' = w\<lparr>faults := fs\<rparr> \<or> w' = f (w\<lparr>faults := fs\<rparr>)"
  unfolding exec_def using remote_any by fastforce

lemma query_any: "query f w = (r, w') \<Longrightarrow> \<exists>fs. w' = w\<lparr>faults := fs\<rparr>"
  unfolding query_def using remote_any by fastforce

lemma query_ok: "query f w = (Inr x, w') \<Longrightarrow> \<exists>fs. w' = w\<lparr>faults := fs\<rparr> \<and> x = f w'"
  unfolding query_def using remote_ok by fastforce

section \<open>Invariants\<close>

text \<open>A predicate that does not look at the schedule, and a step that keeps it whatever happens.\<close>

definition fault_blind :: "('w world_scheme \<Rightarrow> bool) \<Rightarrow> bool" where
  "fault_blind I = (\<forall>w fs. I (w\<lparr>faults := fs\<rparr>) = I w)"

definition keeps :: "('w world_scheme \<Rightarrow> bool) \<Rightarrow> ('w, 'a) io \<Rightarrow> bool" where
  "keeps I m = (\<forall>w. I w \<longrightarrow> I (snd (m w)))"

lemma fault_blindD: "fault_blind I \<Longrightarrow> I (w\<lparr>faults := fs\<rparr>) = I w"
  by (simp add: fault_blind_def)

lemma keepsI: "(\<And>w. I w \<Longrightarrow> I (snd (m w))) \<Longrightarrow> keeps I m"
  by (simp add: keeps_def)

lemma keepsD: "keeps I m \<Longrightarrow> I w \<Longrightarrow> I (snd (m w))"
  by (simp add: keeps_def)

lemma keeps_result: "keeps I m \<Longrightarrow> I w \<Longrightarrow> m w = (r, w') \<Longrightarrow> I w'"
  by (metis keepsD snd_conv)

lemma keeps_ret [inv_intros]: "keeps I (ret x)" by (simp add: keeps_def)

lemma keeps_fail [inv_intros]: "keeps I (fail e)" by (simp add: keeps_def)

lemma keeps_of_result [inv_intros]: "keeps I (of_result r)" by (simp add: keeps_def)

lemma keeps_and_then [inv_intros]: "keeps I m \<Longrightarrow> (\<And>x. keeps I (f x)) \<Longrightarrow> keeps I (and_then m f)"
  unfolding keeps_def and_then_def by (auto split: prod.splits sum.splits)

lemma keeps_wrapping [inv_intros]: "keeps I m \<Longrightarrow> keeps I (wrapping msg m)"
  by (simp add: keeps_def)

lemma keeps_remote: "fault_blind I \<Longrightarrow> (\<And>w. I w \<Longrightarrow> I (snd (f w))) \<Longrightarrow> keeps I (remote f)"
  by (auto simp: keeps_def remote_def fault_blind_def split: list.splits outcome.splits)

lemma keeps_query [inv_intros]: "fault_blind I \<Longrightarrow> keeps I (query f)"
  unfolding query_def by (rule keeps_remote) auto

lemma keeps_exec [inv_intros]: "fault_blind I \<Longrightarrow> (\<And>w. I w \<Longrightarrow> I (f w)) \<Longrightarrow> keeps I (exec f)"
  unfolding exec_def by (rule keeps_remote) auto

lemma keeps_for_each [inv_intros]: "(\<And>x. keeps I (f x)) \<Longrightarrow> keeps I (for_each f xs)"
  by (induction xs) (auto intro: inv_intros)

lemma keeps_map_io [inv_intros]: "(\<And>x. keeps I (f x)) \<Longrightarrow> keeps I (map_io f xs)"
  by (induction xs) (auto intro!: inv_intros)

lemma keeps_in_tx [inv_intros]:
  assumes "fault_blind I" "keeps I body"
  shows "keeps I (in_tx b c body)"
proof (rule keepsI)
  fix w assume "I w"
  have begin_keeps: "keeps I (remote (\<lambda>w. (Inr (), w)))"
    by (rule keeps_remote [OF assms(1)]) simp
  obtain r1 w1 where 1: "remote (\<lambda>w. (Inr (), w)) w = (r1, w1)" by force
  with keepsD [OF begin_keeps \<open>I w\<close>] have "I w1" by simp
  obtain r2 w2 where 2: "body w1 = (r2, w2)" by force
  with keepsD [OF assms(2) \<open>I w1\<close>] have "I w2" by simp
  with \<open>I w1\<close> 1 2 show "I (snd (in_tx b c body w))"
    by (auto simp: in_tx_def fault_blindD [OF assms(1)] split: sum.splits list.splits outcome.splits)
qed

text \<open>A transaction is all or nothing: it leaves the data it found or the data its body made.\<close>

lemma in_tx_atomic:
  assumes "in_tx b c body w = (r, w')"
  shows "(\<exists>fs. w' = w\<lparr>faults := fs\<rparr>)
    \<or> (\<exists>fs x w1 w2. w1 = w\<lparr>faults := fs\<rparr> \<and> body w1 = (Inr x, w2) \<and> (\<exists>fs'. w' = w2\<lparr>faults := fs'\<rparr>))"
proof -
  obtain r1 w1 where 1: "remote (\<lambda>w. (Inr (), w)) w = (r1, w1)" by force
  then have w1: "\<exists>fs. w1 = w\<lparr>faults := fs\<rparr>"
    by (auto simp: remote_def intro: exI [of _ "faults w"] split: list.splits outcome.splits)
  obtain r2 w2 where 2: "body w1 = (r2, w2)" by force
  obtain fs where fs: "w1 = w\<lparr>faults := fs\<rparr>" using w1 by blast
  show ?thesis
  proof (cases r1)
    case (Inl e)
    with assms 1 fs show ?thesis by (auto simp: in_tx_def)
  next
    case r1: (Inr u)
    show ?thesis
    proof (cases r2)
      case (Inl e)
      with assms 1 2 r1 fs have "w' = w\<lparr>faults := faults w2\<rparr>" by (simp add: in_tx_def)
      then show ?thesis by blast
    next
      case (Inr x)
      from assms 1 2 r1 Inr have "(\<exists>gs. w' = w2\<lparr>faults := gs\<rparr>) \<or> (\<exists>gs. w' = w1\<lparr>faults := gs\<rparr>)"
        by (auto simp: in_tx_def intro: exI [of _ "faults w2"] split: list.splits outcome.splits)
      moreover from 2 Inr fs have b: "body (w\<lparr>faults := fs\<rparr>) = (Inr x, w2)" by simp
      moreover have "\<exists>hs. w1\<lparr>faults := gs\<rparr> = w\<lparr>faults := hs\<rparr>" for gs using fs by auto
      ultimately show ?thesis by metis
    qed
  qed
qed

lemma in_tx_ok:
  assumes "in_tx b c body w = (Inr x, w')"
  shows "\<exists>fs w2 fs'. body (w\<lparr>faults := fs\<rparr>) = (Inr x, w2) \<and> w' = w2\<lparr>faults := fs'\<rparr>"
proof -
  obtain r1 w1 where 1: "remote (\<lambda>w. (Inr (), w)) w = (r1, w1)" by force
  then have "\<exists>fs. w1 = w\<lparr>faults := fs\<rparr>"
    by (auto simp: remote_def intro: exI [of _ "faults w"] split: list.splits outcome.splits)
  then obtain fs where fs: "w1 = w\<lparr>faults := fs\<rparr>" by blast
  obtain r2 w2 where 2: "body w1 = (r2, w2)" by force
  from assms 1 2 have "r2 = Inr x" "\<exists>gs. w' = w2\<lparr>faults := gs\<rparr>"
    by (auto simp: in_tx_def intro: exI [of _ "faults w2"] split: sum.splits list.splits outcome.splits)
  with 2 fs show ?thesis by blast
qed

lemma and_then_cases:
  assumes "and_then m f w = (r, w')"
  obtains (failed) e where "m w = (Inl e, w')" "r = Inl e"
    | (went_on) x w1 where "m w = (Inr x, w1)" "f x w1 = (r, w')"
  using assms by (auto simp: and_then_def split: prod.splits sum.splits)

text \<open>A step that changes nothing but the schedule.\<close>

definition only_reads :: "('w, 'a) io \<Rightarrow> bool" where
  "only_reads m = (\<forall>w. \<exists>fs. snd (m w) = w\<lparr>faults := fs\<rparr>)"

lemma only_readsD: "only_reads m \<Longrightarrow> m w = (r, w') \<Longrightarrow> \<exists>fs. w' = w\<lparr>faults := fs\<rparr>"
  unfolding only_reads_def by (metis snd_conv)

lemma only_reads_same: "snd (m w) = w \<Longrightarrow> \<exists>fs. snd (m w) = w\<lparr>faults := fs\<rparr>"
  by (intro exI [of _ "faults w"]) simp

lemma only_reads_ret [read_intros]: "only_reads (ret x)"
  unfolding only_reads_def by (intro allI only_reads_same) simp

lemma only_reads_fail [read_intros]: "only_reads (fail e)"
  unfolding only_reads_def by (intro allI only_reads_same) simp

lemma only_reads_of_result [read_intros]: "only_reads (of_result r)"
  unfolding only_reads_def by (intro allI only_reads_same) simp

lemma only_reads_wrapping [read_intros]: "only_reads m \<Longrightarrow> only_reads (wrapping msg m)"
  by (simp add: only_reads_def)

lemma only_reads_query [read_intros]: "only_reads (query f)"
  unfolding only_reads_def using query_any by (metis prod.collapse)

lemma only_reads_remote: "(\<And>w. snd (f w) = w) \<Longrightarrow> only_reads (remote f)"
  unfolding only_reads_def by (metis prod.collapse remote_any)

lemma only_reads_and_then [read_intros]:
  assumes "only_reads m" "\<And>x. only_reads (f x)"
  shows "only_reads (and_then m f)"
  unfolding only_reads_def
proof
  fix w
  obtain r w' where m: "and_then m f w = (r, w')" by force
  then show "\<exists>fs. snd (and_then m f w) = w\<lparr>faults := fs\<rparr>"
  proof (cases rule: and_then_cases)
    case failed
    with m only_readsD [OF assms(1)] show ?thesis by auto
  next
    case (went_on x w1)
    from only_readsD [OF assms(1) went_on(1)] only_readsD [OF assms(2) went_on(2)] m show ?thesis by auto
  qed
qed

end
