(* ===== verification/RateLimit.thy ===== *)
theory RateLimit
  imports World Float64 Text
begin

text \<open>
  \<^verbatim>\<open>internal/event/ratelimit\<close>: the per-channel ceiling on events, a fixed-window counter in
  Redis. A window's counter is the sum of what was asked for in it, and no more than the
  limit is ever allowed; a window whose first increment could not be given an expiry never
  gets one.
\<close>

record rate_world = world +
  rl_counts :: "string \<Rightarrow> int"
  rl_expiring :: "string \<Rightarrow> bool"

record limiter =
  rl_limit :: int
  rl_window :: duration

text \<open>\<^verbatim>\<open>now.Unix() / int64(l.Window.Seconds())\<close>: the window is at least a second.\<close>

definition rate_key :: "limiter \<Rightarrow> string \<Rightarrow> time \<Rightarrow> string" where
  "rate_key l channelID now =
     ''citywalk:eventrate:'' @ channelID @ '':'' @ dec_of_int (unix now sdiv whole_seconds (rl_window l))"

definition incr_by :: "string \<Rightarrow> int \<Rightarrow> ('w rate_world_scheme \<Rightarrow> int result \<times> 'w rate_world_scheme)" where
  "incr_by k n = remote (\<lambda>w. (Inr (rl_counts w k + n), w\<lparr>rl_counts := (rl_counts w)(k := rl_counts w k + n)\<rparr>))"

definition allow :: "limiter \<Rightarrow> string \<Rightarrow> int \<Rightarrow> time \<Rightarrow> ('w rate_world_scheme \<Rightarrow> bool result \<times> 'w rate_world_scheme)" where
  "allow l channelID n now =
     (let k = rate_key l channelID now in
      and_then (wrapping ''ratelimit: incrby'' (incr_by k n)) (\<lambda>count.
        if count = n then
          and_then (wrapping ''ratelimit: expire'' (exec (\<lambda>w. w\<lparr>rl_expiring := (rl_expiring w)(k := True)\<rparr>)))
            (\<lambda>_. ret (count \<le> rl_limit l))
        else ret (count \<le> rl_limit l)))"

text \<open>What a sequence of requests in one window was granted.\<close>

fun allow_all :: "limiter \<Rightarrow> string \<Rightarrow> (int \<times> time) list \<Rightarrow> 'w rate_world_scheme \<Rightarrow> int \<times> 'w rate_world_scheme" where
  "allow_all l ch [] w = (0, w)"
| "allow_all l ch ((n, now) # reqs) w =
     (let (r, w1) = allow l ch n now w; (granted, w2) = allow_all l ch reqs w1
      in ((if r = Inr True then n else 0) + granted, w2))"

lemma allow_counts:
  assumes "allow l ch n now w = (r, w')" "0 \<le> n"
  defines "k \<equiv> rate_key l ch now"
  shows "rl_counts w k \<le> rl_counts w' k \<and> (r = Inr True \<longrightarrow> rl_counts w' k = rl_counts w k + n \<and> rl_counts w' k \<le> rl_limit l)
    \<and> (\<forall>j. j \<noteq> k \<longrightarrow> rl_counts w' j = rl_counts w j)"
  using assms(1,2) unfolding k_def
  by (auto simp: allow_def incr_by_def exec_def remote_def and_then_def wrapping_def Let_def
      split: list.splits outcome.splits if_splits)

lemma allow_all_granted:
  assumes "\<forall>(n, now) \<in> set reqs. 0 \<le> n \<and> rate_key l ch now = k"
    and "allow_all l ch reqs w = (granted, w')"
  shows "rl_counts w k \<le> rl_counts w' k \<and> granted \<le> max 0 (rl_limit l - rl_counts w k)
    \<and> granted \<le> rl_counts w' k - rl_counts w k"
  using assms
proof (induction reqs arbitrary: w granted)
  case (Cons req reqs)
  obtain n now where req: "req = (n, now)" by (cases req)
  obtain r w1 where 1: "allow l ch n now w = (r, w1)" by force
  obtain g w2 where 2: "allow_all l ch reqs w1 = (g, w2)" by force
  have n: "0 \<le> n" "rate_key l ch now = k" using Cons.prems(1) req by auto
  have out: "granted = (if r = Inr True then n else 0) + g" "w' = w2"
    using Cons.prems(2) req 1 2 by auto
  have "rl_counts w1 k \<le> rl_counts w2 k \<and> g \<le> max 0 (rl_limit l - rl_counts w1 k)
      \<and> g \<le> rl_counts w2 k - rl_counts w1 k"
    using Cons.IH [of w1 g] Cons.prems(1) 2 out(2) by auto
  with allow_counts [OF 1 n(1)] out n(2) show ?case by (auto split: if_splits)
qed simp

text \<open>
  C38: the ceiling of a window holds whatever fails: however many requests a channel makes in one
  window, and whatever calls to Redis are lost, what is granted in total never exceeds the
  limit less what the window had counted before.
\<close>

theorem rate_limit_ceiling:
  assumes "\<forall>(n, now) \<in> set reqs. 0 \<le> n \<and> rate_key l ch now = k"
    and "allow_all l ch reqs w = (granted, w')"
  shows "granted \<le> max 0 (rl_limit l - rl_counts w k)"
  using allow_all_granted [OF assms] by blast

definition demo_rate_world :: rate_world where
  "demo_rate_world = \<lparr>faults = [Done, Done, Unacked, Lost, Done], rl_counts = (\<lambda>_. 0), rl_expiring = (\<lambda>_. False)\<rparr>"

definition demo_limiter :: limiter where
  "demo_limiter = \<lparr>rl_limit = 10, rl_window = 60 * second\<rparr>"

theorem rate_limit_ceiling_witness:
  "fst (allow_all demo_limiter ''c'' [(6, 5 * second), (3, 6 * second), (3, 7 * second), (4, 8 * second)] demo_rate_world) \<le> 10"
proof -
  have w: "whole_seconds (60 * second) = 60"
    using whole_seconds_exact [of 60] by simp
  have u: "unix (5 * second) = 5" "unix (6 * second) = 6" "unix (7 * second) = 7" "unix (8 * second) = 8"
    by (simp_all add: unix_def second_def)
  have k: "\<forall>(n, now) \<in> set [(6, 5 * second), (3, 6 * second), (3, 7 * second), (4, 8 * second)].
      (0::int) \<le> n \<and> rate_key demo_limiter ''c'' now = rate_key demo_limiter ''c'' (5 * second)"
    by (simp add: rate_key_def demo_limiter_def w u)
  obtain g w' where r: "allow_all demo_limiter ''c''
      [(6, 5 * second), (3, 6 * second), (3, 7 * second), (4, 8 * second)] demo_rate_world = (g, w')"
    by force
  from rate_limit_ceiling [OF k r] r show ?thesis
    by (simp add: demo_limiter_def demo_rate_world_def)
qed

end
