(* ===== verification/EventModel.thy ===== *)
theory EventModel
  imports Json
begin

text \<open>
  \<^verbatim>\<open>internal/event/model\<close> and \<^verbatim>\<open>internal/event/clockoffset\<close>: the event envelope, its
  validation, which of its two timestamps is believed, its form on the log, and the
  correction of a device's clock.
\<close>

section \<open>The envelope\<close>

datatype event_kind =
    KindImpression
  | KindButtonPress
  | KindDismissal
  | KindAutoClose
  | KindSuppression
  | KindHoldoutQualified
  | KindCustom
  | OtherKind string

fun kind_string :: "event_kind \<Rightarrow> string" where
  "kind_string KindImpression = ''impression''"
| "kind_string KindButtonPress = ''button_press''"
| "kind_string KindDismissal = ''dismissal''"
| "kind_string KindAutoClose = ''auto_close''"
| "kind_string KindSuppression = ''suppression''"
| "kind_string KindHoldoutQualified = ''holdout_qualified''"
| "kind_string KindCustom = ''custom''"
| "kind_string (OtherKind s) = s"

text \<open>The conversion of a string to the type \<^verbatim>\<open>Kind\<close>: \<^term>\<open>OtherKind\<close> is kept for strings that name none.\<close>

definition known_kinds :: "event_kind list" where
  "known_kinds = [KindImpression, KindButtonPress, KindDismissal, KindAutoClose, KindSuppression,
     KindHoldoutQualified, KindCustom]"

definition kind_of_string :: "string \<Rightarrow> event_kind" where
  "kind_of_string s = (case find (\<lambda>k. kind_string k = s) known_kinds of Some k \<Rightarrow> k | None \<Rightarrow> OtherKind s)"

definition impression_family :: "event_kind \<Rightarrow> bool" where
  "impression_family k = (k \<in> set [KindImpression, KindButtonPress, KindDismissal, KindAutoClose,
     KindSuppression, KindHoldoutQualified])"

definition variant_required :: "event_kind \<Rightarrow> bool" where
  "variant_required k = (k \<in> set [KindImpression, KindButtonPress, KindDismissal, KindAutoClose])"

definition known_suppression_reasons :: "string list" where
  "known_suppression_reasons =
     [''per_message_cap'', ''minimum_interval'', ''project_budget'', ''lost_on_priority'',
      ''display_condition_unmet'', ''cooldown'', ''cancellation_trigger'', ''expiry'']"

record event =
  ev_id :: string
  ev_channel :: string
  ev_kind :: event_kind
  ev_name :: string
  device_time :: time
  server_time :: time
  ev_properties :: "json go_map"
  ev_message :: string
  ev_variant :: string
  suppression_reason :: string

definition validate_event :: "event \<Rightarrow> unit result" where
  "validate_event e =
     (if ev_id e = [] then Inl (Errorf ''event: id is required'')
      else if ev_channel e = [] then Inl (Errorf ''event: channel_id is required'')
      else if ev_kind e \<notin> set known_kinds then Inl (Errorf ''event: unknown kind'')
      else if ev_kind e = KindCustom \<and> ev_name e = [] then Inl (Errorf ''event: name is required'')
      else if device_time e = zero_time then Inl (Errorf ''event: device_time is required'')
      else if impression_family (ev_kind e) \<and> ev_message e = [] then
        Inl (Errorf ''event: message_id is required'')
      else if variant_required (ev_kind e) \<and> ev_variant e = [] then
        Inl (Errorf ''event: variant_id is required'')
      else if ev_kind e = KindSuppression \<and> suppression_reason e \<notin> set known_suppression_reasons then
        Inl (Errorf ''event: unknown suppression reason'')
      else Inr ())"

definition event_name :: "event \<Rightarrow> string" where
  "event_name e = (if ev_kind e = KindCustom then ev_name e else kind_string (ev_kind e))"

section \<open>Two timestamps\<close>

definition MaxFutureSkew :: duration where "MaxFutureSkew = 5 * minute"

definition MaxPastSkew :: duration where "MaxPastSkew = 30 * 24 * hour"

definition clock_offset :: "time \<Rightarrow> time \<Rightarrow> duration" where
  "clock_offset deviceTime serverTime = time_sub serverTime deviceTime"

definition clock_skew_implausible :: "time \<Rightarrow> time \<Rightarrow> bool" where
  "clock_skew_implausible deviceTime serverTime =
     (let offset = clock_offset deviceTime serverTime in
      offset < - MaxFutureSkew \<or> offset > MaxPastSkew)"

definition effective_time :: "time \<Rightarrow> time \<Rightarrow> time" where
  "effective_time deviceTime serverTime =
     (if clock_skew_implausible deviceTime serverTime then serverTime else deviceTime)"

lemma effective_time_near:
  "serverTime - MaxPastSkew \<le> effective_time d serverTime \<and> effective_time d serverTime \<le> serverTime + MaxFutureSkew"
  by (auto simp: effective_time_def clock_skew_implausible_def clock_offset_def time_sub_def Let_def
      MaxFutureSkew_def MaxPastSkew_def minute_def hour_def second_def min_int64_def max_int64_def)

section \<open>The form of an event on the log\<close>

text \<open>
  \<^verbatim>\<open>time.Time\<close> writes itself as a string and reads it back; \<open>put_time\<close> fails outside the years
  0 to 9999, \<open>get_time\<close> on a string that is no timestamp. Both are arguments.
\<close>

definition str_member :: "string \<Rightarrow> string \<Rightarrow> (string \<times> json) list" where
  "str_member k s = (if s = [] then [] else [(k, JStr s)])"

definition encode_log :: "(time \<Rightarrow> string result) \<Rightarrow> event \<Rightarrow> json result" where
  "encode_log put_time e =
     wrap_err ''model: encode event for log''
       (res_bind (put_time (device_time e)) (\<lambda>dt. res_bind (put_time (server_time e)) (\<lambda>st.
          Inr (JObj ([(''id'', JStr (ev_id e)), (''channel_id'', JStr (ev_channel e)),
                 (''kind'', JStr (kind_string (ev_kind e)))]
               @ str_member ''name'' (ev_name e)
               @ [(''device_time'', JStr dt), (''server_time'', JStr st)]
               @ (if ev_properties e = [] then [] else [(''properties'', JObj (ev_properties e))])
               @ str_member ''message_id'' (ev_message e)
               @ str_member ''variant_id'' (ev_variant e)
               @ str_member ''suppression_reason'' (suppression_reason e))))))"

text \<open>Decoding into \<^verbatim>\<open>any\<close>: numbers become float64 and objects maps.\<close>

fun as_any :: "json \<Rightarrow> json" where
  "as_any (JInt n) = json_of_float (fl (of_int n))"
| "as_any (JDec r) = json_of_float (fl r)"
| "as_any (JList js) = JList (map as_any js)"
| "as_any (JObj kvs) = JObj (put_all (map (\<lambda>(k, j). (k, as_any j)) kvs) [])"
| "as_any j = j"

definition plain_properties :: "json go_map \<Rightarrow> bool" where
  "plain_properties m = (canonical m \<and> (\<forall>(k, j) \<in> set m. as_any j = j))"

fun dec_time :: "(string \<Rightarrow> time option) \<Rightarrow> json \<Rightarrow> time \<Rightarrow> time result" where
  "dec_time get_time JNull old = Inr old"
| "dec_time get_time (JStr s) old = (case get_time s of None \<Rightarrow> type_error | Some t \<Rightarrow> Inr t)"
| "dec_time get_time _ old = type_error"

fun dec_any_map :: "json \<Rightarrow> json go_map \<Rightarrow> json go_map result" where
  "dec_any_map JNull old = Inr []"
| "dec_any_map (JObj kvs) old = Inr (put_all (map (\<lambda>(k, j). (k, as_any j)) kvs) old)"
| "dec_any_map _ old = type_error"

definition log_field :: "(string \<Rightarrow> time option) \<Rightarrow> string \<Rightarrow> json \<Rightarrow> event \<Rightarrow> event result" where
  "log_field get_time k j e =
     (if k = ''id'' then res_bind (dec_str j (ev_id e)) (\<lambda>s. Inr (e\<lparr>ev_id := s\<rparr>))
      else if k = ''channel_id'' then res_bind (dec_str j (ev_channel e)) (\<lambda>s. Inr (e\<lparr>ev_channel := s\<rparr>))
      else if k = ''kind'' then
        res_bind (dec_str j (kind_string (ev_kind e))) (\<lambda>s. Inr (e\<lparr>ev_kind := kind_of_string s\<rparr>))
      else if k = ''name'' then res_bind (dec_str j (ev_name e)) (\<lambda>s. Inr (e\<lparr>ev_name := s\<rparr>))
      else if k = ''device_time'' then
        res_bind (dec_time get_time j (device_time e)) (\<lambda>t. Inr (e\<lparr>device_time := t\<rparr>))
      else if k = ''server_time'' then
        res_bind (dec_time get_time j (server_time e)) (\<lambda>t. Inr (e\<lparr>server_time := t\<rparr>))
      else if k = ''properties'' then
        res_bind (dec_any_map j (ev_properties e)) (\<lambda>m. Inr (e\<lparr>ev_properties := m\<rparr>))
      else if k = ''message_id'' then res_bind (dec_str j (ev_message e)) (\<lambda>s. Inr (e\<lparr>ev_message := s\<rparr>))
      else if k = ''variant_id'' then res_bind (dec_str j (ev_variant e)) (\<lambda>s. Inr (e\<lparr>ev_variant := s\<rparr>))
      else if k = ''suppression_reason'' then
        res_bind (dec_str j (suppression_reason e)) (\<lambda>s. Inr (e\<lparr>suppression_reason := s\<rparr>))
      else Inr e)"

definition empty_event :: event where
  "empty_event = \<lparr>ev_id = [], ev_channel = [], ev_kind = OtherKind [], ev_name = [],
     device_time = zero_time, server_time = zero_time, ev_properties = [], ev_message = [],
     ev_variant = [], suppression_reason = []\<rparr>"

definition decode_log_event :: "(string \<Rightarrow> time option) \<Rightarrow> json \<Rightarrow> event result" where
  "decode_log_event get_time data =
     wrap_err ''model: decode log event'' (dec_struct (log_field get_time) data empty_event)"

lemma kind_of_kind_string: "k \<in> set known_kinds \<Longrightarrow> kind_of_string (kind_string k) = k"
  unfolding known_kinds_def by (cases k) (simp_all add: kind_of_string_def known_kinds_def)

lemma plain_properties_read: "plain_properties m \<Longrightarrow> put_all (map (\<lambda>(k, j). (k, as_any j)) m) [] = m"
proof -
  assume m: "plain_properties m"
  then have "map (\<lambda>(k, j). (k, as_any j)) m = m"
    by (intro map_idI) (auto simp: plain_properties_def)
  with m show ?thesis by (simp add: plain_properties_def put_all_id)
qed

lemma log_str_members:
  "dec_members (log_field g) (str_member ''name'' s) e
     = Inr (if s = [] then e else e\<lparr>ev_name := s\<rparr>)"
  "dec_members (log_field g) (str_member ''message_id'' s) e
     = Inr (if s = [] then e else e\<lparr>ev_message := s\<rparr>)"
  "dec_members (log_field g) (str_member ''variant_id'' s) e
     = Inr (if s = [] then e else e\<lparr>ev_variant := s\<rparr>)"
  "dec_members (log_field g) (str_member ''suppression_reason'' s) e
     = Inr (if s = [] then e else e\<lparr>suppression_reason := s\<rparr>)"
  by (simp_all add: str_member_def log_field_def lower_char_def)

lemma log_head_members:
  "dec_members (log_field g) [(''id'', JStr i), (''channel_id'', JStr c), (''kind'', JStr k)] e
     = Inr (e\<lparr>ev_id := i, ev_channel := c, ev_kind := kind_of_string k\<rparr>)"
  by (simp add: log_field_def lower_char_def)

lemma log_time_members:
  "g dt = Some d \<Longrightarrow> g st = Some t \<Longrightarrow>
     dec_members (log_field g) [(''device_time'', JStr dt), (''server_time'', JStr st)] e
     = Inr (e\<lparr>device_time := d, server_time := t\<rparr>)"
  by (simp add: log_field_def lower_char_def)

lemma log_property_members:
  "plain_properties m \<Longrightarrow> ev_properties e = [] \<Longrightarrow>
     dec_members (log_field g) (if m = [] then [] else [(''properties'', JObj m)]) e
     = Inr (e\<lparr>ev_properties := m\<rparr>)"
  by (simp add: log_field_def lower_char_def plain_properties_read)

lemma log_roundtrip_step:
  assumes "ev_kind e \<in> set known_kinds" "plain_properties (ev_properties e)"
    and "\<And>t s. put_time t = Inr s \<Longrightarrow> get_time s = Some t"
    and "encode_log put_time e = Inr data"
  shows "decode_log_event get_time data = Inr e"
proof -
  from assms(4) obtain dt st where t: "put_time (device_time e) = Inr dt" "put_time (server_time e) = Inr st"
    and data: "data = JObj ([(''id'', JStr (ev_id e)), (''channel_id'', JStr (ev_channel e)),
                 (''kind'', JStr (kind_string (ev_kind e)))]
               @ str_member ''name'' (ev_name e)
               @ [(''device_time'', JStr dt), (''server_time'', JStr st)]
               @ (if ev_properties e = [] then [] else [(''properties'', JObj (ev_properties e))])
               @ str_member ''message_id'' (ev_message e)
               @ str_member ''variant_id'' (ev_variant e)
               @ str_member ''suppression_reason'' (suppression_reason e))"
    by (auto simp: encode_log_def res_bind_Inr_iff)
  have g: "get_time dt = Some (device_time e)" "get_time st = Some (server_time e)"
    using assms(3) t by auto
  show ?thesis
    unfolding data decode_log_event_def dec_struct.simps dec_members_append log_head_members
      res_bind_simps log_str_members log_time_members [OF g]
    by (simp add: log_property_members [OF assms(2)] log_str_members empty_event_def
        kind_of_kind_string [OF assms(1)])
qed

text \<open>
  C39: an event written to the log and read back is the same event, as long as its kind is a
  known one and its properties are what \<^verbatim>\<open>encoding/json\<close> keeps.
\<close>

theorem log_roundtrip:
  assumes "ev_kind e \<in> set known_kinds" "plain_properties (ev_properties e)"
    and "\<And>t s. put_time t = Inr s \<Longrightarrow> get_time s = Some t"
    and "encode_log put_time e = Inr data"
  shows "decode_log_event get_time data = Inr e"
  by (rule log_roundtrip_step [OF assms(1,2) _ assms(4)]) (rule assms(3))

definition demo_put_time :: "time \<Rightarrow> string result" where
  "demo_put_time t = (if t < 0 then Inl (Errorf ''year outside of range'') else Inr (replicate (nat t) CHR ''t''))"

definition demo_get_time :: "string \<Rightarrow> time option" where
  "demo_get_time s = Some (int (length s))"

definition demo_logged :: event where
  "demo_logged = empty_event\<lparr>ev_id := ''i'', ev_channel := ''c'', ev_kind := KindImpression, ev_message := ''m'',
     ev_variant := ''v'', device_time := 2, server_time := 3, ev_properties := [(''a'', JBool True)]\<rparr>"

theorem log_roundtrip_witness:
  "\<exists>data. encode_log demo_put_time demo_logged = Inr data \<and> decode_log_event demo_get_time data = Inr demo_logged"
proof -
  obtain data where data: "encode_log demo_put_time demo_logged = Inr data"
    by (simp add: encode_log_def demo_put_time_def demo_logged_def)
  have "decode_log_event demo_get_time data = Inr demo_logged"
  proof (rule log_roundtrip [OF _ _ _ data])
    show "ev_kind demo_logged \<in> set known_kinds" by (simp add: demo_logged_def known_kinds_def)
    show "plain_properties (ev_properties demo_logged)"
      by (simp add: demo_logged_def plain_properties_def canonical_def)
    show "demo_put_time t = Inr s \<Longrightarrow> demo_get_time s = Some t" for t s
      by (auto simp: demo_put_time_def demo_get_time_def split: if_splits)
  qed
  with data show ?thesis by blast
qed

section \<open>The clock of a device\<close>

definition DefaultSampleSize :: nat where "DefaultSampleSize = 50"

text \<open>Division of Go truncates towards zero; the sum of two durations wraps.\<close>

definition median_offset :: "duration list \<Rightarrow> duration" where
  "median_offset deltas =
     (if deltas = [] then 0
      else (let sorted = sort deltas; mid = length sorted div 2 in
            if length sorted mod 2 = 1 then sorted ! mid
            else wrap64 (sorted ! (mid - 1) + sorted ! mid) sdiv 2))"

definition correct_time :: "time \<Rightarrow> time \<Rightarrow> duration \<Rightarrow> time" where
  "correct_time deviceTime serverTime offset =
     (let corrected = time_add deviceTime (wrap64 (- offset)) in
      if corrected > serverTime then serverTime else corrected)"

end
