(* ===== verification/Ingest.thy ===== *)
theory Ingest
  imports RateLimit EventModel
begin

text \<open>
  \<^verbatim>\<open>internal/event/ingest\<close> and the producing half of \<^verbatim>\<open>internal/platform/eventlog\<close>: the
  acceptance of a batch and the two publishers it may write to. The contract between them
  is a locale: a publisher that reports success has every event on record, and whatever
  happens it takes nothing off the record.
\<close>

section \<open>The tables and the log\<close>

record event_row =
  row_seq :: int
  row_id :: string
  row_channel :: string
  row_kind :: string
  row_name :: string
  row_device_time :: time
  row_server_time :: time
  row_properties :: "json go_map"
  row_message :: "string option"
  row_variant :: "string option"
  row_reason :: "string option"

text \<open>The broker's topic as one partition: keys and values in the order they were appended.\<close>

record ingest_world = rate_world +
  events_log :: "event_row list"
  next_seq :: int
  topic :: "(string \<times> json) list"

section \<open>The log's producer\<close>

record log_config =
  log_brokers :: "string list"
  log_topic :: string

definition validate_log_config :: "log_config \<Rightarrow> unit result" where
  "validate_log_config c =
     (if log_brokers c = [] then Inl (Errorf ''eventlog: at least one broker is required'')
      else if list_ex (\<lambda>b. trim_space b = []) (log_brokers c) then
        Inl (Errorf ''eventlog: broker address must not be blank'')
      else if trim_space (log_topic c) = [] then Inl (Errorf ''eventlog: topic is required'')
      else Inr ())"

definition partition_key :: "string \<Rightarrow> string" where "partition_key channelID = channelID"

definition producer_publish :: "string \<Rightarrow> json \<Rightarrow> 'w ingest_world_scheme \<Rightarrow> unit result \<times> 'w ingest_world_scheme" where
  "producer_publish k v = wrapping ''eventlog: publish'' (exec (\<lambda>w. w\<lparr>topic := topic w @ [(k, v)]\<rparr>))"

section \<open>The publishers\<close>

definition null_if_empty :: "string \<Rightarrow> string option" where
  "null_if_empty s = (if s = [] then None else Some s)"

text \<open>A \<^verbatim>\<open>timestamptz\<close> keeps microseconds.\<close>

definition pg_time :: "time \<Rightarrow> time" where
  "pg_time t = t div 1000 * 1000"

text \<open>
  \<^verbatim>\<open>INSERT ... ON CONFLICT (id) DO NOTHING\<close>: whether a row was inserted; the sequence advances
  either way.
\<close>

definition insert_event :: "event \<Rightarrow> time \<Rightarrow> 'w ingest_world_scheme \<Rightarrow> int \<times> 'w ingest_world_scheme" where
  "insert_event e now w =
     (let row = \<lparr>row_seq = next_seq w, row_id = ev_id e, row_channel = ev_channel e,
          row_kind = kind_string (ev_kind e), row_name = event_name e, row_device_time = pg_time (device_time e),
          row_server_time = pg_time now, row_properties = ev_properties e,
          row_message = null_if_empty (ev_message e), row_variant = null_if_empty (ev_variant e),
          row_reason = null_if_empty (suppression_reason e)\<rparr>;
        w1 = w\<lparr>next_seq := next_seq w + 1\<rparr>
      in if ev_id e \<in> row_id ` set (events_log w) then (0, w1)
         else (1, w1\<lparr>events_log := events_log w @ [row]\<rparr>))"

fun insert_events :: "event list \<Rightarrow> time \<Rightarrow> 'w ingest_world_scheme \<Rightarrow> int \<times> 'w ingest_world_scheme" where
  "insert_events [] now w = (0, w)"
| "insert_events (e # es) now w =
     (let (n, w1) = insert_event e now w; (m, w2) = insert_events es now w1 in (n + m, w2))"

text \<open>
  The statements of a batch are one round trip and one implicit transaction; the properties
  are JSON values already, so writing them does not fail.
\<close>

definition append_to_log :: "event list \<Rightarrow> time \<Rightarrow> 'w ingest_world_scheme \<Rightarrow> int result \<times> 'w ingest_world_scheme" where
  "append_to_log events now =
     wrapping ''ingest: append event'' (remote (\<lambda>w. case insert_events events now w of (n, w') \<Rightarrow> (Inr n, w')))"

definition postgres_publish :: "event list \<Rightarrow> time \<Rightarrow> 'w ingest_world_scheme \<Rightarrow> int result \<times> 'w ingest_world_scheme" where
  "postgres_publish events now = append_to_log events now"

fun log_publish_from ::
  "(time \<Rightarrow> string result) \<Rightarrow> nat \<Rightarrow> event list \<Rightarrow> time \<Rightarrow> 'w ingest_world_scheme \<Rightarrow> int result \<times> 'w ingest_world_scheme" where
  "log_publish_from put_time i [] now = ret (int i)"
| "log_publish_from put_time i (e # es) now =
     and_then (wrapping ''ingest: encode event for log'' (of_result (encode_log put_time (e\<lparr>server_time := now\<rparr>)))) (\<lambda>v.
       and_then (wrapping ''ingest: publish event to log'' (producer_publish (partition_key (ev_channel e)) v)) (\<lambda>_.
         log_publish_from put_time (Suc i) es now))"

definition log_publish ::
  "(time \<Rightarrow> string result) \<Rightarrow> event list \<Rightarrow> time \<Rightarrow> 'w ingest_world_scheme \<Rightarrow> int result \<times> 'w ingest_world_scheme" where
  "log_publish put_time events now = log_publish_from put_time 0 events now"

section \<open>Acceptance\<close>

record accept_result =
  accepted :: int
  rejected_invalid :: int
  rejected_rate_limited :: int
  clock_skew_flagged :: int

definition no_events :: accept_result where
  "no_events = \<lparr>accepted = 0, rejected_invalid = 0, rejected_rate_limited = 0, clock_skew_flagged = 0\<rparr>"

text \<open>The first loop: the valid events and the tally so far, or the shape error.\<close>

fun screen_batch :: "string \<Rightarrow> event list \<Rightarrow> time \<Rightarrow> accept_result \<Rightarrow> (event list \<times> accept_result) result" where
  "screen_batch ch [] now res = Inr ([], res)"
| "screen_batch ch (e # es) now res =
     (if ev_channel e \<noteq> ch then Inl (Errorf ''ingest: event has another channel_id than the batch'')
      else if \<not> is_ok (validate_event e) then
        screen_batch ch es now (res\<lparr>rejected_invalid := rejected_invalid res + 1\<rparr>)
      else res_bind (screen_batch ch es now
          (if clock_skew_implausible (device_time e) now
           then res\<lparr>clock_skew_flagged := clock_skew_flagged res + 1\<rparr> else res))
        (\<lambda>(valid, res'). Inr (e # valid, res')))"

type_synonym 'w publisher = "event list \<Rightarrow> time \<Rightarrow> 'w ingest_world_scheme \<Rightarrow> int result \<times> 'w ingest_world_scheme"

definition accept ::
  "'w publisher \<Rightarrow> limiter \<Rightarrow> string \<Rightarrow> event list \<Rightarrow> time
     \<Rightarrow> 'w ingest_world_scheme \<Rightarrow> accept_result result \<times> 'w ingest_world_scheme" where
  "accept publish l channelID batch now =
     and_then (of_result (screen_batch channelID batch now no_events)) (\<lambda>(valid, res).
       if valid = [] then ret res
       else and_then (wrapping ''ingest: rate limit check'' (allow l channelID (int (length valid)) now)) (\<lambda>allowed.
         if \<not> allowed then ret (res\<lparr>rejected_rate_limited := int (length valid)\<rparr>)
         else and_then (publish valid now) (\<lambda>n. ret (res\<lparr>accepted := n\<rparr>))))"

definition record_event :: "'w publisher \<Rightarrow> event \<Rightarrow> time \<Rightarrow> 'w ingest_world_scheme \<Rightarrow> unit result \<times> 'w ingest_world_scheme" where
  "record_event publish e now =
     and_then (wrapping ''ingest: record'' (of_result (validate_event e))) (\<lambda>_.
       and_then (wrapping ''ingest: record'' (publish [e] now)) (\<lambda>_. ret ()))"

text \<open>The loop counts each event once.\<close>

lemma screen_batch_tally:
  "screen_batch ch batch now res = Inr (valid, res') \<Longrightarrow>
     valid = filter (\<lambda>e. is_ok (validate_event e)) batch \<and> (\<forall>e \<in> set batch. ev_channel e = ch)
     \<and> rejected_invalid res' = rejected_invalid res + int (length (filter (\<lambda>e. \<not> is_ok (validate_event e)) batch))
     \<and> clock_skew_flagged res' = clock_skew_flagged res + int (length (filter (\<lambda>e. clock_skew_implausible (device_time e) now) valid))
     \<and> accepted res' = accepted res \<and> rejected_rate_limited res' = rejected_rate_limited res"
proof (induction ch batch now res arbitrary: valid res' rule: screen_batch.induct)
  case (2 ch e es now res)
  show ?case
  proof (cases "is_ok (validate_event e)")
    case True
    with "2.prems" obtain v0 where "ev_channel e = ch" "valid = e # v0"
      "screen_batch ch es now (if clock_skew_implausible (device_time e) now
         then res\<lparr>clock_skew_flagged := clock_skew_flagged res + 1\<rparr> else res) = Inr (v0, res')"
      by (auto simp: res_bind_Inr_iff split: if_splits)
    with "2.IH"(2) [of v0 res'] True show ?thesis by (clarsimp split: if_splits)
  next
    case False
    with "2.prems" have "ev_channel e = ch"
      "screen_batch ch es now (res\<lparr>rejected_invalid := rejected_invalid res + 1\<rparr>) = Inr (valid, res')"
      by (auto split: if_splits)
    with "2.IH"(1) [of valid res'] False show ?thesis by clarsimp
  qed
qed simp

section \<open>The contract of a publisher\<close>

locale publisher =
  fixes publish :: "event list \<Rightarrow> time \<Rightarrow> 'w ingest_world_scheme \<Rightarrow> int result \<times> 'w ingest_world_scheme"
    and on_record :: "'w ingest_world_scheme \<Rightarrow> string set"
  assumes publish_records: "publish es now w = (Inr n, w') \<Longrightarrow> ev_id ` set es \<subseteq> on_record w'"
    and publish_keeps: "publish es now w = (r, w') \<Longrightarrow> on_record w \<subseteq> on_record w'"
    and publish_count: "publish es now w = (Inr n, w') \<Longrightarrow> 0 \<le> n \<and> n \<le> int (length es)"
    and record_blind: "on_record (w\<lparr>faults := fs, rl_counts := c, rl_expiring := x\<rparr>) = on_record w"
begin

lemma allow_record: "allow l ch n now w = (r, w') \<Longrightarrow> on_record w' = on_record w"
proof -
  assume "allow l ch n now w = (r, w')"
  then have "\<exists>fs c x. w' = w\<lparr>faults := fs, rl_counts := c, rl_expiring := x\<rparr>"
    by (cases w)
      (auto simp: allow_def incr_by_def exec_def remote_def and_then_def wrapping_def Let_def
        split: list.splits outcome.splits if_splits intro: exI)
  then show ?thesis using record_blind by auto
qed

text \<open>An answer of \<^verbatim>\<open>Accept\<close> either published nothing or is the answer of the publisher.\<close>

lemma accept_cases:
  assumes "accept publish l ch batch now w = (Inr res, w')"
  obtains (kept) valid res0 where "screen_batch ch batch now no_events = Inr (valid, res0)"
      "res = res0\<lparr>rejected_rate_limited := int (length valid)\<rparr>" "on_record w' = on_record w"
    | (published) valid res0 w1 n where "screen_batch ch batch now no_events = Inr (valid, res0)"
      "publish valid now w1 = (Inr n, w')" "res = res0\<lparr>accepted := n\<rparr>" "on_record w1 = on_record w"
proof -
  from assms obtain valid res0 where s: "screen_batch ch batch now no_events = Inr (valid, res0)"
    and rest: "(if valid = [] then ret res0
       else and_then (wrapping ''ingest: rate limit check'' (allow l ch (int (length valid)) now)) (\<lambda>allowed.
         if \<not> allowed then ret (res0\<lparr>rejected_rate_limited := int (length valid)\<rparr>)
         else and_then (publish valid now) (\<lambda>n. ret (res0\<lparr>accepted := n\<rparr>)))) w = (Inr res, w')"
    by (auto simp: accept_def and_then_ok)
  show thesis
  proof (cases "valid = []")
    case True
    have "rejected_rate_limited res0 = 0"
      using screen_batch_tally [OF s] unfolding no_events_def by (elim conjE, simp only: accept_result.simps)
    then have "res0 = res0\<lparr>rejected_rate_limited := int (length valid)\<rparr>" using True by (cases res0) simp
    with True rest show thesis by (intro kept [OF s]) simp_all
  next
    case False
    with rest obtain allowed w1 where a: "allow l ch (int (length valid)) now w = (Inr allowed, w1)"
      and rest': "(if \<not> allowed then ret (res0\<lparr>rejected_rate_limited := int (length valid)\<rparr>)
         else and_then (publish valid now) (\<lambda>n. ret (res0\<lparr>accepted := n\<rparr>))) w1 = (Inr res, w')"
      by (auto simp: and_then_ok)
    from rest' allow_record [OF a] show thesis
      by (cases allowed) (auto simp: and_then_ok intro: kept [OF s] published [OF s])
  qed
qed

lemma record_event_records:
  assumes "record_event publish e now w = (Inr u, w')"
  shows "validate_event e = Inr () \<and> ev_id e \<in> on_record w'"
  using assms publish_records [of "[e]" now w] by (auto simp: record_event_def and_then_ok)

end

section \<open>Both publishers keep it\<close>

definition rows_on_record :: "'w ingest_world_scheme \<Rightarrow> string set" where
  "rows_on_record w = row_id ` set (events_log w)"

definition topic_on_record :: "'w ingest_world_scheme \<Rightarrow> string set" where
  "topic_on_record w = {i. \<exists>k kvs. (k, JObj kvs) \<in> set (topic w) \<and> (''id'', JStr i) \<in> set kvs}"

lemma insert_events_facts:
  "insert_events es now w = (n, w') \<Longrightarrow>
     ev_id ` set es \<subseteq> rows_on_record w' \<and> rows_on_record w \<subseteq> rows_on_record w'
     \<and> 0 \<le> n \<and> n \<le> int (length es) \<and> n = int (length (events_log w')) - int (length (events_log w))"
proof (induction es arbitrary: w n)
  case (Cons e es)
  obtain m w1 where 1: "insert_event e now w = (m, w1)" by force
  obtain p w2 where 2: "insert_events es now w1 = (p, w2)" by force
  have "ev_id e \<in> rows_on_record w1" "rows_on_record w \<subseteq> rows_on_record w1" "0 \<le> m" "m \<le> 1"
    "m = int (length (events_log w1)) - int (length (events_log w))"
    using 1 by (auto simp: insert_event_def rows_on_record_def Let_def split: if_splits)
  moreover have "w2 = w'" using Cons.prems 1 2 by simp
  ultimately show ?case using Cons.IH [of w1 p] Cons.prems 1 2 by auto
qed (simp add: rows_on_record_def)

lemma insert_events_count:
  "insert_events es now w = (n, w') \<Longrightarrow>
     n = int (card (ev_id ` set es - rows_on_record w)) \<and> rows_on_record w' = rows_on_record w \<union> ev_id ` set es"
proof (induction es arbitrary: w n)
  case (Cons e es)
  obtain m w1 where 1: "insert_event e now w = (m, w1)" by force
  obtain p w2 where 2: "insert_events es now w1 = (p, w2)" by force
  have "w2 = w'" "n = m + p" using Cons.prems 1 2 by simp_all
  with Cons.IH [of w1 p] 2 have IH: "p = int (card (ev_id ` set es - rows_on_record w1))"
    "rows_on_record w' = rows_on_record w1 \<union> ev_id ` set es" by simp_all
  have 3: "rows_on_record w1 = insert (ev_id e) (rows_on_record w)" "m = (if ev_id e \<in> rows_on_record w then 0 else 1)"
    using 1 by (auto simp: insert_event_def rows_on_record_def Let_def split: if_splits)
  have "ev_id ` set (e # es) - rows_on_record w
      = (if ev_id e \<in> rows_on_record w then {} else {ev_id e}) \<union> (ev_id ` set es - rows_on_record w1)"
    by (auto simp: 3)
  moreover have "card (insert (ev_id e) (ev_id ` set es - rows_on_record w1)) = Suc (card (ev_id ` set es - rows_on_record w1))"
    by (rule card_insert_disjoint) (simp_all add: 3)
  ultimately show ?case using IH 3 \<open>n = m + p\<close> by auto
qed (simp add: rows_on_record_def)

lemma append_to_log_ok:
  "append_to_log es now w = (Inr n, w') \<Longrightarrow> \<exists>fs. insert_events es now (w\<lparr>faults := fs\<rparr>) = (n, w')"
  unfolding append_to_log_def wrapping_ok by (drule remote_ok) (auto simp: split_beta prod_eq_iff)

lemma append_to_log_any:
  "append_to_log es now w = (r, w') \<Longrightarrow>
     \<exists>fs. w' = w\<lparr>faults := fs\<rparr> \<or> w' = snd (insert_events es now (w\<lparr>faults := fs\<rparr>))"
proof -
  let ?f = "\<lambda>w. case insert_events es now w of (n, w') \<Rightarrow> (Inr n, w')"
  assume "append_to_log es now w = (r, w')"
  then have "w' = snd (remote ?f w)" by (metis append_to_log_def snd_conv snd_wrapping)
  with remote_any [of ?f w "fst (remote ?f w)" w'] show ?thesis by (auto simp: split_beta)
qed

lemma rows_blind: "rows_on_record (w\<lparr>faults := fs\<rparr>) = rows_on_record w"
  by (simp add: rows_on_record_def)

interpretation pg: publisher postgres_publish rows_on_record
proof unfold_locales
  fix es now n r and w w' :: "'w ingest_world_scheme"
  show "postgres_publish es now w = (Inr n, w') \<Longrightarrow> ev_id ` set es \<subseteq> rows_on_record w'"
    using append_to_log_ok insert_events_facts unfolding postgres_publish_def by meson
  show "postgres_publish es now w = (r, w') \<Longrightarrow> rows_on_record w \<subseteq> rows_on_record w'"
    using append_to_log_any [of es now w r w'] insert_events_facts [of es now _ _ "snd (insert_events es now _)"] rows_blind
    unfolding postgres_publish_def by (metis order_refl prod.collapse)
  show "postgres_publish es now w = (Inr n, w') \<Longrightarrow> 0 \<le> n \<and> n \<le> int (length es)"
    using append_to_log_ok insert_events_facts unfolding postgres_publish_def by metis
qed (simp add: rows_on_record_def)

lemma producer_publish_topic:
  "producer_publish k v w = (r, w') \<Longrightarrow>
     topic w' = topic w \<or> topic w' = topic w @ [(k, v)]"
  "producer_publish k v w = (Inr u, w') \<Longrightarrow> topic w' = topic w @ [(k, v)]"
  by (auto simp: producer_publish_def exec_def remote_def wrapping_def
      split: list.splits outcome.splits)

lemma encode_log_id:
  "encode_log put_time e = Inr v \<Longrightarrow> \<exists>kvs. v = JObj kvs \<and> (''id'', JStr (ev_id e)) \<in> set kvs"
  by (auto simp: encode_log_def res_bind_Inr_iff)

lemma topic_append: "topic w' = topic w @ [(k, v)] \<Longrightarrow> topic_on_record w \<subseteq> topic_on_record w'"
  by (auto simp: topic_on_record_def)

lemma log_publish_from_keeps:
  "log_publish_from pt i es now w = (r, w') \<Longrightarrow> topic_on_record w \<subseteq> topic_on_record w'"
proof (induction pt i es now arbitrary: w rule: log_publish_from.induct)
  case (2 pt i e es now)
  show ?case
  proof (cases "encode_log pt (e\<lparr>server_time := now\<rparr>)")
    case (Inl err)
    with "2.prems" show ?thesis by (simp add: and_then_def wrapping_def)
  next
    case (Inr v)
    obtain q w1 where q: "producer_publish (partition_key (ev_channel e)) v w = (q, w1)" by force
    have sub: "topic_on_record w \<subseteq> topic_on_record w1"
      using producer_publish_topic(1) [OF q] by (elim disjE) (auto simp: topic_on_record_def)
    show ?thesis
    proof (cases q)
      case (Inl err)
      with "2.prems" Inr q sub show ?thesis by (simp add: and_then_def wrapping_def)
    next
      case (Inr u)
      with "2.prems" \<open>encode_log _ _ = Inr v\<close> q have "log_publish_from pt (Suc i) es now w1 = (r, w')"
        by (simp add: and_then_def wrapping_def)
      from "2.IH" [OF this] sub show ?thesis by blast
    qed
  qed
qed (simp add: topic_on_record_def)

lemma log_publish_from_records:
  "log_publish_from pt i es now w = (Inr n, w') \<Longrightarrow>
     ev_id ` set es \<subseteq> topic_on_record w' \<and> n = int i + int (length es)"
proof (induction pt i es now arbitrary: w rule: log_publish_from.induct)
  case (2 pt i e es now)
  from "2.prems" obtain v w1 where v: "encode_log pt (e\<lparr>server_time := now\<rparr>) = Inr v"
    and q: "producer_publish (partition_key (ev_channel e)) v w = (Inr (), w1)"
    and rest: "log_publish_from pt (Suc i) es now w1 = (Inr n, w')"
    by (auto simp: and_then_ok)
  from encode_log_id [OF v] obtain kvs where "v = JObj kvs" "(''id'', JStr (ev_id e)) \<in> set kvs" by auto
  then have "ev_id e \<in> topic_on_record w1"
    using producer_publish_topic(2) [OF q] by (auto simp: topic_on_record_def)
  with log_publish_from_keeps [OF rest] "2.IH" [OF rest] show ?case by auto
qed simp

interpretation lg: publisher "log_publish put_time" topic_on_record for put_time
proof unfold_locales
  fix es now n r and w w' :: "'w ingest_world_scheme"
  show "log_publish put_time es now w = (Inr n, w') \<Longrightarrow> ev_id ` set es \<subseteq> topic_on_record w'"
    using log_publish_from_records unfolding log_publish_def by blast
  show "log_publish put_time es now w = (r, w') \<Longrightarrow> topic_on_record w \<subseteq> topic_on_record w'"
    using log_publish_from_keeps unfolding log_publish_def by blast
  show "log_publish put_time es now w = (Inr n, w') \<Longrightarrow> 0 \<le> n \<and> n \<le> int (length es)"
    using log_publish_from_records unfolding log_publish_def by fastforce
qed (simp add: topic_on_record_def)

section \<open>What acceptance answers\<close>

text \<open>
  C22: an accepted batch is accounted for. When \<^verbatim>\<open>Accept\<close> with the Postgres publisher answers, whatever calls failed on
  the way, the batch was one channel's, and the answer counts its invalid events, and of the others those whose clock is
  implausible; and either all the valid ones are counted as over the limit and the log is as it was, or none is, the log has
  gained exactly the identifiers of the valid ones that it did not have, and \<open>accepted\<close> is their number: an event
  that is in the log already, or twice in the batch, is counted once at most.
\<close>

theorem accept_accounts:
  fixes w w' :: "'w ingest_world_scheme"
  assumes "accept postgres_publish l ch batch now w = (Inr res, w')"
  shows "(\<forall>e \<in> set batch. ev_channel e = ch)
    \<and> rejected_invalid res = int (length (filter (\<lambda>e. \<not> is_ok (validate_event e)) batch))
    \<and> clock_skew_flagged res
        = int (length (filter (\<lambda>e. is_ok (validate_event e) \<and> clock_skew_implausible (device_time e) now) batch))
    \<and> (let valid = filter (\<lambda>e. is_ok (validate_event e)) batch; new = ev_id ` set valid - rows_on_record w
        in rejected_rate_limited res = int (length valid) \<and> accepted res = 0 \<and> rows_on_record w' = rows_on_record w
         \<or> rejected_rate_limited res = 0 \<and> accepted res = int (card new) \<and> rows_on_record w' = rows_on_record w \<union> new)"
  using assms
proof (cases rule: pg.accept_cases)
  case (kept valid res0)
  from screen_batch_tally [OF kept(1)] kept(2,3) show ?thesis
    by (simp add: no_events_def Let_def conj_commute)
next
  case (published valid res0 w1 n)
  from published(2) obtain fs where "insert_events valid now (w1\<lparr>faults := fs\<rparr>) = (n, w')"
    using append_to_log_ok unfolding postgres_publish_def by blast
  from insert_events_count [OF this] published(4)
  have "n = int (card (ev_id ` set valid - rows_on_record w))" "rows_on_record w' = rows_on_record w \<union> ev_id ` set valid"
    by (simp_all add: rows_blind)
  with screen_batch_tally [OF published(1)] published(3) show ?thesis
    by (simp add: no_events_def Let_def conj_commute)
qed

definition demo_event :: "string \<Rightarrow> event" where
  "demo_event i = empty_event\<lparr>ev_id := i, ev_channel := ''c'', ev_kind := KindCustom, ev_name := ''launch'',
     device_time := 60 * second\<rparr>"

definition demo_ingest_world :: ingest_world where
  "demo_ingest_world = \<lparr>faults = [], rl_counts = (\<lambda>_. 0), rl_expiring = (\<lambda>_. False), events_log = [],
     next_seq = 1, topic = []\<rparr>"

lemma demo_accept:
  "\<exists>w'. accept postgres_publish demo_limiter ''c'' [demo_event ''a'', demo_event ''a'', demo_event []] (61 * second)
     demo_ingest_world = (Inr \<lparr>accepted = 1, rejected_invalid = 1, rejected_rate_limited = 0, clock_skew_flagged = 0\<rparr>, w')"
  by (simp add: accept_def demo_event_def empty_event_def validate_event_def known_kinds_def
      impression_family_def variant_required_def zero_time_def second_def no_events_def
      clock_skew_implausible_def clock_offset_def time_sub_def MaxFutureSkew_def MaxPastSkew_def minute_def
      hour_def min_int64_def max_int64_def allow_def incr_by_def remote_def and_then_def wrapping_def exec_def
      demo_ingest_world_def demo_limiter_def postgres_publish_def append_to_log_def insert_event_def Let_def)

theorem accept_accounts_witness:
  "\<exists>w'. accept postgres_publish demo_limiter ''c'' [demo_event ''a'', demo_event ''a'', demo_event []] (61 * second)
      demo_ingest_world = (Inr \<lparr>accepted = 1, rejected_invalid = 1, rejected_rate_limited = 0, clock_skew_flagged = 0\<rparr>, w')
    \<and> rows_on_record w' = {''a''}"
proof -
  obtain w' where a: "accept postgres_publish demo_limiter ''c'' [demo_event ''a'', demo_event ''a'', demo_event []]
      (61 * second) demo_ingest_world
    = (Inr \<lparr>accepted = 1, rejected_invalid = 1, rejected_rate_limited = 0, clock_skew_flagged = 0\<rparr>, w')"
    using demo_accept by blast
  have "validate_event (demo_event ''a'') = Inr ()" "\<not> is_ok (validate_event (demo_event []))"
    by (simp_all add: demo_event_def empty_event_def validate_event_def known_kinds_def impression_family_def
        variant_required_def zero_time_def second_def)
  moreover have "rows_on_record demo_ingest_world = {}" by (simp add: rows_on_record_def demo_ingest_world_def)
  ultimately show ?thesis using accept_accounts [OF a] a by (auto simp: Let_def) (auto simp: demo_event_def)
qed

section \<open>Sending again\<close>

lemma insert_events_again:
  "ev_id ` set es \<subseteq> rows_on_record w \<Longrightarrow> insert_events es now w = (n, w') \<Longrightarrow>
     n = 0 \<and> events_log w' = events_log w"
proof (induction es arbitrary: w n w')
  case (Cons e es)
  obtain p w2 where 2: "insert_events es now (w\<lparr>next_seq := next_seq w + 1\<rparr>) = (p, w2)" by force
  have "ev_id e \<in> row_id ` set (events_log w)" using Cons.prems(1) by (simp add: rows_on_record_def)
  then have "insert_event e now w = (0, w\<lparr>next_seq := next_seq w + 1\<rparr>)"
    by (simp add: insert_event_def Let_def)
  with Cons.prems(2) 2 have "n = p" "w' = w2" by simp_all
  with Cons.IH [OF _ 2] Cons.prems(1) show ?case by (auto simp: rows_on_record_def)
qed simp

text \<open>
  A device may send a batch again. After the batch is in the log, publishing it again, at
  any later time, reports no new event and leaves the log as it was.
\<close>

theorem resend_is_noop:
  fixes w w1 w2 :: "'w ingest_world_scheme"
  assumes "postgres_publish es now w = (Inr n, w1)" "postgres_publish es now' w1 = (Inr m, w2)"
  shows "m = 0 \<and> events_log w2 = events_log w1"
proof -
  have "ev_id ` set es \<subseteq> rows_on_record w1" by (rule pg.publish_records [OF assms(1)])
  moreover obtain fs where "insert_events es now' (w1\<lparr>faults := fs\<rparr>) = (m, w2)"
    using append_to_log_ok assms(2) unfolding postgres_publish_def by blast
  ultimately show ?thesis using insert_events_again [of es "w1\<lparr>faults := fs\<rparr>"] by (simp add: rows_blind)
qed

theorem resend_is_noop_witness:
  "\<exists>w1 w2. postgres_publish [demo_event ''a'', demo_event ''b''] 5 demo_ingest_world = (Inr 2, w1)
     \<and> postgres_publish [demo_event ''a'', demo_event ''b''] 9 w1 = (Inr 0, w2) \<and> events_log w2 = events_log w1"
proof -
  obtain w1 where 1: "postgres_publish [demo_event ''a'', demo_event ''b''] 5 demo_ingest_world = (Inr 2, w1)"
    and f: "faults w1 = []"
    by (simp add: postgres_publish_def append_to_log_def remote_def wrapping_def demo_ingest_world_def
        insert_event_def demo_event_def Let_def)
  have "\<exists>m w2. postgres_publish [demo_event ''a'', demo_event ''b''] 9 w1 = (Inr m, w2)"
    using f by (simp add: postgres_publish_def append_to_log_def remote_def wrapping_def split_beta)
  then obtain m w2 where 2: "postgres_publish [demo_event ''a'', demo_event ''b''] 9 w1 = (Inr m, w2)" by blast
  from resend_is_noop [OF 1 2] 1 2 show ?thesis by auto
qed

end
