(* ===== verification/Budget.thy ===== *)
theory Budget
  imports Ingest
begin

text \<open>
  \<^verbatim>\<open>internal/governance/budget\<close>: the sliding-window counter of impressions, kept in Redis and
  updated by one atomic script. Checks never hand out more than the cap in a window,
  whatever fails; but an impression reported with a clock two windows ahead makes the
  counter forget, which reconciliation with device times allows.
\<close>

section \<open>The script\<close>

text \<open>
  The hash of a key. Its counts are Lua numbers that only ever hold integers, which are exact
  below \<open>2\<^sup>5\<^sup>3\<close>.
\<close>

record budget_cell =
  bc_window :: int
  bc_count :: int
  bc_prev :: int

definition rollover :: "budget_cell option \<Rightarrow> int \<Rightarrow> budget_cell" where
  "rollover cell windowIdx =
     (case cell of
        None \<Rightarrow> \<lparr>bc_window = windowIdx, bc_count = 0, bc_prev = 0\<rparr>
      | Some c \<Rightarrow>
          if bc_window c < windowIdx then
            \<lparr>bc_window = windowIdx, bc_count = 0,
             bc_prev = (if bc_window c = windowIdx - 1 then bc_count c else 0)\<rparr>
          else c)"

definition estimate :: "budget_cell \<Rightarrow> rat \<Rightarrow> rat" where
  "estimate c w = fl (of_int (bc_count c) + fl (of_int (bc_prev c) * w))"

definition budget_script ::
  "budget_cell option \<Rightarrow> int \<Rightarrow> rat \<Rightarrow> int \<Rightarrow> int \<Rightarrow> (rat \<times> bool) \<times> budget_cell" where
  "budget_script cell windowIdx w increment cap =
     (let c = rollover cell windowIdx;
          denied = (0 \<le> cap \<and> fl (estimate c w + of_int increment) > of_int cap);
          inc = (if denied then 0 else increment);
          c' = c\<lparr>bc_count := bc_count c + inc\<rparr>
      in ((lua_tostring (estimate c' w), \<not> denied), c'))"

section \<open>The counter\<close>

record budget_world = ingest_world +
  budgets :: "string \<rightharpoonup> budget_cell"

definition noCapCheck :: int where "noCapCheck = -1"

definition budget_key :: "string \<Rightarrow> string" where
  "budget_key ident = ''citywalk:budget:'' @ ident"

definition window_params :: "time \<Rightarrow> duration \<Rightarrow> int \<times> rat" where
  "window_params now window =
     (let s = whole_seconds window; nowUnix = unix now in
      (nowUnix sdiv s, fl (1 - fl (fl (of_int (nowUnix smod s)) / fl (of_int s)))))"

text \<open>The answer of the script is text, read back as a float.\<close>

definition budget_eval ::
  "duration \<Rightarrow> string \<Rightarrow> time \<Rightarrow> int \<Rightarrow> int \<Rightarrow> 'w budget_world_scheme \<Rightarrow> (rat \<times> bool) result \<times> 'w budget_world_scheme" where
  "budget_eval window ident now increment cap =
     (let (windowIdx, w) = window_params now window; k = budget_key ident in
      wrapping ''budget: eval'' (remote (\<lambda>s.
        case budget_script (budgets s k) windowIdx w increment cap of
          ((est, ok), c) \<Rightarrow> (Inr (fl est, ok), s\<lparr>budgets := (budgets s)(k \<mapsto> c)\<rparr>))))"

definition remaining :: "duration \<Rightarrow> string \<Rightarrow> int \<Rightarrow> time \<Rightarrow> 'w budget_world_scheme \<Rightarrow> int result \<times> 'w budget_world_scheme" where
  "remaining window ident cap now =
     and_then (budget_eval window ident now 0 noCapCheck) (\<lambda>(est, _).
       let r = fl (fl (of_int cap) - est) in ret (trunc (if r < 0 then 0 else r)))"

definition record_impression :: "duration \<Rightarrow> string \<Rightarrow> time \<Rightarrow> 'w budget_world_scheme \<Rightarrow> unit result \<times> 'w budget_world_scheme" where
  "record_impression window ident now =
     and_then (budget_eval window ident now 1 noCapCheck) (\<lambda>_. ret ())"

definition check_and_increment ::
  "duration \<Rightarrow> string \<Rightarrow> int \<Rightarrow> time \<Rightarrow> 'w budget_world_scheme \<Rightarrow> bool result \<times> 'w budget_world_scheme" where
  "check_and_increment window ident cap now =
     and_then (budget_eval window ident now 1 cap) (\<lambda>(_, ok). ret ok)"

section \<open>The cap holds\<close>

text \<open>Requests of several servers on one identity, one after another as Redis orders them.\<close>

datatype budget_request = Check time | Peek time | Record time

fun serve :: "duration \<Rightarrow> string \<Rightarrow> int \<Rightarrow> budget_request \<Rightarrow> 'w budget_world_scheme \<Rightarrow> bool \<times> 'w budget_world_scheme" where
  "serve window ident cap (Check now) w =
     (case check_and_increment window ident cap now w of (r, w') \<Rightarrow> (r = Inr True, w'))"
| "serve window ident cap (Peek now) w = (False, snd (remaining window ident cap now w))"
| "serve window ident cap (Record now) w = (False, snd (record_impression window ident now w))"

fun serve_all :: "duration \<Rightarrow> string \<Rightarrow> int \<Rightarrow> budget_request list \<Rightarrow> 'w budget_world_scheme \<Rightarrow> int \<times> 'w budget_world_scheme" where
  "serve_all window ident cap [] w = (0, w)"
| "serve_all window ident cap (r # rs) w =
     (let (g, w1) = serve window ident cap r w; (n, w2) = serve_all window ident cap rs w1
      in ((if g then 1 else 0) + n, w2))"

text \<open>A check is made in the window \<open>i\<close>; what is read or recorded is of that window or of an earlier one.\<close>

fun timely :: "int \<Rightarrow> int \<Rightarrow> budget_request \<Rightarrow> bool" where
  "timely k i (Check now) = (0 \<le> unix now \<and> unix now div k = i)"
| "timely k i (Peek now) = (0 \<le> unix now \<and> unix now div k \<le> i)"
| "timely k i (Record now) = (0 \<le> unix now \<and> unix now div k \<le> i)"

lemma fl_close: "x - \<bar>x\<bar> / 9007199254740992 \<le> fl x" "fl x \<le> x + \<bar>x\<bar> / 9007199254740992"
  using fl_error [of x] by linarith+

lemma fl_nonneg: "0 \<le> x \<Longrightarrow> 0 \<le> fl x"
  using fl_close(1) [of x] by (simp add: field_simps)

text \<open>An increment that is allowed under a cap keeps the count within it.\<close>

lemma allowed_within_cap:
  assumes "0 \<le> n" "0 \<le> p" "0 \<le> w" "0 \<le> cap" "cap < 2 ^ 50"
    and "fl (fl (of_int n + fl (of_int p * w)) + 1) \<le> of_int cap"
  shows "n + 1 \<le> cap"
proof (rule ccontr)
  assume "\<not> n + 1 \<le> cap"
  then have cap: "of_int cap \<le> (of_int n :: rat)" by simp
  define e :: rat where "e = 1 / 9007199254740992"
  have c: "0 \<le> (of_int cap :: rat)" using assms(4) by simp
  have "cap \<le> 1125899906842624" using assms(5) by simp
  then have big: "(of_int cap :: rat) \<le> 1125899906842624" by (metis of_int_le_iff of_int_numeral)
  define x where "x = of_int n + fl (of_int p * w)"
  have "0 \<le> fl (of_int p * w)" using assms(2,3) by (intro fl_nonneg) simp
  then have x: "of_int cap \<le> x" "0 \<le> x" using cap c by (simp_all add: x_def)
  have "of_int cap * (1 - e) \<le> x * (1 - e)"
    using x(1) by (intro mult_right_mono) (simp_all add: e_def)
  also have "\<dots> \<le> fl x" using fl_close(1) [of x] x(2) by (simp add: e_def field_simps)
  finally have 1: "of_int cap * (1 - e) \<le> fl x" .
  have "(of_int cap * (1 - e) + 1) * (1 - e) \<le> (fl x + 1) * (1 - e)"
    using 1 by (intro mult_right_mono) (simp_all add: e_def)
  also have "\<dots> \<le> fl (fl x + 1)"
    using fl_close(1) [of "fl x + 1"] fl_nonneg [OF x(2)] by (simp add: e_def field_simps)
  also have "\<dots> \<le> of_int cap" using assms(6) by (simp add: x_def)
  finally have "(of_int cap * (1 - e) + 1) * (1 - e) \<le> of_int cap" .
  moreover have "(of_int cap * (1 - e) + 1) * (1 - e) = of_int cap + (1 - e - of_int cap * (e * (2 - e)))"
    by (simp add: algebra_simps)
  moreover have "of_int cap * (e * (2 - e)) \<le> 1125899906842624 * (e * (2 - e))"
    using big by (intro mult_right_mono) (simp_all add: e_def)
  moreover have "1125899906842624 * (e * (2 - e)) < 1 - e" by (simp add: e_def)
  ultimately show False by linarith
qed

definition cell_ok :: "budget_cell option \<Rightarrow> bool" where
  "cell_ok cell = (case cell of None \<Rightarrow> True | Some c \<Rightarrow> 0 \<le> bc_count c \<and> 0 \<le> bc_prev c)"

lemma rollover_ok: "cell_ok cell \<Longrightarrow> 0 \<le> bc_count (rollover cell i) \<and> 0 \<le> bc_prev (rollover cell i)"
  by (auto simp: rollover_def cell_ok_def split: option.splits)

lemma rollover_settled: "rollover (Some (rollover cell i\<lparr>bc_count := n\<rparr>)) i = rollover cell i\<lparr>bc_count := n\<rparr>"
  by (auto simp: rollover_def split: option.splits)

lemma rollover_twice: "j \<le> i \<Longrightarrow> n \<ge> bc_count (rollover cell j) \<Longrightarrow>
    bc_count (rollover cell i) \<le> bc_count (rollover (Some (rollover cell j\<lparr>bc_count := n\<rparr>)) i)"
  by (auto simp: rollover_def split: option.splits)

text \<open>
  One run of the script, on a counter of natural numbers: in the window itself when there is a cap, and in it or an earlier one
  when there is none. Nothing takes from the count of the window.
\<close>

lemma script_step:
  assumes "budget_script cell j w inc cap = ((est, ok), c')" "cell_ok cell" "0 \<le> w" "j \<le> i" "inc = 0 \<or> inc = 1"
  shows "cell_ok (Some c') \<and> bc_count (rollover cell i) \<le> bc_count (rollover (Some c') i)
    \<and> (j = i \<and> inc = 1 \<and> 0 \<le> cap \<and> cap < 2 ^ 50 \<and> ok \<longrightarrow> bc_count (rollover (Some c') i) = bc_count (rollover cell i) + 1
         \<and> bc_count (rollover (Some c') i) \<le> cap)"
proof -
  let ?r = "rollover cell j"
  have r: "0 \<le> bc_count ?r" "0 \<le> bc_prev ?r" using rollover_ok [OF assms(2)] by auto
  have c': "c' = ?r\<lparr>bc_count := bc_count ?r + (if ok then inc else 0)\<rparr>"
    and ok: "ok = (\<not> (0 \<le> cap \<and> fl (estimate ?r w + of_int inc) > of_int cap))"
    using assms(1) by (auto simp: budget_script_def Let_def)
  have "bc_count ?r + 1 \<le> cap" if "inc = 1" "0 \<le> cap" "cap < 2 ^ 50" "ok"
    using that assms(3) r ok by (intro allowed_within_cap [of _ "bc_prev ?r" w]) (auto simp: estimate_def)
  moreover have "bc_count (rollover cell i) \<le> bc_count (rollover (Some c') i)"
    unfolding c' using assms(4,5) by (intro rollover_twice) auto
  moreover have "cell_ok (Some c')" using assms(5) r unfolding c' by (auto simp: cell_ok_def)
  ultimately show ?thesis unfolding c' by (auto simp: rollover_settled)
qed

lemma budget_eval_step:
  assumes "budget_eval window ident now inc cap s = (r, s')" "window_params now window = (i, w)"
  shows "(\<exists>est ok c. budget_script (budgets s (budget_key ident)) i w inc cap = ((est, ok), c)
        \<and> budgets s' = (budgets s)(budget_key ident \<mapsto> c) \<and> (\<forall>x. r = Inr x \<longrightarrow> x = (fl est, ok)))
    \<or> (budgets s' = budgets s \<and> (\<exists>e. r = Inl e))"
  using assms by (auto simp: budget_eval_def remote_def wrapping_def Let_def split_beta prod_eq_iff
      split: list.splits outcome.splits)

text \<open>What the calls of the counter have in common: each is one run of the script, or nothing.\<close>

lemma eval_step:
  assumes "budget_eval window ident now inc cap s = (r, s')" "window_params now window = (j, w)"
    and "cell_ok (budgets s (budget_key ident))" "0 \<le> w" "j \<le> i" "inc = 0 \<or> inc = 1"
  defines "n \<equiv> bc_count (rollover (budgets s (budget_key ident)) i)"
    and "n' \<equiv> bc_count (rollover (budgets s' (budget_key ident)) i)"
  shows "cell_ok (budgets s' (budget_key ident)) \<and> n \<le> n'
    \<and> (j = i \<and> inc = 1 \<and> 0 \<le> cap \<and> cap < 2 ^ 50 \<and> (\<exists>est. r = Inr (est, True)) \<longrightarrow> n' = n + 1 \<and> n' \<le> cap)"
  using budget_eval_step [OF assms(1,2)]
proof (elim disjE exE conjE)
  fix est ok c
  assume c: "budget_script (budgets s (budget_key ident)) j w inc cap = ((est, ok), c)"
    "budgets s' = (budgets s)(budget_key ident \<mapsto> c)" "\<forall>x. r = Inr x \<longrightarrow> x = (fl est, ok)"
  from script_step [OF c(1) assms(3-6)] c(2,3) show ?thesis by (auto simp: n_def n'_def)
qed (use assms(3) in \<open>auto simp: n_def n'_def\<close>)

lemma serve_step:
  assumes "serve window ident cap q s = (g, s')" "timely k i q" "cell_ok (budgets s (budget_key ident))"
    and "0 \<le> cap" "cap < 2 ^ 50"
    and params: "\<And>now. 0 \<le> unix now \<Longrightarrow> \<exists>w \<ge> 0. window_params now window = (unix now div k, w)"
  defines "n \<equiv> bc_count (rollover (budgets s (budget_key ident)) i)"
    and "n' \<equiv> bc_count (rollover (budgets s' (budget_key ident)) i)"
  shows "cell_ok (budgets s' (budget_key ident)) \<and> n \<le> n' \<and> (g \<longrightarrow> n' = n + 1 \<and> n' \<le> cap)"
proof (cases q)
  case (Check now)
  obtain r s1 where e: "budget_eval window ident now 1 cap s = (r, s1)" by force
  have g: "s' = s1" "g = (\<exists>est. r = Inr (est, True))"
    using assms(1) Check e by (auto simp: check_and_increment_def and_then_def split: sum.splits)
  from params [of now] assms(2) Check obtain w where "0 \<le> w" "window_params now window = (i, w)" by auto
  from eval_step [OF e this(2) assms(3) this(1) order_refl] assms(4,5) g show ?thesis by (auto simp: n_def n'_def)
next
  case (Peek now)
  obtain r s1 where e: "budget_eval window ident now 0 noCapCheck s = (r, s1)" by force
  have g: "s' = s1" "\<not> g"
    using assms(1) Peek e by (auto simp: remaining_def and_then_def Let_def split: sum.splits)
  from params [of now] assms(2) Peek obtain w where "0 \<le> w" "window_params now window = (unix now div k, w)" "unix now div k \<le> i" by auto
  from eval_step [OF e this(2) assms(3) this(1,3)] g show ?thesis by (auto simp: n_def n'_def)
next
  case (Record now)
  obtain r s1 where e: "budget_eval window ident now 1 noCapCheck s = (r, s1)" by force
  have g: "s' = s1" "\<not> g"
    using assms(1) Record e by (auto simp: record_impression_def and_then_def Let_def split: sum.splits)
  from params [of now] assms(2) Record obtain w where "0 \<le> w" "window_params now window = (unix now div k, w)" "unix now div k \<le> i" by auto
  from eval_step [OF e this(2) assms(3) this(1,3)] g show ?thesis by (auto simp: n_def n'_def)
qed

lemma serve_all_granted:
  assumes "serve_all window ident cap qs s = (granted, s')"
    and "\<forall>q \<in> set qs. timely k i q" and "cell_ok (budgets s (budget_key ident))" "0 \<le> cap" "cap < 2 ^ 50"
    and params: "\<And>now. 0 \<le> unix now \<Longrightarrow> \<exists>w \<ge> 0. window_params now window = (unix now div k, w)"
  defines "n \<equiv> bc_count (rollover (budgets s (budget_key ident)) i)"
  shows "0 \<le> granted \<and> granted \<le> max 0 (cap - n)"
  using assms(1-3) unfolding n_def
proof (induction qs arbitrary: s granted)
  case (Cons q qs)
  obtain g s1 where 1: "serve window ident cap q s = (g, s1)" by force
  obtain m s2 where 2: "serve_all window ident cap qs s1 = (m, s2)" by force
  have t: "timely k i q" using Cons.prems(2) by simp
  have out: "granted = (if g then 1 else 0) + m" "s' = s2" using Cons.prems(1) 1 2 by auto
  note st = serve_step [OF 1 t Cons.prems(3) assms(4,5) params]
  have "0 \<le> m \<and> m \<le> max 0 (cap - bc_count (rollover (budgets s1 (budget_key ident)) i))"
    using Cons.IH [of s1 m] 2 out(2) Cons.prems(2) st by auto
  with st out(1) show ?case by auto
qed simp

lemma weight_nonneg:
  assumes "whole_seconds window = k" "0 < k" "k < 2 ^ 50" "0 \<le> unix now"
  shows "window_params now window = (unix now div k, snd (window_params now window))
    \<and> 0 \<le> snd (window_params now window)"
proof -
  let ?a = "unix now mod k"
  have d: "unix now sdiv k = unix now div k" "unix now smod k = ?a"
    using assms by (simp_all add: signed_divide_int_def signed_modulo_int_def sgn_if zero_less_mult_iff)
  have a: "0 \<le> ?a" "?a < k" using assms by auto
  have f: "fl (of_int ?a) = of_int ?a" "fl (of_int k) = of_int k"
    using a assms(3) by (auto intro!: fl_int)
  define q where "q = (of_int ?a / of_int k :: rat)"
  have k: "0 < (of_int k :: rat)" "(of_int k :: rat) \<le> 1125899906842624"
  proof -
    show "0 < (of_int k :: rat)" using assms(2) by simp
    have "k \<le> 1125899906842624" using assms(3) by simp
    then show "(of_int k :: rat) \<le> 1125899906842624" by (metis of_int_le_iff of_int_numeral)
  qed
  have "(of_int ?a :: rat) + 1 \<le> of_int k"
    using a(2) by (metis of_int_1 of_int_add of_int_le_iff zless_imp_add1_zle)
  then have q: "0 \<le> q" "q \<le> 1 - 1 / of_int k"
    using a(1) k(1) by (simp_all add: q_def field_simps)
  have "1 / 1125899906842624 \<le> 1 / (of_int k :: rat)"
    using k by (intro divide_left_mono) simp_all
  with q(2) have "q \<le> 1 - 1 / 1125899906842624" by linarith
  then have "fl q \<le> 1" using fl_close(2) [of q] q(1) by simp
  then have "0 \<le> fl (1 - fl q)" by (intro fl_nonneg) simp
  then show ?thesis by (simp add: window_params_def assms(1) d f q_def Let_def)
qed

text \<open>
  C4: a budget is never sold twice: however the checks of one window for one identity interleave with reads of the budget
  and with impressions that are recorded, by whatever servers and workers, and whatever calls are lost, the checks that answer
  yes are at most what the cap left over the count the window began with; as long as no impression is recorded with a time
  in a later window, which \<open>budget_forgets_ahead\<close> below shows to matter.
\<close>

theorem budget_never_oversold:
  assumes "whole_seconds window = k" "0 < k" "k < 2 ^ 50" "0 \<le> cap" "cap < 2 ^ 50"
    and "\<forall>q \<in> set qs. timely k i q" and "cell_ok (budgets s (budget_key ident))"
  shows "fst (serve_all window ident cap qs s)
    \<le> max 0 (cap - bc_count (rollover (budgets s (budget_key ident)) i))"
proof -
  obtain granted s' where r: "serve_all window ident cap qs s = (granted, s')" by force
  have "\<exists>w \<ge> 0. window_params now window = (unix now div k, w)" if "0 \<le> unix now" for now
    using weight_nonneg [OF assms(1-3) that] by metis
  from serve_all_granted [OF r assms(6,7,4,5) this] r show ?thesis by simp
qed

definition demo_budget_world :: budget_world where
  "demo_budget_world = \<lparr>faults = [Done, Unacked, Lost], rl_counts = (\<lambda>_. 0), rl_expiring = (\<lambda>_. False),
     events_log = [], next_seq = 1, topic = [],
     budgets = [budget_key ''u'' \<mapsto> \<lparr>bc_window = 1, bc_count = 3, bc_prev = 0\<rparr>]\<rparr>"

lemma window_minute: "whole_seconds (60 * second) = 60"
  using whole_seconds_exact [of 60] by simp

lemma unix_seconds [simp]: "unix (k * second) = k"
  by (simp add: unix_def second_def)

theorem budget_never_oversold_witness:
  "fst (serve_all (60 * second) ''u'' 5 [Check (60 * second), Peek (70 * second), Check (80 * second),
      Record (50 * second), Check (90 * second), Check (100 * second), Check (110 * second)] demo_budget_world) \<le> 2"
proof -
  have "fst (serve_all (60 * second) ''u'' 5 [Check (60 * second), Peek (70 * second), Check (80 * second),
      Record (50 * second), Check (90 * second), Check (100 * second), Check (110 * second)] demo_budget_world)
    \<le> max 0 (5 - bc_count (rollover (budgets demo_budget_world (budget_key ''u'')) 1))"
    by (rule budget_never_oversold [where k = 60, OF window_minute])
      (simp_all add: cell_ok_def demo_budget_world_def)
  then show ?thesis by (simp add: rollover_def demo_budget_world_def)
qed

section \<open>A clock that runs ahead\<close>

lemma fl_two: "fl 1 = 1" "fl 2 = 2" "fl (1 + 1) = 2"
  using fl_int [of 1] fl_int [of 2] by simp_all

lemma check_calm:
  assumes "faults s = []" "window_params now window = (i, w)"
  shows "check_and_increment window ident cap now s
    = (Inr (snd (fst (budget_script (budgets s (budget_key ident)) i w 1 cap))),
       s\<lparr>budgets := (budgets s)(budget_key ident \<mapsto> snd (budget_script (budgets s (budget_key ident)) i w 1 cap))\<rparr>)"
  using assms by (simp add: check_and_increment_def budget_eval_def remote_calm and_then_def wrapping_def split_beta Let_def)

lemma record_calm:
  assumes "faults s = []" "window_params now window = (i, w)"
  shows "record_impression window ident now s
    = (Inr (), s\<lparr>budgets := (budgets s)(budget_key ident \<mapsto>
        snd (budget_script (budgets s (budget_key ident)) i w 1 noCapCheck))\<rparr>)"
  using assms by (simp add: record_impression_def budget_eval_def remote_calm and_then_def wrapping_def split_beta Let_def)

text \<open>
  Recording an impression at a time two or more windows ahead makes the counter forget. An
  identity that used its whole budget is refused; after one impression is recorded with such
  a time, which is what reconciliation does with a device's own clock, it is served again.
\<close>

theorem budget_forgets_ahead:
  fixes s :: "'w budget_world_scheme"
  assumes "faults s = []" "budgets s (budget_key ident) = Some c" "bc_window c = i" "cap \<le> bc_count c"
    and "0 \<le> bc_prev c" "2 \<le> cap" "cap < 2 ^ 50"
    and "window_params now window = (i, w)" "0 \<le> w"
    and "window_params ahead window = (j, v)" "i + 2 \<le> j"
  shows "fst (check_and_increment window ident cap now s) = Inr False
    \<and> fst (check_and_increment window ident cap now (snd (record_impression window ident ahead s))) = Inr True"
proof
  have "\<not> fl (fl (of_int (bc_count c) + fl (of_int (bc_prev c) * w)) + 1) \<le> of_int cap"
    using allowed_within_cap [of "bc_count c" "bc_prev c" w cap] assms by auto
  then show "fst (check_and_increment window ident cap now s) = Inr False"
    using assms by (simp add: check_calm [OF assms(1,8)] budget_script_def rollover_def estimate_def Let_def)
  let ?s = "snd (record_impression window ident ahead s)"
  have c': "snd (budget_script (Some c) j v 1 noCapCheck) = \<lparr>bc_window = j, bc_count = 1, bc_prev = 0\<rparr>"
    using assms(3,11) by (simp add: budget_script_def rollover_def noCapCheck_def Let_def)
  have s: "faults ?s = []" "budgets ?s (budget_key ident) = Some \<lparr>bc_window = j, bc_count = 1, bc_prev = 0\<rparr>"
    using assms(1,2) c' by (simp_all add: record_calm [OF assms(1,10)])
  have "(of_int 2 :: rat) \<le> of_int cap" using assms(6) by (simp only: of_int_le_iff)
  then show "fst (check_and_increment window ident cap now ?s) = Inr True"
    using assms(11) s by (simp add: check_calm [OF s(1) assms(8)] budget_script_def rollover_def estimate_def
        fl_two Let_def)
qed

theorem budget_forgets_ahead_witness:
  "fst (check_and_increment (60 * second) ''u'' 3 (70 * second) (demo_budget_world\<lparr>faults := []\<rparr>)) = Inr False
    \<and> fst (check_and_increment (60 * second) ''u'' 3 (70 * second)
        (snd (record_impression (60 * second) ''u'' (3600 * second) (demo_budget_world\<lparr>faults := []\<rparr>)))) = Inr True"
proof -
  have now: "window_params (70 * second) (60 * second) = (1, snd (window_params (70 * second) (60 * second)))"
    "0 \<le> snd (window_params (70 * second) (60 * second))"
    using weight_nonneg [OF window_minute, of "70 * second"] by simp_all
  have ahead: "window_params (3600 * second) (60 * second) = (60, snd (window_params (3600 * second) (60 * second)))"
    using weight_nonneg [OF window_minute, of "3600 * second"] by simp
  show ?thesis
    by (rule budget_forgets_ahead [OF _ _ _ _ _ _ _ now ahead, where c = "\<lparr>bc_window = 1, bc_count = 3, bc_prev = 0\<rparr>"])
      (simp_all add: demo_budget_world_def)
qed

end
