(* ===== verification/Batches.thy ===== *)
theory Batches
  imports World
begin

text \<open>
  The loop two periodic jobs share, the rollup consumer's (\<^verbatim>\<open>event/consumer/recompute_job.go\<close>) and the
  measurement mirror's (\<^verbatim>\<open>event/mirror/job.go\<close>): take a batch, and another while the last one was full. What a
  job needs for the loop to end, and to leave nothing behind, is a contract between the loop and the step it repeats.
\<close>

lemma is_ok_unit: "is_ok (r :: unit result) \<longleftrightarrow> r = Inr ()"
  by (cases r) simp_all

text \<open>\<^term>\<open>None\<close> when the fuel ends before the loop does.\<close>

fun batches :: "string \<Rightarrow> nat \<Rightarrow> ('w, nat) io \<Rightarrow> nat \<Rightarrow> 'w world_scheme \<Rightarrow> (unit result \<times> 'w world_scheme) option" where
  "batches msg limit once 0 w = None"
| "batches msg limit once (Suc fuel) w =
     (case once w of
        (Inl e, w') \<Rightarrow> Some (Inl (Wrap msg e), w')
      | (Inr n, w') \<Rightarrow> if n < limit then Some (Inr (), w') else batches msg limit once fuel w')"

lemma batches_keep:
  assumes "\<And>w. I w \<Longrightarrow> I (snd (once w))" "I w" "batches msg limit once fuel w = Some (r, w')"
  shows "I w'"
  using assms(2,3)
proof (induction fuel arbitrary: w)
  case (Suc fuel)
  have "I (snd (once w))" using assms(1) Suc.prems(1) .
  with Suc show ?case by (auto split: prod.splits sum.splits if_splits)
qed simp

text \<open>
  A step that answers has taken what stood first of the pending rows, as many as a batch holds, and has marked
  them done. Nothing is said of a step that fails.
\<close>

locale batch_job =
  fixes limit :: nat
    and once :: "('w, nat) io"
    and steady :: "'w world_scheme \<Rightarrow> bool"
    and pending :: "'w world_scheme \<Rightarrow> 'r list"
    and mark :: "'r \<Rightarrow> 'd"
    and finished :: "'w world_scheme \<Rightarrow> 'd set"
  assumes limit_pos: "0 < limit"
    and takes: "steady w \<Longrightarrow> once w = (Inr n, w') \<Longrightarrow>
      n = length (take limit (pending w)) \<and> steady w' \<and> pending w' = drop limit (pending w)
        \<and> finished w' = finished w \<union> mark ` set (take limit (pending w))"
begin

lemma batches_end:
  assumes "steady w" "length (pending w) < fuel"
  shows "\<exists>r w'. batches msg limit once fuel w = Some (r, w')"
  using assms
proof (induction fuel arbitrary: w)
  case (Suc fuel)
  obtain r1 w1 where run: "once w = (r1, w1)" by force
  show ?case
  proof (cases r1)
    case (Inr n)
    with takes [OF Suc.prems(1)] run have 1: "n = length (take limit (pending w))" "steady w1"
      "pending w1 = drop limit (pending w)" by auto
    show ?thesis
    proof (cases "n < limit")
      case False
      with 1(1,3) limit_pos Suc.prems(2) have "length (pending w1) < fuel" by simp
      from Suc.IH [OF 1(2) this] run Inr False show ?thesis by simp
    qed (simp add: run Inr)
  qed (simp add: run)
qed simp

lemma batches_ok:
  assumes "steady w" "batches msg limit once fuel w = Some (Inr (), w')"
  shows "pending w' = [] \<and> finished w' = finished w \<union> mark ` set (pending w)"
  using assms
proof (induction fuel arbitrary: w)
  case (Suc fuel)
  from Suc.prems(2) obtain n w1 where run: "once w = (Inr n, w1)"
    and rest: "(if n < limit then Some (Inr (), w1) else batches msg limit once fuel w1) = Some (Inr (), w')"
    by (auto split: prod.splits sum.splits)
  note 1 = takes [OF Suc.prems(1) run]
  have split: "mark ` set (pending w) = mark ` set (take limit (pending w)) \<union> mark ` set (drop limit (pending w))"
    by (metis append_take_drop_id image_Un set_append)
  show ?case
  proof (cases "n < limit")
    case True
    with 1 have "length (pending w) < limit" by simp
    with 1 rest True show ?thesis by simp
  next
    case False
    with Suc.IH [of w1] 1 rest split show ?thesis by (simp add: Un_assoc)
  qed
qed simp

end

text \<open>When no call fails the step answers, and leaves a world where none fails.\<close>

locale calm_batch_job = batch_job +
  fixes calm :: "'a world_scheme \<Rightarrow> bool"
  assumes calm_takes: "steady w \<Longrightarrow> calm w \<Longrightarrow> \<exists>n w'. once w = (Inr n, w') \<and> calm w'"
begin

lemma calm_answers:
  assumes "steady w" "calm w" "batches msg limit once fuel w = Some (r, w')"
  shows "is_ok r"
  using assms
proof (induction fuel arbitrary: w)
  case (Suc fuel)
  from calm_takes [OF Suc.prems(1,2)] obtain n w1 where 1: "once w = (Inr n, w1)" "calm w1" by blast
  with takes [OF Suc.prems(1) 1(1)] Suc show ?case by (auto split: if_splits)
qed simp

end

end
