(* ===== verification/Consumer.thy ===== *)
theory Consumer
  imports Budget Hll Batches
begin

text \<open>
  \<^verbatim>\<open>internal/event/consumer\<close>: the consumers that fold events into the rollups, from the
  events table or from the log. Each event is counted once in every rollup, whatever
  fails and however often it comes; the position in the table is a sequence number, which
  loses events whose transaction commits after a later one was read.
\<close>

section \<open>The rollups\<close>

record stored_event =
  se_id :: string
  se_seq :: int
  se_channel :: string
  se_kind :: event_kind
  se_name :: string
  se_device_time :: time
  se_server_time :: time
  se_message :: string
  se_variant :: string
  se_reason :: string

record consumer_world = budget_world +
  offsets :: "string \<rightharpoonup> int"
  applied :: "string set"
  targeting :: "((string \<times> string \<times> int) \<times> int) list"
  campaign :: "((string \<times> string \<times> int \<times> string) \<times> int) list"
  suppression :: "((string \<times> string \<times> int) \<times> int) list"
  reach_sketches :: "((string \<times> string \<times> int) \<times> 8 word list) list"
  topic_position :: nat
  topic_committed :: nat

definition stored_event_name :: "stored_event \<Rightarrow> string" where
  "stored_event_name e = (if se_kind e = KindCustom then se_name e else kind_string (se_kind e))"

definition bucket_time :: "stored_event \<Rightarrow> time" where
  "bucket_time e = effective_time (se_device_time e) (se_server_time e)"

text \<open>\<^verbatim>\<open>date_trunc\<close> to the day and the hour, in UTC.\<close>

definition day_of :: "time \<Rightarrow> int" where "day_of t = t div (24 * hour)"

definition hour_of :: "time \<Rightarrow> int" where "hour_of t = t div hour"

definition campaign_rollup_kinds :: "event_kind list" where
  "campaign_rollup_kinds = [KindImpression, KindButtonPress, KindDismissal, KindAutoClose]"

definition target_key :: "stored_event \<Rightarrow> string \<times> string \<times> int" where
  "target_key e = (se_channel e, stored_event_name e, day_of (bucket_time e))"

definition campaign_key :: "stored_event \<Rightarrow> string \<times> string \<times> int \<times> string" where
  "campaign_key e = (se_message e, se_variant e, hour_of (bucket_time e), kind_string (se_kind e))"

definition suppression_key :: "stored_event \<Rightarrow> string \<times> string \<times> int" where
  "suppression_key e = (se_message e, se_reason e, day_of (bucket_time e))"

definition sketch_key :: "stored_event \<Rightarrow> string \<times> string \<times> int" where
  "sketch_key e = (se_message e, se_variant e, day_of (bucket_time e))"

type_synonym ('w, 'a) consumer_io = "'w consumer_world_scheme \<Rightarrow> 'a result \<times> 'w consumer_world_scheme"

definition mark_applied :: "string \<Rightarrow> ('w, bool) consumer_io" where
  "mark_applied i = wrapping ''consumer: mark event applied''
     (remote (\<lambda>w. (Inr (i \<in> applied w), w\<lparr>applied := insert i (applied w)\<rparr>)))"

definition apply_targeting_rollup :: "stored_event \<Rightarrow> ('w, unit) consumer_io" where
  "apply_targeting_rollup e = wrapping ''consumer: apply targeting rollup''
     (exec (\<lambda>w. w\<lparr>targeting := bump (target_key e) (targeting w)\<rparr>))"

definition apply_campaign_rollup :: "stored_event \<Rightarrow> ('w, unit) consumer_io" where
  "apply_campaign_rollup e = wrapping ''consumer: apply campaign rollup''
     (exec (\<lambda>w. w\<lparr>campaign := bump (campaign_key e) (campaign w)\<rparr>))"

definition apply_suppression_rollup :: "stored_event \<Rightarrow> ('w, unit) consumer_io" where
  "apply_suppression_rollup e = wrapping ''consumer: apply suppression rollup''
     (exec (\<lambda>w. w\<lparr>suppression := bump (suppression_key e) (suppression w)\<rparr>))"

definition apply_reach_sketch :: "stored_event \<Rightarrow> ('w, unit) consumer_io" where
  "apply_reach_sketch e =
     and_then (wrapping ''consumer: read reach sketch'' (query (\<lambda>w. map_of (reach_sketches w) (sketch_key e)))) (\<lambda>existing.
       and_then (case existing of
           None \<Rightarrow> ret new_sketch
         | Some raw \<Rightarrow> wrapping ''consumer: unmarshal reach sketch'' (of_result (unmarshal_sketch raw))) (\<lambda>sk.
         wrapping ''consumer: write reach sketch''
           (exec (\<lambda>w. w\<lparr>reach_sketches :=
              upsert (\<lambda>_. marshal_sketch (add_identity sk (se_channel e))) (sketch_key e) (reach_sketches w)\<rparr>))))"

definition apply_event :: "stored_event \<Rightarrow> ('w, unit) consumer_io" where
  "apply_event e =
     and_then (mark_applied (se_id e)) (\<lambda>already.
       if already then ret ()
       else and_then (apply_targeting_rollup e) (\<lambda>_.
         if se_message e = [] then ret ()
         else if se_kind e \<in> set campaign_rollup_kinds then
           and_then (apply_campaign_rollup e) (\<lambda>_.
             if se_kind e = KindImpression then apply_reach_sketch e else ret ())
         else if se_kind e = KindSuppression then apply_suppression_rollup e
         else ret ()))"

definition apply_batch :: "stored_event list \<Rightarrow> ('w, unit) consumer_io" where
  "apply_batch es = for_each apply_event es"

section \<open>Reading the table\<close>

definition current_offset :: "string \<Rightarrow> ('w, int) consumer_io" where
  "current_offset name = wrapping ''consumer: read offset'' (remote (\<lambda>w.
     (case offsets w name of
        Some s \<Rightarrow> (Inr s, w) | None \<Rightarrow> (Inr 0, w\<lparr>offsets := (offsets w)(name \<mapsto> 0)\<rparr>))))"

definition stored_of_row :: "event_row \<Rightarrow> stored_event" where
  "stored_of_row r =
     \<lparr>se_id = row_id r, se_seq = row_seq r, se_channel = row_channel r, se_kind = kind_of_string (row_kind r),
      se_name = row_name r, se_device_time = row_device_time r, se_server_time = row_server_time r,
      se_message = (case row_message r of None \<Rightarrow> [] | Some s \<Rightarrow> s),
      se_variant = (case row_variant r of None \<Rightarrow> [] | Some s \<Rightarrow> s),
      se_reason = (case row_reason r of None \<Rightarrow> [] | Some s \<Rightarrow> s)\<rparr>"

definition rows_since :: "event_row list \<Rightarrow> int \<Rightarrow> event_row list" where
  "rows_since rows lastSeq = sort_key row_seq (filter (\<lambda>r. row_seq r > lastSeq) rows)"

definition fetch_since :: "int \<Rightarrow> nat \<Rightarrow> ('w, stored_event list) consumer_io" where
  "fetch_since lastSeq batchLimit = wrapping ''consumer: query events''
     (query (\<lambda>w. map stored_of_row (take batchLimit (rows_since (events_log w) lastSeq))))"

text \<open>The budget counter is its window, or absent; every impression counts at its device time.\<close>

definition reconcile_event :: "duration \<Rightarrow> stored_event \<Rightarrow> ('w, unit) consumer_io" where
  "reconcile_event window e =
     (if se_kind e \<noteq> KindImpression then ret ()
      else wrapping ''consumer: reconcile project budget'' (record_impression window (se_channel e) (se_device_time e)))"

definition reconcile_budget :: "duration option \<Rightarrow> stored_event list \<Rightarrow> ('w, unit) consumer_io" where
  "reconcile_budget counter es =
     (case counter of None \<Rightarrow> ret () | Some window \<Rightarrow> for_each (reconcile_event window) es)"

definition run_once_tx :: "string \<Rightarrow> nat \<Rightarrow> ('w, stored_event list) consumer_io" where
  "run_once_tx name batchLimit =
     and_then (current_offset name) (\<lambda>lastSeq.
       and_then (fetch_since lastSeq batchLimit) (\<lambda>es.
         if es = [] then ret []
         else and_then (apply_batch es) (\<lambda>_.
           and_then (wrapping ''consumer: advance offset''
               (exec (\<lambda>w. w\<lparr>offsets := (offsets w)(name \<mapsto> se_seq (last es))\<rparr>)))
             (\<lambda>_. ret es))))"

definition run_once :: "string \<Rightarrow> nat \<Rightarrow> duration option \<Rightarrow> ('w, nat) consumer_io" where
  "run_once name batchLimit counter =
     and_then (in_tx ''consumer: begin'' ''consumer: commit'' (run_once_tx name batchLimit)) (\<lambda>es.
       if es = [] then ret 0
       else and_then (reconcile_budget counter es) (\<lambda>_. ret (length es)))"

definition TargetingRollupConsumer :: string where "TargetingRollupConsumer = ''rollup''"

definition rollupRecomputeBatchLimit :: nat where "rollupRecomputeBatchLimit = 1000"

text \<open>
  The worker drains the table: \<^term>\<open>None\<close> when the fuel ends before it does.
\<close>

fun drain :: "nat \<Rightarrow> string \<Rightarrow> nat \<Rightarrow> duration option \<Rightarrow> 'w consumer_world_scheme
    \<Rightarrow> (unit result \<times> 'w consumer_world_scheme) option" where
  "drain 0 name limit counter w = None"
| "drain (Suc fuel) name limit counter w =
     (case run_once name limit counter w of
        (Inl e, w') \<Rightarrow> Some (Inl (Wrap ''consumer: scheduled rollup recompute'' e), w')
      | (Inr n, w') \<Rightarrow> if n < limit then Some (Inr (), w') else drain fuel name limit counter w')"

definition recompute_work :: "nat \<Rightarrow> string \<Rightarrow> duration option \<Rightarrow> 'w consumer_world_scheme
    \<Rightarrow> (unit result \<times> 'w consumer_world_scheme) option" where
  "recompute_work fuel name counter w =
     drain fuel (if name = [] then TargetingRollupConsumer else name) rollupRecomputeBatchLimit counter w"

section \<open>Reading the log\<close>

text \<open>
  The group's consumer keeps its fetch position, which a poll moves past what it returns, and
  the committed position, which a new consumer of the group starts from.
\<close>

definition poll :: "nat \<Rightarrow> ('w, (string \<times> json) list \<times> nat) consumer_io" where
  "poll available = wrapping ''eventlog: poll'' (remote (\<lambda>w.
     let rs = take available (drop (topic_position w) (topic w)); p = topic_position w + length rs
     in (Inr (rs, p), w\<lparr>topic_position := p\<rparr>)))"

definition commit_offsets :: "nat \<Rightarrow> ('w, unit) consumer_io" where
  "commit_offsets p = wrapping ''eventlog: commit offsets'' (exec (\<lambda>w. w\<lparr>topic_committed := p\<rparr>))"

definition from_log_event :: "event \<Rightarrow> stored_event" where
  "from_log_event e =
     \<lparr>se_id = ev_id e, se_seq = 0, se_channel = ev_channel e, se_kind = ev_kind e, se_name = ev_name e,
      se_device_time = device_time e, se_server_time = server_time e, se_message = ev_message e,
      se_variant = ev_variant e, se_reason = suppression_reason e\<rparr>"

definition run_once_from_log :: "(string \<Rightarrow> time option) \<Rightarrow> nat \<Rightarrow> duration option \<Rightarrow> ('w, nat) consumer_io" where
  "run_once_from_log get_time available counter =
     and_then (wrapping ''consumer: poll log'' (poll available)) (\<lambda>(records, p).
       if records = [] then ret 0
       else and_then (wrapping ''consumer: decode log record''
           (of_result (map_result (\<lambda>(k, v). decode_log_event get_time v) records))) (\<lambda>evs.
         let es = map from_log_event evs in
         and_then (in_tx ''consumer: begin'' ''consumer: commit'' (apply_batch es)) (\<lambda>_.
           and_then (wrapping ''consumer: commit log offsets'' (commit_offsets p)) (\<lambda>_.
             and_then (reconcile_budget counter es) (\<lambda>_. ret (length es))))))"

section \<open>Each event counts once\<close>

text \<open>
  What the rollups should hold, when an identifier stands for one event: for each key, the
  number of applied events with that key.
\<close>

definition counts_campaign :: "stored_event \<Rightarrow> bool" where
  "counts_campaign e = (se_message e \<noteq> [] \<and> se_kind e \<in> set campaign_rollup_kinds)"

definition counts_suppression :: "stored_event \<Rightarrow> bool" where
  "counts_suppression e = (se_message e \<noteq> [] \<and> se_kind e = KindSuppression)"

definition counts_reach :: "stored_event \<Rightarrow> bool" where
  "counts_reach e = (se_message e \<noteq> [] \<and> se_kind e = KindImpression)"

text \<open>The channels the applied impressions with a key were shown to.\<close>

definition reached :: "(string \<Rightarrow> stored_event) \<Rightarrow> string set \<Rightarrow> string \<times> string \<times> int \<Rightarrow> string set" where
  "reached src A k = (\<lambda>i. se_channel (src i)) ` {i \<in> A. counts_reach (src i) \<and> sketch_key (src i) = k}"

definition exact_reach :: "(string \<Rightarrow> stored_event) \<Rightarrow> 'w consumer_world_scheme \<Rightarrow> bool" where
  "exact_reach src w =
     (\<forall>k cs. set cs = reached src (applied w) k \<longrightarrow>
        map_of (reach_sketches w) k = (if cs = [] then None else Some (marshal_sketch (foldl add_identity new_sketch cs))))"

text \<open>The primary keys of the rollup tables.\<close>

definition keyed :: "'w consumer_world_scheme \<Rightarrow> bool" where
  "keyed w = (distinct (map fst (targeting w)) \<and> distinct (map fst (campaign w))
     \<and> distinct (map fst (suppression w)) \<and> distinct (map fst (reach_sketches w)))"

definition exact :: "(string \<Rightarrow> stored_event) \<Rightarrow> 'w consumer_world_scheme \<Rightarrow> bool" where
  "exact src w =
     (finite (applied w)
      \<and> (\<forall>k. count_of (targeting w) k = int (card {i \<in> applied w. target_key (src i) = k}))
      \<and> (\<forall>k. count_of (campaign w) k = int (card {i \<in> applied w. counts_campaign (src i) \<and> campaign_key (src i) = k}))
      \<and> (\<forall>k. count_of (suppression w) k = int (card {i \<in> applied w. counts_suppression (src i) \<and> suppression_key (src i) = k}))
      \<and> exact_reach src w \<and> keyed w)"

lemma exact_blind: "exact src (w\<lparr>faults := fs\<rparr>) = exact src w"
  by (simp add: exact_def exact_reach_def keyed_def)

lemma card_filter_insert:
  assumes "finite A" "i \<notin> A"
  shows "card {j \<in> insert i A. P j} = card {j \<in> A. P j} + (if P i then 1 else 0)"
proof -
  have "{j \<in> insert i A. P j} = (if P i then insert i {j \<in> A. P j} else {j \<in> A. P j})" by auto
  then show ?thesis using assms by simp
qed

text \<open>What one event does to the tables when its writes succeed.\<close>

definition reach_step :: "stored_event \<Rightarrow> ((string \<times> string \<times> int) \<times> 8 word list) list
    \<Rightarrow> ((string \<times> string \<times> int) \<times> 8 word list) list \<Rightarrow> bool" where
  "reach_step e t t' =
     (if counts_reach e then
        \<exists>sk. (case map_of t (sketch_key e) of None \<Rightarrow> sk = new_sketch | Some raw \<Rightarrow> unmarshal_sketch raw = Inr sk)
          \<and> t' = upsert (\<lambda>_. marshal_sketch (add_identity sk (se_channel e))) (sketch_key e) t
      else t' = t)"

lemma apply_reach_sketch_ok:
  assumes "apply_reach_sketch e w = (Inr (), w')" "counts_reach e"
  shows "reach_step e (reach_sketches w) (reach_sketches w')"
proof -
  let ?read = "\<lambda>existing. case existing of None \<Rightarrow> ret new_sketch
         | Some raw \<Rightarrow> wrapping ''consumer: unmarshal reach sketch'' (of_result (unmarshal_sketch raw))"
  from assms(1) obtain existing w1 sk w2 where q: "query (\<lambda>w. map_of (reach_sketches w) (sketch_key e)) w = (Inr existing, w1)"
    and rd: "?read existing w1 = (Inr sk, w2)"
    and ex: "exec (\<lambda>w. w\<lparr>reach_sketches :=
              upsert (\<lambda>_. marshal_sketch (add_identity sk (se_channel e))) (sketch_key e) (reach_sketches w)\<rparr>) w2 = (Inr (), w')"
    unfolding apply_reach_sketch_def and_then_ok wrapping_ok by blast
  have sk: "w2 = w1" "case existing of None \<Rightarrow> sk = new_sketch | Some raw \<Rightarrow> unmarshal_sketch raw = Inr sk"
    using rd by (auto split: option.splits)
  from query_ok [OF q] have w1: "existing = map_of (reach_sketches w) (sketch_key e)" "reach_sketches w1 = reach_sketches w"
    by auto
  from exec_ok [OF ex] have w': "reach_sketches w' = upsert (\<lambda>_. marshal_sketch (add_identity sk (se_channel e))) (sketch_key e) (reach_sketches w1)"
    using sk(1) by auto
  show ?thesis
    using assms(2) sk(2) w1 w' by (auto simp: reach_step_def)
qed

lemma apply_reach_sketch_only:
  "apply_reach_sketch e w = (r, w') \<Longrightarrow> applied w' = applied w \<and> targeting w' = targeting w
     \<and> campaign w' = campaign w \<and> suppression w' = suppression w \<and> events_log w' = events_log w \<and> offsets w' = offsets w"
  by (auto simp: apply_reach_sketch_def and_then_def wrapping_def query_def exec_def remote_def
      split: list.splits outcome.splits sum.splits prod.splits option.splits)

lemma apply_message_ok:
  assumes "(if se_message e = [] then ret ()
         else if se_kind e \<in> set campaign_rollup_kinds then
           and_then (apply_campaign_rollup e) (\<lambda>_.
             if se_kind e = KindImpression then apply_reach_sketch e else ret ())
         else if se_kind e = KindSuppression then apply_suppression_rollup e
         else ret ()) w = (Inr (), w')"
  shows "applied w' = applied w \<and> targeting w' = targeting w \<and> events_log w' = events_log w \<and> offsets w' = offsets w
    \<and> campaign w' = (if counts_campaign e then bump (campaign_key e) (campaign w) else campaign w)
    \<and> suppression w' = (if counts_suppression e then bump (suppression_key e) (suppression w) else suppression w)
    \<and> reach_step e (reach_sketches w) (reach_sketches w')"
proof -
  note defs = counts_campaign_def counts_suppression_def reach_step_def counts_reach_def campaign_rollup_kinds_def
  consider (none) "se_message e = []" | (camp) "se_message e \<noteq> []" "se_kind e \<in> set campaign_rollup_kinds"
    | (supp) "se_message e \<noteq> []" "se_kind e = KindSuppression"
    | (other) "se_message e \<noteq> []" "se_kind e \<notin> set campaign_rollup_kinds" "se_kind e \<noteq> KindSuppression"
    by blast
  then show ?thesis
  proof cases
    case camp
    with assms obtain w1 where c: "apply_campaign_rollup e w = (Inr (), w1)"
      and rest: "(if se_kind e = KindImpression then apply_reach_sketch e else ret ()) w1 = (Inr (), w')"
      by (auto simp: and_then_ok)
    from c have w1: "applied w1 = applied w" "targeting w1 = targeting w" "suppression w1 = suppression w"
      "campaign w1 = bump (campaign_key e) (campaign w)" "events_log w1 = events_log w" "offsets w1 = offsets w"
      "reach_sketches w1 = reach_sketches w"
      unfolding apply_campaign_rollup_def wrapping_ok by (auto dest!: exec_ok)
    have w': "applied w' = applied w1" "targeting w' = targeting w1" "suppression w' = suppression w1"
      "campaign w' = campaign w1" "events_log w' = events_log w1" "offsets w' = offsets w1"
      using rest apply_reach_sketch_only [of e w1 "Inr ()" w'] by (auto split: if_splits)
    have "reach_step e (reach_sketches w1) (reach_sketches w')"
      using rest apply_reach_sketch_ok [of e w1 w'] camp(1)
      by (cases "se_kind e = KindImpression") (auto simp: reach_step_def counts_reach_def)
    moreover have "\<not> counts_suppression e" using camp by (auto simp: defs)
    ultimately show ?thesis using camp w1 w' by (auto simp: counts_campaign_def)
  next
    case supp
    then have "se_kind e \<notin> set campaign_rollup_kinds" by (simp add: campaign_rollup_kinds_def)
    with supp assms have "apply_suppression_rollup e w = (Inr (), w')" by simp
    then show ?thesis
      using supp unfolding apply_suppression_rollup_def wrapping_ok by (auto dest!: exec_ok simp: defs)
  qed (use assms in \<open>auto simp: defs\<close>)
qed

lemma apply_event_ok:
  assumes "apply_event e w = (Inr (), w')"
  shows "applied w' = insert (se_id e) (applied w) \<and> events_log w' = events_log w \<and> offsets w' = offsets w
    \<and> (if se_id e \<in> applied w then targeting w' = targeting w \<and> campaign w' = campaign w \<and> suppression w' = suppression w
           \<and> reach_sketches w' = reach_sketches w
       else targeting w' = bump (target_key e) (targeting w)
         \<and> campaign w' = (if counts_campaign e then bump (campaign_key e) (campaign w) else campaign w)
         \<and> suppression w' = (if counts_suppression e
              then bump (suppression_key e) (suppression w) else suppression w)
         \<and> reach_step e (reach_sketches w) (reach_sketches w'))"
proof -
  from assms obtain already w1 where m: "mark_applied (se_id e) w = (Inr already, w1)"
    and rest: "(if already then ret ()
       else and_then (apply_targeting_rollup e) (\<lambda>_.
         if se_message e = [] then ret ()
         else if se_kind e \<in> set campaign_rollup_kinds then
           and_then (apply_campaign_rollup e) (\<lambda>_.
             if se_kind e = KindImpression then apply_reach_sketch e else ret ())
         else if se_kind e = KindSuppression then apply_suppression_rollup e
         else ret ())) w1 = (Inr (), w')"
    by (auto simp: apply_event_def and_then_ok)
  from m have w1: "already = (se_id e \<in> applied w)" "applied w1 = insert (se_id e) (applied w)"
    "targeting w1 = targeting w" "campaign w1 = campaign w" "suppression w1 = suppression w"
    "events_log w1 = events_log w" "offsets w1 = offsets w" "reach_sketches w1 = reach_sketches w"
    unfolding mark_applied_def wrapping_ok by (auto dest!: remote_ok)
  show ?thesis
  proof (cases already)
    case False
    with rest obtain w2 where t: "apply_targeting_rollup e w1 = (Inr (), w2)"
      and rest2: "(if se_message e = [] then ret ()
         else if se_kind e \<in> set campaign_rollup_kinds then
           and_then (apply_campaign_rollup e) (\<lambda>_.
             if se_kind e = KindImpression then apply_reach_sketch e else ret ())
         else if se_kind e = KindSuppression then apply_suppression_rollup e
         else ret ()) w2 = (Inr (), w')"
      by (auto simp: and_then_ok)
    from t have "applied w2 = applied w1" "targeting w2 = bump (target_key e) (targeting w1)"
      "campaign w2 = campaign w1" "suppression w2 = suppression w1" "events_log w2 = events_log w1" "offsets w2 = offsets w1"
      "reach_sketches w2 = reach_sketches w1"
      unfolding apply_targeting_rollup_def wrapping_ok by (auto dest!: exec_ok)
    with apply_message_ok [OF rest2] w1 False show ?thesis by simp
  qed (use rest w1 in auto)
qed

lemma count_bump:
  assumes "finite A" "i \<notin> A" "f k = int (card {j \<in> A. P j \<and> key j = k})"
  shows "(if P i then f(key i := f (key i) + 1) else f) k = int (card {j \<in> insert i A. P j \<and> key j = k})"
proof -
  have "card {j \<in> insert i A. P j \<and> key j = k}
      = card {j \<in> A. P j \<and> key j = k} + (if P i \<and> key i = k then 1 else 0)"
    by (rule card_filter_insert [OF assms(1,2)])
  then show ?thesis using assms(3) by (cases "key i = k") simp_all
qed

lemma reached_insert: "reached src (insert i A) k =
    (if counts_reach (src i) \<and> sketch_key (src i) = k then insert (se_channel (src i)) (reached src A k) else reached src A k)"
  by (auto simp: reached_def)

lemma exact_reach_step:
  assumes "finite (applied w)" "exact_reach src w" "reach_step e (reach_sketches w) (reach_sketches w')"
    and "applied w' = insert (se_id e) (applied w)"
    and "counts_reach (src (se_id e)) = counts_reach e" "sketch_key (src (se_id e)) = sketch_key e"
      "se_channel (src (se_id e)) = se_channel e"
  shows "exact_reach src w'"
  unfolding exact_reach_def
proof (intro allI impI)
  fix k cs
  assume cs: "set cs = reached src (applied w') k"
  show "map_of (reach_sketches w') k = (if cs = [] then None else Some (marshal_sketch (foldl add_identity new_sketch cs)))"
  proof (cases "counts_reach e \<and> k = sketch_key e")
    case False
    then have "map_of (reach_sketches w') k = map_of (reach_sketches w) k"
      using assms(3) by (auto simp: reach_step_def split: if_splits)
    moreover have "set cs = reached src (applied w) k" using cs False assms(4-7) by (auto simp: reached_insert)
    ultimately show ?thesis using assms(2) unfolding exact_reach_def by metis
  next
    case True
    then have set_cs: "set cs = insert (se_channel e) (reached src (applied w) k)"
      using cs assms(4-7) by (simp add: reached_insert)
    have "finite (reached src (applied w) k)" using assms(1) by (simp add: reached_def)
    then obtain ds where ds: "set ds = reached src (applied w) k" using finite_list by blast
    with assms(2) have old: "map_of (reach_sketches w) k
        = (if ds = [] then None else Some (marshal_sketch (foldl add_identity new_sketch ds)))"
      unfolding exact_reach_def by blast
    have wf: "wf_sketch (foldl add_identity new_sketch ds)" by (rule reach.wf_foldl [OF wf_new_sketch])
    from assms(3) True obtain sk where
      sk: "case map_of (reach_sketches w) k of None \<Rightarrow> sk = new_sketch | Some raw \<Rightarrow> unmarshal_sketch raw = Inr sk"
      and up: "reach_sketches w' = upsert (\<lambda>_. marshal_sketch (add_identity sk (se_channel e))) k (reach_sketches w)"
      by (auto simp: reach_step_def)
    have "sk = foldl add_identity new_sketch ds"
      using sk wf unfolding old by (auto simp: unmarshal_sketch_def marshal_sketch_def wf_sketch_def split: if_splits)
    moreover have "foldl add_identity new_sketch cs = foldl add_identity new_sketch (ds @ [se_channel e])"
      using set_cs ds by (intro reach.foldl_same_set) auto
    ultimately show ?thesis using up set_cs by auto
  qed
qed

lemma reach_step_keyed: "reach_step e t t' \<Longrightarrow> distinct (map fst t) \<Longrightarrow> distinct (map fst t')"
  by (auto simp: reach_step_def distinct_upsert split: if_splits)

lemma exact_apply:
  assumes "exact src w" "apply_event e w = (Inr (), w')"
    and key: "target_key (src (se_id e)) = target_key e" "campaign_key (src (se_id e)) = campaign_key e"
      "suppression_key (src (se_id e)) = suppression_key e"
      "counts_campaign (src (se_id e)) = counts_campaign e" "counts_suppression (src (se_id e)) = counts_suppression e"
      "counts_reach (src (se_id e)) = counts_reach e" "sketch_key (src (se_id e)) = sketch_key e"
      "se_channel (src (se_id e)) = se_channel e"
  shows "exact src w'"
proof (cases "se_id e \<in> applied w")
  case True
  with apply_event_ok [OF assms(2)] assms(1) show ?thesis by (simp add: exact_def exact_reach_def keyed_def insert_absorb)
next
  case False
  from assms(1) have fin: "finite (applied w)" by (simp add: exact_def)
  note b = count_bump [OF fin False]
  have w': "applied w' = insert (se_id e) (applied w)"
    "targeting w' = bump (target_key e) (targeting w)"
    "campaign w' = (if counts_campaign e then bump (campaign_key e) (campaign w) else campaign w)"
    "suppression w' = (if counts_suppression e
        then bump (suppression_key e) (suppression w) else suppression w)"
    and r: "reach_step e (reach_sketches w) (reach_sketches w')"
    using apply_event_ok [OF assms(2)] False by simp_all
  have 1: "count_of (targeting w') k = int (card {i \<in> applied w'. target_key (src i) = k})" for k
  proof -
    have "count_of (targeting w) k = int (card {j \<in> applied w. True \<and> target_key (src j) = k})"
      using assms(1) by (simp add: exact_def del: split_paired_All)
    from b [of "count_of (targeting w)" k "\<lambda>_. True" "\<lambda>i. target_key (src i)", OF this] show ?thesis
      unfolding w'(1,2) key by simp
  qed
  have 2: "count_of (campaign w') k = int (card {i \<in> applied w'. counts_campaign (src i) \<and> campaign_key (src i) = k})" for k
  proof -
    have "count_of (campaign w) k = int (card {j \<in> applied w. counts_campaign (src j) \<and> campaign_key (src j) = k})"
      using assms(1) by (simp add: exact_def del: split_paired_All)
    from b [of "count_of (campaign w)" k "\<lambda>i. counts_campaign (src i)" "\<lambda>i. campaign_key (src i)", OF this]
    show ?thesis unfolding w'(1,3) key by (cases "counts_campaign e") simp_all
  qed
  have 3: "count_of (suppression w') k = int (card {i \<in> applied w'. counts_suppression (src i) \<and> suppression_key (src i) = k})" for k
  proof -
    have "count_of (suppression w) k = int (card {j \<in> applied w. counts_suppression (src j) \<and> suppression_key (src j) = k})"
      using assms(1) by (simp add: exact_def del: split_paired_All)
    from b [of "count_of (suppression w)" k "\<lambda>i. counts_suppression (src i)" "\<lambda>i. suppression_key (src i)", OF this]
    show ?thesis unfolding w'(1,4) key by (cases "counts_suppression e") simp_all
  qed
  have "exact_reach src w'"
    by (rule exact_reach_step [where w = w and e = e]) (use assms(1) r w'(1) key(6-8) in \<open>simp_all add: exact_def\<close>)
  moreover have "keyed w'"
    using assms(1) reach_step_keyed [OF r] unfolding keyed_def w'
    by (auto simp: exact_def keyed_def intro!: distinct_bump)
  ultimately show ?thesis using fin 1 2 3 by (simp add: exact_def w'(1) del: split_paired_All)
qed

definition stands_for :: "(string \<Rightarrow> stored_event) \<Rightarrow> stored_event \<Rightarrow> bool" where
  "stands_for src e = (src (se_id e) = e\<lparr>se_seq := se_seq (src (se_id e))\<rparr>)"

lemma stands_for_keys:
  assumes "stands_for src e"
  shows "target_key (src (se_id e)) = target_key e" "campaign_key (src (se_id e)) = campaign_key e"
    "suppression_key (src (se_id e)) = suppression_key e"
    "counts_campaign (src (se_id e)) = counts_campaign e" "counts_suppression (src (se_id e)) = counts_suppression e"
    "counts_reach (src (se_id e)) = counts_reach e" "sketch_key (src (se_id e)) = sketch_key e"
    "se_channel (src (se_id e)) = se_channel e"
proof -
  obtain n where n: "src (se_id e) = e\<lparr>se_seq := n\<rparr>" using assms by (metis stands_for_def)
  show "target_key (src (se_id e)) = target_key e" "campaign_key (src (se_id e)) = campaign_key e"
    "suppression_key (src (se_id e)) = suppression_key e"
    "counts_campaign (src (se_id e)) = counts_campaign e" "counts_suppression (src (se_id e)) = counts_suppression e"
    "counts_reach (src (se_id e)) = counts_reach e" "sketch_key (src (se_id e)) = sketch_key e"
    "se_channel (src (se_id e)) = se_channel e"
    unfolding n by (simp_all add: target_key_def campaign_key_def suppression_key_def counts_campaign_def
        counts_suppression_def counts_reach_def sketch_key_def stored_event_name_def bucket_time_def)
qed

lemma apply_batch_ok:
  "apply_batch es w = (Inr (), w') \<Longrightarrow>
     applied w' = applied w \<union> se_id ` set es \<and> events_log w' = events_log w \<and> offsets w' = offsets w
     \<and> (exact src w \<and> (\<forall>e \<in> set es. stands_for src e) \<longrightarrow> exact src w')"
proof (induction es arbitrary: w)
  case (Cons e es)
  then obtain w1 where 1: "apply_event e w = (Inr (), w1)" and 2: "apply_batch es w1 = (Inr (), w')"
    by (auto simp: apply_batch_def and_then_ok)
  have "exact src w \<and> stands_for src e \<longrightarrow> exact src w1"
    using exact_apply [OF _ 1] stands_for_keys [of src e] by blast
  with apply_event_ok [OF 1] Cons.IH [OF 2] show ?case by auto
qed (simp add: apply_batch_def)

lemma current_offset_data:
  "current_offset name w = (r, w') \<Longrightarrow> applied w' = applied w \<and> targeting w' = targeting w
     \<and> campaign w' = campaign w \<and> suppression w' = suppression w \<and> reach_sketches w' = reach_sketches w \<and> events_log w' = events_log w"
  by (auto simp: current_offset_def wrapping_def remote_def
      split: list.splits outcome.splits sum.splits prod.splits option.splits)

lemma current_offset_ok:
  "current_offset name w = (Inr s, w') \<Longrightarrow> offsets w' name = Some s
     \<and> (\<forall>n. n \<noteq> name \<longrightarrow> offsets w' n = offsets w n) \<and> s = (case offsets w name of None \<Rightarrow> 0 | Some x \<Rightarrow> x)"
  unfolding current_offset_def wrapping_ok by (drule remote_ok) (auto split: option.splits)

text \<open>The body of the transaction, when it succeeds.\<close>

lemma run_once_tx_ok:
  assumes "run_once_tx name limit w = (Inr es, w')"
  obtains s where "s = (case offsets w name of None \<Rightarrow> 0 | Some x \<Rightarrow> x)"
    "es = map stored_of_row (take limit (rows_since (events_log w) s))"
    "applied w' = applied w \<union> se_id ` set es" "events_log w' = events_log w"
    "offsets w' name = Some (if es = [] then s else se_seq (last es))"
    "exact src w \<and> (\<forall>e \<in> set es. stands_for src e) \<longrightarrow> exact src w'"
proof -
  from assms obtain s w1 es1 w2 where o: "current_offset name w = (Inr s, w1)"
    and f: "fetch_since s limit w1 = (Inr es1, w2)"
    and rest: "(if es1 = [] then ret []
         else and_then (apply_batch es1) (\<lambda>_.
           and_then (wrapping ''consumer: advance offset''
               (exec (\<lambda>w. w\<lparr>offsets := (offsets w)(name \<mapsto> se_seq (last es1))\<rparr>)))
             (\<lambda>_. ret es1))) w2 = (Inr es, w')"
    by (auto simp: run_once_tx_def and_then_ok)
  note oo = current_offset_ok [OF o] current_offset_data [OF o]
  from f obtain fs where w2: "w2 = w1\<lparr>faults := fs\<rparr>"
    and es1: "es1 = map stored_of_row (take limit (rows_since (events_log w1) s))"
    unfolding fetch_since_def wrapping_ok by (auto dest!: query_ok)
  have ex: "exact src w2 = exact src w"
    using oo(2) w2 by (simp add: exact_def exact_reach_def keyed_def)
  show thesis
  proof (cases "es1 = []")
    case True
    with rest have "es = []" "w' = w2" by auto
    with oo es1 w2 True ex show thesis by (intro that [of s]) auto
  next
    case False
    with rest obtain w3 w4 where a: "apply_batch es1 w2 = (Inr (), w3)"
      and adv: "exec (\<lambda>w. w\<lparr>offsets := (offsets w)(name \<mapsto> se_seq (last es1))\<rparr>) w3 = (Inr (), w4)"
      and out: "es = es1" "w' = w4"
      by (auto simp: and_then_ok)
    from exec_ok [OF adv] obtain gs where w4: "w4 = (w3\<lparr>faults := gs\<rparr>)\<lparr>offsets := (offsets w3)(name \<mapsto> se_seq (last es1))\<rparr>"
      by auto
    note ab = apply_batch_ok [OF a, of src]
    show thesis
    proof (rule that [of s])
      show "s = (case offsets w name of None \<Rightarrow> 0 | Some x \<Rightarrow> x)" using oo by blast
      show "es = map stored_of_row (take limit (rows_since (events_log w) s))" using out es1 oo by simp
      show "applied w' = applied w \<union> se_id ` set es" using ab out w4 w2 oo by simp
      show "events_log w' = events_log w" using ab out w4 w2 oo by simp
      show "offsets w' name = Some (if es = [] then s else se_seq (last es))" using out w4 False by simp
      have "exact src w3 \<longrightarrow> exact src w'" using out w4 by (simp add: exact_def exact_reach_def keyed_def)
      with ab ex out(1) show "exact src w \<and> (\<forall>e \<in> set es. stands_for src e) \<longrightarrow> exact src w'" by blast
    qed
  qed
qed

lemma reconcile_data:
  fixes w w' :: "'w consumer_world_scheme"
  shows "reconcile_budget counter es w = (r, w') \<Longrightarrow> applied w' = applied w \<and> targeting w' = targeting w
     \<and> campaign w' = campaign w \<and> suppression w' = suppression w \<and> reach_sketches w' = reach_sketches w \<and> events_log w' = events_log w \<and> offsets w' = offsets w"
proof -
  define D where "D = (\<lambda>v :: 'w consumer_world_scheme. (applied v, targeting v, campaign v, suppression v, reach_sketches v, events_log v, offsets v)
    = (applied w, targeting w, campaign w, suppression w, reach_sketches w, events_log w, offsets w))"
  have blind: "fault_blind D" by (simp add: D_def fault_blind_def)
  have "keeps D (record_impression win i t)" for win i t
    unfolding record_impression_def budget_eval_def Let_def split_beta
    by (intro inv_intros keeps_remote blind) (simp add: D_def split_beta)
  then have "keeps D (reconcile_budget counter es)"
    unfolding reconcile_budget_def reconcile_event_def
    by (cases counter) (auto intro!: inv_intros)
  moreover have "D w" by (simp add: D_def)
  moreover assume "reconcile_budget counter es w = (r, w')"
  ultimately have "D w'" by (metis keepsD snd_conv)
  then show ?thesis by (simp add: D_def)
qed

lemma rows_since_in: "r \<in> set (take k (rows_since rows s)) \<Longrightarrow> r \<in> set rows \<and> s < row_seq r"
  by (drule in_set_takeD) (simp add: rows_since_def)

section \<open>Any course of events\<close>

text \<open>What can happen: a consumer runs on the table or on the log, or a transaction commits a row.\<close>

datatype activity =
    FromTable string nat "duration option"
  | FromLog nat "duration option"
  | Committed event_row

fun act :: "(string \<Rightarrow> time option) \<Rightarrow> activity \<Rightarrow> 'w consumer_world_scheme \<Rightarrow> 'w consumer_world_scheme" where
  "act get_time (FromTable name limit counter) w = snd (run_once name limit counter w)"
| "act get_time (FromLog available counter) w = snd (run_once_from_log get_time available counter w)"
| "act get_time (Committed r) w = w\<lparr>events_log := events_log w @ [r]\<rparr>"

text \<open>The tables a run touches, without the budget and the positions in the log.\<close>

definition tables where
  "tables w = (applied w, targeting w, campaign w, suppression w, reach_sketches w, events_log w, offsets w)"

lemma exact_tables: "tables w = tables w' \<Longrightarrow> exact src w = exact src w'"
  by (simp add: tables_def exact_def exact_reach_def keyed_def)

lemma reconcile_tables: "tables (snd (reconcile_budget counter es w)) = tables w"
  using reconcile_data [of counter es w] by (simp add: tables_def prod_eq_iff)

lemma tables_blind [simp]: "tables (w\<lparr>faults := fs\<rparr>) = tables w"
  by (simp add: tables_def)

text \<open>A run leaves the tables as they were, or as its transaction made them.\<close>

lemma run_once_tables:
  fixes w :: "'w consumer_world_scheme"
  obtains "tables (snd (run_once name limit counter w)) = tables w"
  | fs es and w2 :: "'w consumer_world_scheme" where "run_once_tx name limit (w\<lparr>faults := fs\<rparr>) = (Inr es, w2)"
      "tables (snd (run_once name limit counter w)) = tables w2"
proof -
  obtain r w1 where tx: "in_tx ''consumer: begin'' ''consumer: commit'' (run_once_tx name limit) w = (r, w1)" by force
  have out: "tables (snd (run_once name limit counter w)) = tables w1"
  proof (cases r)
    case (Inl e)
    with tx show ?thesis by (simp add: run_once_def and_then_def)
  next
    case (Inr es)
    have "tables (snd (and_then (reconcile_budget counter es) (\<lambda>_. ret (length es)) w1)) = tables w1"
      using reconcile_tables [of counter es w1] by (auto simp: and_then_def split: sum.splits prod.splits)
    with Inr tx show ?thesis by (simp add: run_once_def and_then_def)
  qed
  from in_tx_atomic [OF tx] show thesis
  proof (elim disjE exE conjE)
    fix fs assume "w1 = w\<lparr>faults := fs\<rparr>"
    with out that(1) show thesis by simp
  next
    fix fs x v w2 fs'
    assume "v = w\<lparr>faults := fs\<rparr>" "run_once_tx name limit v = (Inr x, w2)" "w1 = w2\<lparr>faults := fs'\<rparr>"
    with out that(2) show thesis by simp
  qed
qed

lemma run_once_log_tables:
  fixes w :: "'w consumer_world_scheme"
  obtains "tables (snd (run_once_from_log gt available counter w)) = tables w"
  | k evs and w1 w2 :: "'w consumer_world_scheme" where "map_result (\<lambda>(k, v). decode_log_event gt v) (take available (drop k (topic w))) = Inr evs"
      "tables w1 = tables w" "apply_batch (map from_log_event evs) w1 = (Inr (), w2)"
      "tables (snd (run_once_from_log gt available counter w)) = tables w2"
proof -
  obtain r1 v1 where p: "poll available w = (r1, v1)" by force
  have v1: "tables v1 = tables w"
    and r1: "\<And>rs q. r1 = Inr (rs, q) \<Longrightarrow> \<exists>k. rs = take available (drop k (topic w))"
    using p by (auto simp: poll_def wrapping_def remote_def tables_def Let_def
        split: list.splits outcome.splits sum.splits prod.splits)
  show thesis
  proof (cases "\<exists>rs q evs. r1 = Inr (rs, q) \<and> rs \<noteq> [] \<and> map_result (\<lambda>(k, v). decode_log_event gt v) rs = Inr evs")
    case False
    then have "snd (run_once_from_log gt available counter w) = v1"
      using p by (auto simp: run_once_from_log_def and_then_def wrapping_def split: sum.splits prod.splits)
    with v1 that(1) show thesis by simp
  next
    case True
    then obtain rs q evs where r: "r1 = Inr (rs, q)" "rs \<noteq> []"
      and evs: "map_result (\<lambda>(k, v). decode_log_event gt v) rs = Inr evs" by blast
    obtain r2 v2 where tx: "in_tx ''consumer: begin'' ''consumer: commit'' (apply_batch (map from_log_event evs)) v1 = (r2, v2)"
      by force
    have out: "tables (snd (run_once_from_log gt available counter w)) = tables v2"
    proof -
      have q1: "wrapping ''consumer: poll log'' (poll available) w = (Inr (rs, q), v1)"
        using p r by (simp add: wrapping_Inr)
      have run: "run_once_from_log gt available counter w =
        and_then (in_tx ''consumer: begin'' ''consumer: commit'' (apply_batch (map from_log_event evs))) (\<lambda>_.
           and_then (wrapping ''consumer: commit log offsets'' (commit_offsets q)) (\<lambda>_.
             and_then (reconcile_budget counter (map from_log_event evs))
               (\<lambda>_. ret (length (map from_log_event evs))))) v1"
        using r(2) evs q1 by (simp add: run_once_from_log_def and_then_def wrapping_def Let_def del: length_map)
      obtain r3 v3 where 3: "wrapping ''consumer: commit log offsets'' (commit_offsets q) v2 = (r3, v3)" by force
      have c: "tables v3 = tables v2"
        using 3 by (auto simp: wrapping_def commit_offsets_def exec_def remote_def tables_def
            split: list.splits outcome.splits prod.splits sum.splits)
      have rec: "tables (snd (and_then (reconcile_budget counter (map from_log_event evs))
               (\<lambda>_. ret (length (map from_log_event evs))) v3)) = tables v3"
        using reconcile_tables [of counter "map from_log_event evs" v3]
        by (auto simp: and_then_def split: sum.splits prod.splits)
      show ?thesis
        unfolding run using tx 3 c rec by (cases r2; cases r3) (simp_all add: and_then_Inl and_then_Inr)
    qed
    from in_tx_atomic [OF tx] show thesis
    proof (elim disjE exE conjE)
      fix fs assume "v2 = v1\<lparr>faults := fs\<rparr>"
      with out v1 that(1) show thesis by simp
    next
      fix fs x v w2 fs'
      assume "v = v1\<lparr>faults := fs\<rparr>" "apply_batch (map from_log_event evs) v = (Inr x, w2)" "v2 = w2\<lparr>faults := fs'\<rparr>"
      moreover obtain k where "rs = take available (drop k (topic w))" using r1 r by blast
      ultimately show thesis using that(2) [of k evs v w2] out v1 evs by simp
    qed
  qed
qed

text \<open>No run writes the log's records.\<close>

lemma keeps_apply_event_topic: "keeps (\<lambda>w. topic w = T) (apply_event e)"
  unfolding apply_event_def mark_applied_def apply_targeting_rollup_def apply_campaign_rollup_def
    apply_suppression_rollup_def apply_reach_sketch_def
  by (auto intro!: inv_intros keeps_remote simp: fault_blind_def split: option.splits)

lemma keeps_reconcile_topic: "keeps (\<lambda>w. topic w = T) (reconcile_budget counter es)"
  unfolding reconcile_budget_def reconcile_event_def record_impression_def budget_eval_def Let_def split_beta
  by (cases counter) (auto intro!: inv_intros keeps_remote simp: fault_blind_def split_beta)

lemma act_topic:
  fixes w :: "'w consumer_world_scheme"
  shows "topic (act gt a w) = topic w"
proof (cases a)
  case (FromTable name limit counter)
  have "keeps (\<lambda>v :: 'w consumer_world_scheme. topic v = topic w) (run_once name limit counter)"
    unfolding run_once_def run_once_tx_def current_offset_def fetch_since_def apply_batch_def
    by (auto intro!: inv_intros keeps_remote keeps_apply_event_topic keeps_reconcile_topic
        simp: fault_blind_def split: option.splits)
  from keepsD [OF this] FromTable show ?thesis by simp
next
  case (FromLog available counter)
  have "keeps (\<lambda>v :: 'w consumer_world_scheme. topic v = topic w) (run_once_from_log gt available counter)"
    unfolding run_once_from_log_def poll_def commit_offsets_def apply_batch_def Let_def
    by (auto intro!: inv_intros keeps_remote keeps_apply_event_topic keeps_reconcile_topic
        simp: fault_blind_def split: option.splits)
  from keepsD [OF this] FromLog show ?thesis by simp
qed simp

text \<open>What a course of events may bring in: rows and records that stand for their identifier's event.\<close>

definition rows_stand :: "(string \<Rightarrow> stored_event) \<Rightarrow> event_row list \<Rightarrow> bool" where
  "rows_stand src rows = (\<forall>r \<in> set rows. stands_for src (stored_of_row r))"

definition records_stand :: "(string \<Rightarrow> time option) \<Rightarrow> (string \<Rightarrow> stored_event) \<Rightarrow> (string \<times> json) list \<Rightarrow> bool" where
  "records_stand gt src records =
     (\<forall>(k, v) \<in> set records. \<forall>e. decode_log_event gt v = Inr e \<longrightarrow> stands_for src (from_log_event e))"

definition activity_stands :: "(string \<Rightarrow> stored_event) \<Rightarrow> activity \<Rightarrow> bool" where
  "activity_stands src a = (case a of Committed r \<Rightarrow> stands_for src (stored_of_row r) | _ \<Rightarrow> True)"

lemma map_result_mem: "map_result f xs = Inr ys \<Longrightarrow> y \<in> set ys \<Longrightarrow> \<exists>x \<in> set xs. f x = Inr y"
  unfolding map_result_Inr_iff list_all2_conv_all_nth by (metis in_set_conv_nth)

lemma run_once_exact:
  assumes "exact src w" "rows_stand src (events_log w)"
  shows "exact src (snd (run_once name limit counter w)) \<and> rows_stand src (events_log (snd (run_once name limit counter w)))"
proof (rule run_once_tables [of name limit counter w])
    assume t: "tables (snd (run_once name limit counter w)) = tables w"
    with exact_tables [OF t, of src] assms show ?thesis by (simp add: tables_def)
  next
    fix fs es w2
    assume tx: "run_once_tx name limit (w\<lparr>faults := fs\<rparr>) = (Inr es, w2)"
      and t: "tables (snd (run_once name limit counter w)) = tables w2"
    obtain s where "s = (case offsets (w\<lparr>faults := fs\<rparr>) name of None \<Rightarrow> 0 | Some x \<Rightarrow> x)"
      and "es = map stored_of_row (take limit (rows_since (events_log (w\<lparr>faults := fs\<rparr>)) s))"
      and "applied w2 = applied (w\<lparr>faults := fs\<rparr>) \<union> se_id ` set es"
      and "events_log w2 = events_log (w\<lparr>faults := fs\<rparr>)"
      and "offsets w2 name = Some (if es = [] then s else se_seq (last es))"
      and "exact src (w\<lparr>faults := fs\<rparr>) \<and> (\<forall>e \<in> set es. stands_for src e) \<longrightarrow> exact src w2"
      by (rule run_once_tx_ok [OF tx, of src])
    then have es: "es = map stored_of_row (take limit (rows_since (events_log w) s))"
      and l: "events_log w2 = events_log w"
      and ex: "exact src w \<and> (\<forall>e \<in> set es. stands_for src e) \<longrightarrow> exact src w2"
      by (simp_all add: exact_blind)
    have "\<forall>e \<in> set es. stands_for src e"
      using assms(2) by (auto simp: es rows_stand_def dest!: rows_since_in)
    with ex assms(1) have "exact src w2" by blast
    with exact_tables [OF t, of src] t l assms(2) show ?thesis by (simp add: tables_def)
  qed

lemma act_exact:
  assumes "exact src w" "rows_stand src (events_log w)" "records_stand gt src (topic w)" "activity_stands src a"
  shows "exact src (act gt a w) \<and> rows_stand src (events_log (act gt a w))"
proof (cases a)
  case (FromTable name limit counter)
  with run_once_exact [OF assms(1,2)] show ?thesis by simp
next
  case (FromLog available counter)
  show ?thesis
  proof (rule run_once_log_tables [of gt available counter w])
    assume t: "tables (snd (run_once_from_log gt available counter w)) = tables w"
    with exact_tables [OF t, of src] assms FromLog show ?thesis by (simp add: tables_def)
  next
    fix k evs and w1 w2 :: "'a consumer_world_scheme"
    assume evs: "map_result (\<lambda>(k, v). decode_log_event gt v) (take available (drop k (topic w))) = Inr evs"
      and w1: "tables w1 = tables w" and ab: "apply_batch (map from_log_event evs) w1 = (Inr (), w2)"
      and t: "tables (snd (run_once_from_log gt available counter w)) = tables w2"
    have "\<forall>e \<in> set (map from_log_event evs). stands_for src e"
      using assms(3) map_result_mem [OF evs]
      by (fastforce simp: records_stand_def dest: in_set_takeD in_set_dropD)
    with apply_batch_ok [OF ab, of src] exact_tables [OF w1, of src] assms(1) have "exact src w2" by blast
    moreover have "events_log w2 = events_log w" using apply_batch_ok [OF ab, of src] w1 by (simp add: tables_def)
    ultimately show ?thesis using exact_tables [OF t, of src] t assms(2) FromLog by (simp add: tables_def)
  qed
next
  case (Committed r)
  with assms show ?thesis by (simp add: exact_def exact_reach_def keyed_def rows_stand_def activity_stands_def)
qed

text \<open>
  C5: the rollups are exact: whatever consumers run, on the table or on the log, in any order,
  over rows committed at any time and records repeated at will, and whatever calls fail, every
  count of the targeting, campaign and suppression rollups is the number of distinct applied
  events with its key, each event's bucket being the one its effective time falls in, and every
  reach sketch is the sketch of the channels its applied impressions were shown to.
\<close>

theorem rollups_count_once:
  assumes "exact src w" "rows_stand src (events_log w)" "records_stand gt src (topic w)"
    and "\<forall>a \<in> set acts. activity_stands src a"
  shows "exact src (fold (act gt) acts w)"
  using assms
proof (induction acts arbitrary: w)
  case (Cons a acts)
  have "exact src (act gt a w) \<and> rows_stand src (events_log (act gt a w))"
    using Cons.prems by (intro act_exact) simp_all
  with Cons show ?case by (simp add: act_topic)
qed simp

definition demo_row :: "int \<Rightarrow> string \<Rightarrow> event_row" where
  "demo_row n i = \<lparr>row_seq = n, row_id = i, row_channel = ''c'', row_kind = ''custom'', row_name = ''launch'',
     row_device_time = 60 * second, row_server_time = 61 * second, row_properties = [],
     row_message = None, row_variant = None, row_reason = None\<rparr>"

definition demo_consumer_world :: consumer_world where
  "demo_consumer_world = \<lparr>faults = [], rl_counts = (\<lambda>_. 0), rl_expiring = (\<lambda>_. False),
     events_log = [], next_seq = 1, topic = [], budgets = Map.empty, offsets = Map.empty, applied = {},
     targeting = [], campaign = [], suppression = [], reach_sketches = [],
     topic_position = 0, topic_committed = 0\<rparr>"

theorem rollups_count_once_witness:
  "exact (\<lambda>i. stored_of_row (demo_row 1 i))
     (fold (act (\<lambda>_. None)) [Committed (demo_row 1 ''a''), FromTable ''rollup'' 10 None, Committed (demo_row 2 ''a''),
        FromTable ''other'' 10 None, FromLog 5 None] (demo_consumer_world\<lparr>faults := [Done, Done, Unacked]\<rparr>))"
  by (rule rollups_count_once)
    (simp_all add: exact_def exact_reach_def keyed_def reached_def demo_consumer_world_def rows_stand_def records_stand_def activity_stands_def
      stands_for_def stored_of_row_def demo_row_def)

section \<open>Rows that commit late\<close>

text \<open>What may happen to a consumer after a row committed behind its offset.\<close>

definition later_activity :: "string \<Rightarrow> event_row \<Rightarrow> activity \<Rightarrow> bool" where
  "later_activity name r a =
     (case a of FromTable n _ _ \<Rightarrow> n = name | FromLog _ _ \<Rightarrow> False | Committed r' \<Rightarrow> row_id r' \<noteq> row_id r)"

definition passed_over :: "string \<Rightarrow> event_row \<Rightarrow> 'w consumer_world_scheme \<Rightarrow> bool" where
  "passed_over name r w =
     (r \<in> set (events_log w) \<and> row_id r \<notin> applied w
      \<and> (\<exists>s. offsets w name = Some s \<and> (\<forall>r' \<in> set (events_log w). row_id r' = row_id r \<longrightarrow> row_seq r' \<le> s)))"

lemma passed_over_tables: "tables w = tables w' \<Longrightarrow> passed_over name r w = passed_over name r w'"
  by (simp add: tables_def passed_over_def)

lemma act_passed_over:
  assumes "passed_over name r w" "later_activity name r a"
  shows "passed_over name r (act gt a w)"
proof (cases a)
  case (FromTable n limit counter)
  then have n: "n = name" using assms(2) by (simp add: later_activity_def)
  show ?thesis
  proof (rule run_once_tables [of name limit counter w])
    assume "tables (snd (run_once name limit counter w)) = tables w"
    from passed_over_tables [OF this, of name r] assms(1) FromTable n show ?thesis by simp
  next
    fix fs es w2
    assume tx: "run_once_tx name limit (w\<lparr>faults := fs\<rparr>) = (Inr es, w2)"
      and t: "tables (snd (run_once name limit counter w)) = tables w2"
    obtain s where s: "offsets w name = Some s" "\<forall>r' \<in> set (events_log w). row_id r' = row_id r \<longrightarrow> row_seq r' \<le> s"
      using assms(1) by (auto simp: passed_over_def)
    obtain q where "q = (case offsets (w\<lparr>faults := fs\<rparr>) name of None \<Rightarrow> 0 | Some x \<Rightarrow> x)"
      and "es = map stored_of_row (take limit (rows_since (events_log (w\<lparr>faults := fs\<rparr>)) q))"
      and ap: "applied w2 = applied (w\<lparr>faults := fs\<rparr>) \<union> se_id ` set es"
      and l: "events_log w2 = events_log (w\<lparr>faults := fs\<rparr>)"
      and o2: "offsets w2 name = Some (if es = [] then q else se_seq (last es))"
      and "exact (\<lambda>_. undefined) (w\<lparr>faults := fs\<rparr>) \<and> (\<forall>e \<in> set es. stands_for (\<lambda>_. undefined) e)
        \<longrightarrow> exact (\<lambda>_. undefined) w2"
      by (rule run_once_tx_ok [OF tx, of "\<lambda>_. undefined"])
    with s have es: "q = s" "es = map stored_of_row (take limit (rows_since (events_log w) s))" by simp_all
    have new: "\<exists>r' \<in> set (events_log w). e = stored_of_row r' \<and> s < row_seq r'" if "e \<in> set es" for e
      using that rows_since_in [of _ limit "events_log w" s] unfolding es(2) set_map by blast
    have "row_id r \<notin> se_id ` set es"
    proof
      assume "row_id r \<in> se_id ` set es"
      then obtain e where e: "e \<in> set es" "se_id e = row_id r" by auto
      from new [OF e(1)] obtain r' where "r' \<in> set (events_log w)" "e = stored_of_row r'" "s < row_seq r'" by blast
      with e(2) s(2) show False by (auto simp: stored_of_row_def)
    qed
    moreover have "s \<le> (if es = [] then q else se_seq (last es))"
      using new [of "last es"] es(1) by (auto simp: stored_of_row_def)
    then have "\<forall>r' \<in> set (events_log w). row_id r' = row_id r \<longrightarrow> row_seq r' \<le> (if es = [] then q else se_seq (last es))"
      using s(2) by fastforce
    ultimately have "passed_over name r w2"
      using assms(1) ap l o2 unfolding passed_over_def by simp
    with passed_over_tables [OF t, of name r] FromTable n show ?thesis by simp
  qed
qed (use assms in \<open>auto simp: passed_over_def later_activity_def\<close>)

text \<open>
  C25: a row that commits after the offset has passed its sequence number, which is drawn
  before the commit, is never applied: it stays in the table, and every later run of the
  consumer, with whatever commits in between, asks only for larger numbers.
\<close>

theorem late_row_never_applied:
  assumes "passed_over name r w" "\<forall>a \<in> set acts. later_activity name r a"
  shows "r \<in> set (events_log (fold (act gt) acts w)) \<and> row_id r \<notin> applied (fold (act gt) acts w)"
proof -
  have "passed_over name r (fold (act gt) acts w)"
    using assms
  proof (induction acts arbitrary: w)
    case (Cons a acts)
    then show ?case by (simp add: act_passed_over)
  qed simp
  then show ?thesis by (simp add: passed_over_def)
qed

theorem late_row_never_applied_witness:
  "row_id (demo_row 1 ''late'') \<notin> applied (fold (act (\<lambda>_. None))
     [FromTable ''rollup'' 10 None, Committed (demo_row 3 ''c''), FromTable ''rollup'' 10 None]
     (act (\<lambda>_. None) (Committed (demo_row 1 ''late''))
       (demo_consumer_world\<lparr>events_log := [demo_row 2 ''b''], applied := {''b''}, offsets := [''rollup'' \<mapsto> 2]\<rparr>)))"
  by (rule late_row_never_applied [THEN conjunct2])
    (simp_all add: passed_over_def demo_consumer_world_def later_activity_def demo_row_def)

section \<open>Draining the table\<close>

definition sketches_ok :: "'w consumer_world_scheme \<Rightarrow> bool" where
  "sketches_ok w = (faults w = [] \<and> (\<forall>k raw. map_of (reach_sketches w) k = Some raw \<longrightarrow> length raw = registerCount))"

lemma wrapping_apply: "wrapping msg m w = (case m w of (Inl e, w') \<Rightarrow> (Inl (Wrap msg e), w') | (Inr x, w') \<Rightarrow> (Inr x, w'))"
  by (simp add: wrapping_def)

lemma apply_reach_sketch_calm:
  assumes "sketches_ok w"
  shows "\<exists>w'. apply_reach_sketch e w = (Inr (), w') \<and> sketches_ok w'"
proof -
  have f: "faults w = []" using assms by (simp add: sketches_ok_def)
  define sk where "sk = (case map_of (reach_sketches w) (sketch_key e) of None \<Rightarrow> new_sketch | Some raw \<Rightarrow> \<lparr>registers = raw\<rparr>)"
  have wf: "wf_sketch sk"
    using assms unfolding sk_def sketches_ok_def
    by (auto simp: wf_new_sketch [unfolded wf_sketch_def] wf_sketch_def simp del: split_paired_All split: option.splits)
  have read: "(case map_of (reach_sketches w) (sketch_key e) of None \<Rightarrow> ret new_sketch
      | Some raw \<Rightarrow> wrapping m (of_result (unmarshal_sketch raw))) v = (Inr sk, v)" for m and v :: "'a consumer_world_scheme"
    using wf by (auto simp: sk_def wrapping_def unmarshal_sketch_def wf_sketch_def split: option.splits)
  let ?w = "w\<lparr>reach_sketches := upsert (\<lambda>_. marshal_sketch (add_identity sk (se_channel e))) (sketch_key e) (reach_sketches w)\<rparr>"
  have "apply_reach_sketch e w = (Inr (), ?w)"
    by (simp add: apply_reach_sketch_def and_then_def wrapping_apply query_calm [OF f] exec_calm [OF f] read)
  moreover have "sketches_ok ?w"
    using assms wf_add_identity [OF wf]
    by (simp add: sketches_ok_def marshal_sketch_def wf_sketch_def del: split_paired_All)
  ultimately show ?thesis by blast
qed

lemma sketches_ok_same:
  "sketches_ok w \<Longrightarrow> faults w' = faults w \<Longrightarrow> reach_sketches w' = reach_sketches w \<Longrightarrow> sketches_ok w'"
  by (simp add: sketches_ok_def)

lemma apply_event_calm:
  assumes "sketches_ok w"
  shows "\<exists>w'. apply_event e w = (Inr (), w') \<and> sketches_ok w'"
proof -
  have f: "faults w = []" using assms by (simp add: sketches_ok_def)
  define w1 where "w1 = w\<lparr>applied := insert (se_id e) (applied w)\<rparr>"
  have m: "mark_applied (se_id e) w = (Inr (se_id e \<in> applied w), w1)"
    using f by (simp add: mark_applied_def wrapping_def remote_calm w1_def)
  have ok1: "sketches_ok w1" by (rule sketches_ok_same [OF assms]) (simp_all add: w1_def)
  have calm: "\<exists>v'. apply_targeting_rollup e v = (Inr (), v') \<and> sketches_ok v'"
    "\<exists>v'. apply_campaign_rollup e v = (Inr (), v') \<and> sketches_ok v'"
    "\<exists>v'. apply_suppression_rollup e v = (Inr (), v') \<and> sketches_ok v'"
    if ok: "sketches_ok v" for v :: "'a consumer_world_scheme"
  proof -
    have fv: "faults v = []" using ok by (simp add: sketches_ok_def)
    note calls = wrapping_def exec_calm [OF fv] apply_targeting_rollup_def apply_campaign_rollup_def apply_suppression_rollup_def
    show "\<exists>v'. apply_targeting_rollup e v = (Inr (), v') \<and> sketches_ok v'"
      by (simp add: calls) (rule sketches_ok_same [OF ok]; simp)
    show "\<exists>v'. apply_campaign_rollup e v = (Inr (), v') \<and> sketches_ok v'"
      by (simp add: calls) (rule sketches_ok_same [OF ok]; simp)
    show "\<exists>v'. apply_suppression_rollup e v = (Inr (), v') \<and> sketches_ok v'"
      by (simp add: calls) (rule sketches_ok_same [OF ok]; simp)
  qed
  obtain w2 where 2: "apply_targeting_rollup e w1 = (Inr (), w2)" "sketches_ok w2" using calm(1) [OF ok1] by blast
  obtain w3 where 3: "apply_campaign_rollup e w2 = (Inr (), w3)" "sketches_ok w3" using calm(2) [OF 2(2)] by blast
  obtain w4 where 4: "apply_suppression_rollup e w2 = (Inr (), w4)" "sketches_ok w4" using calm(3) [OF 2(2)] by blast
  obtain w5 where 5: "apply_reach_sketch e w3 = (Inr (), w5)" "sketches_ok w5"
    using apply_reach_sketch_calm [OF 3(2)] by blast
  show ?thesis
    using ok1 2 3 4 5 by (auto simp: apply_event_def and_then_def m)
qed

lemma apply_batch_calm: "sketches_ok w \<Longrightarrow> \<exists>w'. apply_batch es w = (Inr (), w') \<and> sketches_ok w'"
proof (induction es arbitrary: w)
  case (Cons e es)
  obtain w1 where 1: "apply_event e w = (Inr (), w1)" "sketches_ok w1" using apply_event_calm [OF Cons.prems] by blast
  with Cons.IH [OF 1(2)] show ?case by (auto simp: apply_batch_def and_then_def)
qed (simp add: apply_batch_def)

lemma reconcile_calm: "sketches_ok w \<Longrightarrow> \<exists>w'. reconcile_budget counter es w = (Inr (), w') \<and> sketches_ok w'"
proof (cases counter)
  case (Some window)
  assume "sketches_ok w"
  then have "\<exists>w'. for_each (reconcile_event window) es w = (Inr (), w') \<and> sketches_ok w'"
  proof (induction es arbitrary: w)
    case (Cons e es)
    have f: "faults w = []" using Cons.prems by (simp add: sketches_ok_def)
    obtain i v where p: "window_params (se_device_time e) window = (i, v)" by force
    have "\<exists>w1. reconcile_event window e w = (Inr (), w1) \<and> sketches_ok w1"
    proof (cases "se_kind e = KindImpression")
      case True
      then show ?thesis
        by (simp add: reconcile_event_def wrapping_def record_calm [OF f p])
          (rule sketches_ok_same [OF Cons.prems]; simp)
    qed (use Cons.prems in \<open>simp add: reconcile_event_def\<close>)
    with Cons.IH show ?case by (fastforce simp: and_then_def)
  qed simp
  with Some show ?thesis by (simp add: reconcile_budget_def)
qed (simp add: reconcile_budget_def)

text \<open>What one run processes is a prefix of what is pending, and the rest stays pending.\<close>

lemma below_last: "sorted (map f xs) \<Longrightarrow> x \<in> set xs \<Longrightarrow> f x \<le> f (last xs)"
  by (induction xs) auto

lemma rows_since_rest:
  assumes "distinct (map row_seq rows)" "take k (rows_since rows s) \<noteq> []"
  shows "rows_since rows (row_seq (last (take k (rows_since rows s)))) = drop k (rows_since rows s)"
proof -
  let ?xs = "rows_since rows s"
  let ?p = "take k ?xs" and ?d = "drop k ?xs" and ?l = "row_seq (last (take k ?xs))"
  have srt: "sorted (map row_seq (?p @ ?d))" unfolding append_take_drop_id by (simp add: rows_since_def)
  have dist: "distinct (map row_seq (?p @ ?d))"
    unfolding append_take_drop_id using assms(1) by (auto simp: rows_since_def distinct_map inj_on_def)
  have lp: "last ?p \<in> set ?p" using assms(2) by simp
  have above: "s < ?l" using rows_since_in [OF lp] by simp
  have below: "row_seq x \<le> ?l" if "x \<in> set ?p" for x
  proof -
    have "sorted (map row_seq ?p)" using srt by (simp only: map_append sorted_append)
    then show ?thesis using that by (rule below_last)
  qed
  have beyond: "?l < row_seq x" if "x \<in> set ?d" for x
  proof -
    have "?l \<le> row_seq x" using srt lp that by (simp only: map_append sorted_append set_map) blast
    moreover have "?l \<noteq> row_seq x" using dist lp that by (simp only: map_append distinct_append set_map) blast
    ultimately show ?thesis by simp
  qed
  have "rows_since rows ?l = filter (\<lambda>r. ?l < row_seq r) ?xs"
    using above by (auto simp: rows_since_def filter_sort intro!: arg_cong [where f = "sort_key row_seq"] filter_cong)
  also have "\<dots> = filter (\<lambda>r. ?l < row_seq r) (?p @ ?d)" by simp
  also have "\<dots> = ?d" using below beyond by (simp only: filter_append) (auto simp: filter_empty_conv filter_id_conv not_less)
  finally show ?thesis .
qed

definition offset_of :: "'w consumer_world_scheme \<Rightarrow> string \<Rightarrow> int" where
  "offset_of w name = (case offsets w name of None \<Rightarrow> 0 | Some s \<Rightarrow> s)"

lemma run_once_tx_calm:
  assumes "sketches_ok w"
  shows "\<exists>es w'. run_once_tx name limit w = (Inr es, w') \<and> sketches_ok w'"
proof -
  have f: "faults w = []" using assms by (simp add: sketches_ok_def)
  define w1 where "w1 = (case offsets w name of None \<Rightarrow> w\<lparr>offsets := (offsets w)(name \<mapsto> 0)\<rparr> | Some _ \<Rightarrow> w)"
  have o: "current_offset name w = (Inr (offset_of w name), w1)"
    by (simp add: current_offset_def wrapping_def remote_calm [OF f] offset_of_def w1_def split: option.splits)
  have ok1: "sketches_ok w1"
    by (rule sketches_ok_same [OF assms]) (simp_all add: w1_def split: option.splits)
  then have f1: "faults w1 = []" by (simp add: sketches_ok_def)
  define es where "es = map stored_of_row (take limit (rows_since (events_log w1) (offset_of w name)))"
  have fe: "fetch_since (offset_of w name) limit w1 = (Inr es, w1)"
    by (simp add: fetch_since_def wrapping_def query_calm [OF f1] es_def)
  obtain w2 where 2: "apply_batch es w1 = (Inr (), w2)" "sketches_ok w2" using apply_batch_calm [OF ok1] by blast
  then have f2: "faults w2 = []" by (simp add: sketches_ok_def)
  have "sketches_ok (w2\<lparr>offsets := (offsets w2)(name \<mapsto> q)\<rparr>)" for q
    by (rule sketches_ok_same [OF 2(2)]) simp_all
  with ok1 show ?thesis
    by (simp add: run_once_tx_def and_then_def o fe 2 wrapping_apply exec_calm [OF f2])
qed

lemma run_once_calm:
  fixes w name limit
  assumes "sketches_ok w"
  defines "ps \<equiv> take limit (rows_since (events_log w) (offset_of w name))"
  shows "\<exists>w'. run_once name limit counter w = (Inr (length ps), w') \<and> sketches_ok w'
    \<and> applied w' = applied w \<union> row_id ` set ps \<and> events_log w' = events_log w
    \<and> offset_of w' name = (if ps = [] then offset_of w name else row_seq (last ps)) \<and> offsets w' name \<noteq> None"
proof -
  have f: "faults w = []" using assms(1) by (simp add: sketches_ok_def)
  obtain es w1 where tx: "run_once_tx name limit w = (Inr es, w1)" "sketches_ok w1"
    using run_once_tx_calm [OF assms(1)] by blast
  obtain s where "s = (case offsets w name of None \<Rightarrow> 0 | Some x \<Rightarrow> x)"
    and "es = map stored_of_row (take limit (rows_since (events_log w) s))"
    and ap: "applied w1 = applied w \<union> se_id ` set es" and l: "events_log w1 = events_log w"
    and o2: "offsets w1 name = Some (if es = [] then s else se_seq (last es))"
    and "exact (\<lambda>_. undefined) w \<and> (\<forall>e \<in> set es. stands_for (\<lambda>_. undefined) e) \<longrightarrow> exact (\<lambda>_. undefined) w1"
    by (rule run_once_tx_ok [OF tx(1), of "\<lambda>_. undefined"])
  then have s: "s = offset_of w name" and es: "es = map stored_of_row ps" by (simp_all add: offset_of_def ps_def)
  have ids: "se_id ` set es = row_id ` set ps" by (simp add: es image_image stored_of_row_def)
  have lst: "ps \<noteq> [] \<Longrightarrow> se_seq (last es) = row_seq (last ps)" by (simp add: es last_map stored_of_row_def)
  have in1: "in_tx ''consumer: begin'' ''consumer: commit'' (run_once_tx name limit) w = (Inr es, w1)"
    using tx by (intro in_tx_calm f) (simp_all add: sketches_ok_def)
  obtain w2 where 2: "reconcile_budget counter es w1 = (Inr (), w2)" "sketches_ok w2"
    using reconcile_calm [OF tx(2)] by blast
  have run: "run_once name limit counter w = (if es = [] then (Inr 0, w1) else (Inr (length ps), w2))"
    by (simp add: run_once_def and_then_def in1 2) (simp add: es)
  note d = reconcile_data [OF 2(1)]
  show ?thesis
  proof (cases "ps = []")
    case True
    with run tx(2) ap l o2 s es show ?thesis by (simp add: offset_of_def)
  next
    case False
    then have "es \<noteq> []" by (simp add: es)
    with False run 2(2) ap l o2 ids lst d show ?thesis by (simp add: offset_of_def)
  qed
qed

lemma drain_batches: "drain fuel name limit counter w
    = batches ''consumer: scheduled rollup recompute'' limit (run_once name limit counter) fuel w"
  by (induction fuel arbitrary: w) (simp_all split: prod.split sum.split)

definition pending_rows :: "string \<Rightarrow> 'w consumer_world_scheme \<Rightarrow> event_row list" where
  "pending_rows name w = rows_since (events_log w) (offset_of w name)"

text \<open>A run that answers has moved the offset to the last row it took, whatever the fate of its other calls.\<close>

lemma run_once_takes:
  fixes w w' :: "'w consumer_world_scheme"
  assumes "distinct (map row_seq (events_log w))" "run_once name limit counter w = (Inr n, w')"
  shows "n = length (take limit (pending_rows name w)) \<and> events_log w' = events_log w
    \<and> pending_rows name w' = drop limit (pending_rows name w)
    \<and> applied w' = applied w \<union> row_id ` set (take limit (pending_rows name w))"
proof -
  let ?ps = "take limit (pending_rows name w)"
  from assms(2) obtain es w1 where tx: "in_tx ''consumer: begin'' ''consumer: commit'' (run_once_tx name limit) w = (Inr es, w1)"
    and rest: "(if es = [] then ret 0 else and_then (reconcile_budget counter es) (\<lambda>_. ret (length es))) w1 = (Inr n, w')"
    by (auto simp: run_once_def and_then_ok)
  from in_tx_ok [OF tx] obtain fs w2 fs' where body: "run_once_tx name limit (w\<lparr>faults := fs\<rparr>) = (Inr es, w2)"
    and w1: "w1 = w2\<lparr>faults := fs'\<rparr>" by blast
  obtain s where s: "s = offset_of w name" and es: "es = map stored_of_row ?ps"
    and ap: "applied w2 = applied w \<union> se_id ` set es" and l: "events_log w2 = events_log w"
    and o2: "offsets w2 name = Some (if es = [] then s else se_seq (last es))"
    by (rule run_once_tx_ok [OF body, of "\<lambda>_. undefined"]) (auto simp: offset_of_def pending_rows_def)
  have n: "n = length es" and same: "applied w' = applied w2" "events_log w' = events_log w2" "offsets w' = offsets w2"
    using rest by (auto simp: w1 and_then_ok split: if_splits dest: reconcile_data)
  have "pending_rows name w' = drop limit (pending_rows name w)"
  proof (cases "?ps = []")
    case True
    with o2 s es same l have "pending_rows name w' = pending_rows name w" by (simp add: pending_rows_def offset_of_def)
    with True show ?thesis by auto
  next
    case False
    then have "offset_of w' name = row_seq (last ?ps)" using o2 same by (simp add: es offset_of_def last_map stored_of_row_def)
    with rows_since_rest [OF assms(1), of limit "offset_of w name"] False same l show ?thesis by (simp add: pending_rows_def)
  qed
  moreover have "se_id ` set es = row_id ` set ?ps" by (simp add: es image_image stored_of_row_def)
  ultimately show ?thesis using n es same ap l by simp
qed

interpretation rollup_job: calm_batch_job rollupRecomputeBatchLimit "run_once name rollupRecomputeBatchLimit counter"
    "\<lambda>w. distinct (map row_seq (events_log w))" "pending_rows name" row_id applied sketches_ok for name counter
proof unfold_locales
  show "n = length (take rollupRecomputeBatchLimit (pending_rows name w)) \<and> distinct (map row_seq (events_log w'))
      \<and> pending_rows name w' = drop rollupRecomputeBatchLimit (pending_rows name w)
      \<and> applied w' = applied w \<union> row_id ` set (take rollupRecomputeBatchLimit (pending_rows name w))"
    if "distinct (map row_seq (events_log w))" "run_once name rollupRecomputeBatchLimit counter w = (Inr n, w')"
    for n and w w' :: "'a consumer_world_scheme"
    using run_once_takes [OF that] that(1) by simp
  show "\<exists>n w'. run_once name rollupRecomputeBatchLimit counter w = (Inr n, w') \<and> sketches_ok w'"
    if "sketches_ok w" for w :: "'a consumer_world_scheme"
    using run_once_calm [OF that] by blast
qed (simp add: rollupRecomputeBatchLimit_def)

lemma recompute_ends:
  assumes "distinct (map row_seq (events_log w))"
    and "length (rows_since (events_log w) (offset_of w TargetingRollupConsumer)) < fuel"
  shows "\<exists>r w'. recompute_work fuel [] counter w = Some (r, w')
    \<and> (is_ok r \<longrightarrow> rows_since (events_log w') (offset_of w' TargetingRollupConsumer) = []
        \<and> applied w' = applied w \<union> row_id ` set (rows_since (events_log w) (offset_of w TargetingRollupConsumer)))
    \<and> (sketches_ok w \<longrightarrow> is_ok r)"
proof -
  let ?msg = "''consumer: scheduled rollup recompute''" and ?n = TargetingRollupConsumer
  obtain r w' where run: "batches ?msg rollupRecomputeBatchLimit (run_once ?n rollupRecomputeBatchLimit counter) fuel w = Some (r, w')"
    using rollup_job.batches_end [of w ?n fuel ?msg counter] assms by (auto simp: pending_rows_def)
  then have "is_ok r \<longrightarrow> pending_rows ?n w' = [] \<and> applied w' = applied w \<union> row_id ` set (pending_rows ?n w)"
    using rollup_job.batches_ok [OF assms(1)] by (cases r) auto
  with run rollup_job.calm_answers [OF assms(1) _ run] show ?thesis
    by (auto simp: recompute_work_def drain_batches pending_rows_def)
qed

text \<open>
  C23: the worker's job ends whatever fails, within as many runs as there are pending rows and one. When it
  reports success every pending row is applied and nothing is left behind its offset, and when no call
  fails it does report success.
\<close>

theorem recompute_drains:
  assumes "distinct (map row_seq (events_log w))"
    and "length (rows_since (events_log w) (offset_of w TargetingRollupConsumer)) < fuel"
  shows "\<exists>r w'. recompute_work fuel [] counter w = Some (r, w')
    \<and> (is_ok r \<longrightarrow> rows_since (events_log w') (offset_of w' TargetingRollupConsumer) = []
        \<and> applied w' = applied w \<union> row_id ` set (rows_since (events_log w) (offset_of w TargetingRollupConsumer)))
    \<and> (sketches_ok w \<longrightarrow> is_ok r)"
  using assms by (rule recompute_ends)

theorem recompute_drains_witness:
  "\<exists>w'. recompute_work 3 [] (Some hour)
      (demo_consumer_world\<lparr>events_log := [demo_row 5 ''b'', demo_row 2 ''a'']\<rparr>) = Some (Inr (), w')
    \<and> applied w' = {''a'', ''b''}
    \<and> rows_since (events_log w') (offset_of w' TargetingRollupConsumer) = []"
proof -
  let ?w = "demo_consumer_world\<lparr>events_log := [demo_row 5 ''b'', demo_row 2 ''a'']\<rparr>"
  have r: "rows_since (events_log ?w) (offset_of ?w TargetingRollupConsumer) = [demo_row 2 ''a'', demo_row 5 ''b'']"
    by (simp add: rows_since_def offset_of_def demo_consumer_world_def demo_row_def)
  have "applied ?w = {}" by (simp add: demo_consumer_world_def)
  have ok: "sketches_ok ?w" "distinct (map row_seq (events_log ?w))" by (simp_all add: sketches_ok_def demo_consumer_world_def demo_row_def)
  have "length (rows_since (events_log ?w) (offset_of ?w TargetingRollupConsumer)) < 3" unfolding r by simp
  from recompute_drains [OF ok(2) this, of "Some hour"] obtain r w' where run: "recompute_work 3 [] (Some hour) ?w = Some (r, w')"
    and out: "is_ok r \<longrightarrow> rows_since (events_log w') (offset_of w' TargetingRollupConsumer) = [] \<and> applied w' = applied ?w \<union> {''a'', ''b''}"
    and "is_ok r" using ok(1) unfolding r by (auto simp: demo_row_def)
  then have "r = Inr ()" by (cases r) simp_all
  with run out \<open>applied ?w = {}\<close> show ?thesis by auto
qed

end
