(* ===== verification/Reports.thy ===== *)
theory Reports
  imports Consumer "HOL-Library.Multiset"
begin

text \<open>
  The readers of the events and the rollups: \<^verbatim>\<open>internal/event/report\<close>,
  \<^verbatim>\<open>internal/event/attribution\<close> and the query of \<^verbatim>\<open>internal/event/clockoffset\<close>. What a
  report shows is what the events say; a conversion goes to the latest exposure before it.
\<close>

section \<open>The offset of a channel's clock\<close>

text \<open>The order of rows with equal times is the database's; the median does not see it.\<close>

definition recent_events :: "event_row list \<Rightarrow> string \<Rightarrow> nat \<Rightarrow> event_row list" where
  "recent_events rows channelID sampleSize =
     take sampleSize (rev (sort_key row_device_time (filter (\<lambda>r. row_channel r = channelID) rows)))"

definition estimate_offset :: "string \<Rightarrow> nat \<Rightarrow> ('w, duration) consumer_io" where
  "estimate_offset channelID sampleSize =
     and_then (wrapping ''clockoffset: query recent events''
         (query (\<lambda>w. map (\<lambda>r. time_sub (row_device_time r) (row_server_time r))
            (recent_events (events_log w) channelID sampleSize))))
       (\<lambda>deltas. ret (median_offset deltas))"

section \<open>Reports\<close>

record variant_report =
  vr_variant :: string
  vr_impressions :: int
  vr_clicks :: int
  vr_dismissals :: int
  vr_reach :: rat

record suppression_breakdown =
  sb_message :: string
  sb_impressions :: int
  sb_by_reason :: "(string \<times> int) list"

text \<open>\<^verbatim>\<open>GROUP BY\<close> with a sum; in which order the groups come is the database's choice, \<open>arrange\<close>.\<close>

definition add_count :: "'k \<Rightarrow> int \<Rightarrow> ('k \<times> int) list \<Rightarrow> ('k \<times> int) list" where
  "add_count k n = upsert (\<lambda>v. case v of None \<Rightarrow> n | Some m \<Rightarrow> m + n) k"

definition group_sum :: "('k \<times> int) list \<Rightarrow> ('k \<times> int) list" where
  "group_sum rows = foldl (\<lambda>t (k, n). add_count k n t) [] rows"

definition suppressions :: "string \<Rightarrow> ('w, suppression_breakdown) consumer_io" where
  "suppressions messageID =
     and_then (wrapping ''report: query suppressions'' (query (\<lambda>w.
         group_sum (map (\<lambda>((m, reason, day), n). (reason, n))
           (filter (\<lambda>((m, reason, day), n). m = messageID) (suppression w))))))
       (\<lambda>byReason. and_then (wrapping ''report: query impressions'' (query (\<lambda>w.
           sum_list (map snd (filter (\<lambda>((m, v, h, kind), n). m = messageID \<and> kind = ''impression'') (campaign w))))))
         (\<lambda>impressions. ret \<lparr>sb_message = messageID, sb_impressions = impressions, sb_by_reason = byReason\<rparr>))"

text \<open>One row of the grouped counts into its variant's report.\<close>

definition set_figure :: "string \<Rightarrow> int \<Rightarrow> variant_report \<Rightarrow> variant_report" where
  "set_figure kind n v =
     (if kind = ''impression'' then v\<lparr>vr_impressions := n\<rparr>
      else if kind = ''button_press'' then v\<lparr>vr_clicks := n\<rparr>
      else if kind = ''dismissal'' then v\<lparr>vr_dismissals := n\<rparr>
      else v)"

definition blank_report :: "string \<Rightarrow> variant_report" where
  "blank_report v = \<lparr>vr_variant = v, vr_impressions = 0, vr_clicks = 0, vr_dismissals = 0, vr_reach = 0\<rparr>"

definition add_figure :: "(string \<times> variant_report) list \<Rightarrow> (string \<times> string) \<times> int \<Rightarrow> (string \<times> variant_report) list" where
  "add_figure t row =
     (case row of ((v, kind), n) \<Rightarrow>
        upsert (\<lambda>r. set_figure kind n (case r of None \<Rightarrow> blank_report v | Some old \<Rightarrow> old)) v t)"

text \<open>\<^verbatim>\<open>Estimate\<close> of a sketch; the logarithm of \<^verbatim>\<open>math\<close> is an argument. Registers are
  below 64, as every rank is, so that no shift loses its bit.\<close>

definition hll_alpha :: rat where
  "hll_alpha = fl (fl (7213 / 10000) / fl (1 + fl (fl (1079 / 1000) / fl (of_nat registerCount))))"

definition estimate_sketch :: "(rat \<Rightarrow> rat) \<Rightarrow> sketch \<Rightarrow> rat" where
  "estimate_sketch lg s =
     (let sum = foldl (\<lambda>acc r. fl (acc + fl (1 / 2 ^ unat r))) 0 (registers s);
          zeros = length (filter (\<lambda>r. r = 0) (registers s));
          m = of_nat registerCount;
          raw = fl (fl (fl (hll_alpha * m) * m) / sum)
      in if raw \<le> fl (5 / 2 * m) \<and> 0 < zeros then fl (m * lg (fl (m / of_nat zeros))) else raw)"

fun merge_days :: "sketch \<Rightarrow> 8 word list list \<Rightarrow> sketch result" where
  "merge_days acc [] = Inr acc"
| "merge_days acc (raw # raws) =
     res_bind (wrap_err ''report: unmarshal reach sketch'' (unmarshal_sketch raw)) (\<lambda>s.
       res_bind (wrap_err ''report: merge reach sketch'' (merge_sketch acc s)) (\<lambda>acc'.
         merge_days acc' raws))"

definition estimate_reach :: "(rat \<Rightarrow> rat) \<Rightarrow> string \<Rightarrow> string \<Rightarrow> ('w, rat) consumer_io" where
  "estimate_reach lg messageID variantID =
     and_then (wrapping ''report: query reach sketches'' (query (\<lambda>w.
         map snd (filter (\<lambda>((m, v, day), raw). m = messageID \<and> v = variantID) (reach_sketches w)))))
       (\<lambda>raws. and_then (of_result (merge_days new_sketch raws)) (\<lambda>merged.
          ret (if raws = [] then 0 else estimate_sketch lg merged)))"

definition campaign_groups :: "string \<Rightarrow> ((string \<times> string \<times> int \<times> string) \<times> int) list \<Rightarrow> ((string \<times> string) \<times> int) list" where
  "campaign_groups messageID rows =
     group_sum (map (\<lambda>((m, v, h, kind), n). ((v, kind), n)) (filter (\<lambda>((m, v, h, kind), n). m = messageID) rows))"

definition variant_reports ::
  "(rat \<Rightarrow> rat) \<Rightarrow> (((string \<times> string) \<times> int) list \<Rightarrow> ((string \<times> string) \<times> int) list) \<Rightarrow> string
    \<Rightarrow> ('w, variant_report list) consumer_io" where
  "variant_reports lg arrange messageID =
     and_then (wrapping ''report: query campaign rollup'' (query (\<lambda>w. arrange (campaign_groups messageID (campaign w)))))
       (\<lambda>rows. map_io (\<lambda>(v, r). and_then (estimate_reach lg messageID v) (\<lambda>reach. ret (r\<lparr>vr_reach := reach\<rparr>)))
          (foldl add_figure [] rows))"

section \<open>Attribution\<close>

definition HoldoutVariantID :: string where "HoldoutVariantID = ''__holdout__''"

record exposure =
  x_channel :: string
  x_variant :: string
  x_at :: time

record conversion =
  c_id :: string
  c_channel :: string
  c_at :: time

text \<open>A conversion's row: the message, the channel and the event's id, and the variant.\<close>

record report_world = consumer_world +
  attributions :: "((string \<times> string \<times> string) \<times> string) list"

type_synonym ('w, 'a) report_io = "'w report_world_scheme \<Rightarrow> 'a result \<times> 'w report_world_scheme"

definition exposure_of_row :: "event_row \<Rightarrow> exposure" where
  "exposure_of_row r =
     \<lparr>x_channel = row_channel r,
      x_variant = (if row_kind r = ''holdout_qualified'' then HoldoutVariantID
                   else case row_variant r of None \<Rightarrow> [] | Some v \<Rightarrow> v),
      x_at = row_device_time r\<rparr>"

definition exposures_in :: "event_row list \<Rightarrow> string \<Rightarrow> exposure list" where
  "exposures_in rows messageID =
     map exposure_of_row (sort_key row_channel (sort_key row_device_time
       (filter (\<lambda>r. row_message r = Some messageID \<and> row_kind r \<in> {''impression'', ''holdout_qualified''}) rows)))"

definition conversion_of_row :: "event_row \<Rightarrow> conversion" where
  "conversion_of_row r = \<lparr>c_id = row_id r, c_channel = row_channel r, c_at = row_device_time r\<rparr>"

definition conversions_in :: "event_row list \<Rightarrow> string \<Rightarrow> conversion list" where
  "conversions_in rows name =
     map conversion_of_row (sort_key row_channel (sort_key row_device_time
       (filter (\<lambda>r. row_kind r = ''custom'' \<and> row_name r = name) rows)))"

definition fetch_exposures :: "string \<Rightarrow> ('w, exposure list) report_io" where
  "fetch_exposures messageID = wrapping ''attribution: query exposures'' (query (\<lambda>w. exposures_in (events_log w) messageID))"

definition fetch_conversions :: "string \<Rightarrow> ('w, conversion list) report_io" where
  "fetch_conversions name = wrapping ''attribution: query conversions'' (query (\<lambda>w. conversions_in (events_log w) name))"

definition by_channel :: "exposure list \<Rightarrow> string \<Rightarrow> exposure list" where
  "by_channel exposures c = filter (\<lambda>x. x_channel x = c) exposures"

text \<open>The loop of \<^verbatim>\<open>mostRecentExposureWithin\<close>, from the best exposure found so far.\<close>

fun scan_exposures :: "time \<Rightarrow> duration \<Rightarrow> exposure option \<Rightarrow> exposure list \<Rightarrow> exposure option" where
  "scan_exposures t window best [] = best"
| "scan_exposures t window best (x # xs) =
     scan_exposures t window
       (if t < x_at x then best
        else if time_sub t (x_at x) > window then best
        else case best of None \<Rightarrow> Some x | Some b \<Rightarrow> if x_at b < x_at x then Some x else best) xs"

definition most_recent_exposure_within :: "exposure list \<Rightarrow> time \<Rightarrow> duration \<Rightarrow> exposure option" where
  "most_recent_exposure_within exposures t window = scan_exposures t window None exposures"

definition record_attribution :: "string \<Rightarrow> conversion \<Rightarrow> string \<Rightarrow> ('w, unit) report_io" where
  "record_attribution messageID c v = wrapping ''attribution: record attribution''
     (exec (\<lambda>w. w\<lparr>attributions :=
        upsert (\<lambda>old. case old of None \<Rightarrow> v | Some u \<Rightarrow> u) (messageID, c_channel c, c_id c) (attributions w)\<rparr>))"

definition attribute_conversion :: "string \<Rightarrow> duration \<Rightarrow> exposure list \<Rightarrow> conversion \<Rightarrow> ('w, unit) report_io" where
  "attribute_conversion messageID window exposures c =
     (case most_recent_exposure_within (by_channel exposures (c_channel c)) (c_at c) window of
        None \<Rightarrow> ret () | Some best \<Rightarrow> record_attribution messageID c (x_variant best))"

definition run_attribution :: "string \<Rightarrow> string \<Rightarrow> duration \<Rightarrow> ('w, unit) report_io" where
  "run_attribution messageID name window =
     and_then (fetch_exposures messageID) (\<lambda>exposures.
       and_then (fetch_conversions name) (\<lambda>conversions.
         in_tx ''attribution: begin'' ''attribution: commit''
           (for_each (attribute_conversion messageID window exposures) conversions)))"

definition attribution_counts :: "string \<Rightarrow> ('w, (string \<times> int) list) report_io" where
  "attribution_counts messageID = wrapping ''attribution: query counts'' (query (\<lambda>w.
     group_sum (map (\<lambda>((m, c, i), v). (v, 1)) (filter (\<lambda>((m, c, i), v). m = messageID) (attributions w)))))"

section \<open>The rule of attribution\<close>

definition qualifies :: "time \<Rightarrow> duration \<Rightarrow> exposure \<Rightarrow> bool" where
  "qualifies t window x = (x_at x \<le> t \<and> time_sub t (x_at x) \<le> window)"

text \<open>An optional exposure is the best of a set.\<close>

definition best_of :: "time \<Rightarrow> duration \<Rightarrow> exposure option \<Rightarrow> exposure set \<Rightarrow> bool" where
  "best_of t window r xs =
     (set_option r \<subseteq> {x \<in> xs. qualifies t window x}
      \<and> (\<forall>x \<in> xs. qualifies t window x \<longrightarrow> (\<exists>b. r = Some b \<and> x_at x \<le> x_at b)))"

lemma best_of_step:
  assumes "best_of t window best ys"
  shows "best_of t window
    (if t < x_at x then best
     else if time_sub t (x_at x) > window then best
     else case best of None \<Rightarrow> Some x | Some b \<Rightarrow> if x_at b < x_at x then Some x else best) (insert x ys)"
proof (cases "qualifies t window x")
  case False
  then have "t < x_at x \<or> time_sub t (x_at x) > window" by (auto simp: qualifies_def)
  with assms False show ?thesis by (auto simp: best_of_def)
next
  case True
  then have q: "\<not> t < x_at x" "\<not> time_sub t (x_at x) > window" by (auto simp: qualifies_def)
  show ?thesis
  proof (cases best)
    case None
    with assms True show ?thesis unfolding if_not_P [OF q(1)] if_not_P [OF q(2)] by (auto simp: best_of_def)
  next
    case (Some b)
    with assms have b: "b \<in> ys" "qualifies t window b"
      "\<And>y. y \<in> ys \<Longrightarrow> qualifies t window y \<Longrightarrow> x_at y \<le> x_at b"
      by (auto simp: best_of_def)
    show ?thesis
      unfolding if_not_P [OF q(1)] if_not_P [OF q(2)] Some option.case
      using b True by (cases "x_at b < x_at x") (auto simp: best_of_def dest: b(3))
  qed
qed

lemma scan_exposures_spec:
  "best_of t window best ys \<Longrightarrow> best_of t window (scan_exposures t window best xs) (set xs \<union> ys)"
proof (induction xs arbitrary: best ys)
  case (Cons x xs)
  from Cons.IH [OF best_of_step [OF Cons.prems, of x]] show ?case by simp
qed simp

text \<open>
  A conversion goes to a qualifying exposure with the latest time, the holdout's included,
  when there is one, and to none when there is none.
\<close>

theorem latest_exposure_wins:
  "case most_recent_exposure_within xs t window of
     None \<Rightarrow> \<forall>x \<in> set xs. \<not> (x_at x \<le> t \<and> time_sub t (x_at x) \<le> window)
   | Some b \<Rightarrow> b \<in> set xs \<and> x_at b \<le> t \<and> time_sub t (x_at b) \<le> window
       \<and> (\<forall>x \<in> set xs. x_at x \<le> t \<and> time_sub t (x_at x) \<le> window \<longrightarrow> x_at x \<le> x_at b)"
proof -
  have "best_of t window (most_recent_exposure_within xs t window) (set xs)"
    using scan_exposures_spec [of t window None "{}" xs]
    by (simp add: most_recent_exposure_within_def best_of_def)
  then show ?thesis
    by (cases "most_recent_exposure_within xs t window") (auto simp: best_of_def qualifies_def)
qed

section \<open>Attributions are recorded once\<close>

text \<open>What an attribution may be: one there was, or the rule's for a conversion on the log.\<close>

definition attributed :: "event_row list \<Rightarrow> string \<Rightarrow> string \<Rightarrow> duration \<Rightarrow> string \<times> string \<times> string \<Rightarrow> string \<Rightarrow> bool" where
  "attributed rows messageID name window k v =
     (\<exists>c \<in> set (conversions_in rows name). \<exists>x. k = (messageID, c_channel c, c_id c) \<and> v = x_variant x
        \<and> most_recent_exposure_within (by_channel (exposures_in rows messageID) (c_channel c)) (c_at c) window = Some x)"

definition attributions_from :: "((string \<times> string \<times> string) \<times> string) list \<Rightarrow> event_row list \<Rightarrow> string \<Rightarrow> string
    \<Rightarrow> duration \<Rightarrow> 'w report_world_scheme \<Rightarrow> bool" where
  "attributions_from old rows messageID name window w =
     (events_log w = rows
      \<and> (\<forall>k v. map_of old k = Some v \<longrightarrow> map_of (attributions w) k = Some v)
      \<and> (\<forall>k v. map_of (attributions w) k = Some v \<longrightarrow>
           map_of old k = Some v \<or> attributed rows messageID name window k v))"

lemma attributions_from_blind: "fault_blind (attributions_from old rows m n window)"
  by (simp add: fault_blind_def attributions_from_def)

lemma keeps_attribute:
  assumes "c \<in> set (conversions_in rows name)"
  shows "keeps (attributions_from old rows m name window) (attribute_conversion m window (exposures_in rows m) c)"
proof (cases "most_recent_exposure_within (by_channel (exposures_in rows m) (c_channel c)) (c_at c) window")
  case (Some b)
  have new: "attributed rows m name window (m, c_channel c, c_id c) (x_variant b)"
    unfolding attributed_def using assms Some by blast
  have "attributions_from old rows m name window
      (w\<lparr>attributions := upsert (\<lambda>old. case old of None \<Rightarrow> x_variant b | Some u \<Rightarrow> u) (m, c_channel c, c_id c) (attributions w)\<rparr>)"
    if w: "attributions_from old rows m name window w" for w
    using w new unfolding attributions_from_def
    by (auto simp del: split_paired_All split: option.splits)
  then have "keeps (attributions_from old rows m name window) (record_attribution m c (x_variant b))"
    unfolding record_attribution_def by (intro inv_intros attributions_from_blind)
  with Some show ?thesis by (simp add: attribute_conversion_def)
qed (simp add: attribute_conversion_def keeps_ret)

lemma keeps_for_each_set: "(\<And>x. x \<in> set xs \<Longrightarrow> keeps I (f x)) \<Longrightarrow> keeps I (for_each f xs)"
  by (induction xs) (auto intro: inv_intros)

lemma run_attribution_from:
  assumes "attributions_from old rows m name window w"
  shows "attributions_from old rows m name window (snd (run_attribution m name window w))"
proof -
  let ?I = "attributions_from old rows m name window"
  have rows: "events_log v = rows" if "?I v" for v using that by (simp add: attributions_from_def)
  have read: "?I v' \<and> (r = Inr x \<longrightarrow> x = f v')" if "?I v" "wrapping msg (query f) v = (r, v')"
    for msg f r v v' and x :: 'b
  proof -
    have "keeps ?I (wrapping msg (query f))" by (intro inv_intros attributions_from_blind)
    from keeps_result [OF this that] show ?thesis using that(2) query_ok [of f v x v'] by auto
  qed
  obtain r1 w1 where 1: "fetch_exposures m w = (r1, w1)" by force
  note e = read [OF assms 1 [unfolded fetch_exposures_def]]
  show ?thesis
  proof (cases r1)
    case (Inl err)
    with 1 e show ?thesis by (simp add: run_attribution_def and_then_def)
  next
    case (Inr xs)
    with e rows have xs: "xs = exposures_in rows m" by blast
    obtain r2 w2 where 2: "fetch_conversions name w1 = (r2, w2)" by force
    note c = read [OF conjunct1 [OF e] 2 [unfolded fetch_conversions_def]]
    show ?thesis
    proof (cases r2)
      case (Inl err)
      with 1 2 Inr c show ?thesis by (simp add: run_attribution_def and_then_def)
    next
      case r2: (Inr cs)
      with c rows have cs: "cs = conversions_in rows name" by blast
      have "keeps ?I (in_tx ''attribution: begin'' ''attribution: commit'' (for_each (attribute_conversion m window xs) cs))"
        unfolding xs cs by (intro keeps_in_tx attributions_from_blind keeps_for_each_set keeps_attribute)
      from keepsD [OF this conjunct1 [OF c]] 1 2 Inr r2 show ?thesis by (simp add: run_attribution_def and_then_def)
    qed
  qed
qed

text \<open>
  C26: whatever fails, and however often it runs, attribution never changes or removes one it
  has recorded, and it records only what the rule says of a conversion on the log: at most one
  variant for a message and a conversion.
\<close>

theorem attribution_sticks:
  "(map_of (attributions w) k = Some v \<longrightarrow>
      map_of (attributions (snd (run_attribution m name window w))) k = Some v)
   \<and> (map_of (attributions (snd (run_attribution m name window w))) k = Some v \<longrightarrow>
      map_of (attributions w) k = Some v \<or> attributed (events_log w) m name window k v)"
proof -
  have "attributions_from (attributions w) (events_log w) m name window w" by (simp add: attributions_from_def)
  from run_attribution_from [OF this] show ?thesis unfolding attributions_from_def by blast
qed

definition demo_exposures :: "exposure list" where
  "demo_exposures = [\<lparr>x_channel = ''c'', x_variant = ''a'', x_at = 10\<rparr>, \<lparr>x_channel = ''c'', x_variant = ''b'', x_at = 20\<rparr>,
     \<lparr>x_channel = ''c'', x_variant = ''late'', x_at = 40\<rparr>]"

theorem latest_exposure_wins_witness:
  "most_recent_exposure_within demo_exposures 30 15 = Some \<lparr>x_channel = ''c'', x_variant = ''b'', x_at = 20\<rparr>"
  using latest_exposure_wins [of demo_exposures 30 15]
  by (auto simp: demo_exposures_def time_sub_def min_int64_def max_int64_def split: option.splits)

definition demo_report_world :: report_world where
  "demo_report_world = \<lparr>faults = [Done, Unacked], rl_counts = (\<lambda>_. 0), rl_expiring = (\<lambda>_. False),
     events_log = [demo_row 1 ''a''], next_seq = 2, topic = [], budgets = Map.empty, offsets = Map.empty, applied = {},
     targeting = [], campaign = [], suppression = [], reach_sketches = [], topic_position = 0, topic_committed = 0,
     attributions = [((''m'', ''c'', ''old''), ''v'')]\<rparr>"

theorem attribution_sticks_witness:
  "map_of (attributions (snd (run_attribution ''m'' ''launch'' hour demo_report_world))) (''m'', ''c'', ''old'') = Some ''v''"
  by (rule attribution_sticks [THEN conjunct1, THEN mp]) (simp add: demo_report_world_def)

section \<open>One bad clock reading does not move the offset\<close>

lemma sorted_nth_ge:
  fixes ds :: "int list"
  assumes "sorted ds" "length (filter (\<lambda>d. d < lo) ds) \<le> i" "i < length ds"
  shows "lo \<le> ds ! i"
proof (rule ccontr)
  assume "\<not> lo \<le> ds ! i"
  then have "ds ! j < lo" if "j \<le> i" for j
    using sorted_nth_mono [OF assms(1) that assms(3)] by simp
  then have "{..i} \<subseteq> {j. j < length ds \<and> ds ! j < lo}" using assms(3) by auto
  then have "card {..i} \<le> card {j. j < length ds \<and> ds ! j < lo}" by (intro card_mono) auto
  with assms(2) show False by (simp add: length_filter_conv_card)
qed

lemma sorted_nth_le:
  fixes ds :: "int list"
  assumes "sorted ds" "length (filter (\<lambda>d. hi < d) ds) < length ds - i" "i < length ds"
  shows "ds ! i \<le> hi"
proof (rule ccontr)
  assume "\<not> ds ! i \<le> hi"
  then have "hi < ds ! j" if "i \<le> j" "j < length ds" for j
    using sorted_nth_mono [OF assms(1) that] by simp
  then have "{i..<length ds} \<subseteq> {j. j < length ds \<and> hi < ds ! j}" by auto
  then have "card {i..<length ds} \<le> card {j. j < length ds \<and> hi < ds ! j}" by (intro card_mono) auto
  with assms(2) show False by (simp add: length_filter_conv_card)
qed

lemma filter_split_length:
  "length (filter (\<lambda>d. d < lo) ds) + length (filter (\<lambda>d. hi < d) ds) + length (filter (\<lambda>d. lo \<le> d \<and> d \<le> hi) ds)
     = length ds" if "(lo :: int) \<le> hi"
  using that by (induction ds) auto

lemma sdiv_two_between:
  fixes x y :: int
  assumes "lo \<le> x" "x \<le> hi" "lo \<le> y" "y \<le> hi"
  shows "lo \<le> (x + y) sdiv 2 \<and> (x + y) sdiv 2 \<le> hi"
proof -
  have d: "(x + y) sdiv 2 = (if 0 \<le> x + y then (x + y) div 2 else - (- (x + y) div 2))"
    by (auto simp: signed_divide_int_def sgn_if)
  show ?thesis unfolding d using assms by (auto split: if_splits)
qed

lemma median_between:
  assumes "length ds < 2 * length (filter (\<lambda>d. lo \<le> d \<and> d \<le> hi) ds)"
    and "- 4611686018427387904 \<le> lo" "hi < 4611686018427387904"
  shows "lo \<le> median_offset ds \<and> median_offset ds \<le> hi"
proof -
  define xs where "xs = sort ds"
  have len: "length xs = length ds" by (simp add: xs_def)
  have srt: "sorted xs" by (simp add: xs_def)
  have fl: "length (filter P xs) = length (filter P ds)" for P
    by (simp add: xs_def filter_sort)
  have ne: "ds \<noteq> []" using assms(1) by auto
  have "filter (\<lambda>d. lo \<le> d \<and> d \<le> hi) ds \<noteq> []" using assms(1) by (cases "filter (\<lambda>d. lo \<le> d \<and> d \<le> hi) ds") auto
  then have lohi: "lo \<le> hi" by (auto simp: filter_empty_conv)
  define a b where "a = length (filter (\<lambda>d. d < lo) xs)" and "b = length (filter (\<lambda>d. hi < d) xs)"
  have few: "2 * (a + b) < length xs"
    using filter_split_length [OF lohi, of ds] assms(1) len by (simp add: a_def b_def fl)
  have at: "lo \<le> xs ! i \<and> xs ! i \<le> hi" if "a \<le> i" "b + i < length xs" for i
    using sorted_nth_ge [OF srt, of lo i] sorted_nth_le [OF srt, of hi i] that by (auto simp: a_def b_def)
  define mid where "mid = length xs div 2"
  have pos: "0 < length xs" using ne len by simp
  have m: "lo \<le> xs ! mid \<and> xs ! mid \<le> hi" using few pos by (intro at) (simp_all add: mid_def)
  have med: "median_offset ds = (if length xs mod 2 = 1 then xs ! mid else wrap64 (xs ! (mid - 1) + xs ! mid) sdiv 2)"
    using ne by (simp add: median_offset_def xs_def mid_def Let_def)
  show ?thesis
  proof (cases "length xs mod 2 = 1")
    case True
    with m med show ?thesis by simp
  next
    case False
    then have "2 * mid = length xs" using mult_div_mod_eq [of 2 "length xs"] by (simp add: mid_def)
    with few pos have m1: "lo \<le> xs ! (mid - 1) \<and> xs ! (mid - 1) \<le> hi" by (intro at) simp_all
    have "wrap64 (xs ! (mid - 1) + xs ! mid) = xs ! (mid - 1) + xs ! mid"
      using m m1 assms(2,3) by (intro wrap64_id) (simp_all add: min_int64_def max_int64_def)
    with sdiv_two_between [of lo "xs ! (mid - 1)" hi "xs ! mid"] m m1 med False show ?thesis by simp
  qed
qed

definition recent_deltas :: "event_row list \<Rightarrow> string \<Rightarrow> nat \<Rightarrow> duration list" where
  "recent_deltas rows c n = map (\<lambda>r. time_sub (row_device_time r) (row_server_time r)) (recent_events rows c n)"

text \<open>
  The estimate of a channel's clock is robust: when more than half of the sampled events
  put the offset between two bounds, so does the estimate, whatever the others say.
\<close>

theorem offset_robust:
  assumes "estimate_offset c n w = (Inr d, w')"
    and "length (recent_deltas (events_log w) c n)
      < 2 * length (filter (\<lambda>d. lo \<le> d \<and> d \<le> hi) (recent_deltas (events_log w) c n))"
    and "- 4611686018427387904 \<le> lo" "hi < 4611686018427387904"
  shows "lo \<le> d \<and> d \<le> hi"
proof -
  have "d = median_offset (recent_deltas (events_log w) c n)"
    using assms(1) by (auto simp: estimate_offset_def and_then_ok recent_deltas_def dest!: query_ok)
  with median_between [OF assms(2-4)] show ?thesis by simp
qed

definition clock_rows :: "event_row list" where
  "clock_rows = [demo_row 1 ''a'', demo_row 2 ''b'', (demo_row 3 ''x'')\<lparr>row_device_time := 900000 * second\<rparr>]"

theorem offset_robust_witness:
  "fst (estimate_offset ''c'' 50 (demo_report_world\<lparr>faults := [], events_log := clock_rows\<rparr>)) = Inr (- second)"
proof -
  let ?w = "demo_report_world\<lparr>faults := [], events_log := clock_rows\<rparr>"
  obtain d w' where run: "estimate_offset ''c'' 50 ?w = (Inr d, w')"
    by (auto simp: estimate_offset_def and_then_def wrapping_def query_def remote_def demo_report_world_def)
  have ds: "recent_deltas (events_log ?w) ''c'' 50 = [899939 * second, - second, - second]"
    by (simp add: recent_deltas_def recent_events_def clock_rows_def demo_row_def time_sub_def second_def
        min_int64_def max_int64_def)
  have "- second \<le> d \<and> d \<le> - second"
    by (rule offset_robust [OF run]) (simp_all only: ds, simp_all add: second_def)
  with run show ?thesis by simp
qed

section \<open>What a report shows\<close>

lemma sum_counts:
  assumes "finite A" "distinct (map fst t)" "\<And>k. count_of t k = int (card {i \<in> A. P i \<and> key i = k})"
  shows "sum_list (map snd (filter (\<lambda>p. Q (fst p)) t)) = int (card {i \<in> A. P i \<and> Q (key i)})"
proof -
  let ?xs = "filter (\<lambda>p. Q (fst p)) t"
  have dist: "distinct ?xs" "inj_on fst (set ?xs)"
    using assms(2) by (auto simp: distinct_map intro: inj_on_subset)
  have row: "count_of t (fst p) = snd p" if "p \<in> set t" for p
    using map_of_is_SomeI [OF assms(2), of "fst p" "snd p"] that by (simp add: count_of_def)
  have "sum_list (map snd ?xs) = sum snd (set ?xs)" using dist(1) by (rule sum_list_distinct_conv_sum_set)
  also have "\<dots> = sum (count_of t \<circ> fst) (set ?xs)" using row by (intro sum.cong) auto
  also have "\<dots> = sum (count_of t) (fst ` set ?xs)" using dist(2) by (simp add: sum.reindex)
  also have "\<dots> = (\<Sum>k \<in> fst ` set ?xs. int (card {i \<in> A. P i \<and> key i = k}))" by (simp add: assms(3))
  also have "\<dots> = int (card (\<Union>k \<in> fst ` set ?xs. {i \<in> A. P i \<and> key i = k}))"
    using assms(1) by (subst card_UN_disjoint) auto
  also have "(\<Union>k \<in> fst ` set ?xs. {i \<in> A. P i \<and> key i = k}) = {i \<in> A. P i \<and> Q (key i)}"
  proof -
    have "key i \<in> fst ` set t" if "i \<in> A" "P i" for i
    proof (rule ccontr)
      assume "key i \<notin> fst ` set t"
      then have "map_of t (key i) = None" by (simp add: map_of_eq_None_iff)
      then have "card {j \<in> A. P j \<and> key j = key i} = 0" using assms(3) [of "key i"] by (simp add: count_of_def)
      with assms(1) that show False by auto
    qed
    then show ?thesis by force
  qed
  finally show ?thesis .
qed

lemma count_of_add_count: "count_of (add_count k n t) = (count_of t)(k := count_of t k + n)"
  by (auto simp: fun_eq_iff count_of_def add_count_def split: option.splits)

lemma group_sum_snoc: "group_sum (rows @ [(k, n)]) = add_count k n (group_sum rows)"
  by (simp add: group_sum_def)

lemma count_of_group_sum: "count_of (group_sum rows) k = sum_list (map snd (filter (\<lambda>p. fst p = k) rows))"
proof (induction rows rule: rev_induct)
  case (snoc p rows)
  then show ?case by (cases p) (auto simp: group_sum_snoc count_of_add_count)
qed (simp add: group_sum_def)

lemma keys_group_sum: "fst ` set (group_sum rows) = fst ` set rows \<and> distinct (map fst (group_sum rows))"
proof (induction rows rule: rev_induct)
  case (snoc p rows)
  then show ?case by (cases p) (simp add: group_sum_snoc add_count_def keys_upsert distinct_upsert)
qed (simp add: group_sum_def)

text \<open>Sums over groups of a counter table, the group of a row being a part of its key.\<close>

lemma count_of_groups:
  assumes "finite A" "distinct (map fst t)" "\<And>k. count_of t k = int (card {i \<in> A. P i \<and> key i = k})"
  shows "count_of (group_sum (map (\<lambda>(k, n). (g k, n)) (filter (\<lambda>(k, n). R k) t))) j
    = int (card {i \<in> A. P i \<and> R (key i) \<and> g (key i) = j})"
proof -
  have "filter (\<lambda>p. fst p = j) (map (\<lambda>(k, n). (g k, n)) (filter (\<lambda>(k, n). R k) t))
      = map (\<lambda>(k, n). (g k, n)) (filter (\<lambda>p. R (fst p) \<and> g (fst p) = j) t)"
    by (induction t) auto
  then have "count_of (group_sum (map (\<lambda>(k, n). (g k, n)) (filter (\<lambda>(k, n). R k) t))) j
      = sum_list (map snd (filter (\<lambda>p. R (fst p) \<and> g (fst p) = j) t))"
    by (simp add: count_of_group_sum split_beta comp_def)
  then show ?thesis using sum_counts [OF assms, of "\<lambda>k. R k \<and> g k = j"] by simp
qed

text \<open>The applied events a campaign's figure stands for.\<close>

definition counted :: "(string \<Rightarrow> stored_event) \<Rightarrow> string set \<Rightarrow> string \<Rightarrow> string \<Rightarrow> string \<Rightarrow> string set" where
  "counted src A m v kind =
     {i \<in> A. counts_campaign (src i) \<and> se_message (src i) = m \<and> se_variant (src i) = v \<and> kind_string (se_kind (src i)) = kind}"

lemma count_of_campaign_groups:
  assumes "exact src w"
  shows "count_of (campaign_groups m (campaign w)) (v, kind) = int (card (counted src (applied w) m v kind))"
proof -
  have "campaign_groups m (campaign w)
      = group_sum (map (\<lambda>(k, n). ((\<lambda>(m, v, h, kind). (v, kind)) k, n))
          (filter (\<lambda>(k, n). (\<lambda>(m', v, h, kind). m' = m) k) (campaign w)))"
    by (simp add: campaign_groups_def split_beta case_prod_unfold)
  moreover have "finite (applied w)" "distinct (map fst (campaign w))"
    "count_of (campaign w) k = int (card {i \<in> applied w. counts_campaign (src i) \<and> campaign_key (src i) = k})" for k
    using assms by (simp_all add: exact_def keyed_def del: split_paired_All)
  ultimately show ?thesis
    using count_of_groups [of "applied w" "campaign w" "\<lambda>i. counts_campaign (src i)" "\<lambda>i. campaign_key (src i)"
        "\<lambda>(m, v, h, kind). (v, kind)" "\<lambda>(m', v, h, kind). m' = m" "(v, kind)"]
    by (simp add: counted_def campaign_key_def)
qed

text \<open>The figures of a variant, row by row.\<close>

definition figure :: "string \<Rightarrow> variant_report \<Rightarrow> int" where
  "figure kind r =
     (if kind = ''impression'' then vr_impressions r else if kind = ''button_press'' then vr_clicks r else vr_dismissals r)"

definition figure_kinds :: "string set" where
  "figure_kinds = {''impression'', ''button_press'', ''dismissal''}"

definition figures_match :: "((string \<times> string) \<times> int) list \<Rightarrow> (string \<times> variant_report) list \<Rightarrow> bool" where
  "figures_match rows t =
     (distinct (map fst t) \<and> fst ` set t = (fst \<circ> fst) ` set rows
      \<and> (\<forall>(v, r) \<in> set t. vr_variant r = v \<and> (\<forall>kind \<in> figure_kinds. figure kind r = count_of rows (v, kind))))"

lemma count_of_snoc:
  "k \<notin> fst ` set rows \<Longrightarrow> count_of (rows @ [(k, n)]) j = (if j = k then n else count_of rows j)"
  by (auto simp: count_of_def map_add_def map_of_eq_None_iff [symmetric] split: option.splits)

lemma figure_set_figure:
  "kind' \<in> figure_kinds \<Longrightarrow> figure kind' (set_figure kind n r) = (if kind' = kind then n else figure kind' r)"
  by (auto simp: figure_kinds_def figure_def set_figure_def)

lemma set_upsert:
  "distinct (map fst t) \<Longrightarrow> set (upsert f k t) = {p \<in> set t. fst p \<noteq> k} \<union> {(k, f (map_of t k))}"
proof (induction t)
  case (Cons p t)
  obtain a b where p: "p = (a, b)" by force
  have "k = a \<Longrightarrow> {q \<in> set t. fst q \<noteq> k} = set t" using Cons.prems p by force
  with Cons p show ?case by auto
qed simp

lemma figures_match_step:
  assumes "figures_match rows t" "(v, kind) \<notin> fst ` set rows"
  shows "figures_match (rows @ [((v, kind), n)]) (add_figure t ((v, kind), n))"
proof -
  let ?f = "\<lambda>r. set_figure kind n (case r of None \<Rightarrow> blank_report v | Some old \<Rightarrow> old)"
  from assms(1) have dist: "distinct (map fst t)" and keys: "fst ` set t = (fst \<circ> fst) ` set rows"
    and old: "\<And>u r k. (u, r) \<in> set t \<Longrightarrow> vr_variant r = u \<and> (k \<in> figure_kinds \<longrightarrow> figure k r = count_of rows (u, k))"
    by (auto simp: figures_match_def)
  note cnt = count_of_snoc [OF assms(2), of n]
  have new: "vr_variant (?f (map_of t v)) = v
      \<and> (k \<in> figure_kinds \<longrightarrow> figure k (?f (map_of t v)) = count_of (rows @ [((v, kind), n)]) (v, k))" for k
  proof (cases "map_of t v")
    case None
    then have "(v, k) \<notin> fst ` set rows" using keys by (force simp: map_of_eq_None_iff)
    then have "count_of rows (v, k) = 0" by (simp add: count_of_def map_of_eq_None_iff [THEN iffD2])
    with None show ?thesis
      by (simp add: figure_set_figure cnt) (simp add: set_figure_def figure_def blank_report_def)
  next
    case (Some r)
    from old [OF map_of_SomeD [OF Some], of k] Some show ?thesis
      by (simp add: figure_set_figure cnt) (simp add: set_figure_def)
  qed
  have "distinct (map fst (upsert ?f v t))" by (rule distinct_upsert [OF dist])
  moreover have "fst ` set (upsert ?f v t) = (fst \<circ> fst) ` set (rows @ [((v, kind), n)])"
    using keys by (simp add: keys_upsert)
  moreover have "vr_variant r = u \<and> (k \<in> figure_kinds \<longrightarrow> figure k r = count_of (rows @ [((v, kind), n)]) (u, k))"
    if "(u, r) \<in> set (upsert ?f v t)" for u r k
    using that new old [of u r k] unfolding set_upsert [OF dist] cnt by auto
  ultimately show ?thesis by (auto simp: figures_match_def add_figure_def)
qed

lemma figures_match_fold: "distinct (map fst rows) \<Longrightarrow> figures_match rows (foldl add_figure [] rows)"
proof (induction rows rule: rev_induct)
  case (snoc p rows)
  obtain v kind n where "p = ((v, kind), n)" by (metis surj_pair)
  with snoc figures_match_step [of rows "foldl add_figure [] rows" v kind n] show ?case by auto
qed (simp add: figures_match_def)

text \<open>Reach, over all the days of a variant.\<close>

lemma merge_days_foldl:
  "merge_days (foldl add_identity new_sketch xs) (map (\<lambda>cs. marshal_sketch (foldl add_identity new_sketch cs)) css)
     = Inr (foldl add_identity new_sketch (xs @ concat css))"
proof (induction css arbitrary: xs)
  case (Cons cs css)
  have "unmarshal_sketch (marshal_sketch (foldl add_identity new_sketch cs)) = Inr (foldl add_identity new_sketch cs)"
    using reach.wf_foldl [OF wf_new_sketch, of cs] by (simp add: unmarshal_sketch_def marshal_sketch_def wf_sketch_def)
  with Cons.IH [of "xs @ cs"] show ?case by (simp add: reach.merge_slices)
qed simp

definition audience_of :: "(string \<Rightarrow> stored_event) \<Rightarrow> string set \<Rightarrow> string \<Rightarrow> string \<Rightarrow> string set" where
  "audience_of src A m v =
     (\<lambda>i. se_channel (src i)) ` {i \<in> A. counts_reach (src i) \<and> se_message (src i) = m \<and> se_variant (src i) = v}"

text \<open>Each sketch of an exact world is that of a list of channels, and each key that has channels has a sketch.\<close>

lemma exact_sketches:
  assumes "exact src w"
  obtains D where "\<And>k. set (D k) = reached src (applied w) k"
    "\<And>k raw. (k, raw) \<in> set (reach_sketches w) \<Longrightarrow> raw = marshal_sketch (foldl add_identity new_sketch (D k)) \<and> D k \<noteq> []"
    "\<And>k. reached src (applied w) k \<noteq> {} \<Longrightarrow> k \<in> fst ` set (reach_sketches w)"
proof -
  have dist: "distinct (map fst (reach_sketches w))" and ex: "exact_reach src w" and fin: "finite (applied w)"
    using assms by (simp_all add: exact_def keyed_def)
  define D where "D = (\<lambda>k. sorted_list_of_set (reached src (applied w) k))"
  have D: "set (D k) = reached src (applied w) k" for k using fin by (simp add: D_def reached_def)
  then have look: "map_of (reach_sketches w) k
      = (if D k = [] then None else Some (marshal_sketch (foldl add_identity new_sketch (D k))))" for k
    using ex unfolding exact_reach_def by blast
  have "raw = marshal_sketch (foldl add_identity new_sketch (D k)) \<and> D k \<noteq> []" if "(k, raw) \<in> set (reach_sketches w)" for k raw
    using map_of_is_SomeI [OF dist that] look [of k] by (auto split: if_splits)
  moreover have "k \<in> fst ` set (reach_sketches w)" if "reached src (applied w) k \<noteq> {}" for k
  proof -
    from that D [of k] have "D k \<noteq> []" by auto
    with look [of k] have "map_of (reach_sketches w) k \<noteq> None" by simp
    then show ?thesis by (simp add: map_of_eq_None_iff)
  qed
  ultimately show thesis using that D by blast
qed

lemma audience_of_keys:
  assumes "\<And>k. reached src A k \<noteq> {} \<Longrightarrow> k \<in> fst ` set t"
  shows "(\<Union>p \<in> set (filter (\<lambda>((m', v', day), raw). m' = m \<and> v' = v) t). reached src A (fst p)) = audience_of src A m v"
proof (intro equalityI subsetI)
  fix c assume "c \<in> audience_of src A m v"
  then obtain i where i: "i \<in> A" "counts_reach (src i)" "se_message (src i) = m" "se_variant (src i) = v"
    "c = se_channel (src i)" by (auto simp: audience_of_def)
  then have c: "c \<in> reached src A (sketch_key (src i))" by (auto simp: reached_def)
  then obtain raw where "(sketch_key (src i), raw) \<in> set t" using assms by fastforce
  then have "(sketch_key (src i), raw) \<in> set (filter (\<lambda>((m', v', day), raw). m' = m \<and> v' = v) t)" using i by (simp add: sketch_key_def)
  with c show "c \<in> (\<Union>p \<in> set (filter (\<lambda>((m', v', day), raw). m' = m \<and> v' = v) t). reached src A (fst p))" by force
qed (auto simp: reached_def audience_of_def sketch_key_def)

lemma estimate_reach_calm:
  assumes "exact src w" "faults w = []" "set cs = audience_of src (applied w) m v"
  shows "estimate_reach lg m v w =
    (Inr (if cs = [] then 0 else estimate_sketch lg (foldl add_identity new_sketch cs)), w)"
proof -
  let ?rows = "filter (\<lambda>((m', v', day), raw). m' = m \<and> v' = v) (reach_sketches w)"
  obtain D where D: "\<And>k. set (D k) = reached src (applied w) k"
    "\<And>k raw. (k, raw) \<in> set (reach_sketches w) \<Longrightarrow> raw = marshal_sketch (foldl add_identity new_sketch (D k)) \<and> D k \<noteq> []"
    "\<And>k. reached src (applied w) k \<noteq> {} \<Longrightarrow> k \<in> fst ` set (reach_sketches w)"
    using exact_sketches [OF assms(1)] by blast
  let ?css = "map (D \<circ> fst) ?rows"
  have raws: "map snd ?rows = map (\<lambda>cs. marshal_sketch (foldl add_identity new_sketch cs)) ?css"
    using D(2) by (auto simp: comp_def)
  have "set (concat ?css) = (\<Union>p \<in> set ?rows. reached src (applied w) (fst p))" by (simp add: D(1))
  then have same: "set (concat ?css) = set cs" using audience_of_keys [OF D(3)] assms(3) by simp
  have "concat ?css = [] \<longleftrightarrow> ?css = []"
  proof
    assume nil: "concat ?css = []"
    show "?css = []"
    proof (rule ccontr)
      assume "?css \<noteq> []"
      then obtain p where p: "p \<in> set ?rows" by (cases ?rows) auto
      then have "D (fst p) \<noteq> []" using D(2) [of "fst p" "snd p"] by simp
      with nil p show False by (force simp: concat_eq_Nil_conv)
    qed
  qed simp
  with same have nil: "map snd ?rows = [] \<longleftrightarrow> cs = []" by (metis map_is_Nil_conv set_empty)
  have "merge_days new_sketch (map snd ?rows) = Inr (foldl add_identity new_sketch (concat ?css))"
    using merge_days_foldl [of "[]" ?css] by (simp only: raws foldl_Nil append_Nil)
  also have "foldl add_identity new_sketch (concat ?css) = foldl add_identity new_sketch cs"
    using same by (rule reach.foldl_same_set)
  finally show ?thesis
    by (simp add: estimate_reach_def and_then_def wrapping_apply query_calm [OF assms(2)] nil [simplified])
qed

lemma map_io_pure: "(\<And>x. x \<in> set xs \<Longrightarrow> f x w = (Inr (g x), w)) \<Longrightarrow> map_io f xs w = (Inr (map g xs), w)"
  by (induction xs) (simp_all add: and_then_def)

definition reach_estimate :: "(rat \<Rightarrow> rat) \<Rightarrow> string set \<Rightarrow> rat" where
  "reach_estimate lg cs =
     (if cs = {} then 0 else estimate_sketch lg (foldl add_identity new_sketch (sorted_list_of_set cs)))"

text \<open>A report's line says of its variant what the applied events say.\<close>

definition report_line :: "(rat \<Rightarrow> rat) \<Rightarrow> (string \<Rightarrow> stored_event) \<Rightarrow> string set \<Rightarrow> string \<Rightarrow> variant_report \<Rightarrow> bool" where
  "report_line lg src A m r =
     (vr_impressions r = int (card (counted src A m (vr_variant r) ''impression''))
      \<and> vr_clicks r = int (card (counted src A m (vr_variant r) ''button_press''))
      \<and> vr_dismissals r = int (card (counted src A m (vr_variant r) ''dismissal''))
      \<and> vr_reach r = reach_estimate lg (audience_of src A m (vr_variant r)))"

lemma map_of_same_mset:
  assumes "distinct (map fst xs)" "mset ys = mset xs"
  shows "distinct (map fst ys) \<and> set ys = set xs \<and> count_of ys = count_of xs"
proof -
  have "mset (map fst ys) = mset (map fst xs)" using assms(2) by simp
  then have d: "distinct (map fst ys)" using assms(1) mset_eq_imp_distinct_iff by blast
  have s: "set ys = set xs" using assms(2) by (rule mset_eq_setD)
  have "map_of ys = map_of xs" using map_of_inject_set [OF d assms(1)] s by blast
  then show ?thesis using d s by (simp add: count_of_def fun_eq_iff)
qed

lemma variants_calm:
  fixes w :: "'w consumer_world_scheme"
  assumes "exact src w" "faults w = []" "\<And>xs. mset (arrange xs) = mset xs"
  shows "\<exists>rs. variant_reports lg arrange m w = (Inr rs, w) \<and> distinct (map vr_variant rs)
    \<and> (\<forall>r \<in> set rs. report_line lg src (applied w) m r)
    \<and> vr_variant ` set rs = (\<lambda>((m, v, h, kind), n). v) ` {row \<in> set (campaign w). fst (fst row) = m}"
proof -
  let ?groups = "campaign_groups m (campaign w)"
  let ?rows = "arrange ?groups"
  let ?t = "foldl add_figure [] ?rows"
  let ?g = "\<lambda>(v, r). r\<lparr>vr_reach := reach_estimate lg (audience_of src (applied w) m v)\<rparr>"
  have gkeys: "fst ` set ?groups = (\<lambda>((m, v, h, kind), n). (v, kind)) ` {row \<in> set (campaign w). fst (fst row) = m}"
    "distinct (map fst ?groups)"
    unfolding campaign_groups_def by (simp_all add: keys_group_sum image_image split_beta)
  note same = map_of_same_mset [OF gkeys(2) assms(3)]
  have match: "figures_match ?rows ?t" by (rule figures_match_fold) (use same in blast)
  have fin: "finite (applied w)" using assms(1) by (simp add: exact_def)
  have reach: "estimate_reach lg m v w = (Inr (reach_estimate lg (audience_of src (applied w) m v)), w)" for v
  proof -
    have "finite (audience_of src (applied w) m v)" using fin by (simp add: audience_of_def)
    then show ?thesis
      using estimate_reach_calm [OF assms(1,2), of "sorted_list_of_set (audience_of src (applied w) m v)" m v lg]
      by (auto simp: reach_estimate_def)
  qed
  have run: "variant_reports lg arrange m w = (Inr (map ?g ?t), w)"
  proof -
    have "map_io (\<lambda>(v, r). and_then (estimate_reach lg m v) (\<lambda>reach. ret (r\<lparr>vr_reach := reach\<rparr>))) ?t w = (Inr (map ?g ?t), w)"
      by (rule map_io_pure) (auto simp: and_then_def reach)
    then show ?thesis by (simp add: variant_reports_def and_then_def wrapping_apply query_calm [OF assms(2)])
  qed
  have names: "map vr_variant (map ?g ?t) = map fst ?t"
    using match by (auto simp: figures_match_def)
  have "report_line lg src (applied w) m r" if "r \<in> set (map ?g ?t)" for r
  proof -
    from that obtain v r0 where r0: "(v, r0) \<in> set ?t" "r = ?g (v, r0)" by auto
    from match r0(1) have f: "vr_variant r0 = v"
      "\<And>kind. kind \<in> figure_kinds \<Longrightarrow> figure kind r0 = count_of ?groups (v, kind)"
      using same by (auto simp: figures_match_def)
    show ?thesis
      using f(2) [of "''impression''"] f(2) [of "''button_press''"] f(2) [of "''dismissal''"]
      unfolding report_line_def r0(2) count_of_campaign_groups [OF assms(1)]
      by (simp add: figure_kinds_def figure_def f(1))
  qed
  moreover have "distinct (map vr_variant (map ?g ?t))" unfolding names using match by (simp add: figures_match_def)
  moreover have "vr_variant ` set (map ?g ?t) = (\<lambda>((m, v, h, kind), n). v) ` {row \<in> set (campaign w). fst (fst row) = m}"
  proof -
    have "vr_variant ` set (map ?g ?t) = set (map vr_variant (map ?g ?t))" by (simp only: set_map)
    also have "\<dots> = fst ` set ?t" unfolding names by simp
    also have "\<dots> = fst ` (fst ` set ?rows)" using match unfolding figures_match_def by (simp add: image_comp)
    also have "\<dots> = fst ` (fst ` set ?groups)" using same by simp
    also have "\<dots> = (\<lambda>((m, v, h, kind), n). v) ` {row \<in> set (campaign w). fst (fst row) = m}"
      unfolding gkeys(1) image_image by (simp add: split_beta)
    finally show ?thesis .
  qed
  ultimately show ?thesis using run by blast
qed

text \<open>
  C7: a campaign's report is what the events say, in whatever order the database returns its
  groups: one line for each variant counted, whose impressions, clicks and dismissals are the
  numbers of distinct applied events of that variant over all hours, and whose reach is the
  estimate of the sketch of the channels its impressions were shown to, over all days.
\<close>

theorem report_counts_events:
  fixes w :: "'w consumer_world_scheme"
  assumes "exact src w" "faults w = []" "\<And>xs. mset (arrange xs) = mset xs"
  shows "\<exists>rs. variant_reports lg arrange m w = (Inr rs, w) \<and> distinct (map vr_variant rs)
    \<and> (\<forall>r \<in> set rs. report_line lg src (applied w) m r)
    \<and> vr_variant ` set rs = (\<lambda>((m, v, h, kind), n). v) ` {row \<in> set (campaign w). fst (fst row) = m}"
  by (rule variants_calm [OF assms])

definition demo_shown :: "string \<Rightarrow> stored_event" where
  "demo_shown i = \<lparr>se_id = i, se_seq = 0, se_channel = ''c'' @ i, se_kind = KindImpression, se_name = [],
     se_device_time = 60 * second, se_server_time = 61 * second, se_message = ''m'', se_variant = ''v'', se_reason = []\<rparr>"

definition shown_world :: consumer_world where
  "shown_world = demo_consumer_world\<lparr>applied := {''1''}, targeting := [(target_key (demo_shown ''1''), 1)],
     campaign := [(campaign_key (demo_shown ''1''), 1)],
     reach_sketches := [(sketch_key (demo_shown ''1''), marshal_sketch (add_identity new_sketch ''c1''))]\<rparr>"

lemma foldl_one: "set cs = {c} \<Longrightarrow> foldl add_identity new_sketch cs = add_identity new_sketch c"
  using reach.foldl_same_set [of cs "[c]"] by simp

lemma reached_one: "reached src {i} k = (if counts_reach (src i) \<and> sketch_key (src i) = k then {se_channel (src i)} else {})"
  by (auto simp: reached_def)

lemma shown_counts: "counts_reach (demo_shown i)" "counts_campaign (demo_shown i)" "\<not> counts_suppression (demo_shown i)"
  "se_channel (demo_shown i) = ''c'' @ i"
  by (simp_all add: demo_shown_def counts_reach_def counts_campaign_def counts_suppression_def campaign_rollup_kinds_def)

lemma filter_one: "{j. j = i \<and> P j} = (if P i then {i} else {})"
  by auto

lemma shown_exact: "exact demo_shown shown_world"
proof -
  have "exact_reach demo_shown shown_world"
    unfolding exact_reach_def
  proof (intro allI impI)
    fix k cs assume cs: "set cs = reached demo_shown (applied shown_world) k"
    show "map_of (reach_sketches shown_world) k
        = (if cs = [] then None else Some (marshal_sketch (foldl add_identity new_sketch cs)))"
    proof (cases "k = sketch_key (demo_shown ''1'')")
      case True
      then have one: "set cs = {''c1''}"
        using cs reached_one [of demo_shown "''1''" k] by (simp add: shown_world_def shown_counts)
      then have "cs \<noteq> []" by (metis empty_set insert_not_empty)
      moreover note foldl_one [OF one]
      moreover have "map_of (reach_sketches shown_world) k = Some (marshal_sketch (add_identity new_sketch ''c1''))"
        using True by (simp add: shown_world_def)
      ultimately show ?thesis by (simp only: if_False)
    next
      case False
      then have "reached demo_shown (applied shown_world) k = {}"
        using reached_one [of demo_shown "''1''" k] by (simp add: shown_world_def)
      then have "cs = []" using cs by simp
      moreover have "map_of (reach_sketches shown_world) k = None" using False by (simp add: shown_world_def)
      ultimately show ?thesis by simp
    qed
  qed
  then show ?thesis
    unfolding exact_def keyed_def
    by (simp add: shown_world_def demo_consumer_world_def filter_one shown_counts count_of_def del: split_paired_All)
qed

theorem report_counts_events_witness:
  "\<exists>rs. variant_reports (\<lambda>x. x) rev ''m'' shown_world = (Inr rs, shown_world) \<and> vr_variant ` set rs = {''v''}"
  using report_counts_events [OF shown_exact, of rev "\<lambda>x. x" "''m''"]
  by (fastforce simp: shown_world_def demo_consumer_world_def campaign_key_def demo_shown_def)

text \<open>The suppressions a campaign's breakdown stands for.\<close>

definition suppressed :: "(string \<Rightarrow> stored_event) \<Rightarrow> string set \<Rightarrow> string \<Rightarrow> string \<Rightarrow> string set" where
  "suppressed src A m reason =
     {i \<in> A. counts_suppression (src i) \<and> se_message (src i) = m \<and> se_reason (src i) = reason}"

lemma suppressions_calm:
  assumes "exact src w" "faults w = []"
  shows "\<exists>b. suppressions m w = (Inr b, w)
    \<and> (\<forall>reason. count_of (sb_by_reason b) reason = int (card (suppressed src (applied w) m reason)))
    \<and> sb_impressions b = int (card {i \<in> applied w. counts_campaign (src i) \<and> se_message (src i) = m
         \<and> kind_string (se_kind (src i)) = ''impression''})"
proof -
  have ex: "finite (applied w)" "distinct (map fst (suppression w))" "distinct (map fst (campaign w))"
    "count_of (suppression w) k = int (card {i \<in> applied w. counts_suppression (src i) \<and> suppression_key (src i) = k})"
    "count_of (campaign w) l = int (card {i \<in> applied w. counts_campaign (src i) \<and> campaign_key (src i) = l})" for k l
    using assms(1) by (simp_all add: exact_def keyed_def del: split_paired_All)
  let ?by = "group_sum (map (\<lambda>((m, reason, day), n). (reason, n)) (filter (\<lambda>((m', reason, day), n). m' = m) (suppression w)))"
  let ?n = "sum_list (map snd (filter (\<lambda>((m', v, h, kind), n). m' = m \<and> kind = ''impression'') (campaign w)))"
  have bys: "?by = group_sum (map (\<lambda>(k, n). ((\<lambda>(m, reason, day). reason) k, n))
      (filter (\<lambda>(k, n). (\<lambda>(m', reason, day). m' = m) k) (suppression w)))"
    by (simp add: split_beta case_prod_unfold)
  have "count_of ?by reason = int (card (suppressed src (applied w) m reason))" for reason
    using count_of_groups [OF ex(1,2,4), of "\<lambda>(m, reason, day). reason" "\<lambda>(m', reason, day). m' = m" reason]
    unfolding bys by (simp add: suppressed_def suppression_key_def)
  moreover have "?n = int (card {i \<in> applied w. counts_campaign (src i) \<and> se_message (src i) = m
         \<and> kind_string (se_kind (src i)) = ''impression''})"
    using sum_counts [OF ex(1,3,5), of "\<lambda>(m', v, h, kind). m' = m \<and> kind = ''impression''"]
    by (simp add: campaign_key_def split_beta case_prod_unfold)
  ultimately show ?thesis
    by (simp add: suppressions_def and_then_def wrapping_apply query_calm [OF assms(2)])
qed

text \<open>
  A campaign's suppression breakdown is what the events say: for each reason the number of
  distinct applied suppressions, beside the number of distinct applied impressions.
\<close>

theorem suppressions_count_events:
  assumes "exact src w" "faults w = []"
  shows "\<exists>b. suppressions m w = (Inr b, w)
    \<and> (\<forall>reason. count_of (sb_by_reason b) reason = int (card (suppressed src (applied w) m reason)))
    \<and> sb_impressions b = int (card {i \<in> applied w. counts_campaign (src i) \<and> se_message (src i) = m
         \<and> kind_string (se_kind (src i)) = ''impression''})"
  by (rule suppressions_calm [OF assms])

theorem suppressions_count_events_witness:
  "\<exists>b. suppressions ''m'' shown_world = (Inr b, shown_world)
    \<and> sb_impressions b = int (card {i \<in> applied shown_world. counts_campaign (demo_shown i)
         \<and> se_message (demo_shown i) = ''m'' \<and> kind_string (se_kind (demo_shown i)) = ''impression''})"
  using suppressions_count_events [OF shown_exact, of "''m''"]
  by (auto simp: shown_world_def demo_consumer_world_def)

end
