(* ===== verification/Store.thy ===== *)
theory Store
  imports Content Budget "HOL-Library.Multiset"
begin

text \<open>
  \<^verbatim>\<open>internal/definition/store\<close>, \<^verbatim>\<open>internal/delivery/changelog\<close> and \<^verbatim>\<open>internal/delivery/confirm\<close>:
  the tables of messages, the kill switch with its audit log, the change log, and the check
  before a display. A message reads back as it was written; every state a message has been
  in is accounted for by its audit log, whatever fails.
\<close>

section \<open>The tables\<close>

text \<open>
  The columns of \<^verbatim>\<open>messages\<close>. A \<^verbatim>\<open>jsonb\<close> column keeps the JSON value, the order of whose members no
  decoder sees.
\<close>

record message_row =
  mr_name :: string
  mr_state :: string
  mr_priority :: int
  mr_start :: time
  mr_end :: time
  mr_audience :: "string option"
  mr_holdout :: rat
  mr_conversion :: "string option"
  mr_version :: int
  mr_salt :: string

record policy_row =
  pr_cap :: int
  pr_interval :: int
  pr_exempt :: bool
  pr_confirm :: bool

record condition_row =
  cr_delay :: int
  cr_mode :: string
  cr_screens :: "string list option"
  cr_connectivity :: string

record variant_row =
  vrow_weight :: int
  vrow_language :: string
  vrow_content :: json

record audit_row =
  ar_message :: string
  ar_from :: string
  ar_to :: string
  ar_actor :: string
  ar_at :: time

record change_row =
  ch_seq :: int
  ch_message :: string
  ch_kind :: string
  ch_at :: time

record store_world = budget_world +
  messages :: "(string \<times> message_row) list"
  policies :: "(string \<times> policy_row) list"
  trigger_rows :: "(string \<times> string \<times> trigger) list"
  condition_rows :: "(string \<times> string \<times> condition_row) list"
  variant_rows :: "(string \<times> string \<times> variant_row) list"
  audit_log :: "audit_row list"
  change_log :: "change_row list"
  change_seq :: int
  id_supply :: nat

type_synonym ('w, 'a) store_io = "'w store_world_scheme \<Rightarrow> 'a result \<times> 'w store_world_scheme"

text \<open>\<^verbatim>\<open>gen_random_uuid()\<close> and the default of the salt: a supply of values.\<close>

record db_gen =
  gen_uuid :: "nat \<Rightarrow> string"
  gen_salt :: "nat \<Rightarrow> string"

section \<open>States as text\<close>

fun state_text :: "message_state \<Rightarrow> string" where
  "state_text StateDraft = ''draft''"
| "state_text StateScheduled = ''scheduled''"
| "state_text StateActive = ''active''"
| "state_text StatePaused = ''paused''"
| "state_text StateCompleted = ''completed''"
| "state_text StateArchived = ''archived''"
| "state_text (OtherState s) = s"

definition known_states :: "message_state list" where
  "known_states = [StateDraft, StateScheduled, StateActive, StatePaused, StateCompleted, StateArchived]"

definition state_of_text :: "string \<Rightarrow> message_state" where
  "state_of_text s = (case filter (\<lambda>m. state_text m = s) known_states of [] \<Rightarrow> OtherState s | m # _ \<Rightarrow> m)"

lemma state_of_state_text: "m \<in> set known_states \<Longrightarrow> state_of_text (state_text m) = m"
  unfolding known_states_def by (cases m) (simp_all add: state_of_text_def known_states_def)

section \<open>Constraints of the columns\<close>

definition fits_int4 :: "int \<Rightarrow> bool" where
  "fits_int4 n = (- 2147483648 \<le> n \<and> n \<le> 2147483647)"

definition message_row_ok :: "message_row \<Rightarrow> bool" where
  "message_row_ok r =
     (mr_state r \<in> set (map state_text known_states) \<and> mr_start r < mr_end r
      \<and> fits_int4 (mr_priority r) \<and> fits_int4 (mr_version r))"

text \<open>A nil slice is written as NULL, which the column of the screens does not take.\<close>

definition condition_row_ok :: "condition_row \<Rightarrow> bool" where
  "condition_row_ok c =
     (cr_screens c \<noteq> None \<and> cr_mode c \<in> {''allow'', ''deny''} \<and> cr_connectivity c \<in> {''any'', ''online''} \<and> fits_int4 (cr_delay c))"

definition or_empty :: "string option \<Rightarrow> string" where
  "or_empty s = (case s of None \<Rightarrow> [] | Some t \<Rightarrow> t)"

definition or_null :: "string \<Rightarrow> string option" where
  "or_null s = (if s = [] then None else Some s)"

lemma or_empty_or_null [simp]: "or_empty (or_null s) = s"
  by (simp add: or_empty_def or_null_def)

text \<open>A statement that breaks a constraint fails without an effect.\<close>

definition checked :: "bool \<Rightarrow> ('w store_world_scheme \<Rightarrow> 'a result \<times> 'w store_world_scheme) \<Rightarrow> ('w, 'a) store_io" where
  "checked ok f = remote (\<lambda>w. if ok then f w else (Inl IOFailure, w))"

section \<open>Inserting a message\<close>

definition row_of_message :: "message \<Rightarrow> string \<Rightarrow> message_row" where
  "row_of_message m salt =
     \<lparr>mr_name = msg_name m, mr_state = state_text (msg_state m), mr_priority = priority m,
      mr_start = pg_time (win_start (msg_window m)), mr_end = pg_time (win_end (msg_window m)), mr_audience = or_null (audience_ref m),
      mr_holdout = holdout_fraction m, mr_conversion = or_null (conversion_event m),
      mr_version = msg_version m, mr_salt = salt\<rparr>"

definition insert_message_row :: "db_gen \<Rightarrow> message \<Rightarrow> ('w, message) store_io" where
  "insert_message_row g m = wrapping ''store: insert message''
     (checked (message_row_ok (row_of_message m [])) (\<lambda>w.
        let i = gen_uuid g (id_supply w); s = gen_salt g (id_supply w)
        in if i \<in> fst ` set (messages w) then (Inl IOFailure, w)
           else (Inr (m\<lparr>msg_id := i, experiment_salt := s\<rparr>),
             w\<lparr>messages := messages w @ [(i, row_of_message m s)], id_supply := Suc (id_supply w)\<rparr>)))"

definition row_of_policy :: "control_policy \<Rightarrow> policy_row" where
  "row_of_policy p =
     \<lparr>pr_cap = per_message_cap p, pr_interval = whole_seconds (min_interval_between p),
      pr_exempt = exempt_from_project_cap p, pr_confirm = requires_server_confirmation p\<rparr>"

definition insert_policy :: "message \<Rightarrow> ('w, unit) store_io" where
  "insert_policy m = wrapping ''store: insert control policy''
     (let r = row_of_policy (policy m)
      in checked (fits_int4 (pr_cap r) \<and> fits_int4 (pr_interval r)) (\<lambda>w.
        (Inr (), w\<lparr>policies := policies w @ [(msg_id m, r)]\<rparr>)))"

definition insert_trigger :: "db_gen \<Rightarrow> string \<Rightarrow> trigger \<Rightarrow> ('w, trigger) store_io" where
  "insert_trigger g m t = wrapping ''store: insert trigger''
     (checked (fits_int4 (occurrence_goal t)) (\<lambda>w.
        let t' = t\<lparr>trigger_id := gen_uuid g (id_supply w)\<rparr>
        in (Inr t', w\<lparr>trigger_rows := trigger_rows w @ [(trigger_id t', m, t')], id_supply := Suc (id_supply w)\<rparr>)))"

definition row_of_condition :: "display_condition \<Rightarrow> condition_row" where
  "row_of_condition d =
     \<lparr>cr_delay = whole_seconds (delay d), cr_mode = screen_filter_mode d, cr_screens = screens d,
      cr_connectivity = connectivity_required d\<rparr>"

definition insert_condition :: "db_gen \<Rightarrow> string \<Rightarrow> display_condition \<Rightarrow> ('w, unit) store_io" where
  "insert_condition g m d = wrapping ''store: insert display condition''
     (checked (condition_row_ok (row_of_condition d)) (\<lambda>w.
        (Inr (), w\<lparr>condition_rows := condition_rows w @ [(gen_uuid g (id_supply w), m, row_of_condition d)],
                   id_supply := Suc (id_supply w)\<rparr>)))"

definition row_of_variant :: "variant \<Rightarrow> variant_row" where
  "row_of_variant v =
     \<lparr>vrow_weight = weight v, vrow_language = language v, vrow_content = marshal_content_column v\<rparr>"

definition insert_variant :: "db_gen \<Rightarrow> string \<Rightarrow> variant \<Rightarrow> ('w, variant) store_io" where
  "insert_variant g m v = wrapping ''store: insert variant''
     (checked (fits_int4 (weight v)) (\<lambda>w.
        let i = gen_uuid g (id_supply w)
        in (Inr (v\<lparr>variant_message := m, variant_id := i\<rparr>),
            w\<lparr>variant_rows := variant_rows w @ [(i, m, row_of_variant v)], id_supply := Suc (id_supply w)\<rparr>)))"

definition insert_message :: "db_gen \<Rightarrow> message \<Rightarrow> ('w, message) store_io" where
  "insert_message g msg = in_tx ''store: begin'' ''store: commit''
     (and_then (insert_message_row g (if msg_version msg = 0 then msg\<lparr>msg_version := 1\<rparr> else msg)) (\<lambda>m.
        and_then (insert_policy m) (\<lambda>_.
          and_then (map_io (insert_trigger g (msg_id m)) (triggers m)) (\<lambda>trgs.
            and_then (for_each (insert_condition g (msg_id m)) (display_conditions m)) (\<lambda>_.
              and_then (map_io (insert_variant g (msg_id m)) (variants m)) (\<lambda>vs.
                ret (m\<lparr>triggers := trgs, variants := vs\<rparr>)))))))"

section \<open>Reading a message\<close>

definition empty_message :: message where
  "empty_message =
     \<lparr>msg_id = [], msg_name = [], msg_state = OtherState [], priority = 0, msg_window = \<lparr>win_start = zero_time, win_end = zero_time\<rparr>,
      msg_version = 0, audience_ref = [],
      policy = \<lparr>per_message_cap = 0, min_interval_between = 0, exempt_from_project_cap = False,
                requires_server_confirmation = False\<rparr>,
      holdout_fraction = 0, experiment_salt = [], conversion_event = [], triggers = [], display_conditions = [],
      variants = []\<rparr>"

definition message_of_row :: "string \<Rightarrow> message_row \<Rightarrow> message" where
  "message_of_row i r =
     empty_message\<lparr>msg_id := i, msg_name := mr_name r, msg_state := state_of_text (mr_state r),
       priority := mr_priority r, msg_window := \<lparr>win_start = mr_start r, win_end = mr_end r\<rparr>,
       msg_version := mr_version r, audience_ref := or_empty (mr_audience r),
       holdout_fraction := mr_holdout r, experiment_salt := mr_salt r, conversion_event := or_empty (mr_conversion r)\<rparr>"

definition policy_of_row :: "policy_row \<Rightarrow> control_policy" where
  "policy_of_row r =
     \<lparr>per_message_cap = pr_cap r, min_interval_between = wrap64 (pr_interval r * second),
      exempt_from_project_cap = pr_exempt r, requires_server_confirmation = pr_confirm r\<rparr>"

definition condition_of_row :: "condition_row \<Rightarrow> display_condition" where
  "condition_of_row r =
     \<lparr>delay = wrap64 (cr_delay r * second), screen_filter_mode = cr_mode r, screens = cr_screens r,
      connectivity_required = cr_connectivity r\<rparr>"

definition blank_variant :: variant where
  "blank_variant = \<lparr>variant_id = [], variant_message = [], weight = 0, language = [],
     schema = \<lparr>major = 0, minor = 0\<rparr>, variant_content = HTMLContent []\<rparr>"

definition variant_of_row :: "string \<times> string \<times> variant_row \<Rightarrow> variant result" where
  "variant_of_row row =
     (case row of (i, m, r) \<Rightarrow>
        unmarshal_content_column
          (blank_variant\<lparr>variant_id := i, variant_message := m, weight := vrow_weight r, language := vrow_language r\<rparr>)
          (vrow_content r))"

text \<open>The rows of a message in the order of their identifiers.\<close>

definition rows_of :: "string \<Rightarrow> (string \<times> string \<times> 'a) list \<Rightarrow> (string \<times> string \<times> 'a) list" where
  "rows_of m rows = sort_key fst (filter (\<lambda>row. fst (snd row) = m) rows)"

definition get_message :: "string \<Rightarrow> ('w, message) store_io" where
  "get_message i =
     and_then (wrapping ''store: get message'' (remote (\<lambda>w.
         (case map_of (messages w) i of None \<Rightarrow> Inl (Sentinel ErrNotFound) | Some r \<Rightarrow> Inr (message_of_row i r), w))))
       (\<lambda>m. and_then (wrapping ''store: get control policy'' (remote (\<lambda>w.
           (case map_of (policies w) i of None \<Rightarrow> Inl (Sentinel ErrNoRows) | Some r \<Rightarrow> Inr (policy_of_row r), w))))
         (\<lambda>p. and_then (wrapping ''store: query triggers'' (query (\<lambda>w. map (snd \<circ> snd) (rows_of i (trigger_rows w)))))
           (\<lambda>trgs. and_then (wrapping ''store: query display conditions''
               (query (\<lambda>w. map (condition_of_row \<circ> snd \<circ> snd) (rows_of i (condition_rows w)))))
             (\<lambda>dcs. and_then (wrapping ''store: query variants'' (query (\<lambda>w. rows_of i (variant_rows w))))
               (\<lambda>rows. and_then (wrapping ''store: decode variant content'' (of_result (map_result variant_of_row rows)))
                 (\<lambda>vs. ret (m\<lparr>policy := p, triggers := trgs, display_conditions := dcs, variants := vs\<rparr>)))))))"

section \<open>The kill switch\<close>

record audit_entry =
  ae_from :: message_state
  ae_to :: message_state
  ae_actor :: string
  ae_at :: time

definition set_state :: "string \<Rightarrow> message_state \<Rightarrow> ('w, unit) store_io" where
  "set_state i s = wrapping ''store: update state: update message'' (exec (\<lambda>w.
     w\<lparr>messages := map (\<lambda>(j, r). (j, if j = i then r\<lparr>mr_state := state_text s\<rparr> else r)) (messages w)\<rparr>))"

definition record_audit :: "string \<Rightarrow> message_state \<Rightarrow> message_state \<Rightarrow> string \<Rightarrow> time \<Rightarrow> ('w, unit) store_io" where
  "record_audit i from to actor now = wrapping ''store: update state: record audit log'' (exec (\<lambda>w.
     w\<lparr>audit_log := audit_log w @ [\<lparr>ar_message = i, ar_from = state_text from, ar_to = state_text to,
        ar_actor = actor, ar_at = pg_time now\<rparr>]\<rparr>))"

definition update_state_tx :: "string \<Rightarrow> message_state \<Rightarrow> string \<Rightarrow> time \<Rightarrow> ('w, unit) store_io" where
  "update_state_tx i newState actor now =
     and_then (wrapping ''store: update state: look up message'' (remote (\<lambda>w.
         (case map_of (messages w) i of None \<Rightarrow> Inl (Sentinel ErrNotFound) | Some r \<Rightarrow> Inr (state_of_text (mr_state r)), w))))
       (\<lambda>from. if \<not> can_transition from newState then fail (Errorf ''store: update state: cannot move'')
          else and_then (set_state i newState) (\<lambda>_. record_audit i from newState actor now))"

definition update_state :: "string \<Rightarrow> message_state \<Rightarrow> string \<Rightarrow> time \<Rightarrow> ('w, unit) store_io" where
  "update_state i newState actor now =
     in_tx ''store: update state: begin'' ''store: update state: commit'' (update_state_tx i newState actor now)"

text \<open>Most recent first; the order of equal times is the database's.\<close>

definition list_audit_log :: "string \<Rightarrow> ('w, audit_entry list) store_io" where
  "list_audit_log i = wrapping ''store: list audit log'' (query (\<lambda>w.
     map (\<lambda>r. \<lparr>ae_from = state_of_text (ar_from r), ae_to = state_of_text (ar_to r), ae_actor = ar_actor r, ae_at = ar_at r\<rparr>)
       (rev (sort_key ar_at (filter (\<lambda>r. ar_message r = i) (audit_log w))))))"

section \<open>The change log\<close>

definition KindUpsert :: string where "KindUpsert = ''upsert''"
definition KindTombstone :: string where "KindTombstone = ''tombstone''"

definition Retention :: duration where "Retention = 7 * 24 * hour"

text \<open>The row refers to a message of the table; the log is pruned with the same statement's clock.\<close>

definition record_change :: "string \<Rightarrow> string \<Rightarrow> time \<Rightarrow> ('w, unit) store_io" where
  "record_change i kind now =
     and_then (wrapping ''changelog: record'' (remote (\<lambda>w.
         if i \<in> fst ` set (messages w) \<and> kind \<in> {KindUpsert, KindTombstone} then
           (Inr (), w\<lparr>change_log := change_log w @
                [\<lparr>ch_seq = change_seq w, ch_message = i, ch_kind = kind, ch_at = pg_time now\<rparr>],
              change_seq := change_seq w + 1\<rparr>)
         else (Inl IOFailure, w))))
       (\<lambda>_. wrapping ''changelog: prune'' (exec (\<lambda>w.
          w\<lparr>change_log := filter (\<lambda>c. \<not> ch_at c < pg_time (time_add now (- Retention))) (change_log w)\<rparr>)))"

definition current_seq :: "('w, int) store_io" where
  "current_seq = wrapping ''changelog: current seq''
     (query (\<lambda>w. if change_log w = [] then 0 else Max (set (map ch_seq (change_log w)))))"

definition changes_since :: "int \<Rightarrow> ('w, change_row list) store_io" where
  "changes_since afterSeq = wrapping ''changelog: since''
     (query (\<lambda>w. sort_key ch_seq (filter (\<lambda>c. ch_seq c > afterSeq) (change_log w))))"

section \<open>Confirmation\<close>

definition confirm_display :: "string \<Rightarrow> time \<Rightarrow> ('w, bool) store_io" where
  "confirm_display i now =
     and_then (wrapping ''confirm: look up message'' (query (\<lambda>w. map_of (messages w) i)))
       (\<lambda>row. case row of
          None \<Rightarrow> fail (Errorf ''confirm: message not found'')
        | Some r \<Rightarrow>
            ret (if mr_state r \<noteq> ''active'' then False
                 else \<not> (now < mr_start r \<or> \<not> now < mr_end r)))"

section \<open>The audit log accounts for every state\<close>

text \<open>A chain of allowed moves, each entry starting where the one before it ended.\<close>

fun audit_chain :: "message_state \<Rightarrow> audit_row list \<Rightarrow> message_state \<Rightarrow> bool" where
  "audit_chain s [] t = (s = t)"
| "audit_chain s (a # as) t =
     (ar_from a = state_text s \<and> can_transition s (state_of_text (ar_to a))
      \<and> audit_chain (state_of_text (ar_to a)) as t)"

definition entries_of :: "string \<Rightarrow> audit_row list \<Rightarrow> audit_row list" where
  "entries_of i = filter (\<lambda>a. ar_message a = i)"

lemma entries_of_simps [simp]:
  "entries_of i [] = []" "entries_of i (as @ bs) = entries_of i as @ entries_of i bs"
  "entries_of i (a # as) = (if ar_message a = i then a # entries_of i as else entries_of i as)"
  by (simp_all add: entries_of_def)

lemma audit_chain_append:
  "audit_chain s as u \<Longrightarrow> audit_chain u bs t \<Longrightarrow> audit_chain s (as @ bs) t"
  by (induction s as u rule: audit_chain.induct) simp_all

lemma audit_chain_after_end: "audit_chain s as t \<Longrightarrow> StateCompleted \<le> s \<Longrightarrow> StateCompleted \<le> t"
  by (induction s as t rule: audit_chain.induct) (auto dest: transition_after_end)

definition row_state :: "message_row \<Rightarrow> message_state" where
  "row_state r = state_of_text (mr_state r)"

text \<open>What a course of calls may have done to the row of a message and to its log.\<close>

definition accounted :: "string \<Rightarrow> 'w store_world_scheme \<Rightarrow> 'w store_world_scheme \<Rightarrow> bool" where
  "accounted i w w' =
     (\<exists>new. audit_log w' = audit_log w @ new
      \<and> (case map_of (messages w) i of
           None \<Rightarrow> map_of (messages w') i = None \<and> entries_of i new = []
         | Some r \<Rightarrow> (\<exists>r'. map_of (messages w') i = Some r' \<and> r' = r\<lparr>mr_state := mr_state r'\<rparr>
             \<and> audit_chain (row_state r) (entries_of i new) (row_state r'))))"

lemma accounted_faults [simp]:
  "accounted i (w\<lparr>faults := fs\<rparr>) w' = accounted i w w'"
  "accounted i w (w'\<lparr>faults := fs\<rparr>) = accounted i w w'"
  by (simp_all add: accounted_def cong: option.case_cong)

lemma accounted_refl: "accounted i w w"
  by (auto simp: accounted_def row_state_def split: option.splits)

lemma accounted_trans:
  assumes "accounted i w1 w2" "accounted i w2 w3"
  shows "accounted i w1 w3"
proof -
  from assms(1) obtain n1 where n1: "audit_log w2 = audit_log w1 @ n1"
    "case map_of (messages w1) i of
       None \<Rightarrow> map_of (messages w2) i = None \<and> entries_of i n1 = []
     | Some r \<Rightarrow> (\<exists>r'. map_of (messages w2) i = Some r' \<and> r' = r\<lparr>mr_state := mr_state r'\<rparr>
         \<and> audit_chain (row_state r) (entries_of i n1) (row_state r'))"
    by (auto simp: accounted_def)
  from assms(2) obtain n2 where n2: "audit_log w3 = audit_log w2 @ n2"
    "case map_of (messages w2) i of
       None \<Rightarrow> map_of (messages w3) i = None \<and> entries_of i n2 = []
     | Some r \<Rightarrow> (\<exists>r'. map_of (messages w3) i = Some r' \<and> r' = r\<lparr>mr_state := mr_state r'\<rparr>
         \<and> audit_chain (row_state r) (entries_of i n2) (row_state r'))"
    by (auto simp: accounted_def)
  show ?thesis
  proof (cases "map_of (messages w1) i")
    case None
    with n1 n2 show ?thesis by (simp add: accounted_def)
  next
    case (Some r)
    with n1(2) obtain r' where r': "map_of (messages w2) i = Some r'" "r' = r\<lparr>mr_state := mr_state r'\<rparr>"
      "audit_chain (row_state r) (entries_of i n1) (row_state r')" by auto
    with n2(2) obtain r'' where r'': "map_of (messages w3) i = Some r''" "r'' = r'\<lparr>mr_state := mr_state r''\<rparr>"
      "audit_chain (row_state r') (entries_of i n2) (row_state r'')" by auto
    have "r'' = r\<lparr>mr_state := mr_state r''\<rparr>"
      using r'(2) r''(2) by (metis message_row.update_convs(2) message_row.surjective)
    with Some r' r'' n1(1) n2(1) show ?thesis
      by (auto simp: accounted_def intro: audit_chain_append)
  qed
qed

lemma transition_known: "can_transition s t \<Longrightarrow> state_of_text (state_text t) = t"
  by (rule state_of_state_text, cases s) (auto simp: can_transition_def known_states_def)

lemma state_text_of_text: "state_text (state_of_text s) = s"
  by (auto simp: state_of_text_def known_states_def split: list.splits if_splits)

lemma map_of_set_state:
  "map_of (map (\<lambda>(j, r). (j, if j = i then f r else r)) t) k
    = (if k = i then map_option f (map_of t k) else map_of t k)"
  by (induction t) auto

lemma accounted_move:
  assumes row: "map_of (messages w) j = Some r" and ok: "can_transition (row_state r) s"
    and log: "audit_log w' = audit_log w @ [\<lparr>ar_message = j, ar_from = state_text (row_state r),
        ar_to = state_text s, ar_actor = actor, ar_at = t\<rparr>]"
    and tab: "messages w' = map (\<lambda>(k, r). (k, if k = j then r\<lparr>mr_state := state_text s\<rparr> else r)) (messages w)"
  shows "accounted i w w'"
proof (cases "i = j")
  case True
  with assms show ?thesis
    by (simp add: accounted_def map_of_set_state row_state_def transition_known [OF ok] row_state_def)
next
  case False
  with assms show ?thesis
    by (auto simp: accounted_def map_of_set_state row_state_def split: option.splits)
qed

lemma update_state_accounted:
  fixes w :: "'w store_world_scheme"
  shows "accounted i w (snd (update_state j s actor now w))"
proof -
  obtain res w' where u: "update_state j s actor now w = (res, w')" by force
  from in_tx_atomic [OF u [unfolded update_state_def]]
  consider (same) fs where "w' = w\<lparr>faults := fs\<rparr>"
    | (moved) fs x w2 fs' where "update_state_tx j s actor now (w\<lparr>faults := fs\<rparr>) = (Inr x, w2)" "w' = w2\<lparr>faults := fs'\<rparr>"
    by blast
  then show ?thesis
  proof cases
    case same
    with u show ?thesis by (simp add: accounted_refl)
  next
    case moved
    then obtain src w1 where 1: "remote (\<lambda>w. (case map_of (messages w) j of None \<Rightarrow> Inl (Sentinel ErrNotFound)
          | Some r \<Rightarrow> Inr (state_of_text (mr_state r)), w)) (w\<lparr>faults := fs\<rparr>) = (Inr src, w1)"
      and 2: "can_transition src s" "and_then (set_state j s) (\<lambda>_. record_audit j src s actor now) w1 = (Inr x, w2)"
      by (auto simp: update_state_tx_def and_then_ok split: if_splits)
    from remote_ok [OF 1] obtain gs where w1: "w1 = w\<lparr>faults := gs\<rparr>"
      and row: "case map_of (messages w) j of None \<Rightarrow> False | Some r \<Rightarrow> src = row_state r"
      by (auto simp: row_state_def split: option.splits)
    from 2(2) obtain u w3 where set: "set_state j s w1 = (Inr u, w3)" and aud: "record_audit j src s actor now w3 = (Inr x, w2)"
      by (auto simp: and_then_ok)
    from set [unfolded set_state_def wrapping_ok, THEN exec_ok] aud [unfolded record_audit_def wrapping_ok, THEN exec_ok]
    have "audit_log w' = audit_log w @ [\<lparr>ar_message = j, ar_from = state_text src,
        ar_to = state_text s, ar_actor = actor, ar_at = pg_time now\<rparr>]"
      "messages w' = map (\<lambda>(k, r). (k, if k = j then r\<lparr>mr_state := state_text s\<rparr> else r)) (messages w)"
      using moved(2) w1 by auto
    with row 2(1) u show ?thesis by (auto intro: accounted_move split: option.splits)
  qed
qed

text \<open>The administrator's calls, in the order their row locks let them through.\<close>

record move_call =
  mc_message :: string
  mc_state :: message_state
  mc_actor :: string
  mc_now :: time

fun run_moves :: "move_call list \<Rightarrow> 'w store_world_scheme \<Rightarrow> 'w store_world_scheme" where
  "run_moves [] w = w"
| "run_moves (c # cs) w =
     run_moves cs (snd (update_state (mc_message c) (mc_state c) (mc_actor c) (mc_now c) w))"

lemma run_moves_accounted: "accounted i w (run_moves cs w)"
  by (induction cs arbitrary: w) (auto intro: accounted_refl accounted_trans update_state_accounted)

text \<open>
  C13: whatever kill-switch calls are made and whatever fails, the audit log only grows, and the
  new entries of a message are a chain of allowed moves from the state it had to the state it has;
  nothing else of the message has changed. A message that is completed or archived is never active again.
\<close>

theorem kill_switch_audited:
  assumes "map_of (messages w) i = Some r"
  shows "\<exists>r' new. map_of (messages (run_moves cs w)) i = Some r' \<and> r' = r\<lparr>mr_state := mr_state r'\<rparr>
    \<and> audit_log (run_moves cs w) = audit_log w @ new
    \<and> audit_chain (row_state r) (entries_of i new) (row_state r')
    \<and> (StateCompleted \<le> row_state r \<longrightarrow> StateCompleted \<le> row_state r')"
  using run_moves_accounted [of i w cs] assms by (auto simp: accounted_def dest: audit_chain_after_end)

definition demo_store :: store_world where
  "demo_store = \<lparr>faults = [Done, Done, Done, Done, Unacked], rl_counts = (\<lambda>_. 0), rl_expiring = (\<lambda>_. False),
     events_log = [], next_seq = 1, topic = [], budgets = Map.empty,
     messages = [(''m'', \<lparr>mr_name = ''n'', mr_state = ''active'', mr_priority = 0, mr_start = 0, mr_end = 1000,
       mr_audience = None, mr_holdout = 0, mr_conversion = None, mr_version = 1, mr_salt = ''s''\<rparr>)],
     policies = [], trigger_rows = [], condition_rows = [], variant_rows = [], audit_log = [], change_log = [],
     change_seq = 1, id_supply = 0\<rparr>"

definition pause_call :: move_call where
  "pause_call = \<lparr>mc_message = ''m'', mc_state = StatePaused, mc_actor = ''a'', mc_now = 5000\<rparr>"

theorem kill_switch_audited_witness:
  "\<exists>r' new. map_of (messages (run_moves [pause_call] demo_store)) ''m'' = Some r' \<and> mr_state r' = ''paused''
    \<and> audit_chain StateActive (entries_of ''m'' new) (row_state r')"
proof -
  have "map_of (messages demo_store) ''m'' = Some (snd (hd (messages demo_store)))"
    by (simp add: demo_store_def)
  from kill_switch_audited [OF this, of "[pause_call]"] obtain r' new where
    r': "map_of (messages (run_moves [pause_call] demo_store)) ''m'' = Some r'"
    and chain: "audit_chain (row_state (snd (hd (messages demo_store)))) (entries_of ''m'' new) (row_state r')"
    by blast
  have "row_state (snd (hd (messages demo_store))) = StateActive"
    by (simp add: demo_store_def row_state_def state_of_text_def known_states_def)
  with chain have "audit_chain StateActive (entries_of ''m'' new) (row_state r')" by simp
  moreover from r' have "mr_state r' = ''paused''"
    by (auto simp: demo_store_def pause_call_def state_of_text_def known_states_def update_state_def
        in_tx_def update_state_tx_def and_then_def wrapping_def remote_def exec_def set_state_def record_audit_def
        can_transition_def)
  ultimately show ?thesis using r' by blast
qed

section \<open>A message reads back as it was written\<close>

definition unused_id :: "string \<Rightarrow> 'w store_world_scheme \<Rightarrow> bool" where
  "unused_id i w =
     (i \<notin> fst ` set (messages w) \<and> i \<notin> fst ` set (policies w) \<and> i \<notin> (fst \<circ> snd) ` set (trigger_rows w)
      \<and> i \<notin> (fst \<circ> snd) ` set (condition_rows w) \<and> i \<notin> (fst \<circ> snd) ` set (variant_rows w))"

definition with_version :: "message \<Rightarrow> message" where
  "with_version m = (if msg_version m = 0 then m\<lparr>msg_version := 1\<rparr> else m)"

definition storable_variant :: "variant \<Rightarrow> bool" where
  "storable_variant v =
     (fits_int4 (weight v) \<and> wf_content (variant_content v) \<and> min_int64 \<le> major (schema v) \<and> major (schema v) \<le> max_int64
      \<and> min_int64 \<le> minor (schema v) \<and> minor (schema v) \<le> max_int64)"

definition whole :: "duration \<Rightarrow> bool" where
  "whole d = (fits_int4 (whole_seconds d) \<and> d = whole_seconds d * second)"

definition message_storable :: "message \<Rightarrow> bool" where
  "message_storable m =
     (message_row_ok (row_of_message (with_version m) []) \<and> msg_state m \<in> set known_states
      \<and> pg_time (win_start (msg_window m)) = win_start (msg_window m)
      \<and> pg_time (win_end (msg_window m)) = win_end (msg_window m)
      \<and> fits_int4 (per_message_cap (policy m)) \<and> whole (min_interval_between (policy m))
      \<and> list_all (\<lambda>t. fits_int4 (occurrence_goal t)) (triggers m)
      \<and> list_all (\<lambda>d. condition_row_ok (row_of_condition d) \<and> whole (delay d)) (display_conditions m)
      \<and> list_all storable_variant (variants m))"

text \<open>A message without what the store generates.\<close>

definition unlabelled :: "message \<Rightarrow> message" where
  "unlabelled m = m\<lparr>msg_id := [], experiment_salt := [],
     triggers := map (\<lambda>t. t\<lparr>trigger_id := []\<rparr>) (triggers m),
     variants := map (\<lambda>v. v\<lparr>variant_id := [], variant_message := []\<rparr>) (variants m)\<rparr>"

lemma whole_roundtrip: "whole d \<Longrightarrow> wrap64 (whole_seconds d * second) = d"
  by (auto simp: whole_def fits_int4_def second_def min_int64_def max_int64_def intro: wrap64_id)

lemma insort_key_map: "insort_key k (f x) (map f xs) = map f (insort_key (k \<circ> f) x xs)"
  by (induction xs) auto

lemma sort_key_map: "sort_key k (map f xs) = map f (sort_key (k \<circ> f) xs)"
  by (induction xs) (simp_all add: insort_key_map o_def)

lemma rows_of_append: "i \<notin> (fst \<circ> snd) ` set old \<Longrightarrow> rows_of i (old @ map (\<lambda>x. (k x, i, f x)) xs)
    = map (\<lambda>x. (k x, i, f x)) (sort_key k xs)"
proof -
  assume "i \<notin> (fst \<circ> snd) ` set old"
  then have "filter (\<lambda>row. fst (snd row) = i) old = []" by (auto simp: filter_empty_conv)
  then show ?thesis by (simp add: rows_of_def filter_map o_def sort_key_map)
qed

lemma insert_triggers_calm:
  fixes w :: "'w store_world_scheme"
  assumes "faults w = []" "list_all (\<lambda>t. fits_int4 (occurrence_goal t)) ts"
  shows "\<exists>ts'. map_io (insert_trigger g i) ts w = (Inr ts', w\<lparr>trigger_rows := trigger_rows w
      @ map (\<lambda>t. (trigger_id t, i, t)) ts', id_supply := id_supply w + length ts\<rparr>)
    \<and> map (\<lambda>t. t\<lparr>trigger_id := []\<rparr>) ts' = map (\<lambda>t. t\<lparr>trigger_id := []\<rparr>) ts"
  using assms
proof (induction ts arbitrary: w)
  case (Cons t ts)
  let ?t = "t\<lparr>trigger_id := gen_uuid g (id_supply w)\<rparr>"
  let ?w = "w\<lparr>trigger_rows := trigger_rows w @ [(trigger_id ?t, i, ?t)], id_supply := Suc (id_supply w)\<rparr>"
  from Cons.prems have 1: "insert_trigger g i t w = (Inr ?t, ?w)"
    by (simp add: insert_trigger_def checked_def wrapping_Inr remote_calm Let_def)
  from Cons.prems have "faults ?w = []" "list_all (\<lambda>t. fits_int4 (occurrence_goal t)) ts" by simp_all
  from Cons.IH [OF this] obtain ts' where "map_io (insert_trigger g i) ts ?w = (Inr ts', ?w\<lparr>trigger_rows := trigger_rows ?w
      @ map (\<lambda>t. (trigger_id t, i, t)) ts', id_supply := id_supply ?w + length ts\<rparr>)"
    "map (\<lambda>t. t\<lparr>trigger_id := []\<rparr>) ts' = map (\<lambda>t. t\<lparr>trigger_id := []\<rparr>) ts" by blast
  with 1 show ?case by (intro exI [of _ "?t # ts'"]) (simp add: and_then_def)
qed simp

lemma insert_conditions_calm:
  fixes w :: "'w store_world_scheme"
  assumes "faults w = []" "list_all (\<lambda>d. condition_row_ok (row_of_condition d)) ds"
  shows "\<exists>rs. for_each (insert_condition g i) ds w = (Inr (), w\<lparr>condition_rows := condition_rows w
      @ map (\<lambda>r. (fst r, i, row_of_condition (snd r))) rs, id_supply := id_supply w + length ds\<rparr>)
    \<and> map snd rs = ds"
  using assms
proof (induction ds arbitrary: w)
  case (Cons d ds)
  let ?w = "w\<lparr>condition_rows := condition_rows w @ [(gen_uuid g (id_supply w), i, row_of_condition d)],
    id_supply := Suc (id_supply w)\<rparr>"
  from Cons.prems have 1: "insert_condition g i d w = (Inr (), ?w)"
    by (simp add: insert_condition_def checked_def wrapping_Inr remote_calm)
  from Cons.prems have "faults ?w = []" "list_all (\<lambda>d. condition_row_ok (row_of_condition d)) ds" by simp_all
  from Cons.IH [OF this] obtain rs where "for_each (insert_condition g i) ds ?w = (Inr (),
      ?w\<lparr>condition_rows := condition_rows ?w @ map (\<lambda>r. (fst r, i, row_of_condition (snd r))) rs,
         id_supply := id_supply ?w + length ds\<rparr>)" "map snd rs = ds" by blast
  with 1 show ?case
    by (auto simp: and_then_def intro!: exI [of _ "(gen_uuid g (id_supply w), d) # rs"])
qed simp

text \<open>A display condition whose screens were left out, or given as null, is refused by the database, and so is its message.\<close>

lemma nil_screens_refused:
  "screens d = None \<Longrightarrow> \<not> is_ok (fst (insert_condition g i d w))"
  by (auto simp: insert_condition_def checked_def condition_row_ok_def row_of_condition_def wrapping_def remote_def
      split: prod.split sum.split list.split outcome.split)

lemma insert_variants_calm:
  fixes w :: "'w store_world_scheme"
  assumes "faults w = []" "list_all storable_variant vs"
  shows "\<exists>vs'. map_io (insert_variant g i) vs w = (Inr vs', w\<lparr>variant_rows := variant_rows w
      @ map (\<lambda>v. (variant_id v, i, row_of_variant v)) vs', id_supply := id_supply w + length vs\<rparr>)
    \<and> map (\<lambda>v. v\<lparr>variant_id := [], variant_message := []\<rparr>) vs'
      = map (\<lambda>v. v\<lparr>variant_id := [], variant_message := []\<rparr>) vs
    \<and> (\<forall>v\<in>set vs'. variant_message v = i \<and> storable_variant v)"
  using assms
proof (induction vs arbitrary: w)
  case (Cons v vs)
  let ?v = "v\<lparr>variant_message := i, variant_id := gen_uuid g (id_supply w)\<rparr>"
  let ?w = "w\<lparr>variant_rows := variant_rows w @ [(variant_id ?v, i, row_of_variant ?v)], id_supply := Suc (id_supply w)\<rparr>"
  have "row_of_variant ?v = row_of_variant v"
    by (simp add: row_of_variant_def marshal_content_column_def)
  with Cons.prems have 1: "insert_variant g i v w = (Inr ?v, ?w)"
    by (simp add: insert_variant_def checked_def wrapping_Inr remote_calm Let_def storable_variant_def)
  from Cons.prems have "faults ?w = []" "list_all storable_variant vs" by simp_all
  moreover from Cons.prems have "storable_variant ?v" by (simp add: storable_variant_def)
  ultimately obtain vs' where "map_io (insert_variant g i) vs ?w = (Inr vs', ?w\<lparr>variant_rows := variant_rows ?w
      @ map (\<lambda>v. (variant_id v, i, row_of_variant v)) vs', id_supply := id_supply ?w + length vs\<rparr>)"
    "map (\<lambda>v. v\<lparr>variant_id := [], variant_message := []\<rparr>) vs'
      = map (\<lambda>v. v\<lparr>variant_id := [], variant_message := []\<rparr>) vs"
    "\<forall>v\<in>set vs'. variant_message v = i \<and> storable_variant v" "storable_variant ?v" using Cons.IH [of ?w] by blast
  with 1 show ?case by (intro exI [of _ "?v # vs'"]) (simp add: and_then_def)
qed simp

lemma variant_of_own_row:
  assumes "storable_variant v" "variant_message v = i"
  shows "variant_of_row (variant_id v, i, row_of_variant v) = Inr v"
  using assms by (simp add: variant_of_row_def row_of_variant_def storable_variant_def content_column_step blank_variant_def)

text \<open>The world after a message's rows are in.\<close>

lemma insert_message_calm:
  fixes w :: "'w store_world_scheme"
  assumes "faults w = []" "message_storable m" and fresh: "unused_id (gen_uuid g (id_supply w)) w"
  shows "\<exists>ts rs vs n. let i = gen_uuid g (id_supply w); m0 = with_version m;
      m' = m0\<lparr>msg_id := i, experiment_salt := gen_salt g (id_supply w), triggers := ts, variants := vs\<rparr>
    in insert_message g m w = (Inr m', w\<lparr>
         messages := messages w @ [(i, row_of_message m0 (gen_salt g (id_supply w)))],
         policies := policies w @ [(i, row_of_policy (policy m))],
         trigger_rows := trigger_rows w @ map (\<lambda>t. (trigger_id t, i, t)) ts,
         condition_rows := condition_rows w @ map (\<lambda>r. (fst r, i, row_of_condition (snd r))) rs,
         variant_rows := variant_rows w @ map (\<lambda>v. (variant_id v, i, row_of_variant v)) vs,
         id_supply := n\<rparr>)
      \<and> unlabelled m' = unlabelled m0 \<and> map snd rs = display_conditions m
      \<and> (\<forall>v\<in>set vs. variant_message v = i \<and> storable_variant v)"
proof -
  define i where "i = gen_uuid g (id_supply w)"
  define s where "s = gen_salt g (id_supply w)"
  define m0 where "m0 = with_version m"
  define w1 where "w1 = w\<lparr>messages := messages w @ [(i, row_of_message m0 s)], id_supply := Suc (id_supply w)\<rparr>"
  define w2 where "w2 = w1\<lparr>policies := policies w1 @ [(i, row_of_policy (policy m))]\<rparr>"
  have m0: "(if msg_version m = 0 then m\<lparr>msg_version := 1\<rparr> else m) = m0" "policy m0 = policy m"
    "triggers m0 = triggers m" "display_conditions m0 = display_conditions m" "variants m0 = variants m"
    by (simp_all add: m0_def with_version_def)
  note st = assms(2) [unfolded message_storable_def, folded m0_def]
  from st have ok: "message_row_ok (row_of_message m0 [])" by simp
  have "i \<notin> fst ` set (messages w)" using fresh by (simp add: unused_id_def i_def)
  then have 1: "insert_message_row g m0 w = (Inr (m0\<lparr>msg_id := i, experiment_salt := s\<rparr>), w1)"
    by (simp add: insert_message_row_def checked_def ok wrapping_Inr remote_calm assms(1) Let_def w1_def i_def s_def)
  from st have "fits_int4 (pr_cap (row_of_policy (policy m)))" "fits_int4 (pr_interval (row_of_policy (policy m)))"
    by (simp_all add: row_of_policy_def whole_def)
  then have 2: "insert_policy (m0\<lparr>msg_id := i, experiment_salt := s\<rparr>) w1 = (Inr (), w2)"
    by (simp add: insert_policy_def checked_def wrapping_Inr remote_calm assms(1) w1_def w2_def m0)
  have "faults w2 = []" "list_all (\<lambda>t. fits_int4 (occurrence_goal t)) (triggers m)"
    using st assms(1) by (simp_all add: w2_def w1_def)
  from insert_triggers_calm [OF this, of g i] obtain ts where 3: "map_io (insert_trigger g i) (triggers m) w2 = (Inr ts,
      w2\<lparr>trigger_rows := trigger_rows w2 @ map (\<lambda>t. (trigger_id t, i, t)) ts, id_supply := id_supply w2 + length (triggers m)\<rparr>)"
    "map (\<lambda>t. t\<lparr>trigger_id := []\<rparr>) ts = map (\<lambda>t. t\<lparr>trigger_id := []\<rparr>) (triggers m)" by blast
  define w3 where "w3 = w2\<lparr>trigger_rows := trigger_rows w2 @ map (\<lambda>t. (trigger_id t, i, t)) ts, id_supply := id_supply w2 + length (triggers m)\<rparr>"
  have "faults w3 = []" "list_all (\<lambda>d. condition_row_ok (row_of_condition d)) (display_conditions m)"
    using st assms(1) by (auto simp: w3_def w2_def w1_def list_all_iff)
  from insert_conditions_calm [OF this, of g i] obtain rs where 4: "for_each (insert_condition g i) (display_conditions m) w3 = (Inr (),
      w3\<lparr>condition_rows := condition_rows w3 @ map (\<lambda>r. (fst r, i, row_of_condition (snd r))) rs,
         id_supply := id_supply w3 + length (display_conditions m)\<rparr>)" "map snd rs = display_conditions m" by blast
  define w4 where "w4 = w3\<lparr>condition_rows := condition_rows w3 @ map (\<lambda>r. (fst r, i, row_of_condition (snd r))) rs,
      id_supply := id_supply w3 + length (display_conditions m)\<rparr>"
  have "faults w4 = []" "list_all storable_variant (variants m)"
    using st assms(1) by (simp_all add: w4_def w3_def w2_def w1_def)
  from insert_variants_calm [OF this, of g i] obtain vs where 5: "map_io (insert_variant g i) (variants m) w4 = (Inr vs,
      w4\<lparr>variant_rows := variant_rows w4 @ map (\<lambda>v. (variant_id v, i, row_of_variant v)) vs,
         id_supply := id_supply w4 + length (variants m)\<rparr>)"
    "map (\<lambda>v. v\<lparr>variant_id := [], variant_message := []\<rparr>) vs
      = map (\<lambda>v. v\<lparr>variant_id := [], variant_message := []\<rparr>) (variants m)"
    "\<forall>v\<in>set vs. variant_message v = i \<and> storable_variant v" by blast
  define w5 where "w5 = w4\<lparr>variant_rows := variant_rows w4 @ map (\<lambda>v. (variant_id v, i, row_of_variant v)) vs,
      id_supply := id_supply w4 + length (variants m)\<rparr>"
  have "insert_message g m w = (Inr (m0\<lparr>msg_id := i, experiment_salt := s, triggers := ts, variants := vs\<rparr>), w5)"
    unfolding insert_message_def m0
  proof (rule in_tx_calm [OF assms(1)])
    show "faults w5 = []" using assms(1) by (simp add: w5_def w4_def w3_def w2_def w1_def)
  qed (use 1 2 3(1) [folded w3_def] 4(1) [folded w4_def] 5(1) [folded w5_def] in \<open>simp add: and_then_def m0\<close>)
  moreover have "unlabelled (m0\<lparr>msg_id := i, experiment_salt := s, triggers := ts, variants := vs\<rparr>) = unlabelled m0"
    using 3(2) 5(2) by (simp add: unlabelled_def m0)
  moreover have "w5 = w\<lparr>messages := messages w @ [(i, row_of_message m0 s)],
      policies := policies w @ [(i, row_of_policy (policy m))],
      trigger_rows := trigger_rows w @ map (\<lambda>t. (trigger_id t, i, t)) ts,
      condition_rows := condition_rows w @ map (\<lambda>r. (fst r, i, row_of_condition (snd r))) rs,
      variant_rows := variant_rows w @ map (\<lambda>v. (variant_id v, i, row_of_variant v)) vs,
      id_supply := id_supply w5\<rparr>"
    by (simp add: w5_def w4_def w3_def w2_def w1_def)
  ultimately show ?thesis
    using 4(2) 5(3) unfolding Let_def i_def [symmetric] s_def [symmetric] m0_def [symmetric]
    by (intro exI [of _ ts] exI [of _ rs] exI [of _ vs] exI [of _ "id_supply w5"]) simp
qed

lemma map_of_fresh: "i \<notin> fst ` set t \<Longrightarrow> map_of (t @ [(i, x)]) i = Some x"
  by (induction t) auto

lemma message_of_own_row:
  assumes "msg_state m \<in> set known_states" "pg_time (win_start (msg_window m)) = win_start (msg_window m)"
    "pg_time (win_end (msg_window m)) = win_end (msg_window m)"
  shows "(message_of_row i (row_of_message m s))\<lparr>policy := p, triggers := ts, display_conditions := ds, variants := vs\<rparr>
    = m\<lparr>msg_id := i, experiment_salt := s, policy := p, triggers := ts, display_conditions := ds, variants := vs\<rparr>"
  using assms state_of_state_text [OF assms(1)]
  by (cases m) (auto simp: message_of_row_def row_of_message_def empty_message_def)

lemma get_own_message:
  fixes w :: "'w store_world_scheme" and m :: message
  assumes "faults w = []" "message_storable m" "unused_id i w" and m0: "m0 = with_version m"
    and vs: "\<forall>v\<in>set vs. variant_message v = i \<and> storable_variant v"
    and w': "w' = w\<lparr>messages := messages w @ [(i, row_of_message m0 s)],
         policies := policies w @ [(i, row_of_policy (policy m))],
         trigger_rows := trigger_rows w @ map (\<lambda>t. (trigger_id t, i, t)) ts,
         condition_rows := condition_rows w @ map (\<lambda>r. (fst r, i, row_of_condition (snd r))) rs,
         variant_rows := variant_rows w @ map (\<lambda>v. (variant_id v, i, row_of_variant v)) vs, id_supply := n\<rparr>"
    and rs: "map snd rs = display_conditions m"
  shows "get_message i w' = (Inr (m0\<lparr>msg_id := i, experiment_salt := s, triggers := sort_key trigger_id ts,
      display_conditions := map snd (sort_key fst rs), variants := sort_key variant_id vs\<rparr>), w')"
proof -
  from assms(1) have calm: "faults w' = []" by (simp add: w')
  from assms(3) have un: "i \<notin> fst ` set (messages w)" "i \<notin> fst ` set (policies w)"
    "i \<notin> (fst \<circ> snd) ` set (trigger_rows w)" "i \<notin> (fst \<circ> snd) ` set (condition_rows w)"
    "i \<notin> (fst \<circ> snd) ` set (variant_rows w)" by (simp_all add: unused_id_def)
  note st = assms(2) [unfolded message_storable_def, folded m0]
  have m0': "msg_state m0 = msg_state m" "msg_window m0 = msg_window m" "policy m0 = policy m"
    by (simp_all add: m0 with_version_def)
  have 1: "map_of (messages w') i = Some (row_of_message m0 s)"
    "map_of (policies w') i = Some (row_of_policy (policy m))"
    using un(1,2) map_of_fresh by (simp_all add: w' del: map_of_append)
  have 2: "map (snd \<circ> snd) (rows_of i (trigger_rows w')) = sort_key trigger_id ts"
    using un(3) by (simp add: w' rows_of_append o_def)
  have "\<forall>r\<in>set rs. condition_of_row (row_of_condition (snd r)) = snd r"
  proof
    fix r assume "r \<in> set rs"
    then have "snd r \<in> set (display_conditions m)" by (simp add: rs [symmetric])
    with st show "condition_of_row (row_of_condition (snd r)) = snd r"
      by (auto simp: list_all_iff condition_of_row_def row_of_condition_def whole_roundtrip)
  qed
  then have 3: "map (condition_of_row \<circ> snd \<circ> snd) (rows_of i (condition_rows w')) = map snd (sort_key fst rs)"
    using un(4) by (simp add: w' rows_of_append o_def)
  have "map_result variant_of_row (map (\<lambda>v. (variant_id v, i, row_of_variant v)) (sort_key variant_id vs))
      = Inr (sort_key variant_id vs)"
    using vs by (intro map_result_roundtrip) (auto intro: variant_of_own_row)
  then have 4: "map_result variant_of_row (rows_of i (variant_rows w')) = Inr (sort_key variant_id vs)"
    using un(5) by (simp add: w' rows_of_append)
  have pol: "policy_of_row (row_of_policy (policy m)) = policy m"
    using st by (cases "policy m") (simp add: policy_of_row_def row_of_policy_def whole_roundtrip)
  have "get_message i w' = (Inr ((message_of_row i (row_of_message m0 s))\<lparr>policy := policy m,
      triggers := sort_key trigger_id ts, display_conditions := map snd (sort_key fst rs),
      variants := sort_key variant_id vs\<rparr>), w')"
    by (simp add: get_message_def and_then_def wrapping_def remote_calm query_calm calm 1 2 3 4 pol)
  also have "(message_of_row i (row_of_message m0 s))\<lparr>policy := policy m, triggers := sort_key trigger_id ts,
      display_conditions := map snd (sort_key fst rs), variants := sort_key variant_id vs\<rparr>
    = m0\<lparr>msg_id := i, experiment_salt := s, policy := policy m, triggers := sort_key trigger_id ts,
      display_conditions := map snd (sort_key fst rs), variants := sort_key variant_id vs\<rparr>"
    using st by (intro message_of_own_row) (simp_all add: m0')
  also have "\<dots> = m0\<lparr>msg_id := i, experiment_salt := s, triggers := sort_key trigger_id ts,
      display_conditions := map snd (sort_key fst rs), variants := sort_key variant_id vs\<rparr>"
    by (cases m0) (use m0'(3) in simp)
  finally show ?thesis .
qed

text \<open>
  C21: a message whose values fit its columns, the screens of its display conditions given, is inserted, and reading it by the identifier it
  was given returns it: the same fields, with the triggers and the variants in the order of their
  generated identifiers and the display conditions in some order. Only the identifiers, the salt
  and a zero version differ from what was inserted.
\<close>

theorem store_roundtrip:
  assumes "faults w = []" "message_storable m" "unused_id (gen_uuid g (id_supply w)) w"
  shows "\<exists>m' w' ds. insert_message g m w = (Inr m', w') \<and> unlabelled m' = unlabelled (with_version m)
    \<and> get_message (msg_id m') w' = (Inr (m'\<lparr>triggers := sort_key trigger_id (triggers m'), display_conditions := ds,
         variants := sort_key variant_id (variants m')\<rparr>), w')
    \<and> mset ds = mset (display_conditions m)"
proof -
  define i where "i = gen_uuid g (id_supply w)"
  define s where "s = gen_salt g (id_supply w)"
  define m0 where "m0 = with_version m"
  from insert_message_calm [OF assms, folded i_def s_def m0_def, unfolded Let_def]
  obtain ts rs vs n where ins: "insert_message g m w = (Inr (m0\<lparr>msg_id := i, experiment_salt := s, triggers := ts, variants := vs\<rparr>),
      w\<lparr>messages := messages w @ [(i, row_of_message m0 s)],
         policies := policies w @ [(i, row_of_policy (policy m))],
         trigger_rows := trigger_rows w @ map (\<lambda>t. (trigger_id t, i, t)) ts,
         condition_rows := condition_rows w @ map (\<lambda>r. (fst r, i, row_of_condition (snd r))) rs,
         variant_rows := variant_rows w @ map (\<lambda>v. (variant_id v, i, row_of_variant v)) vs, id_supply := n\<rparr>)"
    and same: "unlabelled (m0\<lparr>msg_id := i, experiment_salt := s, triggers := ts, variants := vs\<rparr>) = unlabelled m0"
    and rs: "map snd rs = display_conditions m" and vs: "\<forall>v\<in>set vs. variant_message v = i \<and> storable_variant v"
    by blast
  from get_own_message [OF assms(1,2) assms(3) [folded i_def] m0_def vs refl rs]
  have "get_message i (snd (insert_message g m w)) = (Inr (m0\<lparr>msg_id := i, experiment_salt := s,
      triggers := sort_key trigger_id ts, display_conditions := map snd (sort_key fst rs),
      variants := sort_key variant_id vs\<rparr>), snd (insert_message g m w))"
    by (simp add: ins)
  moreover have "mset (map snd (sort_key fst rs)) = mset (display_conditions m)"
    by (simp add: rs [symmetric])
  ultimately show ?thesis
    using ins same by (intro exI [of _ "m0\<lparr>msg_id := i, experiment_salt := s, triggers := ts, variants := vs\<rparr>"]
        exI [of _ "snd (insert_message g m w)"] exI [of _ "map snd (sort_key fst rs)"])
      (simp add: m0_def)
qed

definition demo_gen :: db_gen where
  "demo_gen = \<lparr>gen_uuid = (\<lambda>n. replicate n CHR ''u''), gen_salt = (\<lambda>_. ''salt'')\<rparr>"

definition demo_message :: message where
  "demo_message = empty_message\<lparr>msg_name := ''Hello'', msg_state := StateDraft,
     msg_window := \<lparr>win_start = 1000, win_end = 2000\<rparr>,
     policy := \<lparr>per_message_cap = 3, min_interval_between = 60 * second, exempt_from_project_cap = False,
                requires_server_confirmation = True\<rparr>,
     triggers := [\<lparr>trigger_id = [], trigger_kind = ''app_open'', occurrence_goal = 1, event_predicate = []\<rparr>],
     display_conditions := [\<lparr>delay = 60 * second, screen_filter_mode = ''deny'', screens = Some [''cart''],
                             connectivity_required = ''any''\<rparr>],
     variants := [demo_variant]\<rparr>"

lemma demo_storable: "message_storable demo_message"
  using whole_seconds_exact [of 60]
  by (simp add: message_storable_def demo_message_def empty_message_def with_version_def row_of_message_def
      message_row_ok_def pg_time_def fits_int4_def known_states_def whole_def condition_row_ok_def row_of_condition_def
      storable_variant_def demo_variant_def demo_presentation_def wf_presentation_def empty_presentation_def
      wf_action_def canonical_def fl_eight min_int64_def max_int64_def)

theorem store_roundtrip_witness:
  "\<exists>m' w' ds. insert_message demo_gen demo_message (demo_store\<lparr>faults := []\<rparr>) = (Inr m', w')
    \<and> unlabelled m' = unlabelled (with_version demo_message)
    \<and> get_message (msg_id m') w' = (Inr (m'\<lparr>triggers := sort_key trigger_id (triggers m'), display_conditions := ds,
         variants := sort_key variant_id (variants m')\<rparr>), w')
    \<and> mset ds = mset (display_conditions demo_message)"
  by (rule store_roundtrip [OF _ demo_storable])
    (simp_all add: unused_id_def demo_gen_def demo_store_def)

end
