(* ===== verification/Membership.thy ===== *)
theory Membership
  imports Store SqlCompile Eval Fnv Text
begin

text \<open>
  \<^verbatim>\<open>internal/membership\<close>: channel ordinals, segments, the forward index of a segment's channels by
  generation, the reverse index of a channel's segments in Redis, the batch recomputation that
  rebuilds both, and the update of one channel. A Roaring bitmap is the set of its values; its
  bytes, which only the fingerprint looks at, are a parameter.
\<close>

section \<open>The tables and the keys\<close>

type_synonym bitmap = "nat set"

record channel_row =
  chan_attributes :: json
  chan_credential :: "string option"
  chan_major :: int

record ordinal_row =
  or_ordinal :: int
  or_retired :: bool

record segment_row =
  sr_id :: string
  sr_ordinal :: int
  sr_name :: string
  sr_source :: string
  sr_tree :: string
  sr_mode :: string

record membership_world = store_world +
  channel_rows :: "(string \<times> channel_row) list"
  ordinal_rows :: "(string \<times> ordinal_row) list"
  ordinal_next :: int
  segment_rows :: "segment_row list"
  segment_next :: int
  forward_rows :: "((string \<times> int) \<times> bitmap) list"
  generation :: int
  reverse_keys :: "(string \<times> bitmap) list"

type_synonym ('w, 'a) member_io = "'w membership_world_scheme \<Rightarrow> 'a result \<times> 'w membership_world_scheme"

section \<open>Ordinals\<close>

text \<open>
  \<^verbatim>\<open>INSERT ... ON CONFLICT DO UPDATE ... RETURNING\<close>: the default of the column is drawn from its
  sequence before the conflict is found.
\<close>

definition allocate_ordinal :: "string \<Rightarrow> ('w, int) member_io" where
  "allocate_ordinal c = wrapping ''ordinal: allocate'' (remote (\<lambda>w.
     let w' = w\<lparr>ordinal_next := ordinal_next w + 1\<rparr>
     in case map_of (ordinal_rows w) c of
          Some r \<Rightarrow> (Inr (or_ordinal r), w')
        | None \<Rightarrow>
            if c \<in> fst ` set (channel_rows w) then
              (Inr (ordinal_next w),
               w'\<lparr>ordinal_rows := ordinal_rows w @ [(c, \<lparr>or_ordinal = ordinal_next w, or_retired = False\<rparr>)]\<rparr>)
            else (Inl IOFailure, w')))"

definition retire_ordinal :: "string \<Rightarrow> ('w, unit) member_io" where
  "retire_ordinal c =
     and_then (wrapping ''ordinal: retire channel'' (remote (\<lambda>w.
         (Inr (length (filter (\<lambda>row. fst row = c) (ordinal_rows w))),
          w\<lparr>ordinal_rows := map (\<lambda>(d, r). (d, if d = c then r\<lparr>or_retired := True\<rparr> else r)) (ordinal_rows w)\<rparr>))))
       (\<lambda>affected. if affected = 0 then fail (Errorf ''ordinal: retire channel: no ordinal allocated'') else ret ())"

definition lookup_ordinal :: "string \<Rightarrow> ('w, int) member_io" where
  "lookup_ordinal c =
     and_then (wrapping ''ordinal: lookup channel'' (query (\<lambda>w. map_of (ordinal_rows w) c)))
       (\<lambda>row. case row of
          None \<Rightarrow> fail (Errorf ''ordinal: lookup channel: no ordinal allocated'')
        | Some r \<Rightarrow> if or_retired r then fail (Wrap ''ordinal: lookup channel'' (Sentinel ErrRetired))
            else ret (or_ordinal r))"

section \<open>Segments\<close>

definition RefreshIncremental :: string where "RefreshIncremental = ''incremental''"
definition RefreshBatchOnly :: string where "RefreshBatchOnly = ''batch_only''"

record segment =
  seg_id :: string
  seg_ordinal :: int
  seg_name :: string
  seg_predicate :: predicate
  refresh_mode :: string

definition references_event_aggregate :: "cel_expr \<Rightarrow> registry \<Rightarrow> bool" where
  "references_event_aggregate a reg =
     list_ex (\<lambda>e. case e of
        IdentE name \<Rightarrow> (case lookup_attribute reg name of
          Some d \<Rightarrow> attr_source d = SourceEventAggregate | None \<Rightarrow> False)
      | _ \<Rightarrow> False) (pre_order a)"

text \<open>\<open>jsonb\<close> is what a \<^verbatim>\<open>jsonb\<close> column gives back for a document it was given.\<close>

definition save_segment ::
  "(string \<Rightarrow> cel_expr result) \<Rightarrow> (cel_expr \<Rightarrow> string result) \<Rightarrow> (string \<Rightarrow> cel_expr result) \<Rightarrow> (string \<Rightarrow> string)
     \<Rightarrow> db_gen \<Rightarrow> registry \<Rightarrow> string \<Rightarrow> string \<Rightarrow> ('w, segment) member_io" where
  "save_segment parse serialise ds jsonb g reg name src =
     and_then (of_result (compile_predicate parse serialise reg src)) (\<lambda>p.
       and_then (of_result (load_predicate ds p)) (\<lambda>a.
         let mode = (if references_event_aggregate a reg then RefreshBatchOnly else RefreshIncremental)
         in wrapping ''segment: save'' (remote (\<lambda>w.
              let i = gen_uuid g (id_supply w); o' = segment_next w
              in (Inr \<lparr>seg_id = i, seg_ordinal = o', seg_name = name, seg_predicate = p, refresh_mode = mode\<rparr>,
                  w\<lparr>segment_rows := segment_rows w @ [\<lparr>sr_id = i, sr_ordinal = o', sr_name = name,
                       sr_source = pred_source p, sr_tree = jsonb (pred_tree p), sr_mode = mode\<rparr>],
                    segment_next := segment_next w + 1, id_supply := Suc (id_supply w)\<rparr>)))))"

text \<open>A segment that is read back has no hash: its zero value is the empty string.\<close>

definition segment_of_row :: "segment_row \<Rightarrow> segment" where
  "segment_of_row r =
     \<lparr>seg_id = sr_id r, seg_ordinal = sr_ordinal r, seg_name = sr_name r,
      seg_predicate = \<lparr>pred_source = sr_source r, pred_tree = sr_tree r, pred_hash = []\<rparr>, refresh_mode = sr_mode r\<rparr>"

definition get_segment :: "string \<Rightarrow> ('w, segment) member_io" where
  "get_segment i = wrapping ''segment: get'' (remote (\<lambda>w.
     (case filter (\<lambda>r. sr_id r = i) (segment_rows w) of
        [] \<Rightarrow> Inl (Sentinel ErrNoRows) | r # _ \<Rightarrow> Inr (segment_of_row r), w)))"

definition list_segments :: "('w, segment list) member_io" where
  "list_segments = wrapping ''segment: list'' (query (\<lambda>w. map segment_of_row (sort_key sr_id (segment_rows w))))"

section \<open>The forward index\<close>

definition current_generation :: "('w, int) member_io" where
  "current_generation = wrapping ''forward: read current generation'' (query generation)"

definition bitmap_at :: "string \<Rightarrow> int \<Rightarrow> ('w, bitmap) member_io" where
  "bitmap_at s g = wrapping ''forward: read bitmap'' (query (\<lambda>w.
     case map_of (forward_rows w) (s, g) of None \<Rightarrow> {} | Some b \<Rightarrow> b))"

definition current_bitmap :: "string \<Rightarrow> ('w, bitmap) member_io" where
  "current_bitmap s = and_then current_generation (bitmap_at s)"

section \<open>The reverse index\<close>

definition reverse_key :: "string \<Rightarrow> string" where
  "reverse_key c = ''membership:reverse:'' @ c"

definition get_reverse :: "string \<Rightarrow> ('w, bitmap) member_io" where
  "get_reverse c = wrapping ''reverse: get channel'' (query (\<lambda>w.
     case map_of (reverse_keys w) (reverse_key c) of None \<Rightarrow> {} | Some b \<Rightarrow> b))"

definition set_reverse :: "string \<Rightarrow> bitmap \<Rightarrow> ('w, unit) member_io" where
  "set_reverse c b = wrapping ''reverse: set channel'' (exec (\<lambda>w.
     w\<lparr>reverse_keys := upsert (\<lambda>_. b) (reverse_key c) (reverse_keys w)\<rparr>))"

definition reverse_hash :: "(bitmap \<Rightarrow> string) \<Rightarrow> bitmap \<Rightarrow> string" where
  "reverse_hash marshal b = hex_of_nat (unat (fnv64a (marshal b)))"

text \<open>One \<^verbatim>\<open>MULTI\<close>/\<^verbatim>\<open>EXEC\<close>: all of the keys or none.\<close>

definition set_many_reverse :: "(string \<times> bitmap) list \<Rightarrow> ('w, unit) member_io" where
  "set_many_reverse bs =
     (if bs = [] then ret ()
      else wrapping ''reverse: set channels'' (exec (\<lambda>w.
        w\<lparr>reverse_keys := foldl (\<lambda>ks (c, b). upsert (\<lambda>_. b) (reverse_key c) ks) (reverse_keys w) bs\<rparr>)))"

section \<open>Recomputation\<close>

record recompute_report =
  rep_generation :: int
  rep_disagreements :: "(string \<times> int) list"

text \<open>
  \<open>holds\<close> is the database's answer to a compiled condition on a channel, its identifier and its
  row. The rows come in no order, since they are only collected.
\<close>

type_synonym sql_answer = "string \<times> sql_arg list \<Rightarrow> string \<times> channel_row \<Rightarrow> bool"

definition matching_ordinals :: "sql_answer \<Rightarrow> string \<times> sql_arg list \<Rightarrow> 'w membership_world_scheme \<Rightarrow> int list" where
  "matching_ordinals holds q w =
     map (or_ordinal \<circ> snd)
       (filter (\<lambda>(c, r). \<not> or_retired r
          \<and> (case map_of (channel_rows w) c of None \<Rightarrow> False | Some ch \<Rightarrow> holds q (c, ch))) (ordinal_rows w))"

definition max_uint32 :: int where "max_uint32 = 4294967295"

fun collect_ordinals :: "int list \<Rightarrow> bitmap \<Rightarrow> bitmap result" where
  "collect_ordinals [] b = Inr b"
| "collect_ordinals (o' # os) b =
     (if o' < 0 \<or> o' > max_uint32 then Inl (Errorf ''channel ordinal exceeds the 32-bit range this index supports'')
      else collect_ordinals os (insert (to_uint32 o') b))"

definition recompute_segment ::
  "(string \<Rightarrow> cel_expr result) \<Rightarrow> (string \<Rightarrow> time option) \<Rightarrow> sql_answer \<Rightarrow> registry \<Rightarrow> segment \<Rightarrow> ('w, bitmap) member_io" where
  "recompute_segment ds pt holds reg s =
     and_then (of_result (load_predicate ds (seg_predicate s))) (\<lambda>a.
       and_then (of_result (compile_to_sql pt reg a)) (\<lambda>q.
         and_then (wrapping ''query matching channels'' (query (matching_ordinals holds q))) (\<lambda>os.
           of_result (collect_ordinals os {}))))"

definition load_channel_ordinals :: "('w, (int \<times> string) list) member_io" where
  "load_channel_ordinals = wrapping ''batch: load channel ordinals'' (query (\<lambda>w.
     map (\<lambda>(c, r). (or_ordinal r, c)) (filter (\<lambda>(c, r). \<not> or_retired r) (ordinal_rows w))))"

definition mark_segment :: "int \<Rightarrow> bitmap \<Rightarrow> (int \<times> bitmap) list \<Rightarrow> (int \<times> bitmap) list" where
  "mark_segment segOrdinal members acc =
     map (\<lambda>(o', b). (o', if o' \<in> int ` members then insert (to_uint32 segOrdinal) b else b)) acc"

definition xor_bitmap :: "bitmap \<Rightarrow> bitmap \<Rightarrow> bitmap" where
  "xor_bitmap a b = (a - b) \<union> (b - a)"

fun recompute_segments ::
  "(string \<Rightarrow> cel_expr result) \<Rightarrow> (string \<Rightarrow> time option) \<Rightarrow> sql_answer \<Rightarrow> registry \<Rightarrow> int \<Rightarrow> segment list
     \<Rightarrow> (int \<times> bitmap) list \<Rightarrow> ('w, (string \<times> bitmap) list \<times> (string \<times> int) list \<times> (int \<times> bitmap) list) member_io" where
  "recompute_segments ds pt holds reg g [] acc = ret ([], [], acc)"
| "recompute_segments ds pt holds reg g (s # ss) acc =
     and_then (wrapping ''batch: recompute segment'' (recompute_segment ds pt holds reg s)) (\<lambda>new.
       and_then (wrapping ''batch: read prior bitmap for segment'' (bitmap_at (seg_id s) g)) (\<lambda>old.
         and_then (recompute_segments ds pt holds reg g ss (mark_segment (seg_ordinal s) new acc)) (\<lambda>(bs, dis, acc').
           ret ((seg_id s, new) # bs, (seg_id s, int (card (xor_bitmap old new))) # dis, acc'))))"

text \<open>The primary key of the table is the segment and the generation.\<close>

definition write_bitmap :: "int \<Rightarrow> string \<times> bitmap \<Rightarrow> ('w, unit) member_io" where
  "write_bitmap g sb = wrapping ''batch: write bitmap for segment'' (remote (\<lambda>w.
     if (fst sb, g) \<in> fst ` set (forward_rows w) then (Inl IOFailure, w)
     else (Inr (), w\<lparr>forward_rows := forward_rows w @ [((fst sb, g), snd sb)]\<rparr>)))"

definition swap_generation :: "int \<Rightarrow> (string \<times> bitmap) list \<Rightarrow> ('w, unit) member_io" where
  "swap_generation g bs = in_tx ''batch: begin generation swap'' ''batch: commit generation swap''
     (and_then (for_each (write_bitmap g) bs)
       (\<lambda>_. wrapping ''batch: advance generation pointer'' (exec (\<lambda>w. w\<lparr>generation := g\<rparr>))))"

definition reclaimGenerations :: int where "reclaimGenerations = 2"

definition reclaim :: "int \<Rightarrow> ('w, unit) member_io" where
  "reclaim newGen =
     (let oldestKept = newGen - reclaimGenerations + 1
      in if oldestKept \<le> 0 then ret ()
         else wrapping ''batch: reclaim old generations'' (exec (\<lambda>w.
           w\<lparr>forward_rows := filter (\<lambda>row. \<not> snd (fst row) < oldestKept) (forward_rows w)\<rparr>)))"

text \<open>
  The client of Redis is an argument, which is nil in a process that runs without Redis. The code does not ask:
  the first command on it panics, which the job queue recovers and reports as the job's failure.
\<close>

definition set_many_on :: "bool \<Rightarrow> (string \<times> bitmap) list \<Rightarrow> ('w, unit) member_io" where
  "set_many_on redis bs =
     (if redis \<or> bs = [] then set_many_reverse bs
      else fail (Errorf ''runtime error: invalid memory address or nil pointer dereference''))"

definition recompute_on ::
  "bool \<Rightarrow> (string \<Rightarrow> cel_expr result) \<Rightarrow> (string \<Rightarrow> time option) \<Rightarrow> sql_answer \<Rightarrow> registry
     \<Rightarrow> ('w, recompute_report) member_io" where
  "recompute_on redis ds pt holds reg =
     and_then list_segments (\<lambda>segs.
       and_then current_generation (\<lambda>g.
         and_then load_channel_ordinals (\<lambda>ords.
           and_then (recompute_segments ds pt holds reg g segs (map (\<lambda>(o', c). (o', {})) ords)) (\<lambda>(bs, dis, acc).
             and_then (swap_generation (g + 1) bs) (\<lambda>_.
               and_then (wrapping ''batch: update reverse index'' (set_many_on redis
                   (map (\<lambda>(o', c). (c, case map_of acc o' of None \<Rightarrow> {} | Some b \<Rightarrow> b)) ords))) (\<lambda>_.
                 and_then (reclaim (g + 1)) (\<lambda>_.
                   ret \<lparr>rep_generation = g + 1, rep_disagreements = dis\<rparr>)))))))"

abbreviation recompute ::
  "(string \<Rightarrow> cel_expr result) \<Rightarrow> (string \<Rightarrow> time option) \<Rightarrow> sql_answer \<Rightarrow> registry \<Rightarrow> ('w, recompute_report) member_io" where
  "recompute \<equiv> recompute_on True"

definition ReconcileInterval :: duration where "ReconcileInterval = hour"

definition reconcile_work ::
  "bool \<Rightarrow> (string \<Rightarrow> cel_expr result) \<Rightarrow> (string \<Rightarrow> time option) \<Rightarrow> sql_answer \<Rightarrow> registry \<Rightarrow> ('w, unit) member_io" where
  "reconcile_work redis ds pt holds reg =
     and_then (wrapping ''batch: scheduled reconciliation'' (recompute_on redis ds pt holds reg)) (\<lambda>_. ret ())"

section \<open>Updating one channel\<close>

definition update_forward_bit :: "string \<Rightarrow> int \<Rightarrow> nat \<Rightarrow> bool \<Rightarrow> ('w, unit) member_io" where
  "update_forward_bit s g o' matched =
     and_then (wrapping ''read bitmap'' (query (\<lambda>w. map_of (forward_rows w) (s, g)))) (\<lambda>row.
       let b = (case row of None \<Rightarrow> {} | Some b \<Rightarrow> b)
       in if (o' \<in> b) = matched then ret ()
          else wrapping ''write bitmap'' (exec (\<lambda>w.
            w\<lparr>forward_rows := upsert (\<lambda>_. if matched then insert o' b else b - {o'}) (s, g) (forward_rows w)\<rparr>)))"

text \<open>The loop keeps the channel's bitmap, whether it changed, and the evaluator with its programs.\<close>

fun update_segments ::
  "(string \<Rightarrow> cel_expr result) \<Rightarrow> (cel_expr \<Rightarrow> 'prog result) \<Rightarrow> ('prog \<Rightarrow> 'attrs \<Rightarrow> cel_value result) \<Rightarrow> int \<Rightarrow> nat
     \<Rightarrow> 'attrs \<Rightarrow> segment list \<Rightarrow> 'prog evaluator \<Rightarrow> bitmap \<times> bool
     \<Rightarrow> ('w, 'prog evaluator \<times> bitmap \<times> bool) member_io" where
  "update_segments ds plan run g o' attrs [] ev (b, changed) = ret (ev, b, changed)"
| "update_segments ds plan run g o' attrs (s # ss) ev (b, changed) =
     (if refresh_mode s \<noteq> RefreshIncremental then update_segments ds plan run g o' attrs ss ev (b, changed)
      else (case evaluate ds plan run ev (seg_predicate s) attrs of
          (Inl e, _) \<Rightarrow> fail (Wrap ''incremental: evaluate segment'' e)
        | (Inr matched, ev') \<Rightarrow>
            and_then (wrapping ''incremental: update forward index'' (update_forward_bit (seg_id s) g o' matched)) (\<lambda>_.
              let so = to_uint32 (seg_ordinal s)
              in update_segments ds plan run g o' attrs ss ev'
                   (if matched \<and> so \<notin> b then (insert so b, True)
                    else if \<not> matched \<and> so \<in> b then (b - {so}, True)
                    else (b, changed)))))"

definition update_channel ::
  "(string \<Rightarrow> cel_expr result) \<Rightarrow> (cel_expr \<Rightarrow> 'prog result) \<Rightarrow> ('prog \<Rightarrow> 'attrs \<Rightarrow> cel_value result)
     \<Rightarrow> 'prog evaluator \<Rightarrow> string \<Rightarrow> segment list \<Rightarrow> 'attrs \<Rightarrow> ('w, 'prog evaluator) member_io" where
  "update_channel ds plan run ev c segs attrs =
     and_then (wrapping ''incremental'' (lookup_ordinal c)) (\<lambda>ord.
       if ord < 0 then fail (Errorf ''incremental: channel has a negative ordinal'')
       else and_then current_generation (\<lambda>g.
         and_then (get_reverse c) (\<lambda>b.
           and_then (in_tx ''incremental: begin'' ''incremental: commit''
               (update_segments ds plan run g (to_uint32 ord) attrs segs ev (b, False))) (\<lambda>(ev', b', changed).
             and_then (if changed then set_reverse c b' else ret ()) (\<lambda>_. ret ev')))))"

definition referenced_attributes :: "(string \<Rightarrow> cel_expr result) \<Rightarrow> segment \<Rightarrow> string list result" where
  "referenced_attributes ds s =
     res_bind (load_predicate ds (seg_predicate s)) (\<lambda>a.
       Inr (rev (remdups (rev (concat (map (\<lambda>e. case e of IdentE n \<Rightarrow> [n] | _ \<Rightarrow> []) (pre_order a)))))))"

text \<open>The map from an attribute to the segments whose incremental predicates read it.\<close>

fun dependency_map ::
  "(string \<Rightarrow> cel_expr result) \<Rightarrow> registry \<Rightarrow> segment list \<Rightarrow> (string \<Rightarrow> segment list) \<Rightarrow> (string \<Rightarrow> segment list) result" where
  "dependency_map ds reg [] deps = Inr deps"
| "dependency_map ds reg (s # ss) deps =
     (if refresh_mode s \<noteq> RefreshIncremental then dependency_map ds reg ss deps
      else (case referenced_attributes ds s of
          Inl e \<Rightarrow> Inl (Wrap ''incremental: dependency map for segment'' e)
        | Inr names \<Rightarrow> dependency_map ds reg ss (\<lambda>n.
            if n \<in> set names \<and> lookup_attribute reg n \<noteq> None then deps n @ [s] else deps n)))"

section \<open>The two indexes agree after a recomputation\<close>

text \<open>The members of a segment: the ordinals the database gives for its compiled condition.\<close>

definition segment_members ::
  "(string \<Rightarrow> cel_expr result) \<Rightarrow> (string \<Rightarrow> time option) \<Rightarrow> sql_answer \<Rightarrow> registry
     \<Rightarrow> 'w membership_world_scheme \<Rightarrow> segment \<Rightarrow> bitmap" where
  "segment_members ds pt holds reg w s =
     (case res_bind (load_predicate ds (seg_predicate s)) (compile_to_sql pt reg) of
        Inl _ \<Rightarrow> {} | Inr q \<Rightarrow> nat ` set (matching_ordinals holds q w))"

lemma matching_faults [simp]: "matching_ordinals holds q (w\<lparr>faults := fs\<rparr>) = matching_ordinals holds q w"
  by (simp add: matching_ordinals_def cong: option.case_cong)

lemma segment_members_faults [simp]:
  "segment_members ds pt holds reg (w\<lparr>faults := fs\<rparr>) s = segment_members ds pt holds reg w s"
  by (simp add: segment_members_def cong: sum.case_cong)

lemma collect_ordinals_ok: "collect_ordinals os b = Inr b' \<Longrightarrow> b' = b \<union> nat ` set os"
  by (induction os arbitrary: b) (auto simp: to_uint32_def max_uint32_def split: if_splits)

lemma recompute_segment_ok:
  assumes "recompute_segment ds pt holds reg s w = (Inr b, w')"
  shows "(\<exists>fs. w' = w\<lparr>faults := fs\<rparr>) \<and> b = segment_members ds pt holds reg w s"
proof -
  from assms obtain a q os where a: "load_predicate ds (seg_predicate s) = Inr a" "compile_to_sql pt reg a = Inr q"
    and q: "query (matching_ordinals holds q) w = (Inr os, w')" and b: "collect_ordinals os {} = Inr b"
    by (auto simp: recompute_segment_def and_then_ok)
  from query_ok [OF q] obtain fs where "w' = w\<lparr>faults := fs\<rparr>" "os = matching_ordinals holds q w" by auto
  with a collect_ordinals_ok [OF b] show ?thesis by (auto simp: segment_members_def)
qed

lemma reads_recompute_segment [read_intros]: "only_reads (recompute_segment ds pt holds reg s)"
  unfolding recompute_segment_def by (intro read_intros)

lemma reads_bitmap_at [read_intros]: "only_reads (bitmap_at s g)"
  unfolding bitmap_at_def by (intro read_intros)

lemma reads_recompute_segments [read_intros]: "only_reads (recompute_segments ds pt holds reg g ss acc)"
  by (induction ss arbitrary: acc) (auto intro!: read_intros split: prod.splits)

text \<open>The segments of an ordinal among those gone through.\<close>

definition segments_of ::
  "(segment \<Rightarrow> bitmap) \<Rightarrow> int \<Rightarrow> segment list \<Rightarrow> bitmap" where
  "segments_of mem o' ss = to_uint32 ` seg_ordinal ` {s \<in> set ss. o' \<in> int ` mem s}"

lemma segments_of_Cons: "segments_of mem o' (s # ss) = (if o' \<in> int ` mem s
    then insert (to_uint32 (seg_ordinal s)) (segments_of mem o' ss) else segments_of mem o' ss)"
proof -
  have "{t \<in> set (s # ss). o' \<in> int ` mem t} = (if o' \<in> int ` mem s
      then insert s {t \<in> set ss. o' \<in> int ` mem t} else {t \<in> set ss. o' \<in> int ` mem t})" by auto
  then show ?thesis by (simp only: segments_of_def) (simp split: if_splits)
qed

lemma recompute_segments_ok:
  fixes w :: "'w membership_world_scheme"
  assumes "recompute_segments ds pt holds reg g ss acc w = (Inr (bs, dis, acc'), w')"
  defines "mem \<equiv> segment_members ds pt holds reg w"
  shows "bs = map (\<lambda>s. (seg_id s, mem s)) ss \<and> acc' = map (\<lambda>(o', b). (o', b \<union> segments_of mem o' ss)) acc"
  using assms(1) unfolding mem_def
proof (induction ss arbitrary: acc bs dis acc' w)
  case Nil
  then show ?case by (auto simp: segments_of_def)
next
  case (Cons s ss)
  from Cons.prems obtain new w1 old w2 bs1 dis1 where
    1: "recompute_segment ds pt holds reg s w = (Inr new, w1)"
    and 2: "bitmap_at (seg_id s) g w1 = (Inr old, w2)"
    and 3: "recompute_segments ds pt holds reg g ss (mark_segment (seg_ordinal s) new acc) w2 = (Inr (bs1, dis1, acc'), w')"
    and bs: "bs = (seg_id s, new) # bs1"
    by (auto simp: and_then_ok split: prod.splits)
  from recompute_segment_ok [OF 1] obtain fs where w1: "w1 = w\<lparr>faults := fs\<rparr>" and new: "new = segment_members ds pt holds reg w s"
    by blast
  from only_readsD [OF reads_bitmap_at 2] w1 obtain fs' where w2: "w2 = w\<lparr>faults := fs'\<rparr>" by auto
  have seg: "segment_members ds pt holds reg w2 = segment_members ds pt holds reg w"
    by (rule ext) (simp add: w2)
  from Cons.IH [OF 3] bs new show ?case
    by (simp add: seg mark_segment_def segments_of_Cons split_beta)
qed

lemma write_bitmaps_ok:
  fixes w :: "'w membership_world_scheme"
  assumes "for_each (write_bitmap g) bs w = (Inr u, w')"
  shows "(\<exists>fs. w' = w\<lparr>faults := fs, forward_rows := forward_rows w @ map (\<lambda>(s, b). ((s, g), b)) bs\<rparr>)
    \<and> distinct (map fst bs) \<and> (\<forall>sb\<in>set bs. (fst sb, g) \<notin> fst ` set (forward_rows w))"
  using assms
proof (induction bs arbitrary: w)
  case Nil
  then show ?case by (auto intro!: exI [of _ "faults w"])
next
  case (Cons sb bs)
  obtain s b where sb: "sb = (s, b)" by (cases sb)
  from Cons.prems obtain w1 where 1: "write_bitmap g sb w = (Inr (), w1)" and 2: "for_each (write_bitmap g) bs w1 = (Inr u, w')"
    by (auto simp: and_then_ok)
  from 1 sb obtain fs where w1: "w1 = w\<lparr>faults := fs, forward_rows := forward_rows w @ [((s, g), b)]\<rparr>"
    and new: "(s, g) \<notin> fst ` set (forward_rows w)"
    unfolding write_bitmap_def wrapping_ok by (force dest!: remote_ok split: if_splits)
  from Cons.IH [OF 2] w1 new show ?case by (auto simp: sb image_iff)
qed

text \<open>The forward index as readers see it, and what a run may have left of it.\<close>

definition same_forward :: "'w membership_world_scheme \<Rightarrow> 'w membership_world_scheme \<Rightarrow> bool" where
  "same_forward w w' = (generation w' = generation w
     \<and> (\<forall>s. map_of (forward_rows w') (s, generation w) = map_of (forward_rows w) (s, generation w)))"

definition new_forward :: "(segment \<Rightarrow> bitmap) \<Rightarrow> segment list \<Rightarrow> int \<Rightarrow> 'w membership_world_scheme \<Rightarrow> bool" where
  "new_forward mem segs g w' = (generation w' = g
     \<and> (\<forall>s\<in>set segs. map_of (forward_rows w') (seg_id s, g) = Some (mem s)))"

lemma new_forward_faults [simp]: "new_forward mem segs g (w\<lparr>faults := fs\<rparr>) = new_forward mem segs g w"
  by (simp add: new_forward_def)

lemma same_forward_faults: "same_forward w (w\<lparr>faults := fs\<rparr>)"
  by (simp add: same_forward_def)

lemma swap_body_ok:
  fixes w :: "'w membership_world_scheme"
  assumes "and_then (for_each (write_bitmap g) bs)
      (\<lambda>_. wrapping msg (exec (\<lambda>w. w\<lparr>generation := g\<rparr>))) w = (Inr x, w2)"
  shows "forward_rows w2 = forward_rows w @ map (\<lambda>(s, b). ((s, g), b)) bs \<and> generation w2 = g
    \<and> distinct (map fst bs) \<and> (\<forall>sb\<in>set bs. (fst sb, g) \<notin> fst ` set (forward_rows w))"
proof -
  from assms obtain u w1 where 1: "for_each (write_bitmap g) bs w = (Inr u, w1)"
    and 2: "exec (\<lambda>w. w\<lparr>generation := g\<rparr>) w1 = (Inr x, w2)" by (auto simp: and_then_ok)
  from exec_ok [OF 2] write_bitmaps_ok [OF 1] show ?thesis by auto
qed

lemma map_of_map_fun: "k \<in> fst ` set xs \<Longrightarrow> map_of (map (\<lambda>(k, x). (k, f k)) xs) k = Some (f k)"
  by (induction xs) auto

lemma new_forward_swapped:
  assumes "forward_rows w2 = forward_rows w @ map (\<lambda>(s, b). ((s, g), b)) bs" "generation w2 = g"
    and bs: "bs = map (\<lambda>s. (seg_id s, mem s)) segs" and "distinct (map fst bs)"
    and fresh: "\<forall>sb\<in>set bs. (fst sb, g) \<notin> fst ` set (forward_rows w)"
  shows "new_forward mem segs g w2"
  unfolding new_forward_def
proof (intro conjI ballI)
  fix s assume s: "s \<in> set segs"
  with bs fresh have "map_of (forward_rows w) (seg_id s, g) = None" by (auto simp: map_of_eq_None_iff)
  moreover have "map_of (map (\<lambda>(s, b). ((s, g), b)) bs) (seg_id s, g) = Some (mem s)"
    using s assms(4) by (intro map_of_is_SomeI) (auto simp: bs o_def distinct_map inj_on_def)
  ultimately show "map_of (forward_rows w2) (seg_id s, g) = Some (mem s)"
    by (simp add: assms(1) map_add_def)
qed (simp add: assms(2))

lemma swap_generation_any:
  fixes w :: "'w membership_world_scheme"
  assumes "swap_generation g bs w = (r, w')" and bs: "bs = map (\<lambda>s. (seg_id s, mem s)) segs"
  shows "(\<exists>fs. w' = w\<lparr>faults := fs\<rparr>) \<or> new_forward mem segs g w'"
  using in_tx_atomic [OF assms(1) [unfolded swap_generation_def]]
proof (elim disjE exE conjE)
  fix fs x w1 w2 fs'
  assume "w1 = w\<lparr>faults := fs\<rparr>" and w': "w' = w2\<lparr>faults := fs'\<rparr>"
    and "and_then (for_each (write_bitmap g) bs) (\<lambda>_. wrapping ''batch: advance generation pointer''
           (exec (\<lambda>w. w\<lparr>generation := g\<rparr>))) w1 = (Inr x, w2)"
  with swap_body_ok [OF this(3)] have "new_forward mem segs g w2"
    by (intro new_forward_swapped [where w = w and bs = bs]) (simp_all add: bs)
  with w' show ?thesis by simp
qed blast

lemma swap_generation_done:
  fixes w :: "'w membership_world_scheme"
  assumes "swap_generation g bs w = (Inr x, w')" and bs: "bs = map (\<lambda>s. (seg_id s, mem s)) segs"
  shows "new_forward mem segs g w'"
proof -
  from in_tx_ok [OF assms(1) [unfolded swap_generation_def]] obtain fs w2 fs' where
    b: "and_then (for_each (write_bitmap g) bs) (\<lambda>_. wrapping ''batch: advance generation pointer''
           (exec (\<lambda>w. w\<lparr>generation := g\<rparr>))) (w\<lparr>faults := fs\<rparr>) = (Inr x, w2)" and w': "w' = w2\<lparr>faults := fs'\<rparr>"
    by blast
  from swap_body_ok [OF b] have "new_forward mem segs g w2"
    by (intro new_forward_swapped [where w = w and bs = bs]) (simp_all add: bs)
  with w' show ?thesis by simp
qed

lemma new_forward_blind: "fault_blind (new_forward mem segs g)"
  by (simp add: fault_blind_def)

lemma map_of_filter_kept: "P (k, v) \<Longrightarrow> map_of xs k = Some v \<Longrightarrow> (\<And>v'. P (k, v') = P (k, v)) \<Longrightarrow>
    map_of (filter P xs) k = Some v"
  by (induction xs) (auto split: if_splits)

lemma set_many_on_simps [simp]: "set_many_on True = set_many_reverse" "set_many_on redis [] = ret ()"
  by (simp_all add: fun_eq_iff set_many_on_def set_many_reverse_def)

lemma keeps_set_many: "keeps (new_forward mem segs g) (set_many_reverse bs)"
  unfolding set_many_reverse_def
  by (auto intro!: inv_intros new_forward_blind simp: new_forward_def)

lemma keeps_reclaim: "keeps (new_forward mem segs g) (reclaim g)"
  unfolding reclaim_def Let_def
  by (auto intro!: inv_intros new_forward_blind map_of_filter_kept simp: new_forward_def reclaimGenerations_def)

lemma reverse_key_inject [simp]: "reverse_key c = reverse_key d \<longleftrightarrow> c = d"
  by (simp add: reverse_key_def)

lemma map_of_reverse_fold:
  "map_of (foldl (\<lambda>ks (c, b). upsert (\<lambda>_. b) (reverse_key c) ks) ks bs) (reverse_key c)
    = (case map_of (rev bs) c of None \<Rightarrow> map_of ks (reverse_key c) | Some b \<Rightarrow> Some b)"
  by (induction bs arbitrary: ks) (auto simp: map_add_def split: option.splits)

lemma set_many_reverse_done:
  fixes w :: "'w membership_world_scheme"
  assumes "set_many_reverse bs w = (Inr u, w')" "(c, b) \<in> set bs" "distinct (map fst bs)"
  shows "map_of (reverse_keys w') (reverse_key c) = Some b"
proof -
  from assms(2) have "bs \<noteq> []" by auto
  with assms(1) obtain fs where w': "reverse_keys w'
      = foldl (\<lambda>ks (c, b). upsert (\<lambda>_. b) (reverse_key c) ks) (reverse_keys w) bs"
    by (auto simp: set_many_reverse_def dest!: exec_ok)
  have "map_of (rev bs) c = Some b"
    using assms(2,3) by (intro map_of_is_SomeI) (simp_all add: rev_map [symmetric])
  then show ?thesis by (simp add: w' map_of_reverse_fold)
qed

text \<open>A run up to the swap, whose reads fix what is written.\<close>

lemma recompute_plan:
  fixes w :: "'w membership_world_scheme"
  assumes "recompute_on redis ds pt holds reg w = (r, w')"
  defines "mem \<equiv> segment_members ds pt holds reg w"
    and "segs \<equiv> map segment_of_row (sort_key sr_id (segment_rows w))"
    and "ords \<equiv> map (\<lambda>(c, r). (or_ordinal r, c)) (filter (\<lambda>(c, r). \<not> or_retired r) (ordinal_rows w))"
  obtains (stopped) e fs where "r = Inl e" "w' = w\<lparr>faults := fs\<rparr>"
    | (swapping) fs dis where "and_then (swap_generation (generation w + 1) (map (\<lambda>s. (seg_id s, mem s)) segs)) (\<lambda>_.
        and_then (wrapping ''batch: update reverse index'' (set_many_on redis
            (map (\<lambda>(o', c). (c, segments_of mem o' segs)) ords))) (\<lambda>_.
          and_then (reclaim (generation w + 1)) (\<lambda>_.
            ret \<lparr>rep_generation = generation w + 1, rep_disagreements = dis\<rparr>))) (w\<lparr>faults := fs\<rparr>) = (r, w')"
  using assms(1) unfolding recompute_on_def
proof (cases rule: and_then_cases)
  case failed
  then show ?thesis using stopped only_readsD [of list_segments]
    by (metis list_segments_def only_reads_query only_reads_wrapping)
next
  case (went_on ss w1)
  from went_on(1) [unfolded list_segments_def wrapping_ok, THEN query_ok] obtain f1 where w1: "w1 = w\<lparr>faults := f1\<rparr>"
    and ss: "ss = segs" by (auto simp: segs_def)
  from went_on(2) show ?thesis
  proof (cases rule: and_then_cases)
    case failed
    then show ?thesis using stopped only_readsD [of current_generation, OF _ failed(1)]
      by (auto simp: current_generation_def w1 intro: read_intros)
  next
    case (went_on g w2)
    from went_on(1) [unfolded current_generation_def wrapping_ok, THEN query_ok] obtain f2 where w2: "w2 = w\<lparr>faults := f2\<rparr>"
      and g: "g = generation w" by (auto simp: w1)
    from went_on(2) show ?thesis
    proof (cases rule: and_then_cases)
      case failed
      then show ?thesis using stopped only_readsD [of load_channel_ordinals, OF _ failed(1)]
        by (auto simp: load_channel_ordinals_def w2 intro: read_intros)
    next
      case (went_on os w3)
      from went_on(1) [unfolded load_channel_ordinals_def wrapping_ok, THEN query_ok] obtain f3 where w3: "w3 = w\<lparr>faults := f3\<rparr>"
        and os: "os = ords" by (auto simp: w2 ords_def)
      from went_on(2) show ?thesis
      proof (cases rule: and_then_cases)
        case failed
        then show ?thesis using stopped only_readsD [OF reads_recompute_segments failed(1)]
          by (auto simp: w3)
      next
        case (went_on res w4)
        obtain bs dis acc where res: "res = (bs, dis, acc)" by (cases res)
        from only_readsD [OF reads_recompute_segments went_on(1)] obtain f4 where w4: "w4 = w\<lparr>faults := f4\<rparr>"
          by (auto simp: w3)
        have mem3: "segment_members ds pt holds reg w3 = mem" by (rule ext) (simp add: w3 mem_def)
        from recompute_segments_ok [OF went_on(1) [unfolded res]] ss os
        have bs: "bs = map (\<lambda>s. (seg_id s, mem s)) segs"
          and acc: "acc = map (\<lambda>(o', b). (o', b \<union> segments_of mem o' segs)) (map (\<lambda>(o', c). (o', {})) ords)"
          by (simp_all add: mem3)
        have "acc = map (\<lambda>(o', c). (o', segments_of mem o' segs)) ords"
          by (simp add: acc split_beta)
        moreover have "o' \<in> fst ` set ords" if "(o', c) \<in> set ords" for o' c
          using that by (rule rev_image_eqI) simp
        ultimately have "map_of acc o' = Some (segments_of mem o' segs)" if "(o', c) \<in> set ords" for o' c
          using that by (simp only: map_of_map_fun)
        then have "map (\<lambda>(o', c). (c, case map_of acc o' of None \<Rightarrow> {} | Some b \<Rightarrow> b)) ords
          = map (\<lambda>(o', c). (c, segments_of mem o' segs)) ords" by auto
        with went_on(2) swapping show ?thesis by (simp add: res bs w4 g os)
      qed
    qed
  qed
qed

lemma recompute_forward:
  fixes w :: "'w membership_world_scheme"
  assumes "recompute ds pt holds reg w = (r, w')"
  defines "mem \<equiv> segment_members ds pt holds reg w"
    and "segs \<equiv> map segment_of_row (sort_key sr_id (segment_rows w))"
  shows "same_forward w w' \<or> new_forward mem segs (generation w + 1) w'"
  using assms(1)
proof (cases rule: recompute_plan)
  case stopped
  then show ?thesis by (simp add: same_forward_faults)
next
  case (swapping fs dis)
  from swapping show ?thesis
  proof (cases rule: and_then_cases)
    case failed
    from swap_generation_any [OF failed(1) refl] show ?thesis
      by (auto simp: mem_def segs_def same_forward_def)
  next
    case (went_on x w1)
    from swap_generation_done [OF went_on(1) refl]
    have 1: "new_forward mem segs (generation w + 1) w1" by (simp add: mem_def segs_def)
    have "keeps (new_forward mem segs (generation w + 1)) (and_then (wrapping ''batch: update reverse index'' (set_many_on True bs))
        (\<lambda>_. and_then (reclaim (generation w + 1)) (\<lambda>_. ret y)))" for bs and y :: recompute_report
      unfolding set_many_on_simps by (intro inv_intros keeps_set_many keeps_reclaim)
    from keeps_result [OF this 1 went_on(2)] show ?thesis ..
  qed
qed

lemma recompute_done:
  fixes w :: "'w membership_world_scheme"
  assumes "recompute ds pt holds reg w = (Inr rep, w')" "distinct (map fst (ordinal_rows w))"
  defines "mem \<equiv> segment_members ds pt holds reg w"
    and "segs \<equiv> map segment_of_row (sort_key sr_id (segment_rows w))"
  shows "rep_generation rep = generation w + 1 \<and> new_forward mem segs (generation w + 1) w'
    \<and> (\<forall>(c, r) \<in> set (ordinal_rows w). \<not> or_retired r \<longrightarrow>
         map_of (reverse_keys w') (reverse_key c) = Some (segments_of mem (or_ordinal r) segs))"
  using assms(1)
proof (cases rule: recompute_plan)
  case (swapping fs dis)
  define bs where "bs = map (\<lambda>(o', c). (c, segments_of mem o' segs))
    (map (\<lambda>(c, r). (or_ordinal r, c)) (filter (\<lambda>(c, r). \<not> or_retired r) (ordinal_rows w)))"
  from swapping obtain u w1 w2 v w3 where 1: "swap_generation (generation w + 1) (map (\<lambda>s. (seg_id s, mem s)) segs) (w\<lparr>faults := fs\<rparr>) = (Inr u, w1)"
    and 2: "set_many_reverse bs w1 = (Inr v, w2)" and 3: "reclaim (generation w + 1) w2 = (Inr (), w3)"
    and fin: "w' = w3" "rep = \<lparr>rep_generation = generation w + 1, rep_disagreements = dis\<rparr>"
    by (auto simp: and_then_ok mem_def segs_def bs_def)
  from swap_generation_done [OF 1 refl] have "new_forward mem segs (generation w + 1) w1" .
  with keeps_result [OF keeps_set_many _ 2] keeps_result [OF keeps_reclaim _ 3]
  have new: "new_forward mem segs (generation w + 1) w3" by blast
  have same: "reverse_keys w3 = reverse_keys w2"
    using 3 by (auto simp: reclaim_def Let_def dest!: exec_ok split: if_splits)
  have "distinct (map fst bs)"
    using assms(2) by (simp add: bs_def o_def split_beta distinct_map_filter)
  then have "map_of (reverse_keys w2) (reverse_key c) = Some (segments_of mem (or_ordinal r) segs)"
    if "(c, r) \<in> set (ordinal_rows w)" "\<not> or_retired r" for c r
    using that by (intro set_many_reverse_done [OF 2]) (force simp: bs_def)+
  with new fin same show ?thesis by auto
qed simp

text \<open>What \<^verbatim>\<open>CurrentBitmap\<close> reads.\<close>

definition current_members :: "'w membership_world_scheme \<Rightarrow> string \<Rightarrow> bitmap" where
  "current_members w i = (case map_of (forward_rows w) (i, generation w) of None \<Rightarrow> {} | Some b \<Rightarrow> b)"

lemma current_bitmap_calm: "faults w = [] \<Longrightarrow> current_bitmap i w = (Inr (current_members w i), w)"
  by (simp add: current_bitmap_def current_generation_def bitmap_at_def and_then_def wrapping_def query_calm current_members_def)

lemma new_forward_current:
  assumes "new_forward mem (map segment_of_row (sort_key sr_id rows)) g w" "s \<in> set rows"
  shows "current_members w (sr_id s) = mem (segment_of_row s)"
proof -
  have "map_of (forward_rows w) (seg_id (segment_of_row s), g) = Some (mem (segment_of_row s))"
    using assms by (simp add: new_forward_def)
  with assms(1) show ?thesis by (simp add: current_members_def new_forward_def segment_of_row_def)
qed

lemma recompute_indexes:
  fixes w :: "'w membership_world_scheme"
  assumes "recompute ds pt holds reg w = (r, w')" "distinct (map fst (ordinal_rows w))"
  shows "(generation w' = generation w \<and> (\<forall>i. current_members w' i = current_members w i)
      \<or> (\<forall>s\<in>set (segment_rows w). current_members w' (sr_id s) = segment_members ds pt holds reg w (segment_of_row s)))
    \<and> (is_ok r \<longrightarrow>
         (\<forall>s\<in>set (segment_rows w). current_members w' (sr_id s) = segment_members ds pt holds reg w (segment_of_row s))
       \<and> (\<forall>(c, o') \<in> set (ordinal_rows w). \<not> or_retired o' \<longrightarrow>
            map_of (reverse_keys w') (reverse_key c)
              = Some (to_uint32 ` sr_ordinal ` {s \<in> set (segment_rows w). or_ordinal o' \<in> int ` current_members w' (sr_id s)})))"
proof (intro conjI impI)
  let ?mem = "segment_members ds pt holds reg w" and ?segs = "map segment_of_row (sort_key sr_id (segment_rows w))"
  show "generation w' = generation w \<and> (\<forall>i. current_members w' i = current_members w i)
      \<or> (\<forall>s\<in>set (segment_rows w). current_members w' (sr_id s) = ?mem (segment_of_row s))"
    using recompute_forward [OF assms(1)]
  proof
    assume "same_forward w w'"
    then show ?thesis by (simp add: same_forward_def current_members_def)
  qed (use new_forward_current in blast)
  assume "is_ok r"
  then obtain rep where r: "r = Inr rep" by (cases r) auto
  note fin = recompute_done [OF assms(1) [unfolded r] assms(2)]
  then have mem: "current_members w' (sr_id s) = ?mem (segment_of_row s)" if "s \<in> set (segment_rows w)" for s
    using that new_forward_current by blast
  then show "\<forall>s\<in>set (segment_rows w). current_members w' (sr_id s) = ?mem (segment_of_row s)" by blast
  have "segments_of ?mem o' ?segs = to_uint32 ` sr_ordinal ` {s \<in> set (segment_rows w). o' \<in> int ` current_members w' (sr_id s)}" for o'
  proof -
    have "seg_ordinal ` {s \<in> set ?segs. o' \<in> int ` ?mem s}
      = sr_ordinal ` {s \<in> set (segment_rows w). o' \<in> int ` ?mem (segment_of_row s)}"
      by (force simp: segment_of_row_def)
    moreover have "{s \<in> set (segment_rows w). o' \<in> int ` ?mem (segment_of_row s)}
      = {s \<in> set (segment_rows w). o' \<in> int ` current_members w' (sr_id s)}" using mem by auto
    ultimately show ?thesis by (simp add: segments_of_def)
  qed
  with fin show "\<forall>(c, o') \<in> set (ordinal_rows w). \<not> or_retired o' \<longrightarrow>
      map_of (reverse_keys w') (reverse_key c)
        = Some (to_uint32 ` sr_ordinal ` {s \<in> set (segment_rows w). or_ordinal o' \<in> int ` current_members w' (sr_id s)})"
    by auto
qed

text \<open>
  C8: whatever fails during a recomputation, readers of the forward index see for every segment
  the members they saw before, or for every segment the channels the database matches to its
  condition, never a mixture. When it succeeds they see the latter, and the reverse index of
  every live channel holds exactly the segments whose current bitmap holds the channel.
\<close>

theorem recompute_agrees:
  assumes "recompute ds pt holds reg w = (r, w')" "distinct (map fst (ordinal_rows w))"
  shows "(generation w' = generation w \<and> (\<forall>i. current_members w' i = current_members w i)
      \<or> (\<forall>s\<in>set (segment_rows w). current_members w' (sr_id s) = segment_members ds pt holds reg w (segment_of_row s)))
    \<and> (is_ok r \<longrightarrow>
         (\<forall>s\<in>set (segment_rows w). current_members w' (sr_id s) = segment_members ds pt holds reg w (segment_of_row s))
       \<and> (\<forall>(c, o') \<in> set (ordinal_rows w). \<not> or_retired o' \<longrightarrow>
            map_of (reverse_keys w') (reverse_key c)
              = Some (to_uint32 ` sr_ordinal ` {s \<in> set (segment_rows w). or_ordinal o' \<in> int ` current_members w' (sr_id s)})))"
  using assms by (rule recompute_indexes)

definition demo_members :: membership_world where
  "demo_members = \<lparr>faults = [], rl_counts = (\<lambda>_. 0), rl_expiring = (\<lambda>_. False),
     events_log = [], next_seq = 1, topic = [], budgets = Map.empty, messages = [], policies = [], trigger_rows = [],
     condition_rows = [], variant_rows = [], audit_log = [], change_log = [], change_seq = 1, id_supply = 0,
     channel_rows = [(''c1'', \<lparr>chan_attributes = JObj [], chan_credential = None, chan_major = 1\<rparr>),
                     (''c2'', \<lparr>chan_attributes = JObj [], chan_credential = None, chan_major = 1\<rparr>)],
     ordinal_rows = [(''c1'', \<lparr>or_ordinal = 1, or_retired = False\<rparr>), (''c2'', \<lparr>or_ordinal = 2, or_retired = False\<rparr>)],
     ordinal_next = 3,
     segment_rows = [\<lparr>sr_id = ''s'', sr_ordinal = 1, sr_name = [], sr_source = [], sr_tree = ''t'', sr_mode = RefreshIncremental\<rparr>,
                     \<lparr>sr_id = ''r'', sr_ordinal = 2, sr_name = [], sr_source = [], sr_tree = ''u'', sr_mode = RefreshIncremental\<rparr>],
     segment_next = 3, forward_rows = [((''s'', 0), {2})], generation = 0, reverse_keys = []\<rparr>"

definition demo_tree :: "string \<Rightarrow> cel_expr result" where
  "demo_tree t = Inr (LiteralE (VBool (t = ''t'')))"

definition demo_holds :: sql_answer where
  "demo_holds q ch = (snd q = [ABool True] \<and> fst ch = ''c1'')"

definition demo_recompute :: "recompute_report result \<times> membership_world" where
  "demo_recompute = recompute demo_tree (\<lambda>_. None) demo_holds \<lparr>reg_defs = Map.empty\<rparr> demo_members"

lemma demo_recompute_ok: "is_ok (fst demo_recompute)"
  by code_simp

theorem recompute_agrees_witness:
  "map_of (reverse_keys (snd demo_recompute)) (reverse_key ''c1'')
    = Some (to_uint32 ` sr_ordinal ` {s \<in> set (segment_rows demo_members). 1 \<in> int ` current_members (snd demo_recompute) (sr_id s)})
   \<and> map_of (reverse_keys (snd demo_recompute)) (reverse_key ''c1'') = Some {1}"
proof -
  have "distinct (map fst (ordinal_rows demo_members))" by (simp add: demo_members_def)
  from recompute_agrees [OF prod.collapse [symmetric] this, folded demo_recompute_def] demo_recompute_ok
  have "\<forall>(c, o') \<in> set (ordinal_rows demo_members). \<not> or_retired o' \<longrightarrow>
      map_of (reverse_keys (snd demo_recompute)) (reverse_key c)
        = Some (to_uint32 ` sr_ordinal ` {s \<in> set (segment_rows demo_members).
            or_ordinal o' \<in> int ` current_members (snd demo_recompute) (sr_id s)})"
    unfolding demo_recompute_def by blast
  then have "map_of (reverse_keys (snd demo_recompute)) (reverse_key ''c1'')
    = Some (to_uint32 ` sr_ordinal ` {s \<in> set (segment_rows demo_members). 1 \<in> int ` current_members (snd demo_recompute) (sr_id s)})"
    by (auto simp: demo_members_def)
  moreover have "map_of (reverse_keys (snd demo_recompute)) (reverse_key ''c1'') = Some {1}"
    by code_simp
  ultimately show ?thesis by blast
qed

text \<open>
  A process without Redis: once a channel is registered no reconciliation succeeds, and none reaches the reclaiming of
  old generations, although each may write one more.
\<close>

lemma keeps_forward_rows: "keeps (\<lambda>v. R \<subseteq> set (forward_rows v)) (swap_generation g bs)"
proof -
  let ?I = "\<lambda>v :: 'a membership_world_scheme. R \<subseteq> set (forward_rows v)"
  have blind: "fault_blind ?I" by (simp add: fault_blind_def)
  have "keeps ?I (write_bitmap g sb)" for sb
    unfolding write_bitmap_def by (intro keeps_wrapping keeps_remote [OF blind]) auto
  then show ?thesis
    unfolding swap_generation_def
    by (intro keeps_in_tx keeps_and_then keeps_for_each keeps_wrapping keeps_exec [OF blind] blind) simp_all
qed

lemma reconcile_without_redis:
  fixes w :: "'w membership_world_scheme"
  assumes run: "reconcile_work False ds pt holds reg w = (r, w')" and "\<exists>(c, row) \<in> set (ordinal_rows w). \<not> or_retired row"
  shows "\<not> is_ok r" "set (forward_rows w) \<subseteq> set (forward_rows w')"
proof -
  let ?segs = "map segment_of_row (sort_key sr_id (segment_rows w))"
  obtain q v where rec: "recompute_on False ds pt holds reg w = (q, v)" by force
  with run have r: "is_ok r \<longleftrightarrow> is_ok q" "w' = v"
    by (auto simp: reconcile_work_def and_then_def wrapping_def split: sum.splits)
  have nonempty: "filter (\<lambda>(c, r). \<not> or_retired r) (ordinal_rows w) \<noteq> []" using assms(2) by (force simp: filter_empty_conv)
  from rec have "\<not> is_ok q \<and> set (forward_rows w) \<subseteq> set (forward_rows v)"
  proof (cases rule: recompute_plan)
    case (swapping fs dis)
    have panic: "bs \<noteq> [] \<Longrightarrow> set_many_on False bs = fail (Errorf ''runtime error: invalid memory address or nil pointer dereference'')"
      for bs :: "(string \<times> bitmap) list" by (simp add: set_many_on_def)
    from swapping obtain q1 where "swap_generation (generation w + 1)
        (map (\<lambda>s. (seg_id s, segment_members ds pt holds reg w s)) ?segs) (w\<lparr>faults := fs\<rparr>) = (q1, v)" and "\<not> is_ok q"
      by (cases rule: and_then_cases) (auto simp: panic nonempty and_then_def wrapping_def)
    from keeps_result [OF keeps_forward_rows _ this(1)] this(2) show ?thesis by simp
  qed simp
  with r show "\<not> is_ok r" "set (forward_rows w) \<subseteq> set (forward_rows w')" by simp_all
qed

section \<open>The update of one channel\<close>

text \<open>What the evaluator answers for the incremental segments, in order, on one evaluator.\<close>

fun answers ::
  "(string \<Rightarrow> cel_expr result) \<Rightarrow> (cel_expr \<Rightarrow> 'prog result) \<Rightarrow> ('prog \<Rightarrow> 'attrs \<Rightarrow> cel_value result)
     \<Rightarrow> 'attrs \<Rightarrow> segment list \<Rightarrow> 'prog evaluator \<Rightarrow> (segment \<times> bool) list" where
  "answers ds plan run attrs [] ev = []"
| "answers ds plan run attrs (s # ss) ev =
     (if refresh_mode s \<noteq> RefreshIncremental then answers ds plan run attrs ss ev
      else (case evaluate ds plan run ev (seg_predicate s) attrs of
          (Inl _, _) \<Rightarrow> []
        | (Inr matched, ev') \<Rightarrow> (s, matched) # answers ds plan run attrs ss ev'))"

definition with_bit :: "nat \<Rightarrow> bool \<Rightarrow> bitmap \<Rightarrow> bitmap" where
  "with_bit n v b = (if v then insert n b else b - {n})"

lemma with_bit_same: "(n \<in> b) = v \<Longrightarrow> with_bit n v b = b"
  by (auto simp: with_bit_def)

definition bits :: "'w membership_world_scheme \<Rightarrow> string \<times> int \<Rightarrow> bitmap" where
  "bits w k = (case map_of (forward_rows w) k of None \<Rightarrow> {} | Some b \<Rightarrow> b)"

lemma bits_upsert: "forward_rows w' = upsert (\<lambda>_. b) k (forward_rows w) \<Longrightarrow> bits w' = (bits w)(k := b)"
  by (rule ext) (simp add: bits_def)

lemma update_forward_bit_ok:
  fixes w :: "'w membership_world_scheme"
  assumes "update_forward_bit s g o' m w = (Inr u, w')"
  shows "bits w' = (bits w)((s, g) := with_bit o' m (bits w (s, g)))
    \<and> generation w' = generation w \<and> reverse_keys w' = reverse_keys w"
proof -
  from assms obtain row w1 where q: "query (\<lambda>w. map_of (forward_rows w) (s, g)) w = (Inr row, w1)"
    and rest: "(let b = (case row of None \<Rightarrow> {} | Some b \<Rightarrow> b)
       in if (o' \<in> b) = m then ret ()
          else wrapping ''write bitmap'' (exec (\<lambda>w.
            w\<lparr>forward_rows := upsert (\<lambda>_. if m then insert o' b else b - {o'}) (s, g) (forward_rows w)\<rparr>))) w1 = (Inr u, w')"
    by (auto simp: update_forward_bit_def and_then_ok)
  from query_ok [OF q] obtain fs where w1: "w1 = w\<lparr>faults := fs\<rparr>" and row: "row = map_of (forward_rows w) (s, g)"
    by auto
  have b: "(case row of None \<Rightarrow> {} | Some b \<Rightarrow> b) = bits w (s, g)" by (simp add: row bits_def)
  show ?thesis
  proof (cases "(o' \<in> bits w (s, g)) = m")
    case True
    with rest w1 have "w' = w\<lparr>faults := fs\<rparr>" by (simp add: b)
    with with_bit_same [OF True] show ?thesis by (simp add: bits_def fun_eq_iff cong: option.case_cong)
  next
    case False
    with rest w1 have "forward_rows w' = upsert (\<lambda>_. with_bit o' m (bits w (s, g))) (s, g) (forward_rows w)"
      "generation w' = generation w" "reverse_keys w' = reverse_keys w"
      by (auto simp: b with_bit_def dest!: exec_ok)
    with bits_upsert show ?thesis by blast
  qed
qed

definition flip_forward :: "int \<Rightarrow> nat \<Rightarrow> segment \<times> bool \<Rightarrow> (string \<times> int \<Rightarrow> bitmap) \<Rightarrow> string \<times> int \<Rightarrow> bitmap" where
  "flip_forward g o' a f = f((seg_id (fst a), g) := with_bit o' (snd a) (f (seg_id (fst a), g)))"

definition flip_reverse :: "segment \<times> bool \<Rightarrow> bitmap \<Rightarrow> bitmap" where
  "flip_reverse a = with_bit (to_uint32 (seg_ordinal (fst a))) (snd a)"

lemma in_flip_reverse: "n \<in> flip_reverse a b \<longleftrightarrow> (if n = to_uint32 (seg_ordinal (fst a)) then snd a else n \<in> b)"
  by (auto simp: flip_reverse_def with_bit_def)

lemma in_flip_forward: "n \<in> flip_forward g o' a f k \<longleftrightarrow> (if n = o' \<and> k = (seg_id (fst a), g) then snd a else n \<in> f k)"
  by (auto simp: flip_forward_def with_bit_def)

lemma flip_forward_other: "k \<noteq> (seg_id (fst a), g) \<Longrightarrow> flip_forward g o' a f k = f k"
  by (simp add: flip_forward_def)

lemma update_segments_ok:
  fixes w :: "'w membership_world_scheme"
  assumes "update_segments ds plan run g o' attrs ss ev bc w = (Inr (ev', b', ch'), w')"
  defines "as \<equiv> answers ds plan run attrs ss ev"
  shows "b' = fold flip_reverse as (fst bc) \<and> (\<not> ch' \<longrightarrow> b' = fst bc \<and> \<not> snd bc)
    \<and> bits w' = fold (flip_forward g o') as (bits w)
    \<and> generation w' = generation w \<and> reverse_keys w' = reverse_keys w
    \<and> map fst as = filter (\<lambda>s. refresh_mode s = RefreshIncremental) ss"
  using assms(1) unfolding as_def
proof (induction ss arbitrary: ev bc w)
  case Nil
  then show ?case by (cases bc) auto
next
  case (Cons s ss)
  obtain b ch where bc: "bc = (b, ch)" by (cases bc)
  show ?case
  proof (cases "refresh_mode s = RefreshIncremental")
    case False
    with Cons.prems Cons.IH [of ev bc w] show ?thesis by (auto simp: bc)
  next
    case True
    from Cons.prems True bc obtain m ev1 where ev1: "evaluate ds plan run ev (seg_predicate s) attrs = (Inr m, ev1)"
      by (auto split: prod.splits sum.splits)
    define so where "so = to_uint32 (seg_ordinal s)"
    define bc1 where "bc1 = (if m \<and> so \<notin> b then (insert so b, True)
        else if \<not> m \<and> so \<in> b then (b - {so}, True) else (b, ch))"
    from Cons.prems True bc ev1 obtain u w1 where 1: "update_forward_bit (seg_id s) g o' m w = (Inr u, w1)"
      and 2: "update_segments ds plan run g o' attrs ss ev1 bc1 w1 = (Inr (ev', b', ch'), w')"
      by (auto simp: and_then_ok Let_def so_def [symmetric] bc1_def [symmetric])
    have "fst bc1 = flip_reverse (s, m) b" "\<not> snd bc1 \<Longrightarrow> \<not> ch \<and> fst bc1 = b"
      by (auto simp: bc1_def flip_reverse_def with_bit_def so_def)
    moreover from update_forward_bit_ok [OF 1] have "bits w1 = flip_forward g o' (s, m) (bits w)"
      "generation w1 = generation w" "reverse_keys w1 = reverse_keys w" by (simp_all add: flip_forward_def)
    ultimately show ?thesis using Cons.IH [OF 2] True ev1 bc by auto
  qed
qed

lemma fold_flip_reverse:
  assumes "distinct (map (\<lambda>a. to_uint32 (seg_ordinal (fst a))) as)" "(s, m) \<in> set as"
  shows "(to_uint32 (seg_ordinal s) \<in> fold flip_reverse as b) = m"
proof -
  have other: "(n \<in> fold flip_reverse as b) = (n \<in> b)"
    if "n \<notin> (\<lambda>a. to_uint32 (seg_ordinal (fst a))) ` set as" for n b as
    using that by (induction as arbitrary: b) (auto simp: in_flip_reverse)
  show ?thesis
    using assms
  proof (induction as arbitrary: b)
    case (Cons a as)
    then show ?case
      using other [of "to_uint32 (seg_ordinal s)" as "flip_reverse a b"]
      by (auto simp: in_flip_reverse)
  qed simp
qed

lemma fold_flip_forward_other:
  "n \<noteq> o' \<Longrightarrow> (n \<in> fold (flip_forward g o') as f k) = (n \<in> f k)"
  by (induction as arbitrary: f) (simp_all add: in_flip_forward)

lemma fold_flip_forward:
  assumes "distinct (map (\<lambda>a. seg_id (fst a)) as)" "(s, m) \<in> set as"
  shows "(o' \<in> fold (flip_forward g o') as f (seg_id s, g)) = m"
proof -
  have other: "fold (flip_forward g o') as f (i, g) = f (i, g)"
    if "i \<notin> (\<lambda>a. seg_id (fst a)) ` set as" for i f as
    using that by (induction as arbitrary: f) (auto simp: flip_forward_other)
  show ?thesis
    using assms
  proof (induction as arbitrary: f)
    case (Cons a as)
    then show ?case
      using other [of "seg_id s" as "flip_forward g o' a f"]
      by (auto simp: in_flip_forward)
  qed simp
qed

lemma distinct_answers:
  assumes "map fst as = filter P ss" "distinct (map f ss)"
  shows "distinct (map (\<lambda>a. f (fst a)) as)"
proof -
  have "map (\<lambda>a. f (fst a)) as = map f (filter P ss)" by (simp add: assms(1) [symmetric])
  with assms(2) show ?thesis by (simp add: distinct_map_filter)
qed

lemma update_channel_bits:
  fixes w :: "'w membership_world_scheme"
  assumes "update_channel ds plan run ev c segs attrs w = (Inr ev', w')" "map_of (ordinal_rows w) c = Some r"
    and "distinct (map seg_id segs)" "distinct (map (\<lambda>s. to_uint32 (seg_ordinal s)) segs)"
  shows "map fst (answers ds plan run attrs segs ev) = filter (\<lambda>s. refresh_mode s = RefreshIncremental) segs
    \<and> (\<forall>(s, m) \<in> set (answers ds plan run attrs segs ev).
         (to_uint32 (or_ordinal r) \<in> current_members w' (seg_id s)) = m
         \<and> (case map_of (reverse_keys w') (reverse_key c) of None \<Rightarrow> \<not> m | Some b \<Rightarrow> (to_uint32 (seg_ordinal s) \<in> b) = m))
    \<and> (\<forall>n i. n \<noteq> to_uint32 (or_ordinal r) \<longrightarrow> (n \<in> current_members w' i) = (n \<in> current_members w i))"
proof -
  let ?as = "answers ds plan run attrs segs ev"
  from assms(1) obtain ord w1 g w2 b w3 b' ch w4 u where
    1: "lookup_ordinal c w = (Inr ord, w1)" and 2: "current_generation w1 = (Inr g, w2)" and 3: "get_reverse c w2 = (Inr b, w3)"
    and 4: "in_tx ''incremental: begin'' ''incremental: commit''
        (update_segments ds plan run g (to_uint32 ord) attrs segs ev (b, False)) w3 = (Inr (ev', b', ch), w4)"
    and 5: "(if ch then set_reverse c b' else ret ()) w4 = (Inr u, w')"
    by (auto simp: update_channel_def and_then_ok split: if_splits prod.splits)
  from 1 assms(2) obtain f1 where w1: "w1 = w\<lparr>faults := f1\<rparr>" and ord: "ord = or_ordinal r"
    by (auto simp: lookup_ordinal_def and_then_ok dest!: query_ok split: option.splits if_splits)
  from 2 [unfolded current_generation_def wrapping_ok, THEN query_ok] w1 obtain f2 where w2: "w2 = w\<lparr>faults := f2\<rparr>"
    and g: "g = generation w" by auto
  from 3 [unfolded get_reverse_def wrapping_ok, THEN query_ok] w2 obtain f3 where w3: "w3 = w\<lparr>faults := f3\<rparr>"
    and b: "b = (case map_of (reverse_keys w) (reverse_key c) of None \<Rightarrow> {} | Some b \<Rightarrow> b)" by auto
  from in_tx_ok [OF 4] obtain f4 w5 f5 where upd: "update_segments ds plan run g (to_uint32 ord) attrs segs ev (b, False) (w\<lparr>faults := f4\<rparr>)
      = (Inr (ev', b', ch), w5)" and w4: "w4 = w5\<lparr>faults := f5\<rparr>" by (auto simp: w3)
  have bits_same: "bits (w\<lparr>faults := f4\<rparr>) = bits w" by (rule ext) (simp add: bits_def cong: option.case_cong)
  from update_segments_ok [OF upd] have b': "b' = fold flip_reverse ?as b" "\<not> ch \<Longrightarrow> b' = b"
    and fw: "bits w5 = fold (flip_forward g (to_uint32 ord)) ?as (bits w)"
    and keep: "generation w5 = generation w" "reverse_keys w5 = reverse_keys w"
    and as: "map fst ?as = filter (\<lambda>s. refresh_mode s = RefreshIncremental) segs"
    by (auto simp: bits_same)
  have w': "bits w' = bits w5" "generation w' = generation w"
    "(case map_of (reverse_keys w') (reverse_key c) of None \<Rightarrow> {} | Some b \<Rightarrow> b) = b'"
    using 5 keep b'(2) b by (auto simp: w4 set_reverse_def bits_def fun_eq_iff dest!: exec_ok split: if_splits)
  have cur: "current_members w' i = bits w' (i, generation w)" "current_members w i = bits w (i, generation w)" for i
    by (simp_all add: current_members_def bits_def w'(2))
  have "(to_uint32 (or_ordinal r) \<in> current_members w' (seg_id s)) = m" "(to_uint32 (seg_ordinal s) \<in> b') = m"
    if "(s, m) \<in> set ?as" for s m
    using fold_flip_forward [OF distinct_answers [OF as assms(3)] that]
      fold_flip_reverse [OF distinct_answers [OF as assms(4)] that] b'(1)
    by (simp_all add: cur w'(1) fw ord g)
  then show ?thesis
    using as fold_flip_forward_other w'(3)
    by (auto simp: cur w'(1) fw ord g split: option.splits)
qed

text \<open>
  C14: when the update of a channel succeeds, whatever was retried or lost on the way, both
  indexes hold for each incremental segment exactly what the evaluator answered, no segment being
  left out, and no bit of another ordinal has moved in the forward index. Ordinals are the 32 bits the bitmaps hold.
\<close>

theorem update_channel_follows:
  assumes "update_channel ds plan run ev c segs attrs w = (Inr ev', w')" "map_of (ordinal_rows w) c = Some r"
    and "distinct (map seg_id segs)" "distinct (map (\<lambda>s. to_uint32 (seg_ordinal s)) segs)"
  shows "map fst (answers ds plan run attrs segs ev) = filter (\<lambda>s. refresh_mode s = RefreshIncremental) segs
    \<and> (\<forall>(s, m) \<in> set (answers ds plan run attrs segs ev).
         (to_uint32 (or_ordinal r) \<in> current_members w' (seg_id s)) = m
         \<and> (case map_of (reverse_keys w') (reverse_key c) of None \<Rightarrow> \<not> m | Some b \<Rightarrow> (to_uint32 (seg_ordinal s) \<in> b) = m))
    \<and> (\<forall>n i. n \<noteq> to_uint32 (or_ordinal r) \<longrightarrow> (n \<in> current_members w' i) = (n \<in> current_members w i))"
  using assms by (rule update_channel_bits)

definition demo_interp :: "cel_expr \<Rightarrow> unit \<Rightarrow> cel_value result" where
  "demo_interp a x = Inr (VBool (a = LiteralE (VBool True)))"

definition demo_segments :: "segment list" where
  "demo_segments = map (\<lambda>r. (segment_of_row r)\<lparr>seg_predicate := \<lparr>pred_source = [], pred_tree = sr_tree r, pred_hash = sr_id r\<rparr>\<rparr>)
     (segment_rows demo_members)"

definition demo_update :: "cel_expr evaluator result \<times> membership_world" where
  "demo_update = update_channel demo_tree Inr demo_interp new_evaluator ''c2'' demo_segments () demo_members"

lemma demo_update_ok: "\<exists>ev'. fst demo_update = Inr ev'"
proof -
  have "is_ok (fst demo_update)" by code_simp
  then show ?thesis by (cases "fst demo_update") auto
qed

theorem update_channel_follows_witness:
  "map fst (answers demo_tree Inr demo_interp () demo_segments new_evaluator) = demo_segments
    \<and> map snd (answers demo_tree Inr demo_interp () demo_segments new_evaluator) = [True, False]
    \<and> list_all (\<lambda>(s, m). (2 \<in> current_members (snd demo_update) (seg_id s)) = m)
         (answers demo_tree Inr demo_interp () demo_segments new_evaluator)"
proof -
  from demo_update_ok obtain ev' where "update_channel demo_tree Inr demo_interp new_evaluator ''c2'' demo_segments () demo_members
      = (Inr ev', snd demo_update)" unfolding demo_update_def by (metis prod.collapse)
  note up = update_channel_follows [OF this, of "\<lparr>or_ordinal = 2, or_retired = False\<rparr>"]
  have pre: "map_of (ordinal_rows demo_members) ''c2'' = Some \<lparr>or_ordinal = 2, or_retired = False\<rparr>"
    "distinct (map seg_id demo_segments)" "distinct (map (\<lambda>s. to_uint32 (seg_ordinal s)) demo_segments)"
    by (simp_all add: demo_members_def demo_segments_def segment_of_row_def to_uint32_def)
  have "to_uint32 2 = 2" by (simp add: to_uint32_def)
  moreover have "filter (\<lambda>s. refresh_mode s = RefreshIncremental) demo_segments = demo_segments"
    by (simp add: demo_segments_def demo_members_def segment_of_row_def)
  moreover have "map snd (answers demo_tree Inr demo_interp () demo_segments new_evaluator) = [True, False]"
    by code_simp
  ultimately show ?thesis using up [OF pre] by (auto simp: list_all_iff)
qed

text \<open>
  Segments that were read back have no hash, so on one evaluator they share a program: the first
  one's answers for every other.
\<close>

lemma loaded_segments_share_program:
  assumes "list_segments w = (Inr segs, w1)" "s \<in> set segs" "t \<in> set segs"
    and "ds (pred_tree (seg_predicate s)) = Inr a" "plan a = Inr prog"
  shows "fst (evaluate ds plan run (snd (evaluate ds plan run new_evaluator (seg_predicate s) x)) (seg_predicate t) y)
    = run_program run prog y"
proof -
  from assms(1) have "segs = map segment_of_row (sort_key sr_id (segment_rows w))"
    by (auto simp: list_segments_def dest!: query_ok)
  with assms(2,3) have "pred_hash (seg_predicate s) = pred_hash (seg_predicate t)"
    by (auto simp: segment_of_row_def)
  then show ?thesis using assms(4,5) by (rule evaluate_unhashed)
qed

end
