(* ===== verification/Allocation.thy ===== *)
theory Allocation
  imports Assign Content Float64 "HOL-Library.Product_Lexorder" "HOL-Library.Multiset"
begin

text \<open>
  The experiment half of \<^verbatim>\<open>internal/delivery/payload/payload.go\<close>: the conversion of percentage
  weights into buckets by largest remainders, in the floating-point arithmetic of the code, and the
  assignment of a variant to an identity on the table built from them.
\<close>

section \<open>Buckets of a weight\<close>

record share =
  sh_id :: string
  sh_floor :: int
  sh_remainder :: rat

definition share_of :: "(string \<Rightarrow> int) \<Rightarrow> int \<Rightarrow> string \<Rightarrow> share" where
  "share_of weightPercent totalBuckets i =
     (let exact = fl (fl (fl (of_int (weightPercent i)) * fl (of_int totalBuckets)) / 100);
          floor = trunc exact
      in \<lparr>sh_id = i, sh_floor = floor, sh_remainder = fl (exact - fl (of_int floor))\<rparr>)"

definition by_remainder :: "share list \<Rightarrow> share list" where
  "by_remainder = sort_key (\<lambda>s. (- sh_remainder s, sh_id s))"

fun hand_out :: "int \<Rightarrow> int \<Rightarrow> share list \<Rightarrow> (string \<rightharpoonup> int) \<Rightarrow> (string \<rightharpoonup> int)" where
  "hand_out i leftover [] buckets = buckets"
| "hand_out i leftover (s # ss) buckets =
     hand_out (i + 1) leftover ss
       (buckets(sh_id s \<mapsto> if i < leftover then sh_floor s + 1 else sh_floor s))"

definition allocate_experiment_buckets :: "string list \<Rightarrow> (string \<Rightarrow> int) \<Rightarrow> int \<Rightarrow> (string \<rightharpoonup> int)" where
  "allocate_experiment_buckets ids weightPercent totalBuckets =
     (let shares = map (share_of weightPercent totalBuckets) ids;
          flooredSum = sum_list (map sh_floor shares);
          leftover = totalBuckets - flooredSum
      in hand_out 0 leftover (by_remainder shares) Map.empty)"

section \<open>Assigning a variant\<close>

text \<open>A Go map built in a loop keeps the last value of a key; a missing key reads as zero.\<close>

definition weight_percent :: "variant list \<Rightarrow> string \<Rightarrow> int" where
  "weight_percent vs i = (case map_of (rev (map (\<lambda>v. (variant_id v, weight v)) vs)) i of None \<Rightarrow> 0 | Some n \<Rightarrow> n)"

definition zero_variant :: variant where
  "zero_variant = \<lparr>variant_id = [], variant_message = [], weight = 0, language = [],
     schema = \<lparr>major = 0, minor = 0\<rparr>, variant_content = HTMLContent []\<rparr>"

definition variant_by_id :: "variant list \<Rightarrow> string \<Rightarrow> variant" where
  "variant_by_id vs i =
     (case map_of (rev (map (\<lambda>v. (variant_id v, v)) vs)) i of None \<Rightarrow> zero_variant | Some v \<Rightarrow> v)"

definition holdout_buckets :: "rat \<Rightarrow> int" where
  "holdout_buckets fraction = math_round (fl (fraction * fl (of_int BucketCount)))"

text \<open>The arguments are the holdout fraction and the salt of the message, which is all it is read for.\<close>

definition assign_variant :: "rat \<Rightarrow> string \<Rightarrow> variant list \<Rightarrow> string \<Rightarrow> (variant \<times> bool) result" where
  "assign_variant fraction salt languageVariants ident =
     (let ids = sort (map variant_id languageVariants);
          holdoutBuckets = holdout_buckets fraction;
          bucketWeights = allocate_experiment_buckets ids (weight_percent languageVariants) (BucketCount - holdoutBuckets)
      in res_bind (wrap_err ''build range table for message'' (new_range_table ids bucketWeights holdoutBuckets)) (\<lambda>table.
           res_bind (wrap_err ''assign variant for message'' (assign table salt ident)) (\<lambda>r.
             if ar_is_holdout r then Inr (zero_variant, True)
             else Inr (variant_by_id languageVariants (ar_variant r), False))))"

section \<open>The shares in floating point\<close>

lemma fl_near: "\<bar>x\<bar> \<le> 100000 \<Longrightarrow> \<bar>fl x - x\<bar> \<le> 1 / 1000000"
proof -
  assume "\<bar>x\<bar> \<le> 100000"
  then have "\<bar>x\<bar> / 9007199254740992 \<le> 1 / 1000000" by simp
  with fl_error [of x] show ?thesis by linarith
qed

text \<open>A share is the integer quotient, and its remainder is close to the true one.\<close>

lemma share_exact:
  fixes w T :: int
  assumes "0 \<le> w" "w \<le> 100" "0 \<le> T" "T \<le> 10000" "weightPercent i = w"
  shows "sh_floor (share_of weightPercent T i) = w * T div 100
    \<and> \<bar>sh_remainder (share_of weightPercent T i) - of_int (w * T mod 100) / 100\<bar> \<le> 1 / 1000
    \<and> (w * T mod 100 = 0 \<longrightarrow> sh_remainder (share_of weightPercent T i) = 0)"
proof -
  define q where "q = w * T div 100"
  define m where "m = w * T mod 100"
  have wT: "w * T = 100 * q + m" by (simp add: q_def m_def)
  have m: "0 \<le> m" "m \<le> 99" unfolding m_def by (simp_all add: pos_mod_bound [of 100 "w * T", THEN zless_imp_add1_zle, simplified])
  have "0 \<le> w * T" using assms by simp
  moreover have "w * T \<le> 100 * 10000" using assms by (intro mult_mono) simp_all
  ultimately have q: "0 \<le> q" "q \<le> 10000" using wT m by linarith+
  have "fl (fl (of_int w) * fl (of_int T)) = of_int (w * T)"
    using assms \<open>0 \<le> w * T\<close> \<open>w * T \<le> 100 * 10000\<close> fl_int [of w] fl_int [of T] fl_int [of "w * T"] by simp
  then have ex: "fl (fl (fl (of_int w) * fl (of_int T)) / 100) = fl (of_int q + of_int m / 100)"
    by (simp add: wT add_divide_distrib)
  define e where "e = fl (of_int q + of_int m / 100)"
  have near: "\<bar>e - (of_int q + of_int m / 100)\<bar> \<le> 1 / 1000000"
    unfolding e_def using q m by (intro fl_near) (simp add: abs_le_iff)
  then have e: "e \<le> of_int q + of_int m / 100 + 1 / 1000000" "of_int q + of_int m / 100 - 1 / 1000000 \<le> e"
    by linarith+
  have whole: "e = of_int q" if "m = 0"
    using that q fl_int [of q] by (simp add: e_def)
  have floor: "\<lfloor>e\<rfloor> = q"
  proof (cases "m = 0")
    case False
    with m have m1: "1 \<le> (of_int m :: rat)" "(of_int m :: rat) \<le> 99" by simp_all
    show ?thesis by (rule floor_unique) (use e m1 in linarith)+
  qed (simp add: whole)
  have "0 \<le> e"
  proof (cases "m = 0")
    case False
    with m have "1 \<le> (of_int m :: rat)" "0 \<le> (of_int q :: rat)" using q by simp_all
    with e show ?thesis by linarith
  qed (use whole q in simp)
  then have tr: "trunc e = q" by (simp add: trunc_floor floor)
  have flq: "fl (of_int q) = of_int q" using q by (intro fl_int) simp
  have m1: "0 \<le> (of_int m :: rat)" "(of_int m :: rat) \<le> 99" using m by simp_all
  with e have "\<bar>e - of_int q\<bar> \<le> 100000" by linarith
  from fl_near [OF this] e have "\<bar>fl (e - of_int q) - of_int m / 100\<bar> \<le> 1 / 1000"
    by linarith
  then show ?thesis
    using whole by (simp add: share_of_def Let_def assms(5) ex e_def [symmetric] tr flq q_def [symmetric] m_def [symmetric])
qed

section \<open>Handing out the leftover\<close>

text \<open>The first \<open>L\<close> shares in the order get one bucket more than their floor.\<close>

definition extra :: "int \<Rightarrow> share list \<Rightarrow> string \<Rightarrow> bool" where
  "extra L ss i = (i \<in> sh_id ` set (take (nat L) ss))"

lemma hand_out_other: "i \<notin> sh_id ` set ss \<Longrightarrow> hand_out n L ss b i = b i"
  by (induction n L ss b rule: hand_out.induct) auto

lemma hand_out_value:
  assumes "distinct (map sh_id ss)" "s \<in> set ss"
  shows "hand_out n L ss b (sh_id s) = Some (sh_floor s + (if extra (L - n) ss (sh_id s) then 1 else 0))"
  using assms
proof (induction ss arbitrary: n b)
  case (Cons s' ss)
  show ?case
  proof (cases "s = s'")
    case True
    have no: "sh_id s \<notin> sh_id ` set ss" using Cons.prems(1) True by auto
    then have "sh_id s \<notin> sh_id ` set (take k ss)" for k using set_take_subset by fastforce
    then show ?thesis
      using True no by (cases "nat (L - n)") (auto simp: hand_out_other extra_def)
  next
    case False
    then have s: "s \<in> set ss" using Cons.prems by simp
    then have "sh_id s \<in> sh_id ` set ss" by simp
    then have s': "sh_id s \<noteq> sh_id s'" using Cons.prems(1) by auto
    have "extra (L - (n + 1)) ss (sh_id s) = extra (L - n) (s' # ss) (sh_id s)"
    proof (cases "nat (L - n)")
      case (Suc k)
      then have "nat (L - (n + 1)) = k" by simp
      with Suc s' show ?thesis by (simp add: extra_def)
    qed (simp add: extra_def)
    then show ?thesis using Cons s s' by simp
  qed
qed simp

lemma sum_extra:
  assumes "distinct (map sh_id ss)" "0 \<le> L" "L \<le> int (length ss)"
  shows "(\<Sum>s\<leftarrow>ss. if extra L ss (sh_id s) then 1 else 0) = L"
proof -
  have parts: "ss = take (nat L) ss @ drop (nat L) ss" by simp
  have head: "extra L ss (sh_id s)" if "s \<in> set (take (nat L) ss)" for s using that by (simp add: extra_def)
  have second: "\<not> extra L ss (sh_id s)" if "s \<in> set (drop (nat L) ss)" for s
  proof -
    from assms(1) have "distinct (map sh_id (take (nat L) ss) @ map sh_id (drop (nat L) ss))"
      by (metis append_take_drop_id map_append)
    with that show ?thesis by (auto simp: extra_def)
  qed
  have "(\<Sum>s\<leftarrow>ss. if extra L ss (sh_id s) then 1 else 0 :: int)
    = (\<Sum>s\<leftarrow>take (nat L) ss. if extra L ss (sh_id s) then 1 else 0) + (\<Sum>s\<leftarrow>drop (nat L) ss. if extra L ss (sh_id s) then 1 else 0)"
    by (subst parts) (simp only: map_append sum_list_append)
  also have "\<dots> = (\<Sum>s\<leftarrow>take (nat L) ss. 1) + (\<Sum>s\<leftarrow>drop (nat L) ss. 0)"
    using head second by (simp cong: map_cong)
  also have "\<dots> = L" using assms(2,3) by (simp add: sum_list_triv)
  finally show ?thesis .
qed

text \<open>Remainders fall along the order.\<close>

lemma by_remainder_falls:
  assumes "s \<in> set (take k (by_remainder ss))" "t \<in> set (drop k (by_remainder ss))"
  shows "sh_remainder t \<le> sh_remainder s"
proof -
  have "sorted (map (\<lambda>s. (- sh_remainder s, sh_id s)) (take k (by_remainder ss) @ drop k (by_remainder ss)))"
    by (simp add: by_remainder_def del: map_append)
  with assms have "(- sh_remainder s, sh_id s) \<le> (- sh_remainder t, sh_id t)"
    by (simp only: map_append sorted_append) auto
  then show ?thesis by auto
qed

text \<open>When few enough shares are to get one, none without a remainder does.\<close>

lemma extra_has_remainder:
  assumes "s \<in> set (take k (by_remainder ss))" "\<forall>s\<in>set ss. 0 \<le> sh_remainder s"
    and "k \<le> length (filter (\<lambda>s. 0 < sh_remainder s) ss)"
  shows "0 < sh_remainder s"
proof (rule ccontr)
  assume no: "\<not> 0 < sh_remainder s"
  let ?P = "\<lambda>s. 0 < sh_remainder s" and ?o = "by_remainder ss"
  have none: "filter ?P (drop k ?o) = []"
    using by_remainder_falls [OF assms(1)] no by (force simp: filter_empty_conv)
  have "length (filter ?P ss) = length (filter ?P ?o)"
    by (metis by_remainder_def mset_filter mset_sort size_mset)
  also have "\<dots> = length (filter ?P (take k ?o))"
    using none by (metis append_Nil2 append_take_drop_id filter_append)
  also have "\<dots> < length (take k ?o)"
    using assms(1) no by (rule length_filter_less)
  also have "\<dots> \<le> k" by simp
  finally show False using assms(3) by simp
qed

lemma sum_list_sort_key: "(\<Sum>s\<leftarrow>sort_key k ss. f s) = (\<Sum>s\<leftarrow>ss. (f s :: int))"
  by (metis mset_map mset_sort sum_mset_sum_list)

text \<open>A list of numbers below 100 that sums to a hundredfold: the hundreds are fewer than the positive ones.\<close>

lemma hundreds_le_positive:
  fixes m :: "'a \<Rightarrow> int"
  assumes "\<forall>i\<in>set is. 0 \<le> m i \<and> m i < 100"
  shows "(\<Sum>i\<leftarrow>is. m i) \<le> 100 * int (length (filter (\<lambda>i. 0 < m i) is)) \<and> 0 \<le> (\<Sum>i\<leftarrow>is. m i)"
  using assms by (induction "is") auto

definition quota :: "(string \<Rightarrow> int) \<Rightarrow> int \<Rightarrow> string \<Rightarrow> int" where
  "quota w T i = w i * T div 100"

definition excess :: "(string \<Rightarrow> int) \<Rightarrow> int \<Rightarrow> string \<Rightarrow> int" where
  "excess w T i = w i * T mod 100"

definition fair_weights :: "(string \<Rightarrow> int) \<Rightarrow> string list \<Rightarrow> bool" where
  "fair_weights w ids = (distinct ids \<and> (\<forall>i\<in>set ids. 0 \<le> w i) \<and> (\<Sum>i\<leftarrow>ids. w i) = 100)"

lemma fair_weight_bound: "fair_weights w ids \<Longrightarrow> i \<in> set ids \<Longrightarrow> 0 \<le> w i \<and> w i \<le> 100"
proof -
  assume fair: "fair_weights w ids" and i: "i \<in> set ids"
  then have nn: "\<forall>i\<in>set ids. 0 \<le> w i" by (simp add: fair_weights_def)
  have "w i \<le> (\<Sum>i\<leftarrow>ids. w i)"
    using i nn
  proof (induction ids)
    case (Cons j ids)
    then have "0 \<le> (\<Sum>i\<leftarrow>ids. w i)" by (intro sum_list_nonneg) auto
    with Cons show ?case by fastforce
  qed simp
  with fair i show ?thesis by (simp add: fair_weights_def)
qed

lemma allocation_values:
  assumes fair: "fair_weights w ids" and T: "0 \<le> T" "T \<le> 10000"
  defines "order \<equiv> by_remainder (map (share_of w T) ids)" and "L \<equiv> T - (\<Sum>i\<leftarrow>ids. quota w T i)"
  shows "0 \<le> L" "nat L \<le> length (filter (\<lambda>s. 0 < sh_remainder s) (map (share_of w T) ids))"
    and "\<And>i. i \<in> set ids \<Longrightarrow> allocate_experiment_buckets ids w T i = Some (quota w T i + (if extra L order i then 1 else 0))"
    and "distinct (map sh_id order)" "mset order = mset (map (share_of w T) ids)"
proof -
  let ?ss = "map (share_of w T) ids"
  have ids: "map sh_id ?ss = ids" by (simp add: share_of_def Let_def o_def)
  have ex: "sh_floor (share_of w T i) = quota w T i" "0 < sh_remainder (share_of w T i) \<longleftrightarrow> 0 < excess w T i"
    if "i \<in> set ids" for i
  proof -
    from share_exact [OF _ _ T, of "w i" w i] fair_weight_bound [OF fair that]
    have s: "sh_floor (share_of w T i) = quota w T i"
      "\<bar>sh_remainder (share_of w T i) - of_int (excess w T i) / 100\<bar> \<le> 1 / 1000"
      "excess w T i = 0 \<Longrightarrow> sh_remainder (share_of w T i) = 0" by (simp_all add: quota_def excess_def)
    have "0 \<le> excess w T i" by (simp add: excess_def)
    moreover have "0 < sh_remainder (share_of w T i)" if "0 < excess w T i"
    proof -
      from that have "1 \<le> (of_int (excess w T i) :: rat)" by simp
      with s(2) show ?thesis by linarith
    qed
    ultimately show "sh_floor (share_of w T i) = quota w T i" "0 < sh_remainder (share_of w T i) \<longleftrightarrow> 0 < excess w T i"
      using s by (auto simp: order.order_iff_strict)
  qed
  have "(\<Sum>i\<leftarrow>ids. w i * T) = T * 100"
    using fair by (simp add: sum_list_mult_const fair_weights_def)
  moreover have "w i * T = 100 * quota w T i + excess w T i" for i by (simp add: quota_def excess_def)
  ultimately have total: "100 * L = (\<Sum>i\<leftarrow>ids. excess w T i)"
    by (simp add: L_def sum_list_addf sum_list_const_mult)
  have "\<forall>i\<in>set ids. 0 \<le> excess w T i \<and> excess w T i < 100" by (simp add: excess_def)
  from hundreds_le_positive [OF this] total
  have L: "0 \<le> L" "L \<le> int (length (filter (\<lambda>i. 0 < excess w T i) ids))" by simp_all
  have "length (filter (\<lambda>i. 0 < excess w T i) ids) = length (filter (\<lambda>s. 0 < sh_remainder s) ?ss)"
    using ex(2) by (simp add: filter_map o_def cong: filter_cong)
  with L show "0 \<le> L" "nat L \<le> length (filter (\<lambda>s. 0 < sh_remainder s) ?ss)" by simp_all
  show perm: "mset order = mset ?ss" by (simp add: order_def by_remainder_def)
  then have "mset (map sh_id order) = mset ids" by (metis ids mset_map)
  with fair show dist: "distinct (map sh_id order)" by (metis fair_weights_def mset_eq_imp_distinct_iff)
  have floors: "sum_list (map sh_floor ?ss) = (\<Sum>i\<leftarrow>ids. quota w T i)"
    using ex(1) by (simp add: o_def cong: map_cong)
  show "allocate_experiment_buckets ids w T i = Some (quota w T i + (if extra L order i then 1 else 0))"
    if i: "i \<in> set ids" for i
  proof -
    have "share_of w T i \<in> set order" using i by (simp add: order_def by_remainder_def)
    have "sh_id (share_of w T i) = i" by (simp add: share_of_def Let_def)
    with hand_out_value [OF dist \<open>share_of w T i \<in> set order\<close>, of 0 L Map.empty] ex(1) [OF i]
    have "hand_out 0 L order Map.empty i = Some (quota w T i + (if extra L order i then 1 else 0))" by simp
    then show ?thesis
      by (simp only: allocate_experiment_buckets_def Let_def floors L_def order_def)
  qed
qed

definition buckets_of :: "(string \<rightharpoonup> int) \<Rightarrow> string \<Rightarrow> int" where
  "buckets_of b i = (case b i of None \<Rightarrow> 0 | Some n \<Rightarrow> n)"

text \<open>The remainders of the shares are near the exact ones, and exact where those are zero.\<close>

lemma sh_id_share_of [simp]: "sh_id (share_of w T i) = i"
  by (simp add: share_of_def Let_def)

lemma excess_nonneg: "0 \<le> excess w T i"
  by (simp add: excess_def)

lemma remainder_near:
  assumes "fair_weights w ids" "0 \<le> T" "T \<le> 10000" "i \<in> set ids"
  shows "\<bar>sh_remainder (share_of w T i) - of_int (excess w T i) / 100\<bar> \<le> 1 / 1000"
    "excess w T i = 0 \<Longrightarrow> sh_remainder (share_of w T i) = 0"
  using share_exact [OF _ _ assms(2,3), of "w i" w i] fair_weight_bound [OF assms(1,4)] by (simp_all add: excess_def)

lemma remainder_nonneg:
  assumes "fair_weights w ids" "0 \<le> T" "T \<le> 10000" "i \<in> set ids"
  shows "0 \<le> sh_remainder (share_of w T i)"
proof (cases "excess w T i = 0")
  case False
  with excess_nonneg [of w T i] have "1 \<le> (of_int (excess w T i) :: rat)" by simp
  with remainder_near(1) [OF assms] show ?thesis by linarith
qed (simp add: remainder_near(2) [OF assms])

lemma share_in_order: "i \<in> set ids \<Longrightarrow> share_of w T i \<in> set (by_remainder (map (share_of w T) ids))"
  by (simp add: by_remainder_def)

lemma extra_share:
  assumes "extra L (by_remainder (map (share_of w T) ids)) i"
  shows "share_of w T i \<in> set (take (nat L) (by_remainder (map (share_of w T) ids)))"
proof -
  from assms obtain s where s: "s \<in> set (take (nat L) (by_remainder (map (share_of w T) ids)))" "sh_id s = i"
    by (auto simp: extra_def)
  then have "s \<in> set (map (share_of w T) ids)" by (metis by_remainder_def in_set_takeD set_sort)
  with s show ?thesis by auto
qed

text \<open>Who gets a bucket more had no smaller a remainder than who does not.\<close>

lemma extra_larger:
  assumes "fair_weights w ids" "0 \<le> T" "T \<le> 10000" and ij: "i \<in> set ids" "j \<in> set ids"
    and "extra L (by_remainder (map (share_of w T) ids)) i" "\<not> extra L (by_remainder (map (share_of w T) ids)) j"
  shows "excess w T j \<le> excess w T i"
proof -
  let ?order = "by_remainder (map (share_of w T) ids)"
  note near = remainder_near(1) [OF assms(1-3)]
  have "share_of w T j \<notin> set (take (nat L) ?order)" using assms(7) by (metis extra_def image_eqI sh_id_share_of)
  with share_in_order [OF ij(2)] have "share_of w T j \<in> set (drop (nat L) ?order)"
    by (metis Un_iff append_take_drop_id set_append)
  from by_remainder_falls [OF extra_share [OF assms(6)] this]
  have "sh_remainder (share_of w T j) \<le> sh_remainder (share_of w T i)" .
  moreover from near [OF ij(1)] have "sh_remainder (share_of w T i) \<le> of_int (excess w T i) / 100 + 1 / 1000" by linarith
  moreover from near [OF ij(2)] have "of_int (excess w T j) / 100 - 1 / 1000 \<le> sh_remainder (share_of w T j)" by linarith
  ultimately have "of_int (excess w T j) / 100 - 1 / 1000 \<le> (of_int (excess w T i) / 100 + 1 / 1000 :: rat)" by linarith
  then have "(of_int (excess w T j) :: rat) < of_int (excess w T i + 1)" by (simp add: field_simps)
  then have "excess w T j < excess w T i + 1" using of_int_less_iff by blast
  then show ?thesis by simp
qed

lemma allocation_fair:
  assumes fair: "fair_weights w ids" and T: "0 \<le> T" "T \<le> 10000"
  defines "buckets \<equiv> buckets_of (allocate_experiment_buckets ids w T)"
  shows "(\<Sum>i\<leftarrow>ids. buckets i) = T
    \<and> (\<forall>i\<in>set ids. allocate_experiment_buckets ids w T i = Some (buckets i)
         \<and> (buckets i = quota w T i \<or> 0 < excess w T i \<and> buckets i = quota w T i + 1))
    \<and> (\<forall>i\<in>set ids. \<forall>j\<in>set ids. quota w T i < buckets i \<longrightarrow> buckets j = quota w T j \<longrightarrow> excess w T j \<le> excess w T i)"
proof -
  let ?ss = "map (share_of w T) ids"
  define order where "order = by_remainder ?ss"
  define L where "L = T - (\<Sum>i\<leftarrow>ids. quota w T i)"
  note vals = allocation_values [OF fair T, folded order_def L_def]
  have b: "buckets i = quota w T i + (if extra L order i then 1 else 0)" if "i \<in> set ids" for i
    using vals(3) [OF that] by (simp add: buckets_def buckets_of_def)
  have "length (filter (\<lambda>s. 0 < sh_remainder s) ?ss) \<le> length order"
    using length_filter_le [of "\<lambda>s. 0 < sh_remainder s" ?ss] by (simp add: order_def by_remainder_def)
  then have len: "L \<le> int (length order)" using vals(1,2) by linarith
  have pos: "0 < excess w T i" if i: "i \<in> set ids" "extra L order i" for i
  proof -
    have "\<forall>s\<in>set ?ss. 0 \<le> sh_remainder s" using remainder_nonneg [OF fair T] by auto
    from extra_has_remainder [OF extra_share [OF i(2) [unfolded order_def]] this vals(2)]
      remainder_near(2) [OF fair T i(1)] excess_nonneg [of w T i]
    show ?thesis by (cases "excess w T i = 0") auto
  qed
  have "(\<Sum>i\<leftarrow>ids. buckets i) = (\<Sum>i\<leftarrow>ids. quota w T i) + (\<Sum>i\<leftarrow>ids. if extra L order i then 1 else 0)"
    using b by (simp add: sum_list_addf cong: map_cong)
  also have "(\<Sum>i\<leftarrow>ids. if extra L order i then 1 else 0 :: int) = (\<Sum>s\<leftarrow>?ss. if extra L order (sh_id s) then 1 else 0)"
    by (simp add: o_def)
  also have "\<dots> = (\<Sum>s\<leftarrow>order. if extra L order (sh_id s) then 1 else 0)"
    unfolding order_def by_remainder_def by (rule sum_list_sort_key [symmetric])
  also have "\<dots> = L" by (rule sum_extra [OF vals(4,1) len])
  finally have sum: "(\<Sum>i\<leftarrow>ids. buckets i) = T" by (simp add: L_def)
  show ?thesis
    using sum b vals(3) pos extra_larger [OF fair T, of _ _ L, folded order_def] by (simp split: if_splits)
qed

text \<open>
  C18: the floating-point largest-remainder allocation is the exact one. For weights that sum to 100 it
  gives every bucket away, each variant its exact proportional share rounded down or up, and down
  when the share is whole, and no variant that was rounded up has a smaller true remainder than
  one that was rounded down.
\<close>

theorem allocation_quota:
  assumes "fair_weights w ids" "0 \<le> T" "T \<le> 10000"
  shows "(\<Sum>i\<leftarrow>ids. buckets_of (allocate_experiment_buckets ids w T) i) = T
    \<and> (\<forall>i\<in>set ids. allocate_experiment_buckets ids w T i = Some (buckets_of (allocate_experiment_buckets ids w T) i)
         \<and> (buckets_of (allocate_experiment_buckets ids w T) i = quota w T i
            \<or> 0 < excess w T i \<and> buckets_of (allocate_experiment_buckets ids w T) i = quota w T i + 1))
    \<and> (\<forall>i\<in>set ids. \<forall>j\<in>set ids. quota w T i < buckets_of (allocate_experiment_buckets ids w T) i
         \<longrightarrow> buckets_of (allocate_experiment_buckets ids w T) j = quota w T j \<longrightarrow> excess w T j \<le> excess w T i)"
  using assms by (rule allocation_fair)

definition demo_weights :: "string \<Rightarrow> int" where
  "demo_weights i = (if i = ''a'' then 33 else if i = ''b'' then 33 else 34)"

theorem allocation_quota_witness:
  "(\<Sum>i\<leftarrow>[''a'', ''b'', ''c'']. buckets_of (allocate_experiment_buckets [''a'', ''b'', ''c''] demo_weights 9950) i) = 9950"
proof -
  have "fair_weights demo_weights [''a'', ''b'', ''c'']" by (simp add: fair_weights_def demo_weights_def)
  from allocation_quota [OF this, of 9950] show ?thesis by simp
qed

section \<open>The assignment\<close>

definition fair_variants :: "variant list \<Rightarrow> bool" where
  "fair_variants vs = (vs \<noteq> [] \<and> distinct (map variant_id vs) \<and> (\<forall>v\<in>set vs. 0 \<le> weight v) \<and> (\<Sum>v\<leftarrow>vs. weight v) = 100)"

lemma map_of_rev_distinct: "distinct (map fst xs) \<Longrightarrow> map_of (rev xs) = map_of xs"
  by (subst map_of_inject_set) (simp_all add: rev_map [symmetric])

lemma weight_percent_of:
  assumes "distinct (map variant_id vs)" "v \<in> set vs"
  shows "weight_percent vs (variant_id v) = weight v"
proof -
  have "map_of (map (\<lambda>v. (variant_id v, weight v)) vs) (variant_id v) = Some (weight v)"
    using assms by (intro map_of_is_SomeI) (auto simp: o_def)
  with assms(1) show ?thesis by (simp add: weight_percent_def map_of_rev_distinct o_def)
qed

lemma variant_by_id_of:
  assumes "distinct (map variant_id vs)" "v \<in> set vs"
  shows "variant_by_id vs (variant_id v) = v"
proof -
  have "map_of (map (\<lambda>v. (variant_id v, v)) vs) (variant_id v) = Some v"
    using assms by (intro map_of_is_SomeI) (auto simp: o_def)
  with assms(1) show ?thesis by (simp add: variant_by_id_def map_of_rev_distinct o_def)
qed

lemma perm_map_of:
  assumes "mset vs' = mset vs" "distinct (map variant_id vs)"
  shows "map_of (rev (map (\<lambda>v. (variant_id v, f v)) vs')) = map_of (rev (map (\<lambda>v. (variant_id v, f v)) vs))"
proof -
  have "set vs' = set vs" "distinct (map variant_id vs')"
    using assms by (metis mset_eq_setD, metis mset_map mset_eq_imp_distinct_iff)
  with assms(2) show ?thesis by (subst map_of_inject_set) (simp_all add: o_def rev_map [symmetric])
qed

lemma perm_maps:
  assumes "mset vs' = mset vs" "distinct (map variant_id vs)"
  shows "weight_percent vs' = weight_percent vs" "variant_by_id vs' = variant_by_id vs"
    "sort (map variant_id vs') = sort (map variant_id vs)"
proof -
  show "weight_percent vs' = weight_percent vs" "variant_by_id vs' = variant_by_id vs"
    by (simp_all add: weight_percent_def variant_by_id_def fun_eq_iff perm_map_of [OF assms])
  have "mset (map variant_id vs') = mset (map variant_id vs)" using assms(1) by simp
  then show "sort (map variant_id vs') = sort (map variant_id vs)" by (metis sorted_list_of_multiset_mset)
qed

lemma fair_sorted:
  assumes "fair_variants vs"
  shows "fair_weights (weight_percent vs) (sort (map variant_id vs))"
proof -
  have "(\<Sum>i\<leftarrow>sort (map variant_id vs). weight_percent vs i) = (\<Sum>i\<leftarrow>map variant_id vs. weight_percent vs i)"
    by (rule sum_list_sort_key)
  also have "\<dots> = (\<Sum>v\<leftarrow>vs. weight v)"
    using assms weight_percent_of by (simp add: fair_variants_def o_def cong: map_cong)
  finally show ?thesis
    using assms weight_percent_of by (auto simp: fair_weights_def fair_variants_def)
qed

lemma holdout_range: "0 \<le> h \<Longrightarrow> h \<le> 1 \<Longrightarrow> 0 \<le> holdout_buckets h \<and> holdout_buckets h \<le> BucketCount"
proof -
  assume h: "0 \<le> h" "h \<le> 1"
  define z where "z = fl (h * 10000)"
  have "\<bar>h * 10000\<bar> \<le> 100000" using h by (simp add: abs_le_iff)
  from fl_near [OF this] h have z: "z \<le> 10000 + 1 / 1000000" "- (1 / 1000000) \<le> z" unfolding z_def by linarith+
  have "\<lfloor>z + 1 / 2\<rfloor> < 10001" "0 \<le> \<lfloor>z + 1 / 2\<rfloor>"
    using z by (simp_all add: floor_less_iff le_floor_iff)
  moreover have "\<lfloor>1 / 2 - z\<rfloor> = 0" if "z < 0" using that z by (intro floor_unique) simp_all
  moreover have "fl (of_int BucketCount) = (10000 :: rat)" using fl_int [of 10000] by (simp add: BucketCount_def)
  ultimately show ?thesis by (auto simp: holdout_buckets_def math_round_def z_def [symmetric] BucketCount_def)
qed

lemma assign_variant_total:
  assumes fair: "fair_variants vs" and h: "0 \<le> h" "h \<le> 1"
  shows "\<exists>v b. assign_variant h salt vs ident = Inr (v, b) \<and> (\<not> b \<longrightarrow> v \<in> set vs)
    \<and> (\<forall>vs'. mset vs' = mset vs \<longrightarrow> assign_variant h salt vs' ident = Inr (v, b))"
proof -
  define ids where "ids = sort (map variant_id vs)"
  define w where "w = weight_percent vs"
  define T where "T = BucketCount - holdout_buckets h"
  define B where "B = allocate_experiment_buckets ids w T"
  have T: "0 \<le> T" "T \<le> 10000" using holdout_range [OF h] by (simp_all add: T_def BucketCount_def)
  have fw: "fair_weights w ids" using fair_sorted [OF fair] by (simp add: ids_def w_def)
  note alloc = allocation_fair [OF fw T, folded B_def]
  have given: "weights_given B ids"
    unfolding weights_given_def
  proof
    fix i assume i: "i \<in> set ids"
    have "0 \<le> quota w T i" using fair_weight_bound [OF fw i] T by (simp add: quota_def pos_imp_zdiv_nonneg_iff)
    moreover from alloc i have "B i = Some (buckets_of B i)" "quota w T i \<le> buckets_of B i" by auto
    ultimately show "case B i of None \<Rightarrow> False | Some k \<Rightarrow> 0 \<le> k" by simp
  qed
  have "weight_sum B ids = (\<Sum>i\<leftarrow>ids. buckets_of B i)"
    unfolding weight_sum_def by (intro arg_cong [where f = sum_list] map_cong) (auto simp: buckets_of_def split: option.splits)
  with alloc have sum: "weight_sum B ids + holdout_buckets h = BucketCount" by (simp add: T_def)
  have "set ids = variant_id ` set vs" "vs \<noteq> []" "distinct ids" using fair by (simp_all add: ids_def fair_variants_def)
  then have ids: "ids \<noteq> []" "distinct ids" by auto
  have "is_ok (new_range_table ids B (holdout_buckets h))"
    using ids given sum holdout_range [OF h] by (simp add: new_range_table_ok_iff wrap64_small BucketCount_def)
  then obtain t where t: "new_range_table ids B (holdout_buckets h) = Inr t"
    by (cases "new_range_table ids B (holdout_buckets h)") auto
  have fits: "weight_sum B ids + holdout_buckets h \<le> max_int64" by (simp add: sum BucketCount_def max_int64_def)
  obtain x b where l: "lookup t (bucket salt ident) = Inr (x, b)"
    using bt.assigned [OF new_range_table_valid [OF t fits]] by fastforce
  then have "(x, b) \<in> set (map Assign.label (ranges t))" by (auto simp: lookup_def dest: lookup_ranges_label)
  then have x: "\<not> b \<Longrightarrow> x \<in> set ids" by (auto simp: new_range_table_shape(2) [OF t fits])
  define v where "v = (if b then zero_variant else variant_by_id vs x)"
  have as: "assign_variant h salt vs ident = Inr (v, b)"
    using t l by (simp add: assign_variant_def Let_def ids_def w_def T_def B_def assign_def v_def)
  have "v \<in> set vs" if "\<not> b"
  proof -
    from x that obtain u where u: "u \<in> set vs" "x = variant_id u" by (auto simp: ids_def)
    with fair variant_by_id_of that show ?thesis by (simp add: v_def fair_variants_def)
  qed
  moreover have "assign_variant h salt vs' ident = Inr (v, b)" if "mset vs' = mset vs" for vs'
  proof -
    from fair have "distinct (map variant_id vs)" by (simp add: fair_variants_def)
    from perm_maps [OF that this] have "assign_variant h salt vs' ident = assign_variant h salt vs ident"
      by (simp only: assign_variant_def)
    with as show ?thesis by simp
  qed
  ultimately show ?thesis using as by blast
qed

text \<open>
  C19: with weights that sum to 100 and a holdout between nothing and everyone, assignment never
  fails: every identity gets a variant of the message or the holdout, and always the same one, in
  whatever order the database returned the variants.
\<close>

theorem assign_variant_stable:
  assumes "fair_variants vs" "0 \<le> h" "h \<le> 1"
  shows "\<exists>v b. assign_variant h salt vs ident = Inr (v, b) \<and> (\<not> b \<longrightarrow> v \<in> set vs)
    \<and> (\<forall>vs'. mset vs' = mset vs \<longrightarrow> assign_variant h salt vs' ident = Inr (v, b))"
  using assms by (rule assign_variant_total)

definition plain_variant :: "string \<Rightarrow> int \<Rightarrow> variant" where
  "plain_variant i n = zero_variant\<lparr>variant_id := i, weight := n\<rparr>"

theorem assign_variant_stable_witness:
  "\<exists>r. assign_variant (1 / 10) ''salt'' [plain_variant ''a'' 60, plain_variant ''b'' 40] ''id'' = Inr r
    \<and> assign_variant (1 / 10) ''salt'' [plain_variant ''b'' 40, plain_variant ''a'' 60] ''id'' = Inr r"
proof -
  have "fair_variants [plain_variant ''a'' 60, plain_variant ''b'' 40]"
    by (simp add: fair_variants_def plain_variant_def)
  from assign_variant_stable [OF this, of "1 / 10" "''salt''" "''id''"] show ?thesis
    by (auto simp: add_mset_commute)
qed

end
