(* ===== verification/Payload.thy ===== *)
theory Payload
  imports Membership Allocation
begin

text \<open>
  \<^verbatim>\<open>internal/delivery/payload\<close> and \<^verbatim>\<open>internal/delivery/sync\<close>: the assembly of the payload of a
  channel from the messages its segments make it eligible for, the bundles shared by the channels
  with the same segments, language and schema, their invalidation, and the time of the next
  synchronization. A bundle in Redis is the value its JSON stands for.
\<close>

section \<open>Entries and bundles\<close>

record entry =
  en_message :: string
  en_version :: int
  en_variant :: string
  en_schema :: schema_version
  en_priority :: int
  en_content :: string
  en_triggers :: "trigger list"
  en_conditions :: "display_condition list"
  en_policy :: control_policy
  en_expires :: time

record payload =
  entries :: "entry list"
  next_sync :: time
  budget_remaining :: "int option"

record bundle_variant =
  bv_id :: string
  bv_weight :: int
  bv_language :: string
  bv_schema :: schema_version
  bv_content :: string

record bundle_message =
  bm_id :: string
  bm_version :: int
  bm_priority :: int
  bm_expires :: time
  bm_policy :: control_policy
  bm_triggers :: "trigger list"
  bm_conditions :: "display_condition list"
  bm_holdout :: rat
  bm_salt :: string
  bm_fallback :: bundle_variant
  bm_variants :: "bundle_variant list"

type_synonym message_bundle = "bundle_message list"

record payload_world = membership_world +
  bundle_cache :: "(string \<times> message_bundle) list"
  bundle_index :: "(string \<times> string list) list"

type_synonym ('w, 'a) payload_io = "'w payload_world_scheme \<Rightarrow> 'a result \<times> 'w payload_world_scheme"
type_synonym 'w event_sink = "event list \<Rightarrow> time \<Rightarrow> ('w, int) payload_io"

section \<open>Keys\<close>

definition bundle_key :: "string \<Rightarrow> int \<Rightarrow> string \<Rightarrow> string" where
  "bundle_key lang declaredMajor membershipHash =
     ''delivery:bundle:'' @ lang @ '':'' @ dec_of_int declaredMajor @ '':'' @ membershipHash"

definition bundle_segment_index_key :: "string \<Rightarrow> string" where
  "bundle_segment_index_key s = ''delivery:bundle:segment-index:'' @ s"

section \<open>The shared half\<close>

definition variants_supporting_major :: "variant list \<Rightarrow> int \<Rightarrow> variant list" where
  "variants_supporting_major vs declaredMajor = filter (\<lambda>v. supports_major (schema v) declaredMajor) vs"

definition variants_for_language :: "variant list \<Rightarrow> string \<Rightarrow> variant list" where
  "variants_for_language vs lang = filter (\<lambda>v. language v = lang) vs"

text \<open>\<open>render\<close> is the text \<^verbatim>\<open>json.Marshal\<close> gives a value.\<close>

definition to_bundle_variant :: "(json \<Rightarrow> string) \<Rightarrow> variant \<Rightarrow> bundle_variant" where
  "to_bundle_variant render v =
     \<lparr>bv_id = variant_id v, bv_weight = weight v, bv_language = language v, bv_schema = schema v,
      bv_content = render (marshal_content_column v)\<rparr>"

definition to_bundle_message :: "(json \<Rightarrow> string) \<Rightarrow> message \<Rightarrow> string \<Rightarrow> int \<Rightarrow> bundle_message option result" where
  "to_bundle_message render m lang declaredMajor =
     (if variants m = [] then Inl (Errorf ''message has no variants'')
      else case variants_supporting_major (variants m) declaredMajor of
        [] \<Rightarrow> Inr None
      | v # vs \<Rightarrow> Inr (Some
          \<lparr>bm_id = msg_id m, bm_version = msg_version m, bm_priority = priority m, bm_expires = win_end (msg_window m),
           bm_policy = policy m, bm_triggers = triggers m, bm_conditions = display_conditions m,
           bm_holdout = holdout_fraction m, bm_salt = experiment_salt m, bm_fallback = to_bundle_variant render v,
           bm_variants = map (to_bundle_variant render) (variants_for_language (v # vs) lang)\<rparr>))"

definition segment_ids_for_ordinals :: "nat list \<Rightarrow> ('w, string list) payload_io" where
  "segment_ids_for_ordinals os = wrapping ''payload: resolve segment ordinals'' (query (\<lambda>w.
     map sr_id (filter (\<lambda>r. sr_ordinal r \<in> int ` set os) (segment_rows w))))"

definition eligible :: "string list \<Rightarrow> time \<Rightarrow> message_row \<Rightarrow> bool" where
  "eligible sids now r =
     (mr_state r = ''active'' \<and> mr_start r \<le> pg_time now \<and> mr_end r > pg_time now
      \<and> mr_audience r \<in> Some ` set sids)"

definition eligible_message_ids :: "string list \<Rightarrow> time \<Rightarrow> ('w, string list) payload_io" where
  "eligible_message_ids sids now = wrapping ''payload: query eligible messages'' (query (\<lambda>w.
     map fst (sort_key (\<lambda>(i, r). (- mr_priority r, i)) (filter (\<lambda>(i, r). eligible sids now r) (messages w)))))"

fun assemble_messages :: "(json \<Rightarrow> string) \<Rightarrow> string \<Rightarrow> int \<Rightarrow> string list \<Rightarrow> ('w, message_bundle) payload_io" where
  "assemble_messages render lang declaredMajor [] = ret []"
| "assemble_messages render lang declaredMajor (i # is) =
     and_then (wrapping ''payload: load message'' (get_message i)) (\<lambda>m.
       and_then (wrapping ''payload: build bundle entry for message''
           (of_result (to_bundle_message render m lang declaredMajor))) (\<lambda>bm.
         and_then (assemble_messages render lang declaredMajor is) (\<lambda>b.
           ret (case bm of None \<Rightarrow> b | Some x \<Rightarrow> x # b))))"

definition assemble_shared :: "(json \<Rightarrow> string) \<Rightarrow> string list \<Rightarrow> string \<Rightarrow> int \<Rightarrow> time \<Rightarrow> ('w, message_bundle) payload_io" where
  "assemble_shared render sids lang declaredMajor now =
     (if sids = [] then ret []
      else and_then (eligible_message_ids sids now) (assemble_messages render lang declaredMajor))"

section \<open>The cache\<close>

definition get_cached_bundle :: "string \<Rightarrow> ('w, message_bundle option) payload_io" where
  "get_cached_bundle key = wrapping ''payload: read cached bundle'' (query (\<lambda>w. map_of (bundle_cache w) key))"

text \<open>
  The statements of a pipeline that is not a transaction: a connection that breaks leaves those that were read before, so each
  of them is a call that may be lost, and the ones after a lost one are lost with it.
\<close>

definition index_bundle :: "string \<Rightarrow> string \<Rightarrow> ('w, unit) payload_io" where
  "index_bundle key s = exec (\<lambda>w. w\<lparr>bundle_index :=
     upsert (\<lambda>ks. case ks of None \<Rightarrow> [key] | Some ks \<Rightarrow> List.insert key ks) (bundle_segment_index_key s) (bundle_index w)\<rparr>)"

definition set_cached_bundle :: "string \<Rightarrow> string list \<Rightarrow> message_bundle \<Rightarrow> ('w, unit) payload_io" where
  "set_cached_bundle key sids b =
     and_then (wrapping ''payload: cache bundle'' (exec (\<lambda>w.
         w\<lparr>bundle_cache := upsert (\<lambda>_. b) key (bundle_cache w)\<rparr>)))
       (\<lambda>_. if sids = [] then ret ()
          else wrapping ''payload: index bundle'' (for_each (index_bundle key) sids))"

lemma index_bundle_calm:
  "faults w = [] \<Longrightarrow> for_each (index_bundle key) sids w
     = (Inr (), w\<lparr>bundle_index := fold (\<lambda>s. upsert (\<lambda>ks. case ks of None \<Rightarrow> [key] | Some ks \<Rightarrow> List.insert key ks)
         (bundle_segment_index_key s)) sids (bundle_index w)\<rparr>)"
  by (induction sids arbitrary: w) (simp_all add: index_bundle_def exec_calm and_then_def)

text \<open>Whatever is lost, indexing leaves everything else as it was.\<close>

lemma index_bundle_any:
  "for_each (index_bundle key) sids w = (r, w') \<Longrightarrow> \<exists>fs idx. w' = w\<lparr>faults := fs, bundle_index := idx\<rparr>"
proof (induction sids arbitrary: w)
  case (Cons s sids)
  from Cons.prems have "and_then (index_bundle key s) (\<lambda>_. for_each (index_bundle key) sids) w = (r, w')" by simp
  then show ?case
  proof (cases rule: and_then_cases)
    case (failed e)
    from exec_any [OF failed(1) [unfolded index_bundle_def]] obtain fs where
      "w' = w\<lparr>faults := fs\<rparr> \<or> (\<exists>idx. w' = w\<lparr>faults := fs, bundle_index := idx\<rparr>)" by auto
    moreover have "w\<lparr>faults := fs\<rparr> = w\<lparr>faults := fs, bundle_index := bundle_index w\<rparr>" by (cases w) simp
    ultimately have "\<exists>idx. w' = w\<lparr>faults := fs, bundle_index := idx\<rparr>" by metis
    then show ?thesis by blast
  next
    case (went_on u w1)
    from exec_ok [OF went_on(1) [unfolded index_bundle_def]] obtain fs idx where "w1 = w\<lparr>faults := fs, bundle_index := idx\<rparr>" by auto
    with Cons.IH [OF went_on(2)] show ?thesis by auto
  qed
next
  case Nil
  have "w = w\<lparr>faults := faults w, bundle_index := bundle_index w\<rparr>" by (cases w) simp
  with Nil show ?case by (simp, metis)
qed

text \<open>\<^verbatim>\<open>Iterator\<close> yields the values of a bitmap in ascending order.\<close>

definition shared_bundle_for ::
  "(json \<Rightarrow> string) \<Rightarrow> (bitmap \<Rightarrow> string) \<Rightarrow> bitmap \<Rightarrow> string \<Rightarrow> int \<Rightarrow> time \<Rightarrow> ('w, message_bundle) payload_io" where
  "shared_bundle_for render marshal segmentBM lang declaredMajor now =
     (let key = bundle_key lang declaredMajor (reverse_hash marshal segmentBM) in
      and_then (get_cached_bundle key) (\<lambda>cached. case cached of
          Some b \<Rightarrow> ret b
        | None \<Rightarrow>
            and_then (segment_ids_for_ordinals (sorted_list_of_set segmentBM)) (\<lambda>sids.
              and_then (assemble_shared render sids lang declaredMajor now) (\<lambda>b.
                and_then (set_cached_bundle key sids b) (\<lambda>_. ret b)))))"

definition invalidate_campaign :: "string \<Rightarrow> ('w, unit) payload_io" where
  "invalidate_campaign i =
     and_then (wrapping ''payload: read audience_ref for message'' (remote (\<lambda>w.
         (case map_of (messages w) i of None \<Rightarrow> Inl (Sentinel ErrNoRows) | Some r \<Rightarrow> Inr (mr_audience r), w))))
       (\<lambda>audience. case audience of
          None \<Rightarrow> ret ()
        | Some s \<Rightarrow>
            and_then (wrapping ''payload: read bundle index for segment'' (query (\<lambda>w.
                case map_of (bundle_index w) (bundle_segment_index_key s) of None \<Rightarrow> [] | Some ks \<Rightarrow> ks)))
              (\<lambda>keys. if keys = [] then ret ()
                 else wrapping ''payload: invalidate bundles for segment'' (exec (\<lambda>w.
                   w\<lparr>bundle_cache := filter (\<lambda>(k, b). k \<notin> set keys) (bundle_cache w)\<rparr>))))"

section \<open>The half of one channel\<close>

definition record_holdout_qualified ::
  "db_gen \<Rightarrow> 'w event_sink \<Rightarrow> string \<Rightarrow> string \<Rightarrow> time \<Rightarrow> ('w, unit) payload_io" where
  "record_holdout_qualified g publish messageID ident now = wrapping ''payload: record holdout qualified for message''
     (\<lambda>w. record_event publish
        \<lparr>ev_id = gen_uuid g (id_supply w), ev_channel = ident, ev_kind = KindHoldoutQualified, ev_name = [],
         device_time = now, server_time = zero_time, ev_properties = [], ev_message = messageID, ev_variant = [],
         suppression_reason = []\<rparr> now (w\<lparr>id_supply := Suc (id_supply w)\<rparr>))"

definition to_model_variants :: "bundle_variant list \<Rightarrow> variant list" where
  "to_model_variants = map (\<lambda>v. zero_variant\<lparr>variant_id := bv_id v, weight := bv_weight v, language := bv_language v,
     schema := bv_schema v\<rparr>)"

definition find_bundle_variant :: "bundle_variant list \<Rightarrow> string \<Rightarrow> bundle_variant option" where
  "find_bundle_variant vs i = List.find (\<lambda>v. bv_id v = i) vs"

definition entry_of :: "bundle_message \<Rightarrow> bundle_variant \<Rightarrow> entry" where
  "entry_of bm v =
     \<lparr>en_message = bm_id bm, en_version = bm_version bm, en_variant = bv_id v, en_schema = bv_schema v,
      en_priority = bm_priority bm, en_content = bv_content v, en_triggers = bm_triggers bm,
      en_conditions = bm_conditions bm, en_policy = bm_policy bm, en_expires = bm_expires bm\<rparr>"

definition apply_overlay ::
  "db_gen \<Rightarrow> 'w event_sink \<Rightarrow> bundle_message \<Rightarrow> string \<Rightarrow> time \<Rightarrow> ('w, entry option) payload_io" where
  "apply_overlay g publish bm ident now =
     (if bm_variants bm = [] then ret (Some (entry_of bm (bm_fallback bm)))
      else and_then (of_result (assign_variant (bm_holdout bm) (bm_salt bm) (to_model_variants (bm_variants bm)) ident))
        (\<lambda>(selected, isHoldout).
          if isHoldout then and_then (record_holdout_qualified g publish (bm_id bm) ident now) (\<lambda>_. ret None)
          else case find_bundle_variant (bm_variants bm) (variant_id selected) of
              None \<Rightarrow> fail (Errorf ''payload: assigned variant not found in message's bundle'')
            | Some v \<Rightarrow> ret (Some (entry_of bm v))))"

fun overlay_all ::
  "db_gen \<Rightarrow> 'w event_sink \<Rightarrow> string \<Rightarrow> time \<Rightarrow> message_bundle \<Rightarrow> ('w, entry list) payload_io" where
  "overlay_all g publish ident now [] = ret []"
| "overlay_all g publish ident now (bm # bms) =
     and_then (wrapping ''payload: apply overlay for message'' (apply_overlay g publish bm ident now)) (\<lambda>e.
       and_then (overlay_all g publish ident now bms) (\<lambda>es.
         ret (case e of None \<Rightarrow> es | Some x \<Rightarrow> x # es)))"

fun fitting :: "int \<Rightarrow> int \<Rightarrow> entry list \<Rightarrow> entry list" where
  "fitting limit used [] = []"
| "fitting limit used (e # es) =
     (let used' = used + int (length (en_content e))
      in if used' > limit then [] else e # fitting limit used' es)"

text \<open>The entries kept and how many were dropped.\<close>

definition truncate_entries :: "entry list \<Rightarrow> int \<Rightarrow> entry list \<times> nat" where
  "truncate_entries es limit =
     (if limit \<le> 0 then (es, 0)
      else (fitting limit 0 es, length es - length (fitting limit 0 es)))"

section \<open>Building a payload\<close>

text \<open>\<open>rnd\<close> stands for \<^verbatim>\<open>rand.Int64N\<close>: a value below its argument.\<close>

definition next_sync_at :: "(int \<Rightarrow> int) \<Rightarrow> time \<Rightarrow> duration \<Rightarrow> rat \<Rightarrow> time" where
  "next_sync_at rnd now baseInterval jitterFraction =
     (let jitterRange = trunc (fl (fl (of_int baseInterval) * jitterFraction));
          offset = (if jitterRange > 0 then rnd jitterRange else 0)
      in time_add (time_add now baseInterval) offset)"

definition supported_schema_major :: "string \<Rightarrow> ('w, int) payload_io" where
  "supported_schema_major c = wrapping ''payload: read supported_schema_major for channel'' (remote (\<lambda>w.
     (case map_of (channel_rows w) c of None \<Rightarrow> Inl (Sentinel ErrNoRows) | Some r \<Rightarrow> Inr (chan_major r), w)))"

record build_env =
  env_gen :: db_gen
  env_render :: "json \<Rightarrow> string"
  env_marshal :: "bitmap \<Rightarrow> string"
  env_rnd :: "int \<Rightarrow> int"

definition build_payload ::
  "build_env \<Rightarrow> 'w event_sink option \<Rightarrow> string \<Rightarrow> string \<Rightarrow> time \<Rightarrow> int \<Rightarrow> duration \<Rightarrow> rat \<Rightarrow> ('w, payload) payload_io" where
  "build_payload env sink channelID lang now sizeCeiling syncInterval syncJitter =
     (let publish = (case sink of None \<Rightarrow> postgres_publish | Some p \<Rightarrow> p);
          nextSync = next_sync_at (env_rnd env) now syncInterval syncJitter in
      and_then (wrapping ''payload: read reverse index'' (get_reverse channelID)) (\<lambda>segmentBM.
        if segmentBM = {} then ret \<lparr>entries = [], next_sync = nextSync, budget_remaining = None\<rparr>
        else and_then (supported_schema_major channelID) (\<lambda>declaredMajor.
          and_then (shared_bundle_for (env_render env) (env_marshal env) segmentBM lang declaredMajor now) (\<lambda>b.
            and_then (overlay_all (env_gen env) publish channelID now b) (\<lambda>es.
              ret \<lparr>entries = fst (truncate_entries es sizeCeiling), next_sync = nextSync, budget_remaining = None\<rparr>)))))"

section \<open>What a fresh bundle holds\<close>

lemma get_message_reads: "only_reads (get_message i)"
  unfolding get_message_def by (intro read_intros only_reads_remote) simp_all

text \<open>Whatever part of it is read when, the message is that of the row with its identifier.\<close>

lemma get_message_row:
  fixes w :: "'w store_world_scheme"
  assumes "get_message i w = (Inr m, w')"
  obtains r where "map_of (messages w) i = Some r" "msg_id m = i" "msg_window m = \<lparr>win_start = mr_start r, win_end = mr_end r\<rparr>"
    "priority m = mr_priority r" "msg_version m = mr_version r"
proof -
  from assms obtain m0 w1 p ts ds vs where 1: "remote (\<lambda>w. (case map_of (messages w) i of None \<Rightarrow> Inl (Sentinel ErrNotFound)
      | Some r \<Rightarrow> Inr (message_of_row i r), w)) w = (Inr m0, w1)"
    and m: "m = m0\<lparr>policy := p, triggers := ts, display_conditions := ds, variants := vs\<rparr>"
    by (auto simp: get_message_def and_then_ok)
  from remote_ok [OF 1] obtain r where "map_of (messages w) i = Some r" "m0 = message_of_row i r"
    by (auto split: option.splits)
  with m that show ?thesis by (simp add: message_of_row_def empty_message_def)
qed

lemma to_bundle_message_fields:
  assumes "to_bundle_message render m lang d = Inr (Some bm)"
  shows "bm_id bm = msg_id m \<and> bm_version bm = msg_version m \<and> bm_priority bm = priority m
    \<and> bm_expires bm = win_end (msg_window m)
    \<and> (\<forall>v \<in> insert (bm_fallback bm) (set (bm_variants bm)). major (bv_schema v) = d)
    \<and> (\<forall>v \<in> set (bm_variants bm). bv_language v = lang)"
proof -
  from assms obtain v vs where vs: "variants_supporting_major (variants m) d = v # vs"
    and bm: "bm = \<lparr>bm_id = msg_id m, bm_version = msg_version m, bm_priority = priority m, bm_expires = win_end (msg_window m),
           bm_policy = policy m, bm_triggers = triggers m, bm_conditions = display_conditions m,
           bm_holdout = holdout_fraction m, bm_salt = experiment_salt m, bm_fallback = to_bundle_variant render v,
           bm_variants = map (to_bundle_variant render) (variants_for_language (v # vs) lang)\<rparr>"
    by (auto simp: to_bundle_message_def split: if_splits list.splits)
  have "set (v # vs) = {v \<in> set (variants m). supports_major (schema v) d}"
    unfolding vs [symmetric] by (simp add: variants_supporting_major_def)
  then have "\<forall>u \<in> set (v # vs). major (schema u) = d" by (auto simp: supports_major_def)
  then show ?thesis by (auto simp: bm variants_for_language_def to_bundle_variant_def)
qed

definition rank :: "message_row \<Rightarrow> string \<Rightarrow> int \<times> string" where
  "rank r i = (- mr_priority r, i)"

text \<open>A message of a bundle stands for the row it was made from.\<close>

definition stands_for :: "int \<Rightarrow> bundle_message \<Rightarrow> message_row \<Rightarrow> bool" where
  "stands_for d bm r =
     (bm_version bm = mr_version r \<and> bm_priority bm = mr_priority r \<and> bm_expires bm = mr_end r
      \<and> (\<forall>v \<in> insert (bm_fallback bm) (set (bm_variants bm)). major (bv_schema v) = d))"

lemma assemble_messages_ok:
  fixes w :: "'w payload_world_scheme"
  assumes "assemble_messages render lang d is w = (Inr b, w')"
  shows "(\<forall>bm\<in>set b. bm_id bm \<in> set is \<and> (\<exists>r. map_of (messages w) (bm_id bm) = Some r \<and> stands_for d bm r))
    \<and> (sorted (map (\<lambda>i. rank (the (map_of (messages w) i)) i) is) \<longrightarrow>
         sorted (map (\<lambda>bm. (- bm_priority bm, bm_id bm)) b))"
  using assms
proof (induction "is" arbitrary: b w)
  case (Cons i "is")
  from Cons.prems obtain m w1 bm b1 where 1: "get_message i w = (Inr m, w1)"
    and 2: "to_bundle_message render m lang d = Inr bm" and 3: "assemble_messages render lang d is w1 = (Inr b1, w')"
    and b: "b = (case bm of None \<Rightarrow> b1 | Some x \<Rightarrow> x # b1)"
    by (auto simp: and_then_ok)
  from only_readsD [OF get_message_reads 1] obtain fs where w1: "w1 = w\<lparr>faults := fs\<rparr>" by blast
  from get_message_row [OF 1] obtain r where r: "map_of (messages w) i = Some r" "msg_id m = i"
    "msg_window m = \<lparr>win_start = mr_start r, win_end = mr_end r\<rparr>" "priority m = mr_priority r" "msg_version m = mr_version r"
    by blast
  have ih: "(\<forall>bm\<in>set b1. bm_id bm \<in> set is \<and> (\<exists>r. map_of (messages w) (bm_id bm) = Some r \<and> stands_for d bm r))
    \<and> (sorted (map (\<lambda>i. rank (the (map_of (messages w) i)) i) is) \<longrightarrow>
         sorted (map (\<lambda>bm. (- bm_priority bm, bm_id bm)) b1))"
    using Cons.IH [OF 3] by (simp add: w1)
  show ?case
  proof (cases bm)
    case None
    with ih b show ?thesis by auto
  next
    case (Some x)
    from to_bundle_message_fields [OF 2 [unfolded Some]] r have x: "bm_id x = i" "stands_for d x r" "bm_priority x = mr_priority r"
      by (auto simp: stands_for_def)
    have "(- mr_priority r, i) \<le> (- bm_priority y, bm_id y)"
      if y: "y \<in> set b1" and srt: "sorted (map (\<lambda>i. rank (the (map_of (messages w) i)) i) (i # is))" for y
    proof -
      from ih y obtain r' where r': "bm_id y \<in> set is" "map_of (messages w) (bm_id y) = Some r'" "stands_for d y r'" by blast
      with srt have "rank r i \<le> rank r' (bm_id y)" by (auto simp: r)
      with r'(3) show ?thesis by (simp add: rank_def stands_for_def)
    qed
    with ih b Some x r show ?thesis by auto
  qed
qed simp

definition ranked_ids :: "(message_row \<Rightarrow> bool) \<Rightarrow> (string \<times> message_row) list \<Rightarrow> string list" where
  "ranked_ids P ms = map fst (sort_key (\<lambda>(i, r). (- mr_priority r, i)) (filter (\<lambda>(i, r). P r) ms))"

lemma ranked_ids_sound:
  assumes "distinct (map fst ms)"
  shows "sorted (map (\<lambda>i. rank (the (map_of ms i)) i) (ranked_ids P ms))"
    "i \<in> set (ranked_ids P ms) \<Longrightarrow> \<exists>r. map_of ms i = Some r \<and> P r"
proof -
  let ?rows = "sort_key (\<lambda>(i, r). (- mr_priority r, i)) (filter (\<lambda>(i, r). P r) ms)"
  have row: "map_of ms (fst x) = Some (snd x)" if "x \<in> set ?rows" for x
    using that assms(1) by (auto intro: map_of_is_SomeI)
  have "map (\<lambda>i. rank (the (map_of ms i)) i) (ranked_ids P ms) = map (\<lambda>(i, r). (- mr_priority r, i)) ?rows"
    unfolding ranked_ids_def using row by (auto simp: rank_def)
  then show "sorted (map (\<lambda>i. rank (the (map_of ms i)) i) (ranked_ids P ms))" by (simp only: sorted_sort_key)
  show "i \<in> set (ranked_ids P ms) \<Longrightarrow> \<exists>r. map_of ms i = Some r \<and> P r"
    unfolding ranked_ids_def using row by auto
qed

text \<open>The identifiers of the segments in a bitmap.\<close>

definition segments_in :: "bitmap \<Rightarrow> segment_row list \<Rightarrow> string list" where
  "segments_in b rows = map sr_id (filter (\<lambda>r. sr_ordinal r \<in> int ` b) rows)"

lemma shared_bundle_fresh:
  fixes w :: "'w payload_world_scheme"
  assumes "shared_bundle_for render marshal bm lang d now w = (Inr b, w')" "finite bm"
    and cold: "map_of (bundle_cache w) (bundle_key lang d (reverse_hash marshal bm)) = None"
    and keys: "distinct (map fst (messages w))"
  shows "(\<forall>x\<in>set b. \<exists>r. map_of (messages w) (bm_id x) = Some r \<and> stands_for d x r
        \<and> eligible (segments_in bm (segment_rows w)) now r)
    \<and> sorted (map (\<lambda>x. (- bm_priority x, bm_id x)) b)"
proof -
  let ?key = "bundle_key lang d (reverse_hash marshal bm)"
  from assms(1) obtain c w1 where 1: "get_cached_bundle ?key w = (Inr c, w1)"
    and 2: "(case c of Some b \<Rightarrow> ret b | None \<Rightarrow>
            and_then (segment_ids_for_ordinals (sorted_list_of_set bm)) (\<lambda>sids.
              and_then (assemble_shared render sids lang d now) (\<lambda>b.
                and_then (set_cached_bundle ?key sids b) (\<lambda>_. ret b)))) w1 = (Inr b, w')"
    by (auto simp: shared_bundle_for_def Let_def and_then_ok)
  from 1 [unfolded get_cached_bundle_def wrapping_ok, THEN query_ok] obtain f1 where w1: "w1 = w\<lparr>faults := f1\<rparr>" and "c = None"
    using cold by auto
  with 2 obtain sids w2 w3 u where 3: "segment_ids_for_ordinals (sorted_list_of_set bm) w1 = (Inr sids, w2)"
    and 4: "assemble_shared render sids lang d now w2 = (Inr b, w3)"
    by (auto simp: and_then_ok)
  from 3 [unfolded segment_ids_for_ordinals_def wrapping_ok, THEN query_ok] obtain f2 where w2: "w2 = w\<lparr>faults := f2\<rparr>"
    and sids: "sids = segments_in bm (segment_rows w)"
    using assms(2) by (auto simp: w1 segments_in_def)
  show ?thesis
  proof (cases "sids = []")
    case True
    with 4 show ?thesis by (simp add: assemble_shared_def)
  next
    case False
    with 4 obtain ids w4 where 5: "eligible_message_ids sids now w2 = (Inr ids, w4)"
      and 6: "assemble_messages render lang d ids w4 = (Inr b, w3)"
      by (auto simp: assemble_shared_def and_then_ok)
    from 5 [unfolded eligible_message_ids_def wrapping_ok, THEN query_ok] obtain f4 where w4: "w4 = w\<lparr>faults := f4\<rparr>"
      and ids: "ids = ranked_ids (eligible sids now) (messages w)"
      by (auto simp: w2 ranked_ids_def)
    from assemble_messages_ok [OF 6] ranked_ids_sound [OF keys] sids show ?thesis
      by (fastforce simp: w4 ids)
  qed
qed

section \<open>What an overlay makes of a bundle\<close>

lemma apply_overlay_ok:
  assumes "apply_overlay g sink bm ident now w = (Inr (Some e), w')"
  shows "\<exists>v \<in> insert (bm_fallback bm) (set (bm_variants bm)). e = entry_of bm v"
proof (cases "bm_variants bm = []")
  case True
  with assms show ?thesis by (simp add: apply_overlay_def)
next
  case False
  with assms obtain v s where "find_bundle_variant (bm_variants bm) s = Some v" "e = entry_of bm v"
    by (auto simp: apply_overlay_def and_then_ok split: if_splits option.splits prod.splits)
  then show ?thesis by (auto simp: find_bundle_variant_def find_Some_iff)
qed

lemma overlay_all_ok:
  assumes "overlay_all g sink ident now b w = (Inr es, w')"
  shows "(\<forall>e\<in>set es. \<exists>bm\<in>set b. \<exists>v \<in> insert (bm_fallback bm) (set (bm_variants bm)). e = entry_of bm v)
    \<and> (sorted (map (\<lambda>x. (- bm_priority x, bm_id x)) b) \<longrightarrow> sorted (map (\<lambda>e. (- en_priority e, en_message e)) es))"
  using assms
proof (induction b arbitrary: es w)
  case (Cons bm b)
  from Cons.prems obtain e w1 es1 where 1: "apply_overlay g sink bm ident now w = (Inr e, w1)"
    and 2: "overlay_all g sink ident now b w1 = (Inr es1, w')" and es: "es = (case e of None \<Rightarrow> es1 | Some x \<Rightarrow> x # es1)"
    by (auto simp: and_then_ok)
  note ih = Cons.IH [OF 2]
  show ?case
  proof (cases e)
    case None
    with ih es show ?thesis by auto
  next
    case (Some x)
    from apply_overlay_ok [OF 1 [unfolded Some]] obtain v where v: "v \<in> insert (bm_fallback bm) (set (bm_variants bm))" "x = entry_of bm v"
      by blast
    then have x: "en_priority x = bm_priority bm" "en_message x = bm_id bm" by (simp_all add: entry_of_def)
    have "(- bm_priority bm, bm_id bm) \<le> (- en_priority y, en_message y)"
      if y: "y \<in> set es1" and srt: "sorted (map (\<lambda>x. (- bm_priority x, bm_id x)) (bm # b))" for y
    proof -
      from ih y obtain bm' v' where "bm' \<in> set b" "y = entry_of bm' v'" by blast
      with srt show ?thesis by (auto simp: entry_of_def)
    qed
    with ih es Some x v show ?thesis by auto
  qed
qed simp

lemma fitting_prefix: "\<exists>n. fitting limit used es = take n es"
proof (induction es arbitrary: used)
  case (Cons e es)
  from Cons obtain n where "fitting limit (used + int (length (en_content e))) es = take n es" by blast
  then show ?case
    by (auto simp: Let_def intro: exI [of _ 0] exI [of _ "Suc n"])
qed simp

lemma fitting_size: "used \<le> limit \<Longrightarrow> used + (\<Sum>e\<leftarrow>fitting limit used es. int (length (en_content e))) \<le> limit"
proof (induction es arbitrary: used)
  case (Cons e es)
  show ?case
    using Cons.IH [of "used + int (length (en_content e))"] Cons.prems by (simp add: Let_def add.assoc)
qed simp

definition channel_segments :: "'w membership_world_scheme \<Rightarrow> string \<Rightarrow> bitmap" where
  "channel_segments w c = (case map_of (reverse_keys w) (reverse_key c) of None \<Rightarrow> {} | Some b \<Rightarrow> b)"

lemma fresh_payload:
  fixes w :: "'w payload_world_scheme"
  assumes "build_payload env sink c lang now limit interval jitter w = (Inr p, w')"
    and fin: "finite (channel_segments w c)" and keys: "distinct (map fst (messages w))"
    and cold: "\<And>d. map_of (bundle_cache w) (bundle_key lang d (reverse_hash (env_marshal env) (channel_segments w c))) = None"
  shows "(\<forall>e\<in>set (entries p). \<exists>r ch. map_of (messages w) (en_message e) = Some r
        \<and> eligible (segments_in (channel_segments w c) (segment_rows w)) now r
        \<and> en_expires e = mr_end r \<and> en_version e = mr_version r
        \<and> map_of (channel_rows w) c = Some ch \<and> major (en_schema e) = chan_major ch)
    \<and> sorted (map (\<lambda>e. (- en_priority e, en_message e)) (entries p))
    \<and> (0 < limit \<longrightarrow> (\<Sum>e\<leftarrow>entries p. int (length (en_content e))) \<le> limit)"
proof -
  obtain sk where sk: "sk = (case sink of None \<Rightarrow> postgres_publish | Some s \<Rightarrow> s)" by blast
  from assms(1) obtain bm w1 where 1: "get_reverse c w = (Inr bm, w1)"
    and rest: "(if bm = {} then ret \<lparr>entries = [], next_sync = next_sync_at (env_rnd env) now interval jitter, budget_remaining = None\<rparr>
        else and_then (supported_schema_major c) (\<lambda>d.
          and_then (shared_bundle_for (env_render env) (env_marshal env) bm lang d now) (\<lambda>b.
            and_then (overlay_all (env_gen env) sk c now b) (\<lambda>es.
              ret \<lparr>entries = fst (truncate_entries es limit), next_sync = next_sync_at (env_rnd env) now interval jitter,
                   budget_remaining = None\<rparr>)))) w1 = (Inr p, w')"
    by (auto simp: build_payload_def Let_def and_then_ok sk [symmetric])
  from 1 [unfolded get_reverse_def wrapping_ok, THEN query_ok] obtain f1 where w1: "w1 = w\<lparr>faults := f1\<rparr>"
    and bm: "bm = channel_segments w c" by (auto simp: channel_segments_def)
  show ?thesis
  proof (cases "bm = {}")
    case True
    with rest show ?thesis by auto
  next
    case False
    with rest have "\<exists>d w2 b w3 es. supported_schema_major c w1 = (Inr d, w2)
        \<and> shared_bundle_for (env_render env) (env_marshal env) bm lang d now w2 = (Inr b, w3)
        \<and> overlay_all (env_gen env) sk c now b w3 = (Inr es, w')
        \<and> p = \<lparr>entries = fst (truncate_entries es limit), next_sync = next_sync_at (env_rnd env) now interval jitter,
             budget_remaining = None\<rparr>"
      by (simp add: and_then_ok) blast
    then obtain d w2 b w3 es where 2: "supported_schema_major c w1 = (Inr d, w2)"
      and 3: "shared_bundle_for (env_render env) (env_marshal env) bm lang d now w2 = (Inr b, w3)"
      and 4: "overlay_all (env_gen env) sk c now b w3 = (Inr es, w')" and p: "entries p = fst (truncate_entries es limit)"
      by auto
    from 2 [unfolded supported_schema_major_def wrapping_ok, THEN remote_ok] obtain f2 ch where w2': "w2 = w\<lparr>faults := f2\<rparr>"
      and ch: "map_of (channel_rows w) c = Some ch" "d = chan_major ch"
      by (auto simp: w1 split: option.splits)
    have b: "(\<forall>x\<in>set b. \<exists>r. map_of (messages w) (bm_id x) = Some r \<and> stands_for d x r
        \<and> eligible (segments_in bm (segment_rows w)) now r) \<and> sorted (map (\<lambda>x. (- bm_priority x, bm_id x)) b)"
      using shared_bundle_fresh [OF 3] fin keys cold by (simp add: w2' bm)
    from b have es: "\<forall>e\<in>set es. \<exists>r. map_of (messages w) (en_message e) = Some r
        \<and> eligible (segments_in bm (segment_rows w)) now r \<and> en_expires e = mr_end r \<and> en_version e = mr_version r
        \<and> major (en_schema e) = d"
      and srt: "sorted (map (\<lambda>e. (- en_priority e, en_message e)) es)"
      using overlay_all_ok [OF 4] by (fastforce simp: entry_of_def stands_for_def)+
    have "\<exists>n. entries p = take n es"
    proof (cases "limit \<le> 0")
      case True
      then show ?thesis by (intro exI [of _ "length es"]) (simp add: p truncate_entries_def)
    next
      case False
      with fitting_prefix [of limit 0 es] show ?thesis by (simp add: p truncate_entries_def)
    qed
    then obtain n where "entries p = take n es" by blast
    then have "set (entries p) \<subseteq> set es" "sorted (map (\<lambda>e. (- en_priority e, en_message e)) (entries p))"
      using srt by (simp_all add: set_take_subset take_map [symmetric] sorted_wrt_take)
    moreover have "(\<Sum>e\<leftarrow>entries p. int (length (en_content e))) \<le> limit" if "0 < limit"
      using fitting_size [of 0 limit es] that by (simp add: p truncate_entries_def)
    ultimately show ?thesis using es ch by (auto simp: bm)
  qed
qed

text \<open>
  C3: whatever fails meanwhile, a payload that is assembled without a cached bundle holds only active
  messages in their window whose audience is one of the channel's segments, each expiring with its window, in a
  variant of the channel's schema major, in the order of priority, and within the size limit.
\<close>

theorem fresh_payload_sound:
  assumes "build_payload env sink c lang now limit interval jitter w = (Inr p, w')"
    and "finite (channel_segments w c)" and "distinct (map fst (messages w))"
    and "\<And>d. map_of (bundle_cache w) (bundle_key lang d (reverse_hash (env_marshal env) (channel_segments w c))) = None"
  shows "(\<forall>e\<in>set (entries p). \<exists>r ch. map_of (messages w) (en_message e) = Some r
        \<and> mr_state r = ''active'' \<and> mr_start r \<le> pg_time now \<and> pg_time now < mr_end r
        \<and> (\<exists>s\<in>set (segment_rows w). mr_audience r = Some (sr_id s) \<and> sr_ordinal s \<in> int ` channel_segments w c)
        \<and> en_expires e = mr_end r \<and> en_version e = mr_version r
        \<and> map_of (channel_rows w) c = Some ch \<and> major (en_schema e) = chan_major ch)
    \<and> sorted (map (\<lambda>e. (- en_priority e, en_message e)) (entries p))
    \<and> (0 < limit \<longrightarrow> (\<Sum>e\<leftarrow>entries p. int (length (en_content e))) \<le> limit)"
  using fresh_payload [OF assms] by (fastforce simp: eligible_def segments_in_def)

definition demo_row :: "int \<Rightarrow> time \<Rightarrow> time \<Rightarrow> message_row" where
  "demo_row n s e = \<lparr>mr_name = [], mr_state = ''active'', mr_priority = n, mr_start = s, mr_end = e,
     mr_audience = Some ''s'', mr_holdout = 0, mr_conversion = None, mr_version = 1, mr_salt = []\<rparr>"

definition demo_policy :: policy_row where
  "demo_policy = \<lparr>pr_cap = 1, pr_interval = 0, pr_exempt = False, pr_confirm = False\<rparr>"

definition demo_variant_row :: variant_row where
  "demo_variant_row = row_of_variant (zero_variant\<lparr>language := ''en'', weight := 100, schema := \<lparr>major = 1, minor = 0\<rparr>\<rparr>)"

text \<open>A message whose window is open, and one of a higher priority whose window opens later.\<close>

definition demo_delivery :: payload_world where
  "demo_delivery = membership_world.extend (demo_members\<lparr>messages := [(''m'', demo_row 1 0 9000), (''n'', demo_row 2 5000 9000)],
       policies := [(''m'', demo_policy), (''n'', demo_policy)],
       variant_rows := [(''v'', ''m'', demo_variant_row), (''u'', ''n'', demo_variant_row)],
       reverse_keys := [(reverse_key ''c1'', {1})]\<rparr>)
     \<lparr>bundle_cache = [], bundle_index = []\<rparr>"

definition demo_env :: build_env where
  "demo_env = \<lparr>env_gen = demo_gen, env_render = (\<lambda>_. ''{}''), env_marshal = (\<lambda>b. if 1 \<in> b then ''1'' else ''0''), env_rnd = (\<lambda>_. 0)\<rparr>"

lemma demo_faults: "faults demo_delivery = []"
  by (simp add: demo_delivery_def demo_members_def membership_world.defs)

lemma demo_tables:
  "messages demo_delivery = [(''m'', demo_row 1 0 9000), (''n'', demo_row 2 5000 9000)]"
  "policies demo_delivery = [(''m'', demo_policy), (''n'', demo_policy)]"
  "variant_rows demo_delivery = [(''v'', ''m'', demo_variant_row), (''u'', ''n'', demo_variant_row)]"
  "trigger_rows demo_delivery = []" "condition_rows demo_delivery = []"
  "reverse_keys demo_delivery = [(reverse_key ''c1'', {1})]" "bundle_cache demo_delivery = []"
  "segment_rows demo_delivery = segment_rows demo_members" "channel_rows demo_delivery = channel_rows demo_members"
  by (simp_all add: demo_delivery_def demo_members_def membership_world.defs)

lemma demo_variant_of_row: "variant_of_row (i, m, demo_variant_row)
    = Inr (zero_variant\<lparr>variant_id := i, variant_message := m, language := ''en'', weight := 100, schema := \<lparr>major = 1, minor = 0\<rparr>\<rparr>)"
  unfolding demo_variant_row_def
  by (simp add: variant_of_row_def row_of_variant_def blank_variant_def content_column_step zero_variant_def min_int64_def max_int64_def)

lemma demo_get_message:
  assumes "i = ''m'' \<or> i = ''n''"
  shows "\<exists>m. get_message i demo_delivery = (Inr m, demo_delivery) \<and> variants m = [zero_variant\<lparr>variant_id := (if i = ''m'' then ''v'' else ''u''), variant_message := i,
       language := ''en'', weight := 100, schema := \<lparr>major = 1, minor = 0\<rparr>\<rparr>] \<and> msg_id m = i"
  using assms
  by (auto simp: get_message_def and_then_def wrapping_def remote_calm query_calm demo_faults demo_tables rows_of_def demo_variant_of_row
     message_of_row_def empty_message_def)

lemma demo_bundle_open:
  "eligible_message_ids [''s''] 2000 demo_delivery = (Inr [''m''], demo_delivery)"
  "eligible_message_ids [''s''] 6000 demo_delivery = (Inr [''n'', ''m''], demo_delivery)"
  by (simp_all add: eligible_message_ids_def wrapping_def query_calm demo_faults demo_tables eligible_def demo_row_def pg_time_def)

lemma demo_sids: "segment_ids_for_ordinals [1] demo_delivery = (Inr [''s''], demo_delivery)"
  by (simp add: segment_ids_for_ordinals_def wrapping_def query_calm demo_faults demo_tables demo_members_def)

lemma demo_assemble: "i = ''m'' \<or> i = ''n'' \<Longrightarrow> \<exists>x. assemble_messages render ''fr'' 1 [i] demo_delivery = (Inr [x], demo_delivery) \<and> bm_id x = i \<and> bm_variants x = []"
  using demo_get_message [of i]
  by (auto simp: and_then_def wrapping_def to_bundle_message_def variants_supporting_major_def supports_major_def
     variants_for_language_def zero_variant_def)

lemma demo_shared:
  "\<exists>x w1. shared_bundle_for render marshal {1} ''fr'' 1 2000 demo_delivery = (Inr [x], w1)
     \<and> bm_id x = ''m'' \<and> bm_variants x = [] \<and> faults w1 = []"
proof -
  from demo_assemble [of "''m''" render] obtain x where "assemble_messages render ''fr'' 1 [''m''] demo_delivery = (Inr [x], demo_delivery)"
    "bm_id x = ''m''" "bm_variants x = []" by auto
  then show ?thesis
    by (simp add: shared_bundle_for_def Let_def get_cached_bundle_def and_then_def wrapping_def query_calm exec_calm
        demo_faults demo_tables demo_sids assemble_shared_def demo_bundle_open set_cached_bundle_def index_bundle_def
        del: One_nat_def assemble_messages.simps)
qed

lemma demo_build:
  "\<exists>p w1. build_payload demo_env None ''c1'' ''fr'' 2000 0 0 0 demo_delivery = (Inr p, w1) \<and> map en_message (entries p) = [''m'']"
proof -
  from demo_shared [of "env_render demo_env" "env_marshal demo_env"] obtain x w1 where
    x: "shared_bundle_for (env_render demo_env) (env_marshal demo_env) {1} ''fr'' 1 2000 demo_delivery = (Inr [x], w1)"
    "bm_id x = ''m''" "bm_variants x = []" by blast
  have major: "supported_schema_major ''c1'' demo_delivery = (Inr 1, demo_delivery)"
    by (simp add: supported_schema_major_def wrapping_def remote_calm demo_faults demo_tables demo_members_def)
  have segs: "get_reverse ''c1'' demo_delivery = (Inr {1}, demo_delivery)"
    by (simp add: get_reverse_def wrapping_def query_calm demo_faults demo_tables)
  from x show ?thesis
    by (simp add: build_payload_def Let_def and_then_def wrapping_def major segs apply_overlay_def truncate_entries_def entry_of_def
        del: One_nat_def)
qed

theorem fresh_payload_sound_witness:
  "\<exists>p. fst (build_payload demo_env None ''c1'' ''fr'' 2000 0 0 0 demo_delivery) = Inr p \<and> map en_message (entries p) = [''m'']
    \<and> (\<forall>e\<in>set (entries p). en_expires e = 9000)"
proof -
  obtain p w1 where p: "build_payload demo_env None ''c1'' ''fr'' 2000 0 0 0 demo_delivery = (Inr p, w1)"
    "map en_message (entries p) = [''m'']" using demo_build by (elim exE conjE)
  have "finite (channel_segments demo_delivery ''c1'')" "distinct (map fst (messages demo_delivery))"
    "map_of (bundle_cache demo_delivery) k = None" for k
    by (simp_all add: channel_segments_def demo_tables)
  from fresh_payload_sound [OF p(1) this] have "\<forall>e\<in>set (entries p). \<exists>r. map_of (messages demo_delivery) (en_message e) = Some r \<and> en_expires e = mr_end r"
    by blast
  moreover have "\<forall>e\<in>set (entries p). en_message e = ''m''" using p(2) by (metis image_eqI list.set_map list.simps(15) singletonD list.set(1))
  ultimately have "\<forall>e\<in>set (entries p). en_expires e = 9000" by (auto simp: demo_tables demo_row_def)
  with p show ?thesis by simp
qed

section \<open>A bundle does not look at the clock\<close>

lemma shared_bundle_cached:
  fixes w :: "'w payload_world_scheme"
  assumes "shared_bundle_for render marshal bm lang d now w = (Inr b, w1)"
  shows "map_of (bundle_cache w1) (bundle_key lang d (reverse_hash marshal bm)) = Some b"
proof -
  let ?key = "bundle_key lang d (reverse_hash marshal bm)"
  from assms obtain c w2 where 1: "get_cached_bundle ?key w = (Inr c, w2)"
    and 2: "(case c of Some b \<Rightarrow> ret b | None \<Rightarrow>
            and_then (segment_ids_for_ordinals (sorted_list_of_set bm)) (\<lambda>sids.
              and_then (assemble_shared render sids lang d now) (\<lambda>b.
                and_then (set_cached_bundle ?key sids b) (\<lambda>_. ret b)))) w2 = (Inr b, w1)"
    by (auto simp: shared_bundle_for_def Let_def and_then_ok)
  show ?thesis
  proof (cases c)
    case (Some b')
    with 1 2 show ?thesis by (auto simp: get_cached_bundle_def dest!: query_ok)
  next
    case None
    with 2 obtain sids w3 where "set_cached_bundle ?key sids b w3 = (Inr (), w1)" by (auto simp: and_then_ok)
    then show ?thesis
      by (auto simp: set_cached_bundle_def and_then_ok split: if_splits dest!: exec_ok index_bundle_any)
  qed
qed

text \<open>
  Once a bundle is in the cache it is what every channel with those segments, that language and
  that schema major gets, at any later time and whatever has changed in the tables, until it is
  invalidated: windows that have opened or closed since make no difference.
\<close>

theorem cached_bundle_ignores_time:
  assumes "shared_bundle_for render marshal bm lang d now w = (Inr b, w1)"
    and "faults w2 = []" "bundle_cache w2 = bundle_cache w1"
  shows "shared_bundle_for render marshal bm lang d later w2 = (Inr b, w2)"
  using shared_bundle_cached [OF assms(1)] assms(2,3)
  by (simp add: shared_bundle_for_def Let_def get_cached_bundle_def and_then_def wrapping_def query_calm)

theorem cached_bundle_ignores_time_witness:
  "\<exists>x w1. shared_bundle_for render marshal {1} ''fr'' 1 2000 demo_delivery = (Inr [x], w1) \<and> bm_id x = ''m''
    \<and> shared_bundle_for render marshal {1} ''fr'' 1 6000 w1 = (Inr [x], w1)
    \<and> fst (eligible_message_ids [''s''] 6000 demo_delivery) = Inr [''n'', ''m'']"
proof -
  from demo_shared [of render marshal] obtain x w1 where
    x: "shared_bundle_for render marshal {1} ''fr'' 1 2000 demo_delivery = (Inr [x], w1)" "bm_id x = ''m''" "faults w1 = []" by blast
  from cached_bundle_ignores_time [OF x(1,3) refl, of 6000] x(1,2) show ?thesis
    by (simp add: demo_bundle_open del: One_nat_def)
qed

end
