(* ===== verification/Deliver.thy ===== *)
theory Deliver
  imports Payload Cursor
begin

text \<open>
  \<^verbatim>\<open>internal/delivery/deliver\<close> and \<^verbatim>\<open>internal/delivery/etag\<close>: the synchronization of a channel. An
  entity tag in the cache answers that nothing has changed; otherwise the payload is assembled and
  tagged, and in delta mode cut down to what changed since the cursor the device sent.
\<close>

section \<open>The entity tag\<close>

definition nul :: string where "nul = [CHR 0x00]"

definition bool_text :: "bool \<Rightarrow> string" where
  "bool_text b = (if b then ''true'' else ''false'')"

definition tag_line :: "entry \<Rightarrow> string" where
  "tag_line e =
     en_message e @ nul @ dec_of_int (en_version e) @ nul @ en_variant e @ nul
     @ dec_of_int (major (en_schema e)) @ ''.'' @ dec_of_int (minor (en_schema e)) @ nul
     @ dec_of_int (per_message_cap (en_policy e)) @ nul @ dec_of_int (min_interval_between (en_policy e)) @ nul
     @ bool_text (exempt_from_project_cap (en_policy e)) @ nul
     @ bool_text (requires_server_confirmation (en_policy e)) @ nul"

definition compute_tag :: "entry list \<Rightarrow> string" where
  "compute_tag es =
     hex_of_nat (unat (foldl fnv_write fnv_offset (map tag_line (sort_key en_message es))))"

section \<open>Configuration, results and the tag cache\<close>

record sync_config =
  size_ceiling :: int
  sync_interval :: duration
  sync_jitter :: rat
  tag_ttl :: duration
  budget_cap :: int
  budget_window :: duration
  delta_mode :: bool

record sync_result =
  res_tag :: string
  unchanged :: bool
  res_payload :: "payload option"
  res_next_sync :: time
  is_delta :: bool
  tombstones :: "string list"
  res_cursor :: string

text \<open>
  A cached tag with the time it expires; an expiry of zero is none. The clock of a request
  stands for that of Redis.
\<close>

record deliver_world = payload_world +
  tag_cache :: "(string \<times> string \<times> time option) list"

type_synonym ('w, 'a) deliver_io = "'w deliver_world_scheme \<Rightarrow> 'a result \<times> 'w deliver_world_scheme"

definition tag_key :: "string \<Rightarrow> string" where
  "tag_key c = ''delivery:etag:'' @ c"

definition cached_tag :: "string \<Rightarrow> time \<Rightarrow> ('w, string option) deliver_io" where
  "cached_tag c now = wrapping ''deliver: read cached tag'' (query (\<lambda>w.
     case map_of (tag_cache w) (tag_key c) of
       None \<Rightarrow> None
     | Some (tag, None) \<Rightarrow> Some tag
     | Some (tag, Some t) \<Rightarrow> if now < t then Some tag else None))"

definition cache_tag :: "string \<Rightarrow> string \<Rightarrow> duration \<Rightarrow> time \<Rightarrow> ('w, unit) deliver_io" where
  "cache_tag c tag ttl now = wrapping ''deliver: cache tag'' (exec (\<lambda>w.
     w\<lparr>tag_cache := upsert (\<lambda>_. (tag, if ttl = 0 then None else Some (time_add now ttl))) (tag_key c) (tag_cache w)\<rparr>))"

section \<open>The delta\<close>

definition entry_message_ids :: "entry list \<Rightarrow> string list" where
  "entry_message_ids = map en_message"

definition window_starts_for :: "string list \<Rightarrow> ('w, string \<rightharpoonup> time) deliver_io" where
  "window_starts_for ids =
     (if ids = [] then ret Map.empty
      else wrapping ''read window_start'' (query (\<lambda>w.
        map_of (map (\<lambda>(i, r). (i, mr_start r)) (filter (\<lambda>(i, r). i \<in> set ids) (messages w))))))"

definition latest_kind :: "change_row list \<Rightarrow> string \<rightharpoonup> string" where
  "latest_kind cs = map_of (rev (map (\<lambda>c. (ch_message c, ch_kind c)) cs))"

definition window_start_of :: "(string \<rightharpoonup> time) \<Rightarrow> string \<Rightarrow> time" where
  "window_start_of starts i = (case starts i of None \<Rightarrow> zero_time | Some t \<Rightarrow> t)"

definition delta_entries :: "change_row list \<Rightarrow> (string \<rightharpoonup> time) \<Rightarrow> time \<Rightarrow> entry list \<Rightarrow> entry list" where
  "delta_entries cs starts issuedAt es =
     filter (\<lambda>e. latest_kind cs (en_message e) \<noteq> None \<or> \<not> window_start_of starts (en_message e) < issuedAt) es"

text \<open>The order is that of a Go map; here each message stands where it is first named.\<close>

definition delta_tombstones :: "change_row list \<Rightarrow> entry list \<Rightarrow> string list" where
  "delta_tombstones cs es =
     filter (\<lambda>i. latest_kind cs i = Some KindTombstone \<and> i \<notin> en_message ` set es) (remdups (map ch_message cs))"

definition honorable :: "cursor option \<Rightarrow> string \<Rightarrow> int \<Rightarrow> time \<Rightarrow> bool" where
  "honorable c membershipHash currentSeq now =
     (case c of None \<Rightarrow> False
      | Some cur \<Rightarrow> membership_hash cur = membershipHash \<and> seq cur \<le> currentSeq
          \<and> \<not> issued_at cur < time_add now (- Retention))"

text \<open>The entries and the tombstones when the cursor is honoured, and the fresh cursor.\<close>

definition compute_delta ::
  "(bitmap \<Rightarrow> string) \<Rightarrow> string \<Rightarrow> entry list \<Rightarrow> string \<Rightarrow> time \<Rightarrow> ('w, (entry list \<times> string list) option \<times> string) deliver_io" where
  "compute_delta marshal channelID es clientCursor now =
     and_then (wrapping ''read membership'' (get_reverse channelID)) (\<lambda>membership.
       let membershipHash = reverse_hash marshal membership in
       and_then (wrapping ''current change log seq'' current_seq) (\<lambda>currentSeq.
         let fresh = encode_cursor \<lparr>seq = currentSeq, membership_hash = membershipHash, issued_at = now\<rparr>;
             cur = decode_cursor clientCursor in
         if \<not> honorable cur membershipHash currentSeq now then ret (None, fresh)
         else and_then (wrapping ''read change log since'' (changes_since (seq (the cur)))) (\<lambda>changes.
           and_then (window_starts_for (entry_message_ids es)) (\<lambda>starts.
             ret (Some (delta_entries changes starts (issued_at (the cur)) es, delta_tombstones changes es), fresh)))))"

section \<open>Synchronization\<close>

definition read_tag :: "string \<Rightarrow> string \<Rightarrow> time \<Rightarrow> ('w, string option) deliver_io" where
  "read_tag channelID clientETag now = (if clientETag = [] then ret None else cached_tag channelID now)"

definition issue_budget :: "sync_config \<Rightarrow> string \<Rightarrow> time \<Rightarrow> payload \<Rightarrow> ('w, payload) deliver_io" where
  "issue_budget cfg channelID now p =
     (if budget_cap cfg > 0 then
        and_then (wrapping ''deliver: read project budget'' (remaining (budget_window cfg) channelID (budget_cap cfg) now))
          (\<lambda>n. ret (p\<lparr>budget_remaining := Some n\<rparr>))
      else ret p)"

definition sync_channel ::
  "build_env \<Rightarrow> (event list \<Rightarrow> time \<Rightarrow> ('w, int) deliver_io) option \<Rightarrow> string \<Rightarrow> string \<Rightarrow> string \<Rightarrow> string \<Rightarrow> time
     \<Rightarrow> sync_config \<Rightarrow> ('w, sync_result) deliver_io" where
  "sync_channel env sink channelID lang clientETag clientCursor now cfg =
     and_then (read_tag channelID clientETag now) (\<lambda>cached.
       if cached = Some clientETag then
         ret \<lparr>res_tag = clientETag, unchanged = True, res_payload = None,
              res_next_sync = next_sync_at (env_rnd env) now (sync_interval cfg) (sync_jitter cfg),
              is_delta = False, tombstones = [], res_cursor = []\<rparr>
       else and_then (wrapping ''deliver: build payload'' (build_payload env sink channelID lang now (size_ceiling cfg)
           (sync_interval cfg) (sync_jitter cfg))) (\<lambda>p.
         let tag = compute_tag (entries p) in
         and_then (cache_tag channelID tag (tag_ttl cfg) now) (\<lambda>_.
           if clientETag \<noteq> [] \<and> tag = clientETag then
             ret \<lparr>res_tag = tag, unchanged = True, res_payload = None, res_next_sync = next_sync p,
                  is_delta = False, tombstones = [], res_cursor = []\<rparr>
           else and_then (issue_budget cfg channelID now p) (\<lambda>q.
             let full = \<lparr>res_tag = tag, unchanged = False, res_payload = Some q, res_next_sync = next_sync q,
                         is_delta = False, tombstones = [], res_cursor = []\<rparr> in
             if \<not> delta_mode cfg then ret full
             else and_then (wrapping ''deliver: compute delta''
                 (compute_delta (env_marshal env) channelID (entries q) clientCursor now)) (\<lambda>(delta, fresh).
               case delta of
                 None \<Rightarrow> ret (full\<lparr>res_cursor := fresh\<rparr>)
               | Some (es, ts) \<Rightarrow> ret (full\<lparr>res_cursor := fresh, res_payload := Some (q\<lparr>entries := es\<rparr>),
                   is_delta := True, tombstones := ts\<rparr>))))))"

section \<open>A delta brings a device to the full payload\<close>

text \<open>What a device makes of a delta, and what it shows: nothing that has expired.\<close>

definition index_entries :: "entry list \<Rightarrow> string \<rightharpoonup> entry" where
  "index_entries es = map_of (map (\<lambda>e. (en_message e, e)) es)"

definition apply_delta :: "(string \<rightharpoonup> entry) \<Rightarrow> entry list \<Rightarrow> string list \<Rightarrow> string \<rightharpoonup> entry" where
  "apply_delta held es ts m =
     (case index_entries es m of Some e \<Rightarrow> Some e | None \<Rightarrow> if m \<in> set ts then None else held m)"

definition live :: "time \<Rightarrow> (string \<rightharpoonup> entry) \<Rightarrow> string \<rightharpoonup> entry" where
  "live now f m = (case f m of None \<Rightarrow> None | Some e \<Rightarrow> if now < en_expires e then Some e else None)"

definition logged_since :: "'w store_world_scheme \<Rightarrow> int \<Rightarrow> change_row list" where
  "logged_since w s = sort_key ch_seq (filter (\<lambda>c. ch_seq c > s) (change_log w))"

lemma index_entries_Some:
  "distinct (map en_message es) \<Longrightarrow> index_entries es m = Some e \<longleftrightarrow> e \<in> set es \<and> en_message e = m"
  unfolding index_entries_def by (subst map_of_eq_Some_iff) (auto simp: o_def)

lemma index_entries_None: "index_entries es m = None \<longleftrightarrow> m \<notin> en_message ` set es"
  by (force simp: index_entries_def map_of_eq_None_iff)

lemma latest_kind_None: "latest_kind cs m = None \<longleftrightarrow> m \<notin> ch_message ` set cs"
  by (force simp: latest_kind_def map_of_eq_None_iff)

lemma map_of_starts:
  "map_of (map (\<lambda>(i, r). (i, mr_start r)) (filter (\<lambda>(i, r). i \<in> S) ms)) i
    = (if i \<in> S then map_option mr_start (map_of ms i) else None)"
  by (induction ms) auto

lemma compute_delta_ok:
  fixes w :: "'w deliver_world_scheme"
  assumes "compute_delta marshal c p token now w = (Inr (Some (es, ts), fresh), w')"
  obtains cur where "decode_cursor token = Some cur"
    "membership_hash cur = reverse_hash marshal (channel_segments w c)"
    "es = filter (\<lambda>e. latest_kind (logged_since w (seq cur)) (en_message e) \<noteq> None
        \<or> \<not> window_start_of (\<lambda>i. map_option mr_start (map_of (messages w) i)) (en_message e) < issued_at cur) p"
    "ts = delta_tombstones (logged_since w (seq cur)) p"
proof -
  from assms obtain b w1 n w2 where 1: "get_reverse c w = (Inr b, w1)" and 2: "current_seq w1 = (Inr n, w2)"
    and 3: "(if \<not> honorable (decode_cursor token) (reverse_hash marshal b) n now
        then ret (None, encode_cursor \<lparr>seq = n, membership_hash = reverse_hash marshal b, issued_at = now\<rparr>)
        else and_then (wrapping ''read change log since'' (changes_since (seq (the (decode_cursor token))))) (\<lambda>changes.
           and_then (window_starts_for (entry_message_ids p)) (\<lambda>starts.
             ret (Some (delta_entries changes starts (issued_at (the (decode_cursor token))) p, delta_tombstones changes p),
                  encode_cursor \<lparr>seq = n, membership_hash = reverse_hash marshal b, issued_at = now\<rparr>)))) w2
      = (Inr (Some (es, ts), fresh), w')"
    by (auto simp: compute_delta_def and_then_ok Let_def)
  from 1 [unfolded get_reverse_def wrapping_ok, THEN query_ok] obtain f1 where w1: "w1 = w\<lparr>faults := f1\<rparr>"
    and b: "b = channel_segments w c" by (auto simp: channel_segments_def)
  from 2 [unfolded current_seq_def wrapping_ok, THEN query_ok] w1 obtain f2 where w2: "w2 = w\<lparr>faults := f2\<rparr>" by auto
  from 3 have hon: "honorable (decode_cursor token) (reverse_hash marshal b) n now" by (auto split: if_splits)
  then obtain cur where cur: "decode_cursor token = Some cur" "membership_hash cur = reverse_hash marshal b"
    by (auto simp: honorable_def split: option.splits)
  from 3 hon cur(1) obtain changes w3 starts where 4: "changes_since (seq cur) w2 = (Inr changes, w3)"
    and 5: "window_starts_for (entry_message_ids p) w3 = (Inr starts, w')"
    and es: "es = delta_entries changes starts (issued_at cur) p" "ts = delta_tombstones changes p"
    by (auto simp: and_then_ok)
  from 4 [unfolded changes_since_def wrapping_ok, THEN query_ok] w2 obtain f3 where w3: "w3 = w\<lparr>faults := f3\<rparr>"
    and ch: "changes = logged_since w (seq cur)" by (auto simp: logged_since_def)
  have "starts i = map_option mr_start (map_of (messages w) i)" if "i \<in> en_message ` set p" for i
    using 5 that by (auto simp: window_starts_for_def entry_message_ids_def w3 map_of_starts dest!: query_ok split: if_splits)
  then have "es = filter (\<lambda>e. latest_kind (logged_since w (seq cur)) (en_message e) \<noteq> None
        \<or> \<not> window_start_of (\<lambda>i. map_option mr_start (map_of (messages w) i)) (en_message e) < issued_at cur) p"
    unfolding es(1) delta_entries_def ch by (intro filter_cong) (auto simp: window_start_of_def)
  with cur es(2) that show ?thesis by (simp add: ch b)
qed

text \<open>
  What must have happened since the cursor for a device that holds \<open>held\<close>: an entry it does not hold
  as it is now was logged, or its window opened; one that is gone was logged as gone, or has
  expired.
\<close>

definition accounted_since ::
  "'w store_world_scheme \<Rightarrow> cursor \<Rightarrow> time \<Rightarrow> (string \<rightharpoonup> entry) \<Rightarrow> entry list \<Rightarrow> bool" where
  "accounted_since w cur now held p =
     ((\<forall>e\<in>set p. held (en_message e) = Some e \<or> en_message e \<in> ch_message ` set (logged_since w (seq cur))
        \<or> (\<exists>r. map_of (messages w) (en_message e) = Some r \<and> issued_at cur \<le> mr_start r))
      \<and> (\<forall>m e. held m = Some e \<longrightarrow> m \<in> en_message ` set p \<or> en_expires e \<le> now
           \<or> latest_kind (logged_since w (seq cur)) m = Some KindTombstone))"

lemma delta_full:
  fixes w :: "'w deliver_world_scheme"
  assumes "compute_delta marshal c p token now w = (Inr (Some (es, ts), fresh), w')"
    and "decode_cursor token = Some cur" and dist: "distinct (map en_message p)"
    and acc: "accounted_since w cur now held p"
  shows "live now (apply_delta held es ts) = live now (index_entries p)"
proof (rule ext)
  fix m
  let ?cs = "logged_since w (seq cur)"
  from compute_delta_ok [OF assms(1)] assms(2) have es: "es = filter (\<lambda>e. latest_kind ?cs (en_message e) \<noteq> None
        \<or> \<not> window_start_of (\<lambda>i. map_option mr_start (map_of (messages w) i)) (en_message e) < issued_at cur) p"
    and ts: "ts = delta_tombstones ?cs p" by auto
  from dist have dist_es: "distinct (map en_message es)" by (simp add: es distinct_map_filter)
  show "live now (apply_delta held es ts) m = live now (index_entries p) m"
  proof (cases "index_entries p m")
    case None
    then have out: "m \<notin> en_message ` set p" by (simp add: index_entries_None)
    then have "index_entries es m = None" by (auto simp: index_entries_None es)
    moreover have "m \<in> set ts \<or> held m = None \<or> (\<exists>e. held m = Some e \<and> en_expires e \<le> now)"
    proof (cases "held m")
      case (Some e)
      with acc out have "en_expires e \<le> now \<or> latest_kind ?cs m = Some KindTombstone"
        by (auto simp: accounted_since_def)
      moreover have "m \<in> set ts" if k: "latest_kind ?cs m = Some KindTombstone"
      proof -
        from k have "m \<in> ch_message ` set ?cs" using latest_kind_None [of ?cs m] by auto
        with k out show ?thesis by (simp add: ts delta_tombstones_def)
      qed
      ultimately show ?thesis using Some by blast
    qed simp
    ultimately show ?thesis using None by (auto simp: live_def apply_delta_def split: option.splits)
  next
    case (Some e)
    with dist have e: "e \<in> set p" "en_message e = m" by (simp_all add: index_entries_Some)
    show ?thesis
    proof (cases "e \<in> set es")
      case True
      with e dist_es have "index_entries es m = Some e" by (simp add: index_entries_Some)
      with Some show ?thesis by (simp add: live_def apply_delta_def)
    next
      case False
      with e have quiet: "latest_kind ?cs m = None"
        "window_start_of (\<lambda>i. map_option mr_start (map_of (messages w) i)) m < issued_at cur" by (auto simp: es)
      with acc e have "held m = Some e"
        by (auto simp: accounted_since_def latest_kind_None window_start_of_def)
      moreover have "index_entries es m = None"
      proof (rule ccontr)
        assume "index_entries es m \<noteq> None"
        then obtain e' where "e' \<in> set es" "en_message e' = m" using dist_es by (auto simp: index_entries_Some)
        with quiet show False by (auto simp: es)
      qed
      moreover have "m \<notin> set ts" using e by (auto simp: ts delta_tombstones_def)
      ultimately show ?thesis using Some by (simp add: live_def apply_delta_def)
    qed
  qed
qed

text \<open>An entry that was not logged and did not open since the cursor is not in the delta, held or not.\<close>

lemma delta_omits_unlogged:
  fixes w :: "'w deliver_world_scheme"
  assumes "compute_delta marshal c p token now w = (Inr (Some (es, ts), fresh), w')" "decode_cursor token = Some cur"
    and "en_message e \<notin> ch_message ` set (logged_since w (seq cur))"
    and "map_of (messages w) (en_message e) = Some r" "mr_start r < issued_at cur"
  shows "e \<notin> set es"
proof -
  let ?cs = "logged_since w (seq cur)"
  from compute_delta_ok [OF assms(1)] assms(2) have es: "es = filter (\<lambda>e. latest_kind ?cs (en_message e) \<noteq> None
        \<or> \<not> window_start_of (\<lambda>i. map_option mr_start (map_of (messages w) i)) (en_message e) < issued_at cur) p" by auto
  from assms(3) have "latest_kind ?cs (en_message e) = None" by (simp add: latest_kind_None)
  with assms(4,5) show ?thesis by (simp add: es window_start_of_def)
qed


text \<open>
  C2: a delta refines the full payload. If every change since the cursor was logged or is the opening
  of a window, the device that applies the delta to what it holds shows what the full payload would
  have shown it.
\<close>

theorem delta_refines_full:
  fixes w :: "'w deliver_world_scheme"
  assumes "compute_delta marshal c p token now w = (Inr (Some (es, ts), fresh), w')"
    and "decode_cursor token = Some cur" and "distinct (map en_message p)"
    and "accounted_since w cur now held p"
  shows "live now (apply_delta held es ts) = live now (index_entries p)"
  using assms by (rule delta_full)

text \<open>A device that holds \<open>gone\<close>, stopped since, and not yet \<open>m\<close>, whose window has opened since.\<close>

definition demo_deliver :: deliver_world where
  "demo_deliver = payload_world.extend (demo_delivery\<lparr>change_log :=
       [\<lparr>ch_seq = 1, ch_message = ''gone'', ch_kind = KindTombstone, ch_at = 1000\<rparr>]\<rparr>) \<lparr>tag_cache = []\<rparr>"

definition demo_entry :: "string \<Rightarrow> entry" where
  "demo_entry i = \<lparr>en_message = i, en_version = 1, en_variant = ''v'', en_schema = \<lparr>major = 1, minor = 0\<rparr>, en_priority = 1,
     en_content = [], en_triggers = [], en_conditions = [], en_policy = \<lparr>per_message_cap = 1, min_interval_between = 0,
       exempt_from_project_cap = False, requires_server_confirmation = False\<rparr>, en_expires = 9000\<rparr>"

definition demo_cursor :: "(bitmap \<Rightarrow> string) \<Rightarrow> cursor" where
  "demo_cursor marshal = \<lparr>seq = 0, membership_hash = reverse_hash marshal {1}, issued_at = 0\<rparr>"

lemma demo_deliver_tables:
  "faults demo_deliver = []" "messages demo_deliver = messages demo_delivery"
  "reverse_keys demo_deliver = [(reverse_key ''c1'', {1})]"
  "change_log demo_deliver = [\<lparr>ch_seq = 1, ch_message = ''gone'', ch_kind = KindTombstone, ch_at = 1000\<rparr>]"
  "tag_cache demo_deliver = []"
  by (simp_all add: demo_deliver_def demo_delivery_def demo_members_def membership_world.defs payload_world.defs)

lemma demo_cursor_decodes: "decode_cursor (encode_cursor (demo_cursor marshal)) = Some (demo_cursor marshal)"
  by (rule cursor_reencode) (simp_all add: demo_cursor_def min_int64_def max_int64_def reverse_hash_def hex_of_nat_no_colon)

lemma demo_compute_delta:
  "compute_delta marshal ''c1'' [demo_entry ''m''] (encode_cursor (demo_cursor marshal)) 2000 demo_deliver
     = (Inr (Some ([demo_entry ''m''], [''gone'']), encode_cursor \<lparr>seq = 1, membership_hash = reverse_hash marshal {1}, issued_at = 2000\<rparr>),
        demo_deliver)"
proof -
  have r: "get_reverse ''c1'' demo_deliver = (Inr {1}, demo_deliver)"
    by (simp add: get_reverse_def wrapping_def query_calm demo_deliver_tables)
  have s: "current_seq demo_deliver = (Inr 1, demo_deliver)"
    by (simp add: current_seq_def wrapping_def query_calm demo_deliver_tables)
  have h: "honorable (Some (demo_cursor marshal)) (reverse_hash marshal {1}) 1 2000"
    by (simp add: honorable_def demo_cursor_def Retention_def time_add_def hour_def minute_def second_def)
  have c: "changes_since 0 demo_deliver = (Inr (change_log demo_deliver), demo_deliver)"
    by (simp add: changes_since_def wrapping_def query_calm demo_deliver_tables)
  have d: "delta_entries cs (\<lambda>i. if i = ''m'' then Some 0 else None) 0 [demo_entry ''m''] = [demo_entry ''m'']" for cs
    by (simp add: delta_entries_def window_start_of_def demo_entry_def)
  have t: "delta_tombstones (change_log demo_deliver) [demo_entry ''m''] = [''gone'']"
    by (simp add: delta_tombstones_def latest_kind_def demo_deliver_tables demo_entry_def)
  have w: "window_starts_for (entry_message_ids [demo_entry ''m'']) demo_deliver
      = (Inr (\<lambda>i. if i = ''m'' then Some 0 else None), demo_deliver)"
    by (auto simp: window_starts_for_def wrapping_def query_calm demo_deliver_tables demo_tables entry_message_ids_def demo_entry_def demo_row_def)
  show ?thesis
    by (simp add: compute_delta_def Let_def and_then_def wrapping_def r s demo_cursor_decodes h c d t w
        demo_cursor_def [THEN arg_cong [where f = seq]] demo_cursor_def [THEN arg_cong [where f = issued_at]] del: One_nat_def)
qed

theorem delta_refines_full_witness:
  "compute_delta (env_marshal demo_env) ''c1'' [demo_entry ''m''] (encode_cursor (demo_cursor (env_marshal demo_env))) 2000 demo_deliver
     = (Inr (Some ([demo_entry ''m''], [''gone'']), encode_cursor \<lparr>seq = 1, membership_hash = reverse_hash (env_marshal demo_env) {1}, issued_at = 2000\<rparr>),
        demo_deliver)
   \<and> live 2000 (apply_delta [''gone'' \<mapsto> demo_entry ''gone''] [demo_entry ''m''] [''gone''])
       = live 2000 (index_entries [demo_entry ''m''])"
proof -
  have "accounted_since demo_deliver (demo_cursor (env_marshal demo_env)) 2000 [''gone'' \<mapsto> demo_entry ''gone''] [demo_entry ''m'']"
    by (simp add: accounted_since_def logged_since_def demo_deliver_tables demo_tables demo_cursor_def demo_entry_def demo_row_def
        latest_kind_def)
  from delta_refines_full [OF demo_compute_delta demo_cursor_decodes _ this] demo_compute_delta [of "env_marshal demo_env"] show ?thesis by simp
qed

end
