(* ===== verification/DeviceToken.thy ===== *)
theory DeviceToken
  imports Sha256 Base64 Json
begin

text \<open>
  \<^verbatim>\<open>internal/platform/devicetoken\<close>: the signed token that binds a channel identifier, and the
  registration credential of which only a digest is stored. The text of the claims is a
  parameter: \<open>enc\<close> is what \<^verbatim>\<open>json.Marshal\<close> writes for a value and \<open>dec\<close> what \<^verbatim>\<open>json.Unmarshal\<close> reads.
\<close>

section \<open>Claims\<close>

record claims =
  claim_channel :: string
  claim_issued :: int
  claim_expires :: int

definition zero_claims :: claims where
  "zero_claims = \<lparr>claim_channel = [], claim_issued = 0, claim_expires = 0\<rparr>"

definition claims_json :: "claims \<Rightarrow> json" where
  "claims_json c = JObj [(''channel_id'', JStr (claim_channel c)), (''iat'', JInt (claim_issued c)), (''exp'', JInt (claim_expires c))]"

definition claims_field :: "string \<Rightarrow> json \<Rightarrow> claims \<Rightarrow> claims result" where
  "claims_field k j c =
     (if k = ''channel_id'' then res_bind (dec_str j (claim_channel c)) (\<lambda>s. Inr (c\<lparr>claim_channel := s\<rparr>))
      else if k = ''iat'' then res_bind (dec_int j (claim_issued c)) (\<lambda>n. Inr (c\<lparr>claim_issued := n\<rparr>))
      else if k = ''exp'' then res_bind (dec_int j (claim_expires c)) (\<lambda>n. Inr (c\<lparr>claim_expires := n\<rparr>))
      else Inr c)"

definition claims_of_json :: "json \<Rightarrow> claims result" where
  "claims_of_json j = dec_struct claims_field j zero_claims"

section \<open>Issuing and verifying\<close>

definition sign :: "string \<Rightarrow> string \<Rightarrow> string" where
  "sign secret encodedPayload = hmac_sha256 secret encodedPayload"

definition claims_for :: "string \<Rightarrow> time \<Rightarrow> duration \<Rightarrow> claims" where
  "claims_for channelID now ttl =
     \<lparr>claim_channel = channelID, claim_issued = unix now, claim_expires = unix (time_add now ttl)\<rparr>"

definition issue_token :: "(json \<Rightarrow> string) \<Rightarrow> string \<Rightarrow> string \<Rightarrow> time \<Rightarrow> duration \<Rightarrow> string result" where
  "issue_token enc secret channelID now ttl =
     (if channelID = [] then Inl (Errorf ''devicetoken: channel id is required'')
      else if secret = [] then Inl (Errorf ''devicetoken: signing secret is required'')
      else let encodedPayload = b64_encode (enc (claims_json (claims_for channelID now ttl)))
           in Inr (encodedPayload @ ''.'' @ b64_encode (sign secret encodedPayload)))"

definition check_claims :: "(string \<Rightarrow> json option) \<Rightarrow> string \<Rightarrow> time \<Rightarrow> string result" where
  "check_claims dec encodedPayload now =
     (case b64_decode encodedPayload of
        None \<Rightarrow> Inl (Sentinel ErrMalformed)
      | Some payload \<Rightarrow>
          (case dec payload of
             None \<Rightarrow> Inl (Sentinel ErrMalformed)
           | Some j \<Rightarrow>
               (case claims_of_json j of
                  Inl _ \<Rightarrow> Inl (Sentinel ErrMalformed)
                | Inr c \<Rightarrow>
                    if claim_channel c = [] then Inl (Sentinel ErrMalformed)
                    else if unix now \<ge> claim_expires c then Inl (Sentinel ErrExpired)
                    else Inr (claim_channel c))))"

definition verify_token :: "(string \<Rightarrow> json option) \<Rightarrow> string \<Rightarrow> string \<Rightarrow> time \<Rightarrow> string result" where
  "verify_token dec secret tokenString now =
     (if secret = [] then Inl (Errorf ''devicetoken: signing secret is required'')
      else case split_cuts (CHR ''.'') 1 tokenString of
          [encodedPayload, encodedSig] \<Rightarrow>
            (case b64_decode encodedSig of
               None \<Rightarrow> Inl (Sentinel ErrMalformed)
             | Some gotSig \<Rightarrow>
                 if sign secret encodedPayload \<noteq> gotSig then Inl (Sentinel ErrInvalidSignature)
                 else check_claims dec encodedPayload now)
        | _ \<Rightarrow> Inl (Sentinel ErrMalformed))"

section \<open>Credentials\<close>

definition credentialBytes :: nat where "credentialBytes = 32"

text \<open>\<open>random\<close> is what \<^verbatim>\<open>rand.Read\<close> gives: bytes, or an error.\<close>

definition new_credential :: "(nat \<Rightarrow> string result) \<Rightarrow> string result" where
  "new_credential random = res_bind (wrap_err ''devicetoken: generate credential'' (random credentialBytes)) (\<lambda>b. Inr (b64_encode b))"

definition hash_credential :: "string \<Rightarrow> string" where
  "hash_credential credential = sha256 credential"

definition credential_matches :: "string \<Rightarrow> string \<Rightarrow> bool" where
  "credential_matches storedHash credential =
     (if length storedHash = 0 then False else storedHash = hash_credential credential)"

section \<open>What a token proves\<close>

lemma claims_roundtrip:
  assumes "min_int64 \<le> claim_issued c" "claim_issued c \<le> max_int64" "min_int64 \<le> claim_expires c" "claim_expires c \<le> max_int64"
  shows "claims_of_json (claims_json c) = Inr c"
proof -
  have lower: "to_lower ''channel_id'' = ''channel_id''" "to_lower ''iat'' = ''iat''" "to_lower ''exp'' = ''exp''"
    by code_simp+
  have "dec_struct claims_field (claims_json c) zero_claims
      = Inr \<lparr>claim_channel = claim_channel c, claim_issued = claim_issued c, claim_expires = claim_expires c\<rparr>"
    unfolding claims_json_def dec_struct.simps dec_members.simps lower
    using assms by (simp add: claims_field_def zero_claims_def)
  then show ?thesis by (simp add: claims_of_json_def)
qed

lemma verify_token_iff:
  "verify_token dec secret tok now = Inr c \<longleftrightarrow>
     secret \<noteq> [] \<and> c \<noteq> []
     \<and> (\<exists>p s. tok = p @ ''.'' @ s \<and> CHR ''.'' \<notin> set p \<and> b64_decode s = Some (hmac_sha256 secret p)
          \<and> (\<exists>raw j cl. b64_decode p = Some raw \<and> dec raw = Some j \<and> claims_of_json j = Inr cl
               \<and> claim_channel cl = c \<and> unix now < claim_expires cl))"
  (is "?lhs \<longleftrightarrow> ?rhs")
proof
  assume ?lhs
  then obtain p s where split: "split_cuts (CHR ''.'') (Suc 0) tok = [p, s]" and sec: "secret \<noteq> []"
    and sig: "b64_decode s = Some (sign secret p)" and ok: "check_claims dec p now = Inr c"
    by (auto simp: verify_token_def split: if_splits list.splits option.splits)
  from split_cuts_first [OF split] have "tok = p @ ''.'' @ s" "CHR ''.'' \<notin> set p" by auto
  moreover from ok obtain raw j cl where "b64_decode p = Some raw" "dec raw = Some j" "claims_of_json j = Inr cl"
    "claim_channel cl = c" "c \<noteq> []" "unix now < claim_expires cl"
    by (auto simp: check_claims_def split: option.splits sum.splits if_splits)
  ultimately show ?rhs using sec sig unfolding sign_def by blast
next
  assume ?rhs
  then obtain p s raw j cl where tok: "tok = p @ ''.'' @ s" "CHR ''.'' \<notin> set p" and sec: "secret \<noteq> []" "c \<noteq> []"
    and sig: "b64_decode s = Some (hmac_sha256 secret p)"
    and cl: "b64_decode p = Some raw" "dec raw = Some j" "claims_of_json j = Inr cl" "claim_channel cl = c" "unix now < claim_expires cl"
    by blast
  have "split_cuts (CHR ''.'') (Suc 0) tok = [p, s]"
    using split_cuts_append [OF tok(2), of 0 s] tok(1) by simp
  with sec sig cl show ?lhs by (simp add: verify_token_def check_claims_def sign_def)
qed

lemma issued_token_verifies:
  assumes "issue_token enc secret c t ttl = Inr tok"
    and "dec (enc (claims_json (claims_for c t ttl))) = Some (claims_json (claims_for c t ttl))"
    and "min_int64 \<le> unix t" "unix t \<le> max_int64" "min_int64 \<le> unix (time_add t ttl)" "unix (time_add t ttl) \<le> max_int64"
  shows "verify_token dec secret tok now
    = (if unix now < unix (time_add t ttl) then Inr c else Inl (Sentinel ErrExpired))"
proof -
  let ?cl = "claims_for c t ttl"
  let ?p = "b64_encode (enc (claims_json ?cl))"
  from assms(1) have tok: "tok = ?p @ ''.'' @ b64_encode (sign secret ?p)" and ne: "c \<noteq> []" "secret \<noteq> []"
    by (auto simp: issue_token_def Let_def split: if_splits)
  have "split_cuts (CHR ''.'') (Suc 0) tok = [?p, b64_encode (sign secret ?p)]"
    using split_cuts_append [OF b64_encode_no_dot] by (simp add: tok)
  moreover have "claims_of_json (claims_json ?cl) = Inr ?cl"
    using assms(3-6) by (intro claims_roundtrip) (simp_all add: claims_for_def)
  moreover have "claim_channel ?cl = c" "claim_expires ?cl = unix (time_add t ttl)" by (simp_all add: claims_for_def)
  ultimately show ?thesis
    using ne assms(2) by (simp add: verify_token_def check_claims_def b64_roundtrip)
qed

lemma credential_matches_iff: "credential_matches h cr \<longleftrightarrow> h = sha256 cr"
  by (auto simp: credential_matches_def hash_credential_def dest: arg_cong [where f = length])

end
