(* ===== verification/Register.thy ===== *)
theory Register
  imports DeviceToken Membership
begin

text \<open>
  \<^verbatim>\<open>internal/channel/register\<close>: a device registers, which makes its channel, its ordinal and its
  credential, and later trades the credential for a fresh access token.
\<close>

definition AccessTokenTTL :: duration where "AccessTokenTTL = hour"

record registration =
  reg_channel :: string
  reg_credential :: string
  reg_token :: string
  reg_expires :: time

text \<open>
  The columns of \<^verbatim>\<open>channels\<close>: an attribute document that is not null, and a four-byte integer. A nil
  Go map is a null.
\<close>

definition insert_channel :: "db_gen \<Rightarrow> json \<Rightarrow> string \<Rightarrow> int \<Rightarrow> ('w, string) member_io" where
  "insert_channel g attrs hash supportedSchemaMajor = wrapping ''register: insert channel''
     (checked (attrs \<noteq> JNull \<and> fits_int4 supportedSchemaMajor) (\<lambda>w.
        let i = gen_uuid g (id_supply w)
        in (Inr i, w\<lparr>channel_rows := channel_rows w @
              [(i, \<lparr>chan_attributes = attrs, chan_credential = Some hash, chan_major = supportedSchemaMajor\<rparr>)],
            id_supply := Suc (id_supply w)\<rparr>)))"

definition register_channel ::
  "(json \<Rightarrow> string) \<Rightarrow> (nat \<Rightarrow> string result) \<Rightarrow> db_gen \<Rightarrow> string \<Rightarrow> json \<Rightarrow> int \<Rightarrow> time \<Rightarrow> ('w, registration) member_io" where
  "register_channel enc random g secret attrs supportedSchemaMajor now =
     and_then (wrapping ''register'' (of_result (new_credential random))) (\<lambda>cred.
       and_then (insert_channel g attrs (hash_credential cred) supportedSchemaMajor) (\<lambda>channelID.
         and_then (wrapping ''register'' (allocate_ordinal channelID)) (\<lambda>_.
           and_then (wrapping ''register'' (of_result (issue_token enc secret channelID now AccessTokenTTL))) (\<lambda>tok.
             ret \<lparr>reg_channel = channelID, reg_credential = cred, reg_token = tok,
                  reg_expires = time_add now AccessTokenTTL\<rparr>))))"

definition stored_hash :: "string \<Rightarrow> ('w, string) member_io" where
  "stored_hash channelID = remote (\<lambda>w.
     (case map_of (channel_rows w) channelID of
        None \<Rightarrow> Inl (Sentinel ErrNoRows) | Some r \<Rightarrow> Inr (or_empty (chan_credential r)), w))"

definition look_up_hash :: "string \<Rightarrow> ('w, string) member_io" where
  "look_up_hash channelID = (\<lambda>w. case stored_hash channelID w of
     (Inl e, w') \<Rightarrow> (Inl (if errors_is e ErrNoRows then Sentinel ErrInvalidCredential
        else Wrap ''register: refresh: look up channel'' e), w')
   | (Inr h, w') \<Rightarrow> (Inr h, w'))"

definition refresh_token ::
  "(json \<Rightarrow> string) \<Rightarrow> string \<Rightarrow> string \<Rightarrow> string \<Rightarrow> time \<Rightarrow> ('w, registration) member_io" where
  "refresh_token enc secret channelID cred now =
     and_then (look_up_hash channelID) (\<lambda>h.
       if \<not> credential_matches h cred then fail (Sentinel ErrInvalidCredential)
       else and_then (wrapping ''register: refresh'' (of_result (issue_token enc secret channelID now AccessTokenTTL))) (\<lambda>tok.
         ret \<lparr>reg_channel = channelID, reg_credential = [], reg_token = tok, reg_expires = time_add now AccessTokenTTL\<rparr>))"

section \<open>What a registration gives\<close>

lemma refresh_reads: "only_reads (refresh_token enc secret c cred now)"
proof -
  have s: "only_reads (stored_hash c :: ('a, string) member_io)" unfolding stored_hash_def by (rule only_reads_remote) simp
  have "only_reads (look_up_hash c :: ('a, string) member_io)"
    unfolding only_reads_def look_up_hash_def
    using s [unfolded only_reads_def] by (auto split: prod.splits sum.splits) (metis snd_conv)+
  then show ?thesis unfolding refresh_token_def
    by (intro read_intros) (auto intro!: read_intros split: if_splits)
qed

text \<open>Without failures of calls: a token exactly for the credential whose digest is stored.\<close>

lemma refresh_calm:
  assumes "faults w = []" "c \<noteq> []" "secret \<noteq> []"
  shows "refresh_token enc secret c cred now w =
    (case map_of (channel_rows w) c of
       None \<Rightarrow> (Inl (Sentinel ErrInvalidCredential), w)
     | Some r \<Rightarrow> if or_empty (chan_credential r) = sha256 cred then
           (Inr \<lparr>reg_channel = c, reg_credential = [], reg_token = projr (issue_token enc secret c now AccessTokenTTL),
                reg_expires = time_add now AccessTokenTTL\<rparr>, w)
         else (Inl (Sentinel ErrInvalidCredential), w))"
  using assms
  by (simp add: refresh_token_def look_up_hash_def stored_hash_def remote_calm and_then_def wrapping_def
      credential_matches_iff issue_token_def Let_def split: option.split)

lemma register_ok:
  fixes w :: "'w membership_world_scheme"
  assumes "register_channel enc random g secret attrs d now w = (Inr r, w')"
    and fresh: "gen_uuid g (id_supply w) \<notin> fst ` set (channel_rows w)"
  shows "reg_channel r = gen_uuid g (id_supply w)
    \<and> map_of (channel_rows w') (reg_channel r)
        = Some \<lparr>chan_attributes = attrs, chan_credential = Some (sha256 (reg_credential r)), chan_major = d\<rparr>
    \<and> (\<forall>c. c \<noteq> reg_channel r \<longrightarrow> map_of (channel_rows w') c = map_of (channel_rows w) c)
    \<and> issue_token enc secret (reg_channel r) now AccessTokenTTL = Inr (reg_token r)
    \<and> map_of (ordinal_rows w') (reg_channel r) \<noteq> None"
proof -
  from assms(1) obtain cred i w1 ord w2 tok w3 where cred: "new_credential random = Inr cred"
    and 1: "insert_channel g attrs (hash_credential cred) d w = (Inr i, w1)"
    and 2: "allocate_ordinal i w1 = (Inr ord, w2)"
    and 3: "issue_token enc secret i now AccessTokenTTL = Inr tok"
    and r: "r = \<lparr>reg_channel = i, reg_credential = cred, reg_token = tok, reg_expires = time_add now AccessTokenTTL\<rparr>" "w' = w2"
    by (auto simp: register_channel_def and_then_ok)
  from 1 [unfolded insert_channel_def checked_def wrapping_ok, THEN remote_ok] have i: "i = gen_uuid g (id_supply w)"
    and w1: "channel_rows w1 = channel_rows w @
              [(i, \<lparr>chan_attributes = attrs, chan_credential = Some (sha256 cred), chan_major = d\<rparr>)]"
    by (auto simp: Let_def hash_credential_def split: if_splits)
  from 2 [unfolded allocate_ordinal_def wrapping_ok, THEN remote_ok]
  have w2: "channel_rows w2 = channel_rows w1" "map_of (ordinal_rows w2) i \<noteq> None"
    by (auto simp: Let_def map_add_def split: option.splits if_splits)
  from fresh have "map_of (channel_rows w) i = None" by (simp add: i map_of_eq_None_iff)
  with w1 w2(1) have row: "map_of (channel_rows w2) c = (if c = i
      then Some \<lparr>chan_attributes = attrs, chan_credential = Some (sha256 cred), chan_major = d\<rparr>
      else map_of (channel_rows w) c)" for c
    by (simp add: map_add_def split: option.split)
  show ?thesis using w2(2) 3 by (simp add: r row i)
qed

text \<open>
  C27: a device that has registered is let in and nobody else is: its first token names its channel
  for the hour, and from then on the channel's credential, and only what has the same digest, buys
  another token; any other answer is the one an unknown channel gets.
\<close>

theorem registration_opens_access:
  fixes w w2 :: "'w membership_world_scheme"
  assumes "register_channel enc random g secret attrs d now w = (Inr r, w')"
    and "gen_uuid g (id_supply w) \<notin> fst ` set (channel_rows w)"
    and "dec (enc (claims_json (claims_for (reg_channel r) now AccessTokenTTL)))
      = Some (claims_json (claims_for (reg_channel r) now AccessTokenTTL))"
    and "min_int64 \<le> unix now" "unix now \<le> max_int64"
        "min_int64 \<le> unix (time_add now AccessTokenTTL)" "unix (time_add now AccessTokenTTL) \<le> max_int64"
    and "faults w2 = []" "map_of (channel_rows w2) (reg_channel r) = map_of (channel_rows w') (reg_channel r)"
  shows "verify_token dec secret (reg_token r) t
      = (if unix t < unix now + 3600 then Inr (reg_channel r) else Inl (Sentinel ErrExpired))
    \<and> (if sha256 cred = sha256 (reg_credential r) then
         \<exists>tok. issue_token enc secret (reg_channel r) t AccessTokenTTL = Inr tok
           \<and> refresh_token enc secret (reg_channel r) cred t w2
               = (Inr \<lparr>reg_channel = reg_channel r, reg_credential = [], reg_token = tok,
                       reg_expires = time_add t AccessTokenTTL\<rparr>, w2)
       else refresh_token enc secret (reg_channel r) cred t w2 = (Inl (Sentinel ErrInvalidCredential), w2))
    \<and> (unknown \<noteq> [] \<longrightarrow> map_of (channel_rows w2) unknown = None \<longrightarrow>
         refresh_token enc secret unknown cred t w2 = (Inl (Sentinel ErrInvalidCredential), w2))"
proof -
  note reg = register_ok [OF assms(1,2)]
  then have tok: "issue_token enc secret (reg_channel r) now AccessTokenTTL = Inr (reg_token r)" by blast
  then have ne: "reg_channel r \<noteq> []" "secret \<noteq> []" by (auto simp: issue_token_def split: if_splits)
  have ttl: "unix (time_add now AccessTokenTTL) = unix now + 3600"
    by (simp add: unix_def time_add_def AccessTokenTTL_def hour_def minute_def second_def)
  from issued_token_verifies [of enc secret, where dec = dec, OF tok assms(3-7), of t] ttl
  have "verify_token dec secret (reg_token r) t
      = (if unix t < unix now + 3600 then Inr (reg_channel r) else Inl (Sentinel ErrExpired))" by simp
  moreover from reg assms(9) have row: "map_of (channel_rows w2) (reg_channel r)
      = Some \<lparr>chan_attributes = attrs, chan_credential = Some (sha256 (reg_credential r)), chan_major = d\<rparr>" by (metis (no_types))
  obtain tok' where tok': "issue_token enc secret (reg_channel r) t AccessTokenTTL = Inr tok'"
    using ne by (simp add: issue_token_def Let_def)
  have eq: "sha256 (reg_credential r) = sha256 cred \<longleftrightarrow> sha256 cred = sha256 (reg_credential r)" by (rule eq_commute)
  have refresh: "refresh_token enc secret (reg_channel r) cred t w2 =
      (if sha256 cred = sha256 (reg_credential r) then
         (Inr \<lparr>reg_channel = reg_channel r, reg_credential = [], reg_token = tok',
               reg_expires = time_add t AccessTokenTTL\<rparr>, w2)
       else (Inl (Sentinel ErrInvalidCredential), w2))"
    unfolding refresh_calm [OF assms(8) ne] row by (simp add: or_empty_def tok' eq)
  moreover have "refresh_token enc secret unknown cred t w2 = (Inl (Sentinel ErrInvalidCredential), w2)"
    if "unknown \<noteq> []" "map_of (channel_rows w2) unknown = None"
    using that ne(2) assms(8) by (simp add: refresh_calm)
  ultimately show ?thesis using tok' by simp
qed

text \<open>A third device; its claims have the text the library writes.\<close>

definition demo_claims_text :: string where
  "demo_claims_text = ''{\"channel_id\":\"u\",\"iat\":1700000000,\"exp\":1700003600}''"

definition demo_codec :: "string \<Rightarrow> json option" where
  "demo_codec s = (if s = demo_claims_text then
     Some (JObj [(''channel_id'', JStr ''u''), (''iat'', JInt 1700000000), (''exp'', JInt 1700003600)]) else None)"

definition demo_register :: "registration result \<times> membership_world" where
  "demo_register = register_channel (\<lambda>_. demo_claims_text) (\<lambda>n. Inr (replicate n CHR ''k'')) demo_gen ''secret'' (JObj []) 1
     1700000000000000000 (demo_members\<lparr>id_supply := 1\<rparr>)"

theorem registration_opens_access_witness:
  "\<exists>r w'. demo_register = (Inr r, w') \<and> reg_channel r = ''u''
     \<and> verify_token demo_codec ''secret'' (reg_token r) 1700003599000000000 = Inr ''u''
     \<and> verify_token demo_codec ''secret'' (reg_token r) 1700003600000000000 = Inl (Sentinel ErrExpired)
     \<and> is_ok (fst (refresh_token (\<lambda>_. demo_claims_text) ''secret'' ''u'' (reg_credential r) 1700003600000000000 w'))
     \<and> refresh_token (\<lambda>_. demo_claims_text) ''secret'' ''c7'' (reg_credential r) 1700003600000000000 w'
         = (Inl (Sentinel ErrInvalidCredential), w')"
proof -
  have calm: "faults demo_members = []" by (simp add: demo_members_def)
  obtain r w' where r: "demo_register = (Inr r, w')" and ch: "reg_channel r = ''u''" and f: "faults w' = []"
    and rows: "map_of (channel_rows w') ''c7'' = None"
    unfolding demo_register_def register_channel_def
    by (simp add: new_credential_def insert_channel_def checked_def remote_calm calm and_then_def wrapping_def fits_int4_def
        demo_gen_def allocate_ordinal_def Let_def issue_token_def demo_members_def)
  have fresh: "gen_uuid demo_gen (id_supply (demo_members\<lparr>id_supply := 1\<rparr>)) \<notin> fst ` set (channel_rows (demo_members\<lparr>id_supply := 1\<rparr>))"
    by (simp add: demo_gen_def demo_members_def)
  have codec: "demo_codec demo_claims_text
      = Some (claims_json (claims_for (reg_channel r) 1700000000000000000 AccessTokenTTL))"
    by (simp add: demo_codec_def ch claims_for_def claims_json_def unix_def time_add_def AccessTokenTTL_def hour_def minute_def second_def)
  note opens = registration_opens_access [where enc = "\<lambda>_. demo_claims_text" and dec = demo_codec and unknown = "''c7''",
      OF r [unfolded demo_register_def] fresh codec _ _ _ _ f refl]
  have bounds: "min_int64 \<le> unix 1700000000000000000" "unix 1700000000000000000 \<le> max_int64"
    "min_int64 \<le> unix (time_add 1700000000000000000 AccessTokenTTL)" "unix (time_add 1700000000000000000 AccessTokenTTL) \<le> max_int64"
    by (simp_all add: unix_def second_def min_int64_def max_int64_def time_add_def AccessTokenTTL_def hour_def minute_def)
  have t: "unix 1700003599000000000 < unix 1700000000000000000 + 3600" "\<not> unix 1700003600000000000 < unix 1700000000000000000 + 3600"
    by (simp_all add: unix_def second_def)
  from opens [OF bounds, of 1700003599000000000] t ch
  have a: "verify_token demo_codec ''secret'' (reg_token r) 1700003599000000000 = Inr ''u''" by simp
  from opens [OF bounds, of 1700003600000000000 "reg_credential r"] t ch rows
  have b: "verify_token demo_codec ''secret'' (reg_token r) 1700003600000000000 = Inl (Sentinel ErrExpired)"
    "\<exists>x. refresh_token (\<lambda>_. demo_claims_text) ''secret'' ''u'' (reg_credential r) 1700003600000000000 w' = (Inr x, w')"
    "refresh_token (\<lambda>_. demo_claims_text) ''secret'' ''c7'' (reg_credential r) 1700003600000000000 w'
         = (Inl (Sentinel ErrInvalidCredential), w')" by auto
  from b(2) obtain x where "refresh_token (\<lambda>_. demo_claims_text) ''secret'' ''u'' (reg_credential r) 1700003600000000000 w' = (Inr x, w')"
    by blast
  then have "is_ok (fst (refresh_token (\<lambda>_. demo_claims_text) ''secret'' ''u'' (reg_credential r) 1700003600000000000 w'))" by simp
  with a b r ch show ?thesis by (intro exI conjI)
qed

end
