(* ===== verification/AdminAuth.thy ===== *)
theory AdminAuth
  imports Ingest
begin

text \<open>
  \<^verbatim>\<open>internal/platform/adminauth\<close> and \<^verbatim>\<open>internal/platform/config\<close>: the three administrative roles, the
  keys that stand for principals, and the configuration read from the environment, which is where
  the keys come from.
\<close>

section \<open>Roles\<close>

text \<open>A role is a string, so a value outside the three constants exists.\<close>

datatype role = RoleViewer | RoleEditor | RoleAdministrator | OtherRole string

definition role_of_text :: "string \<Rightarrow> role" where
  "role_of_text s =
     (if s = ''viewer'' then RoleViewer else if s = ''editor'' then RoleEditor
      else if s = ''administrator'' then RoleAdministrator else OtherRole s)"

fun role_rank :: "role \<Rightarrow> int option" where
  "role_rank RoleViewer = Some 1"
| "role_rank RoleEditor = Some 2"
| "role_rank RoleAdministrator = Some 3"
| "role_rank (OtherRole _) = None"

definition satisfies :: "role \<Rightarrow> role \<Rightarrow> bool" where
  "satisfies r requirement =
     (case role_rank r of
        None \<Rightarrow> False
      | Some roleValue \<Rightarrow> roleValue \<ge> (case role_rank requirement of None \<Rightarrow> 0 | Some n \<Rightarrow> n))"

record principal =
  subject :: string
  principal_role :: role

text \<open>The keys of a Go map are distinct, so the order of the loop does not matter.\<close>

definition authenticate :: "principal go_map \<Rightarrow> string \<Rightarrow> principal result" where
  "authenticate keys bearer =
     (if bearer = [] then Inl (Sentinel ErrUnauthenticated)
      else case List.find (\<lambda>(key, p). length key = length bearer \<and> key = bearer) keys of
          Some (key, p) \<Rightarrow> Inr p
        | None \<Rightarrow> Inl (Sentinel ErrUnauthenticated))"

lemma authenticate_iff:
  assumes "distinct (map fst keys)"
  shows "authenticate keys bearer = Inr p \<longleftrightarrow> bearer \<noteq> [] \<and> map_of keys bearer = Some p"
proof -
  have "List.find (\<lambda>(key, p). length key = length bearer \<and> key = bearer) keys
      = map_option (\<lambda>p. (bearer, p)) (map_of keys bearer)"
    by (induction keys) auto
  then show ?thesis by (auto simp: authenticate_def split: option.splits)
qed

text \<open>Among the known roles: a total order, and an unknown role satisfies nothing.\<close>

lemma satisfies_known:
  "satisfies RoleViewer r \<longleftrightarrow> r = RoleViewer \<or> (\<exists>s. r = OtherRole s)"
  "satisfies RoleEditor r \<longleftrightarrow> r \<noteq> RoleAdministrator"
  "satisfies RoleAdministrator r"
  "\<not> satisfies (OtherRole s) r"
  by (cases r; simp add: satisfies_def)+

lemma satisfies_trans: "satisfies r s \<Longrightarrow> satisfies s t \<Longrightarrow> satisfies r t"
  by (cases r; cases s; cases t; simp add: satisfies_def)

section \<open>Configuration\<close>

definition EventPublisherPostgres :: string where "EventPublisherPostgres = ''postgres''"
definition EventPublisherLog :: string where "EventPublisherLog = ''log''"

record process_config =
  listen_addr :: string
  postgres_dsn :: string
  redis_addr :: string
  token_signing_key :: string
  admin_keys :: "principal go_map"
  clickhouse_dsn :: string
  clickhouse_mirror :: bool
  publisher_mode :: string
  event_log_brokers :: "string list"
  event_log_topic :: string

text \<open>\<^verbatim>\<open>strconv.ParseBool\<close>\<close>

definition go_parse_bool :: "string \<Rightarrow> bool option" where
  "go_parse_bool s =
     (if s \<in> {''1'', ''t'', ''T'', ''TRUE'', ''true'', ''True''} then Some True
      else if s \<in> {''0'', ''f'', ''F'', ''FALSE'', ''false'', ''False''} then Some False else None)"

definition parse_bool :: "string \<Rightarrow> bool result" where
  "parse_bool raw =
     (if raw = [] then Inr False
      else case go_parse_bool raw of None \<Rightarrow> Inl (Errorf ''must be a boolean'') | Some b \<Rightarrow> Inr b)"

definition parse_brokers :: "string \<Rightarrow> string list" where
  "parse_brokers raw =
     (if trim_space raw = [] then []
      else filter (\<lambda>b. b \<noteq> []) (map trim_space (split_on (CHR '','') raw)))"

fun parse_key_entries :: "string list \<Rightarrow> principal go_map \<Rightarrow> principal go_map result" where
  "parse_key_entries [] keys = Inr keys"
| "parse_key_entries (entry # rest) keys =
     (let e = trim_space entry in
      if e = [] then parse_key_entries rest keys
      else case split_cuts (CHR '':'') 2 e of
          [key, sub, r] \<Rightarrow>
            if key = [] \<or> sub = [] then Inl (Errorf ''must have a non-empty key and subject'')
            else if \<not> satisfies (role_of_text r) RoleViewer then Inl (Errorf ''names unrecognized role'')
            else parse_key_entries rest (put key \<lparr>subject = sub, principal_role = role_of_text r\<rparr> keys)
        | _ \<Rightarrow> Inl (Errorf ''must be key:subject:role''))"

definition parse_admin_keys :: "string \<Rightarrow> principal go_map result" where
  "parse_admin_keys raw0 =
     (let raw = trim_space raw0 in
      if raw = [] then Inr [] else parse_key_entries (split_on (CHR '','') raw) [])"

text \<open>The environment: a variable may be unset. \<^verbatim>\<open>os.Getenv\<close> reads an unset one as empty.\<close>

type_synonym environment = "string \<rightharpoonup> string"

definition os_getenv :: "environment \<Rightarrow> string \<Rightarrow> string" where
  "os_getenv env k = (case env k of None \<Rightarrow> [] | Some v \<Rightarrow> v)"

definition getenv :: "environment \<Rightarrow> string \<Rightarrow> string \<Rightarrow> string" where
  "getenv env k fallback = (case env k of Some v \<Rightarrow> v | None \<Rightarrow> fallback)"

definition publisher_ok :: "process_config \<Rightarrow> unit result" where
  "publisher_ok cfg =
     (if publisher_mode cfg = EventPublisherPostgres then Inr ()
      else if publisher_mode cfg = EventPublisherLog then
        (if event_log_brokers cfg = [] then Inl (Errorf ''config: requires CITYWALK_EVENT_LOG_BROKERS to be set'') else Inr ())
      else Inl (Errorf ''config: CITYWALK_EVENT_PUBLISHER is neither postgres nor log''))"

definition load_config :: "environment \<Rightarrow> process_config result" where
  "load_config env =
     res_bind (wrap_err ''config'' (parse_admin_keys (os_getenv env ''CITYWALK_ADMIN_API_KEYS''))) (\<lambda>keys.
       res_bind (wrap_err ''config'' (parse_bool (os_getenv env ''CITYWALK_CLICKHOUSE_MIRROR_ENABLED''))) (\<lambda>mirror.
         let cfg = \<lparr>listen_addr = getenv env ''CITYWALK_LISTEN_ADDR'' '':8080'',
               postgres_dsn = os_getenv env ''CITYWALK_POSTGRES_DSN'',
               redis_addr = os_getenv env ''CITYWALK_REDIS_ADDR'',
               token_signing_key = os_getenv env ''CITYWALK_TOKEN_SIGNING_KEY'',
               admin_keys = keys,
               clickhouse_dsn = os_getenv env ''CITYWALK_CLICKHOUSE_DSN'',
               clickhouse_mirror = mirror,
               publisher_mode = getenv env ''CITYWALK_EVENT_PUBLISHER'' EventPublisherPostgres,
               event_log_brokers = parse_brokers (os_getenv env ''CITYWALK_EVENT_LOG_BROKERS''),
               event_log_topic = getenv env ''CITYWALK_EVENT_LOG_TOPIC'' ''citywalk.events''\<rparr>
         in if listen_addr cfg = [] then Inl (Errorf ''config: CITYWALK_LISTEN_ADDR must not be empty'')
            else res_bind (publisher_ok cfg) (\<lambda>_. Inr cfg)))"

section \<open>A configuration that is accepted can be run\<close>

lemma trim_space_no_edge:
  "trim_space s \<noteq> [] \<Longrightarrow> \<not> is_space (hd (trim_space s)) \<and> \<not> is_space (last (trim_space s))"
proof -
  define t where "t = dropWhile is_space s"
  assume "trim_space s \<noteq> []"
  then have ne: "dropWhile is_space (rev t) \<noteq> []" by (simp add: trim_space_def t_def)
  then have l: "\<not> is_space (hd (dropWhile is_space (rev t)))" by (rule hd_dropWhile)
  from ne have "t \<noteq> []" by auto
  then have h: "\<not> is_space (hd t)" unfolding t_def by (rule hd_dropWhile)
  have "\<exists>n. dropWhile is_space (rev t) = drop n (rev t)" by (metis dropWhile_eq_drop)
  then obtain n where n: "dropWhile is_space (rev t) = drop n (rev t)" ..
  with ne have "n < length t" by (metis drop_all length_rev not_le)
  then have "rev (dropWhile is_space (rev t)) = take (length t - n) t" "length t - n > 0"
    by (simp_all add: n drop_rev)
  then have "hd (rev (dropWhile is_space (rev t))) = hd t" by (simp add: hd_take)
  with h l ne show ?thesis by (simp add: trim_space_def t_def [symmetric] last_rev)
qed

definition key_ok :: "string \<times> principal \<Rightarrow> bool" where
  "key_ok kp = (fst kp \<noteq> [] \<and> subject (snd kp) \<noteq> [] \<and> satisfies (principal_role (snd kp)) RoleViewer)"

lemma set_put: "set (put k v m) \<subseteq> insert (k, v) (set m)"
  by (induction k v m rule: put.induct) auto

lemma parse_key_entries_ok:
  "parse_key_entries es keys = Inr ks \<Longrightarrow> \<forall>kp\<in>set keys. key_ok kp \<Longrightarrow> canonical keys
     \<Longrightarrow> (\<forall>kp\<in>set ks. key_ok kp) \<and> canonical ks"
proof (induction es arbitrary: keys)
  case (Cons e es)
  show ?case
  proof (cases "trim_space e = []")
    case True
    with Cons show ?thesis by (simp add: Let_def)
  next
    case False
    with Cons.prems(1) obtain key sub r where e: "split_cuts (CHR '':'') 2 (trim_space e) = [key, sub, r]"
      and ok: "key \<noteq> []" "sub \<noteq> []" "satisfies (role_of_text r) RoleViewer"
      and rest: "parse_key_entries es (put key \<lparr>subject = sub, principal_role = role_of_text r\<rparr> keys) = Inr ks"
      by (auto simp: Let_def split: list.splits if_splits)
    have "\<forall>kp\<in>set (put key \<lparr>subject = sub, principal_role = role_of_text r\<rparr> keys). key_ok kp"
      using set_put [of key _ keys] Cons.prems(2) ok by (fastforce simp: key_ok_def)
    with Cons.IH [OF rest] Cons.prems(3) show ?thesis by (simp add: canonical_put)
  qed
qed simp

definition config_ok :: "process_config \<Rightarrow> bool" where
  "config_ok cfg =
     (listen_addr cfg \<noteq> [] \<and> (\<forall>kp\<in>set (admin_keys cfg). key_ok kp) \<and> canonical (admin_keys cfg)
      \<and> (publisher_mode cfg = EventPublisherPostgres \<or> publisher_mode cfg = EventPublisherLog \<and> event_log_brokers cfg \<noteq> [])
      \<and> (\<forall>b\<in>set (event_log_brokers cfg). b \<noteq> [] \<and> \<not> is_space (hd b) \<and> \<not> is_space (last b)))"

lemma parse_admin_keys_ok:
  assumes "parse_admin_keys raw = Inr ks"
  shows "(\<forall>kp\<in>set ks. key_ok kp) \<and> canonical ks"
proof (cases "trim_space raw = []")
  case True
  with assms have "ks = []" by (simp add: parse_admin_keys_def)
  then show ?thesis by (simp add: canonical_def)
next
  case False
  with assms have "parse_key_entries (split_on (CHR '','') (trim_space raw)) [] = Inr ks"
    by (simp add: parse_admin_keys_def Let_def)
  from parse_key_entries_ok [OF this] show ?thesis by (simp add: canonical_def)
qed

lemma parse_brokers_ok: "b \<in> set (parse_brokers raw) \<Longrightarrow> b \<noteq> [] \<and> \<not> is_space (hd b) \<and> \<not> is_space (last b)"
  using trim_space_no_edge by (fastforce simp: parse_brokers_def split: if_splits)

lemma canonical_distinct: "canonical ks \<Longrightarrow> distinct (map fst ks)"
  by (simp add: canonical_def strict_sorted_iff)

lemma load_config_ok:
  assumes "load_config env = Inr cfg"
  shows "config_ok cfg \<and> (\<forall>(key, p)\<in>set (admin_keys cfg). authenticate (admin_keys cfg) key = Inr p)"
proof -
  from assms have keys: "parse_admin_keys (os_getenv env ''CITYWALK_ADMIN_API_KEYS'') = Inr (admin_keys cfg)"
    and listen: "listen_addr cfg \<noteq> []" and pub: "publisher_ok cfg = Inr ()"
    and brokers: "event_log_brokers cfg = parse_brokers (os_getenv env ''CITYWALK_EVENT_LOG_BROKERS'')"
    by (auto simp: load_config_def Let_def res_bind_Inr_iff split: if_splits)
  from pub have mode: "publisher_mode cfg = EventPublisherPostgres \<or> publisher_mode cfg = EventPublisherLog \<and> event_log_brokers cfg \<noteq> []"
    by (auto simp: publisher_ok_def split: if_splits)
  note ks = parse_admin_keys_ok [OF keys]
  have "authenticate (admin_keys cfg) key = Inr p" if "(key, p) \<in> set (admin_keys cfg)" for key p
    using ks that by (auto simp: authenticate_iff canonical_distinct key_ok_def)
  moreover have "config_ok cfg"
    using listen ks mode brokers parse_brokers_ok by (auto simp: config_ok_def)
  ultimately show ?thesis by blast
qed

text \<open>The producer of the log asks for more than the configuration does: a topic.\<close>

lemma log_config_topic:
  assumes "config_ok cfg" "publisher_mode cfg = EventPublisherLog"
  shows "validate_log_config \<lparr>log_brokers = event_log_brokers cfg, log_topic = event_log_topic cfg\<rparr> = Inr ()
    \<longleftrightarrow> trim_space (event_log_topic cfg) \<noteq> []"
proof -
  have "event_log_brokers cfg \<noteq> []"
    using assms by (auto simp: config_ok_def EventPublisherPostgres_def EventPublisherLog_def)
  moreover have "\<not> list_ex (\<lambda>b. trim_space b = []) (event_log_brokers cfg)"
    using assms(1) trim_space_id by (fastforce simp: config_ok_def list_ex_iff)
  ultimately show ?thesis by (simp add: validate_log_config_def)
qed

text \<open>
  C40: a configuration that is loaded has an address to listen on, a publisher that is one of the two, with brokers when it
  is the log, no blank broker, and administrative keys that are not empty, name a subject and one of the three roles, and
  let their principal in. In log mode the producer takes it exactly when its topic is not blank, which loading does not ask.
\<close>

theorem loaded_config_sound:
  assumes "load_config env = Inr cfg"
  shows "config_ok cfg \<and> (\<forall>(key, p)\<in>set (admin_keys cfg). authenticate (admin_keys cfg) key = Inr p)
    \<and> (publisher_mode cfg = EventPublisherLog \<longrightarrow>
        (validate_log_config \<lparr>log_brokers = event_log_brokers cfg, log_topic = event_log_topic cfg\<rparr> = Inr ()
         \<longleftrightarrow> trim_space (event_log_topic cfg) \<noteq> []))"
  using load_config_ok [OF assms] log_config_topic by blast

text \<open>A blank topic is loaded, and the producer refuses it.\<close>

lemma blank_topic_is_loaded:
  defines "env \<equiv> [''CITYWALK_EVENT_PUBLISHER'' \<mapsto> ''log'', ''CITYWALK_EVENT_LOG_BROKERS'' \<mapsto> ''b1:9092'',
     ''CITYWALK_EVENT_LOG_TOPIC'' \<mapsto> []]"
  shows "case load_config env of Inl e \<Rightarrow> False | Inr cfg \<Rightarrow>
     publisher_mode cfg = EventPublisherLog
     \<and> \<not> is_ok (validate_log_config \<lparr>log_brokers = event_log_brokers cfg, log_topic = event_log_topic cfg\<rparr>)"
  unfolding env_def by code_simp

definition demo_environment :: environment where
  "demo_environment = [''CITYWALK_ADMIN_API_KEYS'' \<mapsto> '' abc:alice:editor, def:bob:viewer,'',
     ''CITYWALK_EVENT_PUBLISHER'' \<mapsto> ''log'', ''CITYWALK_EVENT_LOG_BROKERS'' \<mapsto> ''b1:9092 ,,'']"

theorem loaded_config_sound_witness:
  "\<exists>cfg. load_config demo_environment = Inr cfg \<and> event_log_brokers cfg = [''b1:9092''] \<and> config_ok cfg
     \<and> authenticate (admin_keys cfg) ''abc'' = Inr \<lparr>subject = ''alice'', principal_role = RoleEditor\<rparr>
     \<and> validate_log_config \<lparr>log_brokers = event_log_brokers cfg, log_topic = event_log_topic cfg\<rparr> = Inr ()"
proof -
  have "is_ok (load_config demo_environment)" by code_simp
  then obtain cfg where cfg: "load_config demo_environment = Inr cfg" by (cases "load_config demo_environment") auto
  have "map_option event_log_brokers (case load_config demo_environment of Inl _ \<Rightarrow> None | Inr c \<Rightarrow> Some c) = Some [''b1:9092'']"
    "map_option admin_keys (case load_config demo_environment of Inl _ \<Rightarrow> None | Inr c \<Rightarrow> Some c)
      = Some [(''abc'', \<lparr>subject = ''alice'', principal_role = RoleEditor\<rparr>), (''def'', \<lparr>subject = ''bob'', principal_role = RoleViewer\<rparr>)]"
    "map_option publisher_mode (case load_config demo_environment of Inl _ \<Rightarrow> None | Inr c \<Rightarrow> Some c) = Some EventPublisherLog"
    "map_option (trim_space \<circ> event_log_topic) (case load_config demo_environment of Inl _ \<Rightarrow> None | Inr c \<Rightarrow> Some c)
      = Some ''citywalk.events''"
    by code_simp+
  with loaded_config_sound [OF cfg] cfg show ?thesis by simp
qed

end
