(* ===== verification/AdminWire.thy ===== *)
theory AdminWire
  imports Store "HOL-Library.Word"
begin

text \<open>
  The wire form of a message on the administrative surface (\<^verbatim>\<open>connectserver/admin.go\<close>): the nested
  entities are JSON documents in bytes fields, here their values, with \<^term>\<open>None\<close> for a field without bytes.
  A Go slice that is nil and one that is empty are the same list, which is written as nil is.
\<close>

record variant_wire =
  wire_id :: string
  wire_weight :: int
  wire_language :: string
  wire_content :: "json option"

record message_definition =
  def_id :: string
  def_name :: string
  def_state :: string
  def_priority :: int
  def_window_start :: time
  def_window_end :: time
  def_audience :: string
  def_holdout :: rat
  def_conversion :: string
  def_version :: int
  def_salt :: string
  def_policy :: "json option"
  def_triggers :: "json option"
  def_conditions :: "json option"
  def_variants :: "json option"

section \<open>Slices\<close>

text \<open>Decoding into a slice that was nil: every element into its zero value.\<close>

definition dec_slice :: "(json \<Rightarrow> 'a result) \<Rightarrow> json \<Rightarrow> 'a list result" where
  "dec_slice dec j = (case j of JNull \<Rightarrow> Inr [] | JList js \<Rightarrow> map_result dec js | _ \<Rightarrow> type_error)"

definition slice_json :: "('a \<Rightarrow> json) \<Rightarrow> 'a list \<Rightarrow> json" where
  "slice_json enc xs = (if xs = [] then JNull else JList (map enc xs))"

lemma dec_slice_json: "dec_slice dec (slice_json enc xs) = map_result dec (map enc xs)"
  by (simp add: dec_slice_def slice_json_def)

text \<open>An element of a list of strings, where there may be an old one.\<close>

fun dec_strings :: "json list \<Rightarrow> string list \<Rightarrow> string list result" where
  "dec_strings [] old = Inr []"
| "dec_strings (j # js) old =
     res_bind (dec_str j (case old of [] \<Rightarrow> [] | s # _ \<Rightarrow> s)) (\<lambda>s. res_bind (dec_strings js (tl old)) (\<lambda>ss. Inr (s # ss)))"

text \<open>A list of strings that may be nil: \<^term>\<open>None\<close>, which is written and read as null.\<close>

definition string_slice_json :: "string list option \<Rightarrow> json" where
  "string_slice_json ss = (case ss of None \<Rightarrow> JNull | Some xs \<Rightarrow> JList (map JStr xs))"

definition dec_string_slice :: "json \<Rightarrow> string list option \<Rightarrow> string list option result" where
  "dec_string_slice j old =
     (case j of
        JNull \<Rightarrow> Inr None
      | JList js \<Rightarrow> res_bind (dec_strings js (case old of None \<Rightarrow> [] | Some ss \<Rightarrow> ss)) (\<lambda>ss. Inr (Some ss))
      | _ \<Rightarrow> type_error)"

lemma dec_strings_json: "dec_strings (map JStr ss) old = Inr ss"
  by (induction ss arbitrary: old) simp_all

lemma dec_string_slice_json [simp]: "dec_string_slice (string_slice_json ss) old = Inr ss"
  by (simp add: dec_string_slice_def string_slice_json_def dec_strings_json split: option.split)

section \<open>The nested entities\<close>

definition policy_json :: "control_policy \<Rightarrow> json" where
  "policy_json p = JObj [(''PerMessageCap'', JInt (per_message_cap p)), (''MinIntervalBetween'', JInt (min_interval_between p)),
     (''ExemptFromProjectCap'', JBool (exempt_from_project_cap p)),
     (''RequiresServerConfirmation'', JBool (requires_server_confirmation p))]"

definition policy_field :: "string \<Rightarrow> json \<Rightarrow> control_policy \<Rightarrow> control_policy result" where
  "policy_field k j p =
     (if k = ''permessagecap'' then res_bind (dec_int j (per_message_cap p)) (\<lambda>n. Inr (p\<lparr>per_message_cap := n\<rparr>))
      else if k = ''minintervalbetween'' then res_bind (dec_int j (min_interval_between p)) (\<lambda>n. Inr (p\<lparr>min_interval_between := n\<rparr>))
      else if k = ''exemptfromprojectcap'' then res_bind (dec_bool j (exempt_from_project_cap p)) (\<lambda>b. Inr (p\<lparr>exempt_from_project_cap := b\<rparr>))
      else if k = ''requiresserverconfirmation'' then
        res_bind (dec_bool j (requires_server_confirmation p)) (\<lambda>b. Inr (p\<lparr>requires_server_confirmation := b\<rparr>))
      else Inr p)"

definition no_policy :: control_policy where
  "no_policy = \<lparr>per_message_cap = 0, min_interval_between = 0, exempt_from_project_cap = False, requires_server_confirmation = False\<rparr>"

definition trigger_json :: "trigger \<Rightarrow> json" where
  "trigger_json t = JObj [(''ID'', JStr (trigger_id t)), (''Kind'', JStr (trigger_kind t)),
     (''OccurrenceGoal'', JInt (occurrence_goal t)), (''EventPredicate'', JStr (event_predicate t))]"

definition trigger_field :: "string \<Rightarrow> json \<Rightarrow> trigger \<Rightarrow> trigger result" where
  "trigger_field k j t =
     (if k = ''id'' then res_bind (dec_str j (trigger_id t)) (\<lambda>s. Inr (t\<lparr>trigger_id := s\<rparr>))
      else if k = ''kind'' then res_bind (dec_str j (trigger_kind t)) (\<lambda>s. Inr (t\<lparr>trigger_kind := s\<rparr>))
      else if k = ''occurrencegoal'' then res_bind (dec_int j (occurrence_goal t)) (\<lambda>n. Inr (t\<lparr>occurrence_goal := n\<rparr>))
      else if k = ''eventpredicate'' then res_bind (dec_str j (event_predicate t)) (\<lambda>s. Inr (t\<lparr>event_predicate := s\<rparr>))
      else Inr t)"

definition trigger_of_json :: "json \<Rightarrow> trigger result" where
  "trigger_of_json j = dec_struct trigger_field j \<lparr>trigger_id = [], trigger_kind = [], occurrence_goal = 0, event_predicate = []\<rparr>"

definition condition_json :: "display_condition \<Rightarrow> json" where
  "condition_json d = JObj [(''Delay'', JInt (delay d)), (''ScreenFilterMode'', JStr (screen_filter_mode d)),
     (''Screens'', string_slice_json (screens d)), (''ConnectivityRequired'', JStr (connectivity_required d))]"

definition condition_field :: "string \<Rightarrow> json \<Rightarrow> display_condition \<Rightarrow> display_condition result" where
  "condition_field k j d =
     (if k = ''delay'' then res_bind (dec_int j (delay d)) (\<lambda>n. Inr (d\<lparr>delay := n\<rparr>))
      else if k = ''screenfiltermode'' then res_bind (dec_str j (screen_filter_mode d)) (\<lambda>s. Inr (d\<lparr>screen_filter_mode := s\<rparr>))
      else if k = ''screens'' then res_bind (dec_string_slice j (screens d)) (\<lambda>ss. Inr (d\<lparr>screens := ss\<rparr>))
      else if k = ''connectivityrequired'' then
        res_bind (dec_str j (connectivity_required d)) (\<lambda>s. Inr (d\<lparr>connectivity_required := s\<rparr>))
      else Inr d)"

definition condition_of_json :: "json \<Rightarrow> display_condition result" where
  "condition_of_json j =
     dec_struct condition_field j \<lparr>delay = 0, screen_filter_mode = [], screens = None, connectivity_required = []\<rparr>"

section \<open>Variants\<close>

definition variant_wire_json :: "variant_wire \<Rightarrow> json" where
  "variant_wire_json w = JObj [(''id'', JStr (wire_id w)), (''weight'', JInt (wire_weight w)), (''language'', JStr (wire_language w)),
     (''content_column'', case wire_content w of None \<Rightarrow> JNull | Some c \<Rightarrow> c)]"

definition variant_wire_field :: "string \<Rightarrow> json \<Rightarrow> variant_wire \<Rightarrow> variant_wire result" where
  "variant_wire_field k j w =
     (if k = ''id'' then res_bind (dec_str j (wire_id w)) (\<lambda>s. Inr (w\<lparr>wire_id := s\<rparr>))
      else if k = ''weight'' then res_bind (dec_int j (wire_weight w)) (\<lambda>n. Inr (w\<lparr>wire_weight := n\<rparr>))
      else if k = ''language'' then res_bind (dec_str j (wire_language w)) (\<lambda>s. Inr (w\<lparr>wire_language := s\<rparr>))
      else if k = ''content_column'' then Inr (w\<lparr>wire_content := Some j\<rparr>)
      else Inr w)"

definition variant_wire_of_json :: "json \<Rightarrow> variant_wire result" where
  "variant_wire_of_json j =
     dec_struct variant_wire_field j \<lparr>wire_id = [], wire_weight = 0, wire_language = [], wire_content = None\<rparr>"

definition marshal_variants :: "variant list \<Rightarrow> json" where
  "marshal_variants vs = JList (map (\<lambda>v. variant_wire_json
     \<lparr>wire_id = variant_id v, wire_weight = weight v, wire_language = language v,
      wire_content = Some (marshal_content_column v)\<rparr>) vs)"

text \<open>A variant whose document names no content column has no bytes to decode.\<close>

definition variant_of_wire :: "variant_wire \<Rightarrow> variant result" where
  "variant_of_wire w = wrap_err ''decode variant content''
     (case wire_content w of
        None \<Rightarrow> Inl (Wrap ''model: decode variant content column'' (Errorf ''unexpected end of JSON input''))
      | Some j \<Rightarrow> unmarshal_content_column
          (blank_variant\<lparr>variant_id := wire_id w, weight := wire_weight w, language := wire_language w\<rparr>) j)"

definition unmarshal_variants :: "json option \<Rightarrow> variant list result" where
  "unmarshal_variants data =
     (case data of
        None \<Rightarrow> Inr []
      | Some j \<Rightarrow> res_bind (wrap_err ''decode variants_json'' (dec_slice variant_wire_of_json j)) (map_result variant_of_wire))"

section \<open>Messages\<close>

definition to_message_definition :: "message \<Rightarrow> message_definition" where
  "to_message_definition m =
     \<lparr>def_id = msg_id m, def_name = msg_name m, def_state = state_text (msg_state m),
      def_priority = sint (word_of_int (priority m) :: 32 word),
      def_window_start = win_start (msg_window m), def_window_end = win_end (msg_window m),
      def_audience = audience_ref m, def_holdout = holdout_fraction m, def_conversion = conversion_event m,
      def_version = sint (word_of_int (msg_version m) :: 32 word), def_salt = experiment_salt m,
      def_policy = Some (policy_json (policy m)),
      def_triggers = Some (slice_json trigger_json (triggers m)),
      def_conditions = Some (slice_json condition_json (display_conditions m)),
      def_variants = Some (marshal_variants (variants m))\<rparr>"

definition if_bytes :: "json option \<Rightarrow> 'a \<Rightarrow> (json \<Rightarrow> 'a result) \<Rightarrow> 'a result" where
  "if_bytes raw zero dec = (case raw of None \<Rightarrow> Inr zero | Some j \<Rightarrow> dec j)"

definition from_message_definition :: "message_definition \<Rightarrow> message result" where
  "from_message_definition d =
     res_bind (if_bytes (def_policy d) no_policy
         (\<lambda>j. wrap_err ''decode control_policy_json'' (dec_struct policy_field j no_policy))) (\<lambda>p.
       res_bind (if_bytes (def_triggers d) [] (\<lambda>j. wrap_err ''decode triggers_json'' (dec_slice trigger_of_json j))) (\<lambda>ts.
         res_bind (if_bytes (def_conditions d) []
             (\<lambda>j. wrap_err ''decode display_conditions_json'' (dec_slice condition_of_json j))) (\<lambda>ds.
           res_bind (unmarshal_variants (def_variants d)) (\<lambda>vs.
             Inr \<lparr>msg_id = [], msg_name = def_name d, msg_state = state_of_text (def_state d), priority = def_priority d,
                  msg_window = \<lparr>win_start = def_window_start d, win_end = def_window_end d\<rparr>, msg_version = 0,
                  audience_ref = def_audience d, policy = p, holdout_fraction = def_holdout d, experiment_salt = [],
                  conversion_event = def_conversion d, triggers = ts, display_conditions = ds, variants = vs\<rparr>))))"

section \<open>A definition that is read back\<close>

definition fits_int64 :: "int \<Rightarrow> bool" where
  "fits_int64 n = (min_int64 \<le> n \<and> n \<le> max_int64)"

lemma lower_policy:
  "to_lower ''PerMessageCap'' = ''permessagecap''" "to_lower ''MinIntervalBetween'' = ''minintervalbetween''"
  "to_lower ''ExemptFromProjectCap'' = ''exemptfromprojectcap''"
  "to_lower ''RequiresServerConfirmation'' = ''requiresserverconfirmation''"
  by code_simp+

lemma policy_roundtrip:
  "fits_int64 (per_message_cap p) \<Longrightarrow> fits_int64 (min_interval_between p) \<Longrightarrow> dec_struct policy_field (policy_json p) p0 = Inr p"
  unfolding policy_json_def dec_struct.simps dec_members.simps lower_policy by (simp add: policy_field_def fits_int64_def)

lemma lower_trigger:
  "to_lower ''ID'' = ''id''" "to_lower ''Kind'' = ''kind''" "to_lower ''OccurrenceGoal'' = ''occurrencegoal''"
  "to_lower ''EventPredicate'' = ''eventpredicate''"
  by code_simp+

interpretation trigger_wire: codec trigger_json trigger_of_json "\<lambda>t. fits_int64 (occurrence_goal t)"
proof unfold_locales
  show "trigger_of_json (trigger_json t) = Inr t" if "fits_int64 (occurrence_goal t)" for t
    using that unfolding trigger_json_def trigger_of_json_def dec_struct.simps dec_members.simps lower_trigger
    by (simp add: trigger_field_def fits_int64_def)
qed

lemma lower_condition:
  "to_lower ''Delay'' = ''delay''" "to_lower ''ScreenFilterMode'' = ''screenfiltermode''" "to_lower ''Screens'' = ''screens''"
  "to_lower ''ConnectivityRequired'' = ''connectivityrequired''"
  by code_simp+

interpretation condition_wire: codec condition_json condition_of_json "\<lambda>d. fits_int64 (delay d)"
proof unfold_locales
  show "condition_of_json (condition_json d) = Inr d" if "fits_int64 (delay d)" for d
    using that unfolding condition_json_def condition_of_json_def dec_struct.simps dec_members.simps lower_condition
    by (simp add: condition_field_def fits_int64_def)
qed

lemma lower_variant:
  "to_lower ''id'' = ''id''" "to_lower ''weight'' = ''weight''" "to_lower ''language'' = ''language''"
  "to_lower ''content_column'' = ''content_column''"
  by code_simp+

definition wire_ok :: "variant \<Rightarrow> bool" where
  "wire_ok v = (fits_int64 (weight v) \<and> fits_int64 (major (schema v)) \<and> fits_int64 (minor (schema v)) \<and> wf_content (variant_content v))"

interpretation variant_json: codec variant_wire_json variant_wire_of_json
    "\<lambda>w. fits_int64 (wire_weight w) \<and> wire_content w \<noteq> None"
proof unfold_locales
  show "variant_wire_of_json (variant_wire_json w) = Inr w" if "fits_int64 (wire_weight w) \<and> wire_content w \<noteq> None" for w
    using that unfolding variant_wire_json_def variant_wire_of_json_def dec_struct.simps dec_members.simps lower_variant
    by (auto simp: variant_wire_field_def fits_int64_def)
qed

lemma variant_roundtrip:
  assumes "wire_ok v"
  shows "variant_of_wire \<lparr>wire_id = variant_id v, wire_weight = weight v, wire_language = language v,
      wire_content = Some (marshal_content_column v)\<rparr> = Inr (v\<lparr>variant_message := []\<rparr>)"
  using assms by (simp add: variant_of_wire_def wire_ok_def fits_int64_def content_column_step blank_variant_def)

lemma variants_roundtrip:
  assumes "\<forall>v\<in>set vs. wire_ok v"
  shows "unmarshal_variants (Some (marshal_variants vs)) = Inr (map (\<lambda>v. v\<lparr>variant_message := []\<rparr>) vs)"
proof -
  let ?w = "\<lambda>v. \<lparr>wire_id = variant_id v, wire_weight = weight v, wire_language = language v,
      wire_content = Some (marshal_content_column v)\<rparr>"
  have "map_result variant_wire_of_json (map variant_wire_json (map ?w vs)) = Inr (map ?w vs)"
    using assms by (intro variant_json.slice_dec_enc) (simp add: list_all_iff wire_ok_def)
  moreover have "map_result variant_of_wire (map ?w vs) = Inr (map (\<lambda>v. v\<lparr>variant_message := []\<rparr>) vs)"
    using assms by (induction vs) (simp_all add: variant_roundtrip)
  ultimately show ?thesis by (simp add: unmarshal_variants_def marshal_variants_def dec_slice_def o_def)
qed

definition message_wire_ok :: "message \<Rightarrow> bool" where
  "message_wire_ok m =
     (fits_int4 (priority m) \<and> msg_state m \<in> set known_states
      \<and> fits_int64 (per_message_cap (policy m)) \<and> fits_int64 (min_interval_between (policy m))
      \<and> (\<forall>t\<in>set (triggers m). fits_int64 (occurrence_goal t)) \<and> (\<forall>d\<in>set (display_conditions m). fits_int64 (delay d))
      \<and> (\<forall>v\<in>set (variants m). wire_ok v))"

lemma sint32: "fits_int4 n \<Longrightarrow> sint (word_of_int n :: 32 word) = n"
  by (simp add: fits_int4_def sint_sbintrunc' signed_take_bit_int_eq_self)

lemma definition_roundtrip:
  assumes "message_wire_ok m"
  shows "from_message_definition (to_message_definition m)
    = Inr (m\<lparr>msg_id := [], msg_version := 0, experiment_salt := [], variants := map (\<lambda>v. v\<lparr>variant_message := []\<rparr>) (variants m)\<rparr>)"
proof -
  from assms have ts: "dec_slice trigger_of_json (slice_json trigger_json (triggers m)) = Inr (triggers m)"
    and ds: "dec_slice condition_of_json (slice_json condition_json (display_conditions m)) = Inr (display_conditions m)"
    by (simp_all add: message_wire_ok_def dec_slice_json list_all_iff trigger_wire.slice_dec_enc condition_wire.slice_dec_enc)
  from assms show ?thesis
    by (simp add: from_message_definition_def to_message_definition_def if_bytes_def policy_roundtrip ts ds variants_roundtrip
        message_wire_ok_def sint32 state_of_state_text)
qed

text \<open>
  The definition an administrator reads of a message, sent back, describes the same message: only
  what the server gives of its own, the identifier, the version and the salt, is left out.
\<close>

theorem message_definition_roundtrip:
  assumes "message_wire_ok m"
  shows "from_message_definition (to_message_definition m)
    = Inr (m\<lparr>msg_id := [], msg_version := 0, experiment_salt := [], variants := map (\<lambda>v. v\<lparr>variant_message := []\<rparr>) (variants m)\<rparr>)"
  using assms by (rule definition_roundtrip)

definition demo_definition :: message where
  "demo_definition = empty_message\<lparr>msg_id := ''m'', msg_state := StateActive, priority := - 3, msg_version := 2,
     triggers := [\<lparr>trigger_id = ''t'', trigger_kind = ''screen'', occurrence_goal = 1, event_predicate = []\<rparr>],
     display_conditions := [\<lparr>delay = 5 * second, screen_filter_mode = ''deny'', screens = Some [''home''], connectivity_required = ''any''\<rparr>],
     variants := [blank_variant\<lparr>variant_id := ''v'', weight := 100, language := ''en'', schema := \<lparr>major = 1, minor = 0\<rparr>\<rparr>]\<rparr>"

theorem message_definition_roundtrip_witness:
  "from_message_definition (to_message_definition demo_definition)
    = Inr (demo_definition\<lparr>msg_id := [], msg_version := 0\<rparr>)"
proof -
  have "message_wire_ok demo_definition"
    by (simp add: message_wire_ok_def demo_definition_def empty_message_def blank_variant_def wire_ok_def fits_int64_def fits_int4_def
        known_states_def min_int64_def max_int64_def second_def)
  from message_definition_roundtrip [OF this] show ?thesis
    by (simp add: demo_definition_def empty_message_def blank_variant_def)
qed

end
