(* ===== verification/FloatOrder.thy ===== *)
theory FloatOrder
  imports Float64 Sha256
begin

text \<open>
  The order of rounded arithmetic: rounding to a \<^verbatim>\<open>float64\<close> is monotone, odd and does nothing the second time,
  and a correctly rounded square root.
\<close>

section \<open>Rounding keeps the order\<close>

lemma rhe_floor: "\<lfloor>x\<rfloor> \<le> round_half_even x" "round_half_even x \<le> \<lfloor>x\<rfloor> + 1"
  by (simp_all add: round_half_even_def Let_def)

lemma round_half_even_mono:
  assumes "x \<le> y"
  shows "round_half_even x \<le> round_half_even y"
proof (cases "\<lfloor>x\<rfloor> = \<lfloor>y\<rfloor>")
  case True
  with assms show ?thesis unfolding round_half_even_def Let_def True by (auto split: if_splits)
next
  case False
  with assms floor_mono [OF assms] have "\<lfloor>x\<rfloor> + 1 \<le> \<lfloor>y\<rfloor>" by linarith
  with rhe_floor(2) [of x] rhe_floor(1) [of y] show ?thesis by linarith
qed

lemma round_half_even_minus: "round_half_even (- x) = - round_half_even x"
proof (cases "of_int \<lfloor>x\<rfloor> = x")
  case True
  then show ?thesis by (metis of_int_minus round_half_even_int)
next
  case False
  have f: "\<lfloor>- x\<rfloor> = - \<lfloor>x\<rfloor> - 1"
  proof (rule floor_unique)
    have "of_int \<lfloor>x\<rfloor> \<le> x" "x < of_int \<lfloor>x\<rfloor> + 1" by linarith+
    with False have "of_int \<lfloor>x\<rfloor> < x" "x < of_int \<lfloor>x\<rfloor> + 1" by (simp_all add: less_le)
    then show "of_int (- \<lfloor>x\<rfloor> - 1) \<le> - x" "- x < of_int (- \<lfloor>x\<rfloor> - 1) + 1" by simp_all
  qed
  show ?thesis unfolding round_half_even_def Let_def f by (auto split: if_splits)
qed

lemma expo_gt:
  assumes x: "0 < x"
  shows "x < 2 powi (expo 2 x + 1)"
proof (cases "1 \<le> x")
  case True
  let ?n = "nat \<lfloor>x\<rfloor>"
  have "x < of_int (\<lfloor>x\<rfloor> + 1)" by linarith
  also have "\<lfloor>x\<rfloor> + 1 = int (?n + 1)" using True by simp
  also have "of_int (int (?n + 1)) = (of_nat (?n + 1) :: rat)" by simp
  also have "\<dots> \<le> of_nat (2 ^ floorlog 2 ?n)"
    using floorlog_gt [of 2 ?n] by (intro of_nat_mono) (simp only: Suc_eq_plus1 [symmetric] Suc_le_eq)
  also have "\<dots> = 2 powi (expo 2 x + 1)" using True by (simp add: expo_def power_int_def)
  finally show ?thesis .
next
  case False
  define n where "n = nat (\<lceil>1 / x\<rceil> - 1)"
  have "1 < 1 / x" using False x by simp
  then have "1 < \<lceil>1 / x\<rceil>" by (simp only: less_ceiling_iff of_int_1)
  then have n: "0 < n" unfolding n_def by linarith
  have "of_int (\<lceil>1 / x\<rceil> - 1) < 1 / x" by linarith
  moreover have "int n = \<lceil>1 / x\<rceil> - 1" using n unfolding n_def by linarith
  then have "(of_nat n :: rat) = of_int (\<lceil>1 / x\<rceil> - 1)" by (metis of_int_of_nat_eq)
  ultimately have lt: "(of_nat n :: rat) < 1 / x" by simp
  have "(2 :: rat) ^ (floorlog 2 n - 1) = of_nat (2 ^ (floorlog 2 n - 1))" by simp
  also have "\<dots> \<le> of_nat n" using floorlog_le [of 2 n] n by (intro of_nat_mono) simp
  finally have le: "(2 :: rat) ^ (floorlog 2 n - 1) < 1 / x" using lt by (rule le_less_trans)
  have e: "expo 2 x + 1 = - int (floorlog 2 n - 1)"
    using False floorlog_pos [of 2 n] n by (simp add: expo_def n_def)
  have "2 powi (expo 2 x + 1) = inverse ((2 :: rat) ^ (floorlog 2 n - 1))"
    by (simp only: e power_int_minus power_int_of_nat)
  also have "x < \<dots>" using le x by (simp add: field_simps)
  finally show ?thesis .
qed

text \<open>The unit in the last place of a positive number.\<close>

definition ulp :: "rat \<Rightarrow> rat" where "ulp x = 2 powi (expo 2 x - 52)"

lemma ulp_pos [simp]: "0 < ulp x"
  by (simp add: ulp_def)

lemma fl_ulp: "0 < x \<Longrightarrow> fl x = of_int (round_half_even (x / ulp x)) * ulp x"
proof -
  assume "0 < x"
  moreover have "(2 :: rat) powi (52 - expo 2 x) = 1 / ulp x"
    by (simp add: ulp_def power_int_minus [symmetric] inverse_eq_divide [symmetric])
  ultimately show ?thesis by (simp add: fl_def round_sig_def Let_def)
qed

lemma ulp_scale: 
  assumes "0 < x"
  shows "2 ^ 52 \<le> x / ulp x" "x / ulp x < 2 ^ 53" "2 ^ 52 * ulp x = 2 powi (expo 2 x)" "2 ^ 53 * ulp x = 2 powi (expo 2 x + 1)"
proof -
  show lo: "2 ^ 52 * ulp x = 2 powi (expo 2 x)" and hi: "2 ^ 53 * ulp x = 2 powi (expo 2 x + 1)"
    using power_int_add [of "2 :: rat" 52 "expo 2 x - 52"] power_int_add [of "2 :: rat" 53 "expo 2 x - 52"]
    by (simp_all add: ulp_def algebra_simps)
  have "2 ^ 52 * ulp x \<le> x" using expo_le [of 2 x] assms unfolding lo by simp
  then show "2 ^ 52 \<le> x / ulp x" by (simp add: pos_le_divide_eq)
  have "x < 2 ^ 53 * ulp x" using expo_gt [OF assms] unfolding hi .
  then show "x / ulp x < 2 ^ 53" by (simp add: pos_divide_less_eq)
qed

lemma two_powi_less: "2 powi a < (2 :: rat) powi b \<Longrightarrow> a < b"
  by (rule ccontr) (use power_int_increasing [of b a "2 :: rat"] in auto)

lemma two_powi_le: "2 powi a \<le> (2 :: rat) powi b \<Longrightarrow> a \<le> b"
  by (rule ccontr) (use power_int_strict_increasing [of b a "2 :: rat"] in auto)

lemma fl_between:
  assumes "0 < x"
  shows "2 powi (expo 2 x) \<le> fl x" "fl x \<le> 2 powi (expo 2 x + 1)"
proof -
  have "round_half_even (of_int (2 ^ 52)) \<le> round_half_even (x / ulp x)"
    using ulp_scale(1) [OF assms] by (intro round_half_even_mono) simp
  then have "(2 :: rat) ^ 52 \<le> of_int (round_half_even (x / ulp x))"
    unfolding round_half_even_int by (metis of_int_le_iff of_int_numeral of_int_power)
  then have "2 ^ 52 * ulp x \<le> of_int (round_half_even (x / ulp x)) * ulp x" by (intro mult_right_mono less_imp_le [OF ulp_pos])
  then show "2 powi (expo 2 x) \<le> fl x" unfolding fl_ulp [OF assms] ulp_scale(3) [OF assms] .
  have "round_half_even (x / ulp x) \<le> round_half_even (of_int (2 ^ 53))"
    using ulp_scale(2) [OF assms] by (intro round_half_even_mono) simp
  then have "of_int (round_half_even (x / ulp x)) \<le> (2 :: rat) ^ 53"
    unfolding round_half_even_int by (metis of_int_le_iff of_int_numeral of_int_power)
  then have "of_int (round_half_even (x / ulp x)) * ulp x \<le> 2 ^ 53 * ulp x" by (intro mult_right_mono less_imp_le [OF ulp_pos])
  then show "fl x \<le> 2 powi (expo 2 x + 1)" unfolding fl_ulp [OF assms] ulp_scale(4) [OF assms] .
qed

lemma expo_mono:
  assumes "0 < x" "x \<le> y"
  shows "expo 2 x \<le> expo 2 y"
proof (rule ccontr)
  assume "\<not> ?thesis"
  then have "(2 :: rat) powi (expo 2 y + 1) \<le> 2 powi (expo 2 x)" by (intro power_int_increasing) auto
  also have "\<dots> \<le> x" using expo_le [of 2 x] assms by simp
  also have "\<dots> < 2 powi (expo 2 y + 1)" using expo_gt [of y] assms by simp
  finally show False by simp
qed

lemma fl_mono_pos:
  assumes "0 < x" "x \<le> y"
  shows "fl x \<le> fl y"
proof (cases "expo 2 x = expo 2 y")
  case True
  then have u: "ulp x = ulp y" by (simp add: ulp_def)
  have "x / ulp y \<le> y / ulp y" using assms(2) by (intro divide_right_mono less_imp_le [OF ulp_pos])
  then have "round_half_even (x / ulp x) \<le> round_half_even (y / ulp y)" unfolding u by (rule round_half_even_mono)
  then show ?thesis using assms u by (simp add: fl_ulp less_imp_le [OF ulp_pos] mult_right_mono)
next
  case False
  with expo_mono [OF assms] have "expo 2 x + 1 \<le> expo 2 y" by simp
  then have "(2 :: rat) powi (expo 2 x + 1) \<le> 2 powi (expo 2 y)" by (rule power_int_increasing) simp
  with fl_between(2) [OF assms(1)] fl_between(1) [of y] assms show ?thesis by linarith
qed

lemma fl_minus: "fl (- x) = - fl x"
  by (simp add: fl_def round_sig_def Let_def round_half_even_minus)

lemma fl_ge_zero: "0 \<le> x \<Longrightarrow> 0 \<le> fl x"
proof -
  assume "0 \<le> x"
  then consider "x = 0" | "0 < x" by linarith
  then show ?thesis
  proof cases
    case 2
    have "(0 :: rat) \<le> 2 powi (expo 2 x)" by simp
    with fl_between(1) [OF 2] show ?thesis by linarith
  qed simp
qed

lemma fl_mono:
  assumes "x \<le> y"
  shows "fl x \<le> fl y"
proof -
  consider "0 < x" | "x \<le> 0" "0 \<le> y" | "y < 0" by linarith
  then show ?thesis
  proof cases
    case 1
    with assms show ?thesis by (simp add: fl_mono_pos)
  next
    case 2
    with fl_ge_zero [of "- x"] fl_ge_zero [of y] show ?thesis by (simp add: fl_minus)
  next
    case 3
    with assms fl_mono_pos [of "- y" "- x"] show ?thesis by (simp add: fl_minus)
  qed
qed

lemma fl_idem_pos:
  assumes "0 < x"
  shows "fl (fl x) = fl x"
proof -
  let ?n = "round_half_even (x / ulp x)"
  have fx: "fl x = of_int ?n * ulp x" by (rule fl_ulp [OF assms])
  have pos: "0 < fl x"
    using fl_between(1) [OF assms] zero_less_power_int [of "2 :: rat" "expo 2 x"] by linarith
  have "expo 2 (fl x) = expo 2 x \<or> fl x = 2 powi (expo 2 x + 1)"
  proof (cases "fl x = 2 powi (expo 2 x + 1)")
    case False
    have "2 powi expo 2 (fl x) < (2 :: rat) powi (expo 2 x + 1)"
      using expo_le [of 2 "fl x"] pos False fl_between(2) [OF assms] by simp
    then have "expo 2 (fl x) < expo 2 x + 1" by (rule two_powi_less)
    moreover have "2 powi expo 2 x < (2 :: rat) powi (expo 2 (fl x) + 1)"
      using expo_gt [OF pos] fl_between(1) [OF assms] by simp
    then have "expo 2 x < expo 2 (fl x) + 1" by (rule two_powi_less)
    ultimately show ?thesis by simp
  qed blast
  then show ?thesis
  proof
    assume "expo 2 (fl x) = expo 2 x"
    then have "ulp (fl x) = ulp x" by (simp add: ulp_def)
    then have "fl x / ulp (fl x) = of_int ?n" using ulp_pos [of x] by (simp add: fx del: ulp_pos)
    then have "fl (fl x) = of_int ?n * ulp (fl x)" using fl_ulp [OF pos] by simp
    with \<open>ulp (fl x) = ulp x\<close> show ?thesis by (metis fx)
  next
    assume top: "fl x = 2 powi (expo 2 x + 1)"
    have "fl x \<le> fl (fl x)"
    proof -
      have "2 powi (expo 2 x + 1) < (2 :: rat) powi (expo 2 (fl x) + 1)" using expo_gt [OF pos] top by simp
      then have "expo 2 x + 1 < expo 2 (fl x) + 1" by (rule two_powi_less)
      then have "expo 2 x + 1 \<le> expo 2 (fl x)" by simp
      then have "(2 :: rat) powi (expo 2 x + 1) \<le> 2 powi (expo 2 (fl x))" by (rule power_int_increasing) simp
      with fl_between(1) [OF pos] top show ?thesis by simp
    qed
    moreover have "fl (fl x) \<le> fl x"
    proof -
      have e: "expo 2 (fl x) = expo 2 x + 1"
      proof (rule antisym)
        have "2 powi expo 2 (fl x) \<le> (2 :: rat) powi (expo 2 x + 1)" using expo_le [of 2 "fl x"] pos top by simp
        then show "expo 2 (fl x) \<le> expo 2 x + 1" by (rule two_powi_le)
        have "2 powi (expo 2 x + 1) < (2 :: rat) powi (expo 2 (fl x) + 1)" using expo_gt [OF pos] top by simp
        then have "expo 2 x + 1 < expo 2 (fl x) + 1" by (rule two_powi_less)
        then show "expo 2 x + 1 \<le> expo 2 (fl x)" by simp
      qed
      have nz: "ulp (fl x) \<noteq> 0" using ulp_pos [of "fl x"] by linarith
      have "2 ^ 52 * ulp (fl x) = fl x" using ulp_scale(3) [OF pos] e top by metis
      with nz have "fl x / ulp (fl x) = of_int (2 ^ 52)"
        by (metis nonzero_mult_div_cancel_right of_int_numeral of_int_power)
      then have "round_half_even (fl x / ulp (fl x)) = 2 ^ 52" by (simp only: round_half_even_int)
      with fl_ulp [OF pos] have "fl (fl x) = 2 ^ 52 * ulp (fl x)" by simp
      with \<open>2 ^ 52 * ulp (fl x) = fl x\<close> show ?thesis by simp
    qed
    ultimately show ?thesis by simp
  qed
qed

lemma fl_idem [simp]: "fl (fl x) = fl x"
proof -
  consider "0 < x" | "x = 0" | "x < 0" by linarith
  then show ?thesis
  proof cases
    case 1
    then show ?thesis by (rule fl_idem_pos)
  next
    case 3
    with fl_idem_pos [of "- x"] show ?thesis by (simp add: fl_minus)
  qed simp
qed

lemma fl_one [simp]: "fl 1 = 1"
  using fl_int [of 1] by simp

section \<open>The square root\<close>

text \<open>
  The root of a fraction \<open>n/d\<close>, scaled by a power of two that leaves at least 59 binary places, is
  cut to an integer; what is cut off is stood for by a half, which no halfway point between two
  \<^verbatim>\<open>float64\<close> values can hide behind, so that the one rounding that follows is the correct one.
\<close>

definition sqrt_scaled :: "nat \<Rightarrow> nat \<Rightarrow> nat \<Rightarrow> rat" where
  "sqrt_scaled n d k =
     (let m = n * 4 ^ k div d; s = root_from 2 m 0 (floorlog 2 m)
      in if s * s * d = n * 4 ^ k then of_nat s else of_nat s + 1 / 2)"

definition math_sqrt :: "rat \<Rightarrow> rat" where
  "math_sqrt x =
     (if x \<le> 0 then 0
      else let (n, d) = quotient_of x; k = 60 + floorlog 2 (nat d)
           in fl (sqrt_scaled (nat n) (nat d) k / 2 ^ k))"

lemma math_sqrt_nonneg: "0 \<le> math_sqrt x"
  by (auto simp: math_sqrt_def sqrt_scaled_def Let_def split: prod.split intro!: fl_ge_zero)

text \<open>The integer part: \<open>root_from\<close> finds the largest root, bit by bit.\<close>

lemma root_from_bound:
  assumes "r ^ 2 \<le> n" "n < (r + 2 ^ b) ^ 2"
  shows "(root_from 2 n r b) ^ 2 \<le> n \<and> n < (root_from 2 n r b + 1) ^ 2"
  using assms
proof (induction b arbitrary: r)
  case (Suc b)
  show ?case
  proof (cases "(r + 2 ^ b) ^ 2 \<le> n")
    case True
    have "r + 2 ^ b + 2 ^ b = r + 2 ^ Suc b" by simp
    with Suc.IH [OF True] Suc.prems(2) True show ?thesis by simp
  next
    case False
    with Suc.IH [OF Suc.prems(1)] show ?thesis by simp
  qed
qed simp

lemma root_from_floor: "(root_from 2 n 0 (floorlog 2 n)) ^ 2 \<le> n \<and> n < (root_from 2 n 0 (floorlog 2 n) + 1) ^ 2"
proof (rule root_from_bound)
  have "n < 2 ^ floorlog 2 n" by (rule floorlog_gt) simp
  also have "\<dots> \<le> (2 ^ floorlog 2 n) ^ 2" by (simp add: power2_eq_square)
  finally show "n < (0 + 2 ^ floorlog 2 n) ^ 2" by simp
qed simp

text \<open>What is rounded is within half a unit of the scaled root, on the side of the root's own integer part.\<close>

lemma sqrt_scaled_brackets:
  fixes n d k :: nat
  assumes "0 < d"
  defines "s \<equiv> root_from 2 (n * 4 ^ k div d) 0 (floorlog 2 (n * 4 ^ k div d))"
  shows "of_nat s ^ 2 \<le> (of_nat n * 4 ^ k / of_nat d :: rat)" "(of_nat n * 4 ^ k / of_nat d :: rat) < (of_nat s + 1) ^ 2"
    "sqrt_scaled n d k = of_nat s \<longleftrightarrow> of_nat s ^ 2 = (of_nat n * 4 ^ k / of_nat d :: rat)"
proof -
  let ?N = "n * 4 ^ k"
  have rat: "(of_nat n * 4 ^ k :: rat) = of_nat ?N" by simp
  from root_from_floor [of "?N div d"] have s: "s ^ 2 \<le> ?N div d" "?N div d < (s + 1) ^ 2" by (simp_all add: s_def)
  from s(1) have "s ^ 2 * d \<le> ?N div d * d" by (rule mult_le_mono1)
  also have "\<dots> \<le> ?N" by (rule div_times_less_eq_dividend)
  finally have "(of_nat (s ^ 2 * d) :: rat) \<le> of_nat ?N" by (rule of_nat_mono)
  then show "of_nat s ^ 2 \<le> (of_nat n * 4 ^ k / of_nat d :: rat)"
    unfolding rat using assms(1) by (simp add: pos_le_divide_eq)
  from s(2) assms(1) have "?N < (s + 1) ^ 2 * d" by (simp add: less_mult_imp_div_less div_less_iff_less_mult)
  then have "(of_nat ?N :: rat) < of_nat ((s + 1) ^ 2 * d)" by (simp only: of_nat_less_iff)
  then show "(of_nat n * 4 ^ k / of_nat d :: rat) < (of_nat s + 1) ^ 2"
    unfolding rat using assms(1) by (simp add: pos_divide_less_eq add.commute)
  have "sqrt_scaled n d k = of_nat s \<longleftrightarrow> s * s * d = ?N"
    by (simp add: sqrt_scaled_def Let_def s_def [symmetric])
  also have "\<dots> \<longleftrightarrow> (of_nat (s * s * d) :: rat) = of_nat ?N" by (simp only: of_nat_eq_iff)
  also have "\<dots> \<longleftrightarrow> of_nat s ^ 2 = (of_nat n * 4 ^ k / of_nat d :: rat)"
    unfolding rat using assms(1) by (simp add: eq_divide_eq power2_eq_square)
  finally show "sqrt_scaled n d k = of_nat s \<longleftrightarrow> of_nat s ^ 2 = (of_nat n * 4 ^ k / of_nat d :: rat)" .
qed

end
