(* ===== verification/Reach.thy ===== *)
theory Reach
  imports Membership FloatOrder
begin

text \<open>
  \<^verbatim>\<open>internal/audience/reach\<close>: the size of an audience, estimated by evaluating its predicate on a
  random sample of channels and scaling the Wilson interval of the rate of matches.
\<close>

section \<open>The interval\<close>

record reach_estimate =
  population_size :: int
  sample_size :: int
  est_count :: int
  est_low :: int
  est_high :: int

definition confidenceZ :: rat where "confidenceZ = fl (196 / 100)"

definition wilson_interval :: "int \<Rightarrow> int \<Rightarrow> rat \<Rightarrow> rat \<times> rat \<times> rat" where
  "wilson_interval matches n z =
     (if n = 0 then (0, 0, 0)
      else let p = fl (fl (of_int matches) / fl (of_int n));
               nf = fl (of_int n);
               z2 = fl (z * z);
               denom = fl (1 + fl (z2 / nf));
               centerAdj = fl (fl (p + fl (z2 / fl (2 * nf))) / denom);
               halfWidth = fl (fl (z / denom)
                 * math_sqrt (fl (fl (fl (p * fl (1 - p)) / nf) + fl (z2 / fl (fl (4 * nf) * nf)))))
           in (max 0 (fl (centerAdj - halfWidth)), centerAdj, min 1 (fl (centerAdj + halfWidth))))"

section \<open>The attributes of a sampled channel\<close>

text \<open>
  The Go values of the evaluator's input: a JSON value as it was decoded, a time, a list of strings.
  \<open>pt\<close> is \<^verbatim>\<open>time.Parse\<close> of RFC 3339.
\<close>

datatype attr_value = JsonAttr json | TimeAttr time | StringsAttr "string list"

fun strings_of :: "json list \<Rightarrow> string list result" where
  "strings_of [] = Inr []"
| "strings_of (JStr s # js) = res_bind (strings_of js) (\<lambda>ss. Inr (s # ss))"
| "strings_of (_ # js) = Inl (Errorf ''reach: attribute element is not a string'')"

definition decode_attribute :: "(string \<Rightarrow> time option) \<Rightarrow> attribute_type \<Rightarrow> json \<Rightarrow> attr_value result" where
  "decode_attribute pt ty value =
     (case ty of
        TypeTimestamp \<Rightarrow>
          (case value of
             JStr s \<Rightarrow> (case pt s of Some t \<Rightarrow> Inr (TimeAttr t) | None \<Rightarrow> Inl (Errorf ''reach: attribute is not RFC 3339''))
           | _ \<Rightarrow> Inl (Errorf ''reach: attribute is not a string, want an RFC 3339 timestamp''))
      | TypeStringSet \<Rightarrow>
          (case value of
             JList js \<Rightarrow> res_bind (strings_of js) (\<lambda>ss. Inr (StringsAttr ss))
           | _ \<Rightarrow> Inl (Errorf ''reach: attribute is not a list''))
      | _ \<Rightarrow> Inr (JsonAttr value))"

fun decode_attributes ::
  "(string \<Rightarrow> time option) \<Rightarrow> registry \<Rightarrow> (string \<times> json) list \<Rightarrow> attr_value go_map result" where
  "decode_attributes pt reg [] = Inr []"
| "decode_attributes pt reg ((name, value) # raw) =
     (case lookup_attribute reg name of
        None \<Rightarrow> decode_attributes pt reg raw
      | Some d \<Rightarrow> res_bind (decode_attribute pt (attr_type d) value) (\<lambda>v.
          res_bind (decode_attributes pt reg raw) (\<lambda>out. Inr (put name v out))))"

section \<open>Sampling and evaluating\<close>

text \<open>
  The table \<^verbatim>\<open>targeting_rollup\<close> that the consumer keeps, beside those of the channels, with the days of its
  rows numbered and the database's own date.
\<close>

record reach_world = membership_world +
  rollup_counts :: "((string \<times> string \<times> int) \<times> int) list"
  today :: int

type_synonym ('w, 'a) reach_io = "'w reach_world_scheme \<Rightarrow> 'a result \<times> 'w reach_world_scheme"

definition aggregate_sum :: "((string \<times> string \<times> int) \<times> int) list \<Rightarrow> int \<Rightarrow> string \<Rightarrow> int \<Rightarrow> string \<Rightarrow> int" where
  "aggregate_sum rows day0 event windowDays c =
     sum_list (map snd (filter (\<lambda>((c', e, d), n). c' = c \<and> e = event \<and> d > day0 - windowDays) rows))"

text \<open>\<open>defs\<close> is what \<^verbatim>\<open>Registry.Definitions\<close> gives, in the order it gives it.\<close>

fun merge_aggregates ::
  "attribute list \<Rightarrow> string list \<Rightarrow> (string \<times> attr_value go_map) list \<Rightarrow> ('w, (string \<times> attr_value go_map) list) reach_io" where
  "merge_aggregates [] ids attrs = ret attrs"
| "merge_aggregates (d # ds) ids attrs =
     (if ids = [] \<or> attr_source d \<noteq> SourceEventAggregate then merge_aggregates ds ids attrs
      else and_then (wrapping ''reach: query event aggregate'' (query (\<lambda>w. \<lambda>c.
          aggregate_sum (rollup_counts w) (today w) (aggregate_event_name d) (aggregate_window_days d) c))) (\<lambda>totals.
        merge_aggregates ds ids
          (map (\<lambda>(c, m). (c, put (attr_name d) (JsonAttr (json_of_float (fl (of_int (totals c))))) m)) attrs)))"

fun decode_sample ::
  "(string \<Rightarrow> time option) \<Rightarrow> registry \<Rightarrow> (string \<times> channel_row) list \<Rightarrow> (string \<times> attr_value go_map) list result" where
  "decode_sample pt reg [] = Inr []"
| "decode_sample pt reg ((c, r) # rows) =
     (case chan_attributes r of
        JObj raw \<Rightarrow> res_bind (wrap_err ''reach: decode sampled channel attributes'' (decode_attributes pt reg raw)) (\<lambda>m.
          res_bind (decode_sample pt reg rows) (\<lambda>ms. Inr ((c, m) # ms)))
      | JNull \<Rightarrow> res_bind (decode_sample pt reg rows) (\<lambda>ms. Inr ((c, []) # ms))
      | _ \<Rightarrow> Inl (Wrap ''reach: scan sampled channel'' IOFailure))"

text \<open>How many were evaluated, how many matched, and the evaluator with its programs.\<close>

fun count_matches ::
  "(string \<Rightarrow> cel_expr result) \<Rightarrow> (cel_expr \<Rightarrow> 'prog result) \<Rightarrow> ('prog \<Rightarrow> attr_value go_map \<Rightarrow> cel_value result)
     \<Rightarrow> predicate \<Rightarrow> (string \<times> attr_value go_map) list \<Rightarrow> 'prog evaluator \<Rightarrow> int \<times> int \<Rightarrow> ('prog evaluator \<times> int \<times> int) result" where
  "count_matches ds plan run p [] ev (sampled, matches) = Inr (ev, sampled, matches)"
| "count_matches ds plan run p ((c, attrs) # rest) ev (sampled, matches) =
     (case evaluate ds plan run ev p attrs of
        (Inl e, _) \<Rightarrow> Inl (Wrap ''reach: evaluate sampled channel'' e)
      | (Inr matched, ev') \<Rightarrow>
          count_matches ds plan run p rest ev' (sampled + 1, if matched then matches + 1 else matches))"

definition estimate_of :: "int \<Rightarrow> int \<Rightarrow> int \<Rightarrow> reach_estimate" where
  "estimate_of population sampled matches =
     (case wilson_interval matches sampled confidenceZ of (lowP, centerP, highP) \<Rightarrow>
        \<lparr>population_size = population, sample_size = sampled,
         est_count = math_round (fl (centerP * fl (of_int population))),
         est_low = math_round (fl (lowP * fl (of_int population))),
         est_high = math_round (fl (highP * fl (of_int population)))\<rparr>)"

text \<open>\<open>shuffle\<close> is the order \<^verbatim>\<open>random()\<close> puts the rows in.\<close>

definition estimate_audience_reach ::
  "(string \<Rightarrow> cel_expr result) \<Rightarrow> (cel_expr \<Rightarrow> 'prog result) \<Rightarrow> ('prog \<Rightarrow> attr_value go_map \<Rightarrow> cel_value result)
     \<Rightarrow> (string \<Rightarrow> time option) \<Rightarrow> ((string \<times> channel_row) list \<Rightarrow> (string \<times> channel_row) list) \<Rightarrow> attribute list
     \<Rightarrow> 'prog evaluator \<Rightarrow> registry \<Rightarrow> predicate \<Rightarrow> int \<Rightarrow> ('w, reach_estimate \<times> 'prog evaluator) reach_io" where
  "estimate_audience_reach ds plan run pt shuffle defs ev reg p sampleSize =
     (if sampleSize \<le> 0 then fail (Errorf ''reach: sampleSize must be positive'')
      else and_then (wrapping ''reach: count population'' (query (\<lambda>w. int (length (channel_rows w))))) (\<lambda>population.
        if population = 0 then
          ret (\<lparr>population_size = 0, sample_size = 0, est_count = 0, est_low = 0, est_high = 0\<rparr>, ev)
        else and_then (wrapping ''reach: sample channels'' (query (\<lambda>w. take (nat sampleSize) (shuffle (channel_rows w))))) (\<lambda>rows.
          and_then (of_result (decode_sample pt reg rows)) (\<lambda>attrs.
            and_then (merge_aggregates defs (map fst rows) attrs) (\<lambda>attrs'.
              and_then (of_result (count_matches ds plan run p attrs' ev (0, 0))) (\<lambda>(ev', sampled, matches).
                ret (estimate_of population sampled matches, ev')))))))"

section \<open>An estimate is within its interval and the interval within the population\<close>

lemma fl_le_one: "x \<le> 1 \<Longrightarrow> fl x \<le> 1"
  using fl_mono [of x 1] by simp

lemma fl_ge_one: "1 \<le> x \<Longrightarrow> 1 \<le> fl x"
  using fl_mono [of 1 x] by simp

lemma wilson_bounds:
  assumes "0 \<le> m" "m \<le> n" "0 < n" "n < 2 ^ 53" "0 \<le> z"
    and w: "wilson_interval m n z = (low, c, high)"
  shows "0 \<le> low" "low \<le> c" "c \<le> high" "high \<le> 1"
proof -
  define nf where "nf = fl (of_int n)"
  define p where "p = fl (fl (of_int m) / nf)"
  define z2 where "z2 = fl (z * z)"
  define denom where "denom = fl (1 + fl (z2 / nf))"
  define h where "h = fl (fl (z / denom)
       * math_sqrt (fl (fl (fl (p * fl (1 - p)) / nf) + fl (z2 / fl (fl (4 * nf) * nf)))))"
  have c: "c = fl (fl (p + fl (z2 / fl (2 * nf))) / denom)"
    and low: "low = max 0 (fl (c - h))" and high: "high = min 1 (fl (c + h))"
    using w assms(3) unfolding wilson_interval_def Let_def nf_def [symmetric] p_def [symmetric] z2_def [symmetric]
      denom_def [symmetric] h_def [symmetric] by auto
  have nf: "nf = of_int n" "0 < nf" using assms by (simp_all add: nf_def fl_int)
  have m: "fl (of_int m) = of_int m" using assms by (intro fl_int) simp
  have p: "p \<le> 1" "0 \<le> p"
    unfolding p_def m using assms nf by (auto intro!: fl_le_one fl_ge_zero simp: pos_divide_le_eq)
  have z2: "0 \<le> z2" unfolding z2_def using assms by (intro fl_ge_zero) simp
  have y: "0 \<le> fl (z2 / nf)" using z2 nf(2) by (intro fl_ge_zero) simp
  then have denom: "1 \<le> denom" unfolding denom_def by (intro fl_ge_one) simp
  have "nf \<le> fl (2 * nf)" using fl_mono [of nf "2 * nf"] nf(2) by (simp add: nf_def)
  then have "z2 / fl (2 * nf) \<le> z2 / nf" using z2 nf(2) by (intro divide_left_mono) auto
  then have x: "fl (z2 / fl (2 * nf)) \<le> fl (z2 / nf)" by (rule fl_mono)
  have x0: "0 \<le> fl (z2 / fl (2 * nf))" using z2 \<open>nf \<le> fl (2 * nf)\<close> nf(2) by (intro fl_ge_zero divide_nonneg_nonneg) auto
  from x p(1) have "fl (p + fl (z2 / fl (2 * nf))) \<le> denom" unfolding denom_def by (intro fl_mono) simp
  with denom have c1: "c \<le> 1" unfolding c by (intro fl_le_one) (simp add: pos_divide_le_eq)
  have c0: "0 \<le> c" unfolding c using p(2) x0 denom by (intro fl_ge_zero divide_nonneg_nonneg fl_ge_zero) auto
  have h: "0 \<le> h"
    unfolding h_def using assms(5) denom by (intro fl_ge_zero mult_nonneg_nonneg math_sqrt_nonneg divide_nonneg_nonneg) auto
  have idem: "fl c = c" by (simp add: c)
  show "0 \<le> low" "high \<le> 1" by (simp_all add: low high)
  show "low \<le> c" using fl_mono [of "c - h" c] h c0 by (simp add: low idem)
  show "c \<le> high" using fl_mono [of c "c + h"] h c1 by (simp add: high idem)
qed

lemma math_round_mono: "x \<le> y \<Longrightarrow> math_round x \<le> math_round y"
proof -
  assume "x \<le> y"
  then consider "0 \<le> x" | "x < 0" "0 \<le> y" | "y < 0" by linarith
  then show ?thesis
  proof cases
    case 2
    have "0 \<le> \<lfloor>1 / 2 - x\<rfloor>" "0 \<le> \<lfloor>y + 1 / 2\<rfloor>" unfolding zero_le_floor using 2 by simp_all
    then have "- \<lfloor>1 / 2 - x\<rfloor> \<le> \<lfloor>y + 1 / 2\<rfloor>" by linarith
    with 2 show ?thesis unfolding math_round_def by simp
  qed (use \<open>x \<le> y\<close> in \<open>auto simp: math_round_def intro!: floor_mono\<close>)
qed

lemma math_round_of_int [simp]: "math_round (of_int n) = n"
  by (auto simp: math_round_def intro!: floor_unique)

lemma estimate_bounds:
  assumes "0 \<le> m" "m \<le> n" "0 < n" "n < 2 ^ 53" "0 \<le> N" "N < 2 ^ 53"
  shows "0 \<le> est_low (estimate_of N n m)" "est_low (estimate_of N n m) \<le> est_count (estimate_of N n m)"
    "est_count (estimate_of N n m) \<le> est_high (estimate_of N n m)" "est_high (estimate_of N n m) \<le> N"
proof -
  obtain low c high where w: "wilson_interval m n confidenceZ = (low, c, high)" by (metis prod_cases3)
  have "0 \<le> confidenceZ" unfolding confidenceZ_def by (rule fl_ge_zero) simp
  from wilson_bounds [OF assms(1-4) this w] have b: "0 \<le> low" "low \<le> c" "c \<le> high" "high \<le> 1" by blast+
  have N: "fl (of_int N) = of_int N" using assms by (intro fl_int) simp
  have N0: "(0 :: rat) \<le> of_int N" using assms by simp
  have "math_round 0 \<le> math_round (fl (low * of_int N))" using b(1) N0 by (intro math_round_mono fl_ge_zero) simp
  then show "0 \<le> est_low (estimate_of N n m)" using math_round_of_int [of 0] by (simp add: estimate_of_def w N)
  show "est_low (estimate_of N n m) \<le> est_count (estimate_of N n m)"
    "est_count (estimate_of N n m) \<le> est_high (estimate_of N n m)"
    using b N0 by (auto simp: estimate_of_def w N intro!: math_round_mono fl_mono mult_right_mono)
  have "fl (high * of_int N) \<le> fl (of_int N)" using b(4) N0 by (intro fl_mono mult_left_le_one_le) (use b in auto)
  then have "math_round (fl (high * of_int N)) \<le> math_round (of_int N)" by (intro math_round_mono) (simp add: N)
  then show "est_high (estimate_of N n m) \<le> N" by (simp add: estimate_of_def w N)
qed

lemma count_matches_counts:
  "count_matches ds plan run p xs ev (s, m) = Inr (ev', s', m') \<Longrightarrow> s' = s + int (length xs) \<and> m \<le> m' \<and> m' - m \<le> int (length xs)"
proof (induction xs arbitrary: ev s m)
  case (Cons x xs)
  obtain c a where x: "x = (c, a)" by (cases x)
  with Cons.prems obtain b ev1 where "count_matches ds plan run p xs ev1 (s + 1, if b then m + 1 else m) = Inr (ev', s', m')"
    by (auto split: prod.splits sum.splits)
  from Cons.IH [OF this] show ?case by (auto split: if_splits)
qed simp

lemma length_decode_sample: "decode_sample pt reg rows = Inr ms \<Longrightarrow> map fst ms = map fst rows"
  by (induction pt reg rows arbitrary: ms rule: decode_sample.induct) (auto simp: res_bind_Inr_iff split: json.splits)

lemma merge_aggregates_keys:
  "merge_aggregates ds ids attrs w = (Inr attrs', w') \<Longrightarrow> map fst attrs' = map fst attrs"
proof (induction ds arbitrary: attrs w)
  case (Cons d ds)
  have k: "map fst (map (\<lambda>(c, m). (c, f c m)) attrs) = map fst attrs" for f :: "string \<Rightarrow> attr_value go_map \<Rightarrow> attr_value go_map"
    by (induction attrs) auto
  show ?case
  proof (cases "ids = [] \<or> attr_source d \<noteq> SourceEventAggregate")
    case True
    with Cons show ?thesis by simp
  next
    case False
    with Cons.prems obtain totals w1 where "merge_aggregates ds ids
          (map (\<lambda>(c, m). (c, put (attr_name d) (JsonAttr (json_of_float (fl (of_int (totals c))))) m)) attrs) w1 = (Inr attrs', w')"
      by (auto simp: and_then_ok)
    from Cons.IH [OF this] k [of "\<lambda>c m. put (attr_name d) (JsonAttr (json_of_float (fl (of_int (totals c))))) m"] show ?thesis by simp
  qed
qed simp

lemma estimate_reach_ok:
  fixes w :: "'w reach_world_scheme"
  assumes "estimate_audience_reach ds plan run pt shuffle defs ev reg p k w = (Inr (est, ev'), w')"
    and "mset (shuffle (channel_rows w)) = mset (channel_rows w)" "int (length (channel_rows w)) < 2 ^ 53"
  shows "population_size est = int (length (channel_rows w))
    \<and> sample_size est = min k (population_size est)
    \<and> (\<exists>m. 0 \<le> m \<and> m \<le> sample_size est \<and> (0 < sample_size est \<longrightarrow> est = estimate_of (population_size est) (sample_size est) m))
    \<and> 0 \<le> est_low est \<and> est_low est \<le> est_count est \<and> est_count est \<le> est_high est \<and> est_high est \<le> population_size est"
proof -
  let ?N = "int (length (channel_rows w))"
  have k: "0 < k" using assms(1) by (auto simp: estimate_audience_reach_def split: if_splits)
  from assms(1) k obtain N w1 where 1: "query (\<lambda>w. int (length (channel_rows w))) w = (Inr N, w1)"
    and 2: "(if N = 0 then
          ret (\<lparr>population_size = 0, sample_size = 0, est_count = 0, est_low = 0, est_high = 0\<rparr>, ev)
        else and_then (wrapping ''reach: sample channels'' (query (\<lambda>w. take (nat k) (shuffle (channel_rows w))))) (\<lambda>rows.
          and_then (of_result (decode_sample pt reg rows)) (\<lambda>attrs.
            and_then (merge_aggregates defs (map fst rows) attrs) (\<lambda>attrs'.
              and_then (of_result (count_matches ds plan run p attrs' ev (0, 0))) (\<lambda>(ev', sampled, matches).
                ret (estimate_of N sampled matches, ev')))))) w1 = (Inr (est, ev'), w')"
    by (auto simp: estimate_audience_reach_def and_then_ok)
  from query_ok [OF 1] obtain f1 where w1: "w1 = w\<lparr>faults := f1\<rparr>" and N: "N = ?N" by auto
  show ?thesis
  proof (cases "N = 0")
    case True
    with 2 N k show ?thesis by auto
  next
    case False
    with 2 obtain rows w2 attrs attrs' w3 n m where 3: "query (\<lambda>w. take (nat k) (shuffle (channel_rows w))) w1 = (Inr rows, w2)"
      and 4: "decode_sample pt reg rows = Inr attrs"
      and 5: "merge_aggregates defs (map fst rows) attrs w2 = (Inr attrs', w3)"
      and 6: "count_matches ds plan run p attrs' ev (0, 0) = Inr (ev', n, m)" and est: "est = estimate_of N n m"
      by (auto simp: and_then_ok)
    from query_ok [OF 3] have rows: "rows = take (nat k) (shuffle (channel_rows w))" by (auto simp: w1)
    have "length (shuffle (channel_rows w)) = length (channel_rows w)" using assms(2) by (metis size_mset)
    then have len: "int (length rows) = min k N" using k by (simp add: rows N)
    have "length attrs' = length rows"
      using length_decode_sample [OF 4] merge_aggregates_keys [OF 5] by (metis length_map)
    with count_matches_counts [OF 6] len have nm: "n = min k N" "0 \<le> m" "m \<le> n" by auto
    have pos: "0 < N" using False N by simp
    with nm k have n: "0 < n" "n < 2 ^ 53" using assms(3) N by auto
    have size: "population_size est = N" "sample_size est = n"
      by (simp_all add: est estimate_of_def split: prod.splits)
    have b: "0 \<le> est_low est \<and> est_low est \<le> est_count est \<and> est_count est \<le> est_high est \<and> est_high est \<le> N"
      unfolding est using estimate_bounds [OF nm(2,3) n] pos assms(3) N by auto
    have "\<exists>m. 0 \<le> m \<and> m \<le> n \<and> (0 < n \<longrightarrow> est = estimate_of N n m)" using nm est by blast
    with b nm(1) show ?thesis by (simp add: size N [symmetric])
  qed
qed

text \<open>
  C36: an estimate is of the whole population and of a sample of the size asked for, or of everybody; its
  count lies within its interval and the interval within the population, however the floats round.
\<close>

theorem reach_within_population:
  fixes w :: "'w reach_world_scheme"
  assumes "estimate_audience_reach ds plan run pt shuffle defs ev reg p k w = (Inr (est, ev'), w')"
    and "mset (shuffle (channel_rows w)) = mset (channel_rows w)" "int (length (channel_rows w)) < 2 ^ 53"
  shows "population_size est = int (length (channel_rows w))
    \<and> sample_size est = min k (population_size est)
    \<and> (\<exists>m. 0 \<le> m \<and> m \<le> sample_size est \<and> (0 < sample_size est \<longrightarrow> est = estimate_of (population_size est) (sample_size est) m))
    \<and> 0 \<le> est_low est \<and> est_low est \<le> est_count est \<and> est_count est \<le> est_high est \<and> est_high est \<le> population_size est"
  using assms by (rule estimate_reach_ok)

text \<open>A sample of one of two channels, whose attribute is summed over the window.\<close>

definition demo_reach_world :: reach_world where
  "demo_reach_world = membership_world.extend demo_members
     \<lparr>rollup_counts = [((''c2'', ''open'', 9), 3), ((''c2'', ''open'', 2), 5)], today = 10\<rparr>"

definition demo_opens :: attribute where
  "demo_opens = \<lparr>attr_name = ''opens'', attr_type = TypeNumber, attr_source = SourceEventAggregate, confidential = False,
     aggregate_granularity = ''day'', aggregate_event_name = ''open'', aggregate_window_days = 7\<rparr>"

definition demo_run :: "unit \<Rightarrow> attr_value go_map \<Rightarrow> cel_value result" where
  "demo_run prog attrs = Inr (VBool (map_of attrs ''opens'' = Some (JsonAttr (JInt 3))))"

theorem reach_within_population_witness:
  "\<exists>est ev' w'. estimate_audience_reach (\<lambda>_. Inr (LiteralE (VBool True))) (\<lambda>_. Inr ()) demo_run (\<lambda>_. None) rev [demo_opens] new_evaluator
       \<lparr>reg_defs = [''opens'' \<mapsto> demo_opens]\<rparr> \<lparr>pred_source = [], pred_tree = [], pred_hash = ''h''\<rparr> 1 demo_reach_world = (Inr (est, ev'), w')
     \<and> est = estimate_of 2 1 1 \<and> sample_size est = 1 \<and> est_count est \<le> est_high est \<and> est_high est \<le> 2"
proof -
  have world: "faults demo_reach_world = []" "channel_rows demo_reach_world = channel_rows demo_members"
    "rollup_counts demo_reach_world = [((''c2'', ''open'', 9), 3), ((''c2'', ''open'', 2), 5)]" "today demo_reach_world = 10"
    by (simp_all add: demo_reach_world_def demo_members_def membership_world.defs)
  have rows: "channel_rows demo_members = [(''c1'', \<lparr>chan_attributes = JObj [], chan_credential = None, chan_major = 1\<rparr>),
      (''c2'', \<lparr>chan_attributes = JObj [], chan_credential = None, chan_major = 1\<rparr>)]"
    by (simp add: demo_members_def)
  have three: "json_of_float (fl 3) = JInt 3" using fl_int [of 3] by (simp add: json_of_float_def)
  obtain ev' where run: "estimate_audience_reach (\<lambda>_. Inr (LiteralE (VBool True))) (\<lambda>_. Inr ()) demo_run (\<lambda>_. None) rev [demo_opens] new_evaluator
       \<lparr>reg_defs = [''opens'' \<mapsto> demo_opens]\<rparr> \<lparr>pred_source = [], pred_tree = [], pred_hash = ''h''\<rparr> 1 demo_reach_world
      = (Inr (estimate_of 2 1 1, ev'), demo_reach_world)"
    by (simp add: estimate_audience_reach_def and_then_def wrapping_def query_calm world rows demo_opens_def aggregate_sum_def three
        new_evaluator_def evaluate_def program_def run_program_def load_predicate_def demo_run_def)
  have "mset (rev (channel_rows demo_reach_world)) = mset (channel_rows demo_reach_world)" by simp
  moreover have "int (length (channel_rows demo_reach_world)) < 2 ^ 53" by (simp add: world rows)
  ultimately have "sample_size (estimate_of 2 1 1) = min 1 (population_size (estimate_of 2 1 1))
      \<and> population_size (estimate_of 2 1 1) = int (length (channel_rows demo_reach_world))
      \<and> est_count (estimate_of 2 1 1) \<le> est_high (estimate_of 2 1 1)
      \<and> est_high (estimate_of 2 1 1) \<le> population_size (estimate_of 2 1 1)"
    using reach_within_population [OF run] by blast
  then show ?thesis using run by (simp add: world rows)
qed

end
