(* ===== verification/TimeSlot.thy ===== *)
theory TimeSlot
  imports Prelude
begin

text \<open>
  \<^verbatim>\<open>internal/platform/jobqueue\<close>: the 96 slots of a quarter of an hour that stand for the offsets of time
  zones, and the instant at which the channels of a slot are activated.
\<close>

definition SlotCount :: int where "SlotCount = 96"
definition SlotDuration :: duration where "SlotDuration = 24 * hour sdiv SlotCount"
definition day :: duration where "day = 24 * hour"

definition slot_for_offset :: "duration \<Rightarrow> int" where
  "slot_for_offset offset =
     (let normalized = offset smod day;
          n = (if normalized < 0 then normalized + day else normalized)
      in n sdiv SlotDuration)"

definition offset_for_slot :: "int \<Rightarrow> duration" where
  "offset_for_slot slot = wrap64 (slot * SlotDuration)"

text \<open>The clock of an instant in UTC.\<close>

definition clock_hour :: "time \<Rightarrow> int" where "clock_hour t = t div hour mod 24"
definition clock_minute :: "time \<Rightarrow> int" where "clock_minute t = t div minute mod 60"
definition clock_second :: "time \<Rightarrow> int" where "clock_second t = t div second mod 60"

definition slot_for_time_of_day :: "time \<Rightarrow> int" where
  "slot_for_time_of_day t =
     (let sinceMidnight = clock_hour t * hour + clock_minute t * minute + clock_second t * second
      in slot_for_offset sinceMidnight)"

text \<open>
  \<open>zone\<close> is the offset of the location the reference date carries, whose calendar \<^verbatim>\<open>Year\<close>, \<^verbatim>\<open>Month\<close> and
  \<^verbatim>\<open>Day\<close> read.
\<close>

definition activation_instant :: "duration \<Rightarrow> time \<Rightarrow> duration \<Rightarrow> int \<Rightarrow> time" where
  "activation_instant zone referenceDate targetLocal slot =
     (let midnight = (referenceDate + zone) div day * day
      in time_add (time_add midnight targetLocal) (wrap64 (- offset_for_slot slot)))"

record activation_slot_args =
  act_slot :: int

definition new_activation_slot_args :: "time \<Rightarrow> activation_slot_args" where
  "new_activation_slot_args firedAt = \<lparr>act_slot = slot_for_time_of_day firedAt\<rparr>"

section \<open>Every offset is served within its slot\<close>

lemma slot_lengths: "SlotDuration = 900000000000" "day = 86400000000000" "day = SlotCount * SlotDuration"
  by (simp_all add: SlotDuration_def SlotCount_def day_def hour_def minute_def second_def signed_divide_int_def)

lemma offset_normalized:
  assumes "0 < d"
  shows "(if (x :: int) smod d < 0 then x smod d + d else x smod d) = x mod d"
proof (cases "0 \<le> x")
  case True
  moreover have "\<not> x mod d < 0" using assms by (simp add: not_less)
  ultimately show ?thesis using assms by (simp add: signed_modulo_int_def sgn_if)
next
  case False
  then have "x smod d = - (- x mod d)" using assms by (simp add: signed_modulo_int_def sgn_if)
  moreover have "x mod d = (if - x mod d = 0 then 0 else d - (- x mod d))"
    using zmod_zminus1_eq_if [of "- x" d] by simp
  moreover have "0 \<le> - x mod d" using assms by simp
  ultimately show ?thesis by auto
qed

lemma slot_for_offset_floor: "slot_for_offset offset = offset mod day div SlotDuration"
proof -
  have d: "0 < day" by (simp add: slot_lengths(2))
  have "0 \<le> offset mod day" using d by simp
  then have "(offset mod day) sdiv SlotDuration = offset mod day div SlotDuration"
    by (simp add: signed_divide_int_def slot_lengths(1) sgn_if)
  then show ?thesis by (simp add: slot_for_offset_def Let_def offset_normalized [OF d])
qed

lemma slot_in_range: "0 \<le> slot_for_offset offset" "slot_for_offset offset < SlotCount"
proof -
  have "0 \<le> offset mod day" "offset mod day < day" by (simp_all add: slot_lengths(2))
  then show "0 \<le> slot_for_offset offset" "slot_for_offset offset < SlotCount"
    by (simp_all add: slot_for_offset_floor slot_lengths(1,2) SlotCount_def)
qed

lemma offset_for_slot_exact: "0 \<le> s \<Longrightarrow> s < SlotCount \<Longrightarrow> offset_for_slot s = s * SlotDuration"
  by (simp add: offset_for_slot_def SlotCount_def slot_lengths(1) wrap64_id min_int64_def max_int64_def)

lemma slot_of_representative: "0 \<le> s \<Longrightarrow> s < SlotCount \<Longrightarrow> slot_for_offset (offset_for_slot s) = s"
  by (simp add: offset_for_slot_exact slot_for_offset_floor SlotCount_def slot_lengths(1,2))

lemma slot_of_clock: "slot_for_time_of_day t = t mod day div SlotDuration"
proof -
  define u where "u = t div second"
  have hour: "t div hour = u div 3600" and minute: "t div minute = u div 60"
    using zdiv_zmult2_eq [of 3600 t second] zdiv_zmult2_eq [of 60 t second]
    by (simp_all add: u_def hour_def minute_def second_def)
  have "u mod (3600 * 24) = 3600 * (u div 3600 mod 24) + u mod 3600"
    "u mod (60 * 60) = 60 * (u div 60 mod 60) + u mod 60" by (rule zmod_zmult2_eq; simp)+
  then have "clock_hour t * hour + clock_minute t * minute + clock_second t * second = u mod 86400 * second"
    unfolding clock_hour_def clock_minute_def clock_second_def hour minute u_def [symmetric]
    by (simp add: hour_def minute_def algebra_simps)
  moreover have "0 \<le> u mod 86400" "u mod 86400 < 86400" by simp_all
  then have "0 \<le> u mod 86400 * second" "u mod 86400 * second < day" by (simp_all add: second_def slot_lengths(2))
  ultimately have "slot_for_time_of_day t = u mod 86400 * second div SlotDuration"
    by (simp add: slot_for_time_of_day_def slot_for_offset_floor)
  also have "\<dots> = u mod 86400 div 900"
    using zdiv_zmult2_eq [of 900 "u mod 86400 * second" second] by (simp add: slot_lengths(1) second_def)
  also have "t mod day = second * (u mod 86400) + t mod second"
    using zmod_zmult2_eq [of 86400 t second] by (simp add: slot_lengths(2) u_def second_def)
  then have "t mod day div second = u mod 86400" by (simp add: second_def)
  then have "u mod 86400 div 900 = t mod day div SlotDuration"
    using zdiv_zmult2_eq [of 900 "t mod day" second] by (simp add: slot_lengths(1) second_def)
  finally show ?thesis .
qed

text \<open>How late the clocks of an offset are when its slot is activated.\<close>

lemma activation_late:
  assumes "zone = 0"
  shows "\<exists>late. 0 \<le> late \<and> late < SlotDuration
    \<and> (activation_instant zone ref target (slot_for_offset offset) + offset) mod day = (target + late) mod day"
proof -
  define s where "s = slot_for_offset offset"
  have s: "0 \<le> s" "s < SlotCount" using slot_in_range by (simp_all add: s_def)
  define late where "late = offset mod day - s * SlotDuration"
  have "0 \<le> late" "late < SlotDuration"
    unfolding late_def s_def slot_for_offset_floor minus_div_mult_eq_mod by (simp_all add: slot_lengths(1))
  moreover have "wrap64 (- offset_for_slot s) = - (s * SlotDuration)"
    using s by (simp add: offset_for_slot_exact SlotCount_def slot_lengths(1) wrap64_id min_int64_def max_int64_def)
  then have "activation_instant zone ref target s + offset
      = (target + late) + day * ((ref + zone) div day + offset div day)"
    by (simp add: activation_instant_def time_add_def late_def algebra_simps minus_div_mult_eq_mod [symmetric])
  then have "(activation_instant zone ref target s + offset) mod day = (target + late) mod day" by simp
  ultimately show ?thesis unfolding s_def by blast
qed

text \<open>
  Whatever the offset of a channel, even beyond a day, it has one of the 96 slots, and at the instant its slot is activated
  its own clock shows the target or less than a quarter of an hour later; the slot the queue finds in
  the clock is the one the instant lies in.
\<close>

theorem activation_within_slot:
  "(0 \<le> slot_for_offset offset \<and> slot_for_offset offset < SlotCount
      \<and> slot_for_offset (offset_for_slot (slot_for_offset offset)) = slot_for_offset offset)
   \<and> (\<exists>late. 0 \<le> late \<and> late < SlotDuration
        \<and> (activation_instant 0 ref target (slot_for_offset offset) + offset) mod day = (target + late) mod day)
   \<and> act_slot (new_activation_slot_args t) = t mod day div SlotDuration"
  using slot_in_range [of offset] slot_of_representative activation_late [of 0] slot_of_clock
  by (simp add: new_activation_slot_args_def)

end
