(* ===== verification/Mirror.thy ===== *)
theory Mirror
  imports Consumer
begin

text \<open>
  \<^verbatim>\<open>internal/event/mirror\<close> and the writing half of \<^verbatim>\<open>internal/platform/clickhouse\<close>: the job that copies the
  events table into the measurement store behind its own offset. The store and the offset are two
  systems, so a batch may be written more than once, but no event the offset has passed is missing.
  \<open>parse\<close> is \<^verbatim>\<open>uuid.Parse\<close> and \<open>nil\<close> is \<^verbatim>\<open>uuid.Nil\<close> of a package that is not in the repository.
\<close>

section \<open>Rows\<close>

record 'u raw_event =
  raw_id :: 'u
  raw_channel :: 'u
  raw_kind :: string
  raw_name :: string
  raw_device_time :: time
  raw_server_time :: time
  raw_properties :: "json go_map"
  raw_message :: 'u
  raw_variant :: 'u
  raw_reason :: string

record logged_event =
  le_seq :: int
  le_id :: string
  le_channel :: string
  le_kind :: string
  le_name :: string
  le_device_time :: time
  le_server_time :: time
  le_properties :: "json go_map"
  le_message :: string
  le_variant :: string
  le_reason :: string

definition parse_uuid :: "(string \<Rightarrow> 'u option) \<Rightarrow> string \<Rightarrow> 'u result" where
  "parse_uuid parse s = (case parse s of None \<Rightarrow> Inl (Errorf ''invalid UUID'') | Some u \<Rightarrow> Inr u)"

definition parse_optional_uuid :: "(string \<Rightarrow> 'u option) \<Rightarrow> 'u \<Rightarrow> string \<Rightarrow> 'u result" where
  "parse_optional_uuid parse nil s = (if s = [] then Inr nil else parse_uuid parse s)"

definition to_raw_event :: "(string \<Rightarrow> 'u option) \<Rightarrow> 'u \<Rightarrow> logged_event \<Rightarrow> 'u raw_event result" where
  "to_raw_event parse nil e =
     res_bind (wrap_err ''clickhouse: parse event id'' (parse_uuid parse (le_id e))) (\<lambda>i.
       res_bind (wrap_err ''clickhouse: parse channel id'' (parse_uuid parse (le_channel e))) (\<lambda>c.
         res_bind (wrap_err ''clickhouse: parse message id'' (parse_optional_uuid parse nil (le_message e))) (\<lambda>m.
           res_bind (wrap_err ''clickhouse: parse variant id'' (parse_optional_uuid parse nil (le_variant e))) (\<lambda>v.
             Inr \<lparr>raw_id = i, raw_channel = c, raw_kind = le_kind e, raw_name = le_name e,
                  raw_device_time = le_device_time e, raw_server_time = le_server_time e,
                  raw_properties = le_properties e, raw_message = m, raw_variant = v, raw_reason = le_reason e\<rparr>))))"

section \<open>The job\<close>

record 'u mirror_world = consumer_world +
  raw_rows :: "'u raw_event list"

type_synonym ('u, 'w, 'a) mirror_io = "('u, 'w) mirror_world_scheme \<Rightarrow> 'a result \<times> ('u, 'w) mirror_world_scheme"

definition insert_raw_events :: "'u raw_event list \<Rightarrow> ('u, 'w, unit) mirror_io" where
  "insert_raw_events rows =
     (if rows = [] then ret ()
      else and_then (wrapping ''clickhouse: prepare batch'' (query (\<lambda>_. ()))) (\<lambda>_.
        wrapping ''clickhouse: send batch'' (exec (\<lambda>w. w\<lparr>raw_rows := raw_rows w @ rows\<rparr>))))"

definition MirrorConsumer :: string where "MirrorConsumer = ''clickhouse_mirror''"

definition mirrorBatchLimit :: nat where "mirrorBatchLimit = 1000"

definition mirror_offset :: "string \<Rightarrow> ('u, 'w, int) mirror_io" where
  "mirror_offset name = wrapping ''mirror: read offset'' (remote (\<lambda>w.
     (case offsets w name of
        Some s \<Rightarrow> (Inr s, w) | None \<Rightarrow> (Inr 0, w\<lparr>offsets := (offsets w)(name \<mapsto> 0)\<rparr>))))"

definition logged_of_row :: "event_row \<Rightarrow> logged_event" where
  "logged_of_row r =
     \<lparr>le_seq = row_seq r, le_id = row_id r, le_channel = row_channel r, le_kind = row_kind r, le_name = row_name r,
      le_device_time = row_device_time r, le_server_time = row_server_time r, le_properties = row_properties r,
      le_message = (case row_message r of None \<Rightarrow> [] | Some s \<Rightarrow> s),
      le_variant = (case row_variant r of None \<Rightarrow> [] | Some s \<Rightarrow> s),
      le_reason = (case row_reason r of None \<Rightarrow> [] | Some s \<Rightarrow> s)\<rparr>"

definition mirror_fetch :: "int \<Rightarrow> nat \<Rightarrow> ('u, 'w, logged_event list) mirror_io" where
  "mirror_fetch lastSeq limit = wrapping ''mirror: query events''
     (query (\<lambda>w. map logged_of_row (take limit (rows_since (events_log w) lastSeq))))"

definition mirror_once :: "(string \<Rightarrow> 'u option) \<Rightarrow> 'u \<Rightarrow> string \<Rightarrow> ('u, 'w, nat) mirror_io" where
  "mirror_once parse nil name =
     and_then (mirror_offset name) (\<lambda>lastSeq.
       and_then (mirror_fetch lastSeq mirrorBatchLimit) (\<lambda>es.
         if es = [] then ret 0
         else and_then (wrapping ''mirror: convert event'' (of_result (map_result (to_raw_event parse nil) es))) (\<lambda>rows.
           and_then (wrapping ''mirror: insert into clickhouse'' (insert_raw_events rows)) (\<lambda>_.
             and_then (wrapping ''mirror: advance offset'' (exec (\<lambda>w.
                 w\<lparr>offsets := (\<lambda>n. if n = name \<and> offsets w n \<noteq> None then Some (le_seq (last es)) else offsets w n)\<rparr>)))
               (\<lambda>_. ret (length es))))))"

text \<open>The worker's loop: \<^term>\<open>None\<close> when the fuel ends before the table does.\<close>

fun mirror_drain :: "(string \<Rightarrow> 'u option) \<Rightarrow> 'u \<Rightarrow> nat \<Rightarrow> string \<Rightarrow> ('u, 'w) mirror_world_scheme
    \<Rightarrow> (unit result \<times> ('u, 'w) mirror_world_scheme) option" where
  "mirror_drain parse nil 0 name w = None"
| "mirror_drain parse nil (Suc fuel) name w =
     (case mirror_once parse nil name w of
        (Inl e, w') \<Rightarrow> Some (Inl (Wrap ''mirror: scheduled clickhouse mirror'' e), w')
      | (Inr n, w') \<Rightarrow> if n < mirrorBatchLimit then Some (Inr (), w') else mirror_drain parse nil fuel name w')"

definition mirror_work :: "(string \<Rightarrow> 'u option) \<Rightarrow> 'u \<Rightarrow> nat \<Rightarrow> string \<Rightarrow> ('u, 'w) mirror_world_scheme
    \<Rightarrow> (unit result \<times> ('u, 'w) mirror_world_scheme) option" where
  "mirror_work parse nil fuel name w = mirror_drain parse nil fuel (if name = [] then MirrorConsumer else name) w"

lemma mirror_drain_batches: "mirror_drain parse nil fuel name w
    = batches ''mirror: scheduled clickhouse mirror'' mirrorBatchLimit (mirror_once parse nil name) fuel w"
  by (induction fuel arbitrary: w) (simp_all split: prod.split sum.split)

section \<open>Nothing behind the offset is missing\<close>

definition raw_of :: "(string \<Rightarrow> 'u option) \<Rightarrow> 'u \<Rightarrow> event_row \<Rightarrow> 'u raw_event result" where
  "raw_of parse nil r = to_raw_event parse nil (logged_of_row r)"

text \<open>\<open>late\<close> are the rows that the offset had passed when they committed.\<close>

definition mirrored :: "(string \<Rightarrow> 'u option) \<Rightarrow> 'u \<Rightarrow> string \<Rightarrow> event_row set \<Rightarrow> ('u, 'w) mirror_world_scheme \<Rightarrow> bool" where
  "mirrored parse nil name late w =
     (distinct (map row_seq (events_log w))
      \<and> (\<forall>r\<in>set (events_log w). row_seq r \<le> offset_of w name \<longrightarrow> r \<in> late \<or> (\<exists>raw\<in>set (raw_rows w). raw_of parse nil r = Inr raw))
      \<and> (\<forall>raw\<in>set (raw_rows w). \<exists>r\<in>set (events_log w). raw_of parse nil r = Inr raw))"

text \<open>
  A course of runs, whatever fails in each, and of rows that commit in any order. A row that commits while a job runs has the
  effect of one that commits behind it, since the job reads the table once.
\<close>

inductive mirror_course :: "(string \<Rightarrow> 'u option) \<Rightarrow> 'u \<Rightarrow> string
    \<Rightarrow> event_row set \<times> ('u, 'w) mirror_world_scheme \<Rightarrow> event_row set \<times> ('u, 'w) mirror_world_scheme \<Rightarrow> bool"
  for parse nil name where
  here: "mirror_course parse nil name x x"
| run: "mirror_course parse nil name x (late, w) \<Longrightarrow> mirror_once parse nil name (w\<lparr>faults := fs\<rparr>) = (res, w')
    \<Longrightarrow> mirror_course parse nil name x (late, w')"
| commits: "mirror_course parse nil name x (late, w) \<Longrightarrow> row_seq r \<notin> row_seq ` set (events_log w)
    \<Longrightarrow> mirror_course parse nil name x
      (if row_seq r \<le> offset_of w name then insert r late else late, w\<lparr>events_log := events_log w @ [r]\<rparr>)"

lemma mirror_offset_result:
  fixes w :: "('u, 'w) mirror_world_scheme"
  assumes "mirror_offset name w = (r, w1)"
  shows "events_log w1 = events_log w \<and> raw_rows w1 = raw_rows w \<and> offset_of w1 name = offset_of w name
    \<and> (\<forall>s. r = Inr s \<longrightarrow> s = offset_of w name \<and> offsets w1 name \<noteq> None)"
proof -
  let ?f = "\<lambda>w :: ('u, 'w) mirror_world_scheme. (case offsets w name of
        Some s \<Rightarrow> (Inr s, w) | None \<Rightarrow> (Inr 0, w\<lparr>offsets := (offsets w)(name \<mapsto> 0)\<rparr>))"
  obtain r0 where 1: "remote ?f w = (r0, w1)" and r: "\<And>s. r = Inr s \<longleftrightarrow> r0 = Inr s"
    using assms by (cases "remote ?f w") (auto simp: mirror_offset_def wrapping_def split: sum.splits)
  from remote_any [OF 1] have "events_log w1 = events_log w \<and> raw_rows w1 = raw_rows w \<and> offset_of w1 name = offset_of w name"
    by (auto simp: offset_of_def split: option.splits)
  moreover have "s = offset_of w name \<and> offsets w1 name \<noteq> None" if "r = Inr s" for s
  proof -
    from that r 1 have "remote ?f w = (Inr s, w1)" by simp
    from remote_ok [OF this] show ?thesis by (auto simp: offset_of_def split: option.splits)
  qed
  ultimately show ?thesis by blast
qed

lemma insert_raw_events_result:
  fixes w :: "('u, 'w) mirror_world_scheme"
  assumes "insert_raw_events rows w = (r, w1)"
  shows "events_log w1 = events_log w \<and> offsets w1 = offsets w
    \<and> (raw_rows w1 = raw_rows w \<or> raw_rows w1 = raw_rows w @ rows) \<and> (is_ok r \<longrightarrow> raw_rows w1 = raw_rows w @ rows)"
proof (cases "rows = []")
  case True
  with assms show ?thesis by (auto simp: insert_raw_events_def)
next
  case False
  then have "and_then (wrapping ''clickhouse: prepare batch'' (query (\<lambda>_. ()))) (\<lambda>_.
        wrapping ''clickhouse: send batch'' (exec (\<lambda>w. w\<lparr>raw_rows := raw_rows w @ rows\<rparr>))) w = (r, w1)"
    using assms by (simp add: insert_raw_events_def)
  then show ?thesis
  proof (cases rule: and_then_cases)
    case (failed e)
    from failed(1) have "\<exists>e. query (\<lambda>_. ()) w = (e, w1)" by (auto simp: wrapping_def split: prod.splits sum.splits)
    then obtain fs where "w1 = w\<lparr>faults := fs\<rparr>" using query_any by blast
    with failed(2) show ?thesis by simp
  next
    case (went_on x w2)
    from went_on(1) obtain fs where w2: "w2 = w\<lparr>faults := fs\<rparr>" by (auto dest: query_ok)
    obtain r0 where ex: "exec (\<lambda>w. w\<lparr>raw_rows := raw_rows w @ rows\<rparr>) w2 = (r0, w1)" and ok: "is_ok r \<longleftrightarrow> is_ok r0"
      using went_on(2) by (cases "exec (\<lambda>w. w\<lparr>raw_rows := raw_rows w @ rows\<rparr>) w2") (auto simp: wrapping_def split: sum.splits)
    from exec_any [OF ex] w2 have "events_log w1 = events_log w \<and> offsets w1 = offsets w
        \<and> (raw_rows w1 = raw_rows w \<or> raw_rows w1 = raw_rows w @ rows)" by auto
    moreover have "raw_rows w1 = raw_rows w @ rows" if "is_ok r"
    proof -
      from that ok obtain u where "r0 = Inr u" by (cases r0) auto
      with ex have "exec (\<lambda>w. w\<lparr>raw_rows := raw_rows w @ rows\<rparr>) w2 = (Inr u, w1)" by simp
      from exec_ok [OF this] w2 show ?thesis by auto
    qed
    ultimately show ?thesis by blast
  qed
qed

text \<open>The rows of a batch, and that the batch ends where nothing before its end is left out.\<close>

lemma rows_since_prefix:
  assumes "distinct (map row_seq rows)" "r \<in> set rows" "row_seq r > s"
    and "take n (rows_since rows s) \<noteq> []" "row_seq r \<le> row_seq (last (take n (rows_since rows s)))"
  shows "r \<in> set (take n (rows_since rows s))"
proof (rule ccontr)
  let ?l = "rows_since rows s" and ?t = "take n (rows_since rows s)"
  assume out: "r \<notin> set ?t"
  have "r \<in> set ?l" using assms(2,3) by (simp add: rows_since_def)
  with out have r: "r \<in> set (drop n ?l)" by (metis append_take_drop_id set_append UnE)
  have srt: "sorted (map row_seq (?t @ drop n ?l))" by (simp add: rows_since_def)
  have "last ?t \<in> set ?t" using assms(4) by simp
  with srt r have "row_seq (last ?t) \<le> row_seq r" unfolding map_append sorted_append by simp
  with assms(5) have eq: "row_seq (last ?t) = row_seq r" by simp
  have "set ?t \<subseteq> set rows" using set_take_subset [of n ?l] by (auto simp: rows_since_def)
  with assms(4) have "last ?t \<in> set rows" using last_in_set by blast
  with eq assms(1,2) have "last ?t = r" by (metis distinct_map inj_onD)
  with out assms(4) last_in_set show False by blast
qed

lemma mirrored_insert:
  assumes "mirrored parse nil name late w" "offsets w1 = offsets w" "events_log w1 = events_log w"
    and "raw_rows w1 = raw_rows w \<or> raw_rows w1 = raw_rows w @ raws"
    and "\<forall>raw\<in>set raws. \<exists>r\<in>set (events_log w). raw_of parse nil r = Inr raw"
  shows "mirrored parse nil name late w1"
  using assms by (auto simp: mirrored_def offset_of_def)

lemma mirrored_same:
  assumes "mirrored parse nil name late w" "offset_of w1 name = offset_of w name" "events_log w1 = events_log w" "raw_rows w1 = raw_rows w"
  shows "mirrored parse nil name late w1"
  using assms by (simp add: mirrored_def)

lemma list_all2_right: "list_all2 P xs ys \<Longrightarrow> y \<in> set ys \<Longrightarrow> \<exists>x\<in>set xs. P x y"
  by (induction rule: list_all2_induct) auto

lemma list_all2_left: "list_all2 P xs ys \<Longrightarrow> x \<in> set xs \<Longrightarrow> \<exists>y\<in>set ys. P x y"
  by (induction rule: list_all2_induct) auto

lemma mirrored_advance:
  assumes inv: "mirrored parse nil name late w"
    and raws: "list_all2 (\<lambda>r raw. raw_of parse nil r = Inr raw) (take n (rows_since (events_log w) (offset_of w name))) raws"
    and t: "take n (rows_since (events_log w) (offset_of w name)) \<noteq> []"
    and w': "events_log w' = events_log w" "raw_rows w' = raw_rows w @ raws"
      "offset_of w' name = row_seq (last (take n (rows_since (events_log w) (offset_of w name))))"
  shows "mirrored parse nil name late w'"
proof -
  let ?t = "take n (rows_since (events_log w) (offset_of w name))"
  have "set ?t \<subseteq> set (events_log w)"
    using set_take_subset [of n "rows_since (events_log w) (offset_of w name)"] by (auto simp: rows_since_def)
  then have "\<forall>raw\<in>set raws. \<exists>r\<in>set (events_log w). raw_of parse nil r = Inr raw"
    using list_all2_right [OF raws] by blast
  moreover have "r \<in> late \<or> (\<exists>raw\<in>set (raw_rows w'). raw_of parse nil r = Inr raw)"
    if r: "r \<in> set (events_log w)" "row_seq r \<le> row_seq (last ?t)" for r
  proof (cases "row_seq r \<le> offset_of w name")
    case True
    with inv r(1) w'(2) show ?thesis by (auto simp: mirrored_def)
  next
    case False
    with r inv have "r \<in> set ?t" by (intro rows_since_prefix [OF _ r(1) _ t r(2)]) (auto simp: mirrored_def)
    from list_all2_left [OF raws this] w'(2) show ?thesis by auto
  qed
  ultimately show ?thesis using inv w' by (auto simp: mirrored_def)
qed

lemma advance_offset_result:
  fixes w :: "('u, 'w) mirror_world_scheme"
  assumes "and_then (wrapping msg (exec (\<lambda>w. w\<lparr>offsets :=
      (\<lambda>n. if n = name \<and> offsets w n \<noteq> None then Some s else offsets w n)\<rparr>))) (\<lambda>_. ret k) w = (r, w')"
    and "offsets w name \<noteq> None"
  shows "events_log w' = events_log w \<and> raw_rows w' = raw_rows w
    \<and> (offset_of w' name = offset_of w name \<or> offset_of w' name = s)"
proof -
  let ?adv = "\<lambda>w :: ('u, 'w) mirror_world_scheme.
     w\<lparr>offsets := (\<lambda>n. if n = name \<and> offsets w n \<noteq> None then Some s else offsets w n)\<rparr>"
  from assms(1) obtain r0 where "exec ?adv w = (r0, w')"
    by (auto simp: and_then_def wrapping_def split: prod.splits sum.splits)
  from exec_any [OF this] obtain gs where "w' = w\<lparr>faults := gs\<rparr> \<or> w' = ?adv (w\<lparr>faults := gs\<rparr>)" by blast
  with assms(2) show ?thesis by (auto simp: offset_of_def)
qed

lemma mirror_write_keeps:
  fixes w :: "('u, 'w) mirror_world_scheme" and name
  defines "t \<equiv> \<lambda>w :: ('u, 'w) mirror_world_scheme. take mirrorBatchLimit (rows_since (events_log w) (offset_of w name))"
  assumes inv: "mirrored parse nil name late w" and off: "offsets w name \<noteq> None"
    and es: "es = map logged_of_row (t w)" "es \<noteq> []"
    and run: "and_then (wrapping ''mirror: convert event'' (of_result (map_result (to_raw_event parse nil) es))) (\<lambda>rows.
           and_then (wrapping ''mirror: insert into clickhouse'' (insert_raw_events rows)) (\<lambda>_.
             and_then (wrapping ''mirror: advance offset'' (exec (\<lambda>w.
                 w\<lparr>offsets := (\<lambda>n. if n = name \<and> offsets w n \<noteq> None then Some (le_seq (last es)) else offsets w n)\<rparr>)))
               (\<lambda>_. ret (length es)))) w = (res, w')"
  shows "mirrored parse nil name late w'"
  using run
proof (cases rule: and_then_cases)
  case (failed e)
  then have "w' = w" by (auto simp: wrapping_def split: sum.splits)
  with inv show ?thesis by simp
next
  case conv: (went_on raws w3)
  from conv(1) have w3: "w3 = w" and raws: "list_all2 (\<lambda>r raw. raw_of parse nil r = Inr raw) (t w) raws"
    by (auto simp: map_result_Inr_iff es(1) list_all2_map1 raw_of_def wrapping_def split: sum.splits)
  have "set (t w) \<subseteq> set (events_log w)"
    unfolding t_def using set_take_subset [of mirrorBatchLimit "rows_since (events_log w) (offset_of w name)"]
    by (auto simp: rows_since_def)
  then have "\<forall>raw\<in>set raws. \<exists>r\<in>set (events_log w). raw_of parse nil r = Inr raw"
    using list_all2_right [OF raws] by blast
  note insert = mirrored_insert [OF inv _ _ _ this]
  from conv(2) show ?thesis unfolding w3
  proof (cases rule: and_then_cases)
    case (failed e)
    from failed(1) obtain r0 where "insert_raw_events raws w = (r0, w')" by (auto simp: wrapping_def split: prod.splits sum.splits)
    from insert_raw_events_result [OF this] insert show ?thesis by blast
  next
    case ins: (went_on u w4)
    from ins(1) have "insert_raw_events raws w = (Inr u, w4)" by simp
    from insert_raw_events_result [OF this] have w4: "events_log w4 = events_log w" "offsets w4 = offsets w"
      "raw_rows w4 = raw_rows w @ raws" by auto
    with insert have inv4: "mirrored parse nil name late w4" by blast
    have ne: "t w \<noteq> []" "le_seq (last es) = row_seq (last (t w))" using es by (auto simp: last_map logged_of_row_def)
    from off w4(2) advance_offset_result [OF ins(2)] have "events_log w' = events_log w4 \<and> raw_rows w' = raw_rows w4
        \<and> (offset_of w' name = offset_of w4 name \<or> offset_of w' name = le_seq (last es))" by simp
    with mirrored_same [OF inv4] mirrored_advance [OF inv raws [unfolded t_def]] ne w4 show ?thesis unfolding t_def by auto
  qed
qed

lemma mirror_once_keeps:
  fixes w :: "('u, 'w) mirror_world_scheme"
  assumes inv: "mirrored parse nil name late w" and "mirror_once parse nil name w = (res, w')"
  shows "mirrored parse nil name late w'"
  using assms(2) unfolding mirror_once_def
proof (cases rule: and_then_cases)
  case (failed e)
  from mirror_offset_result [OF failed(1)] inv show ?thesis by (blast intro: mirrored_same)
next
  case (went_on s w1)
  note off = mirror_offset_result [OF went_on(1)]
  with inv have inv1: "mirrored parse nil name late w1" by (blast intro: mirrored_same)
  from went_on(2) show ?thesis
  proof (cases rule: and_then_cases)
    case (failed e)
    from failed(1) have "\<exists>fs. w' = w1\<lparr>faults := fs\<rparr>" unfolding mirror_fetch_def
      by (auto intro: only_readsD only_reads_wrapping only_reads_query)
    with inv1 show ?thesis by (auto intro: mirrored_same simp: offset_of_def)
  next
    case fetched: (went_on es w2)
    from fetched(1) [unfolded mirror_fetch_def wrapping_ok, THEN query_ok] obtain fs where w2: "w2 = w1\<lparr>faults := fs\<rparr>"
      and es: "es = map logged_of_row (take mirrorBatchLimit (rows_since (events_log w2) (offset_of w2 name)))"
      using off by (auto simp: offset_of_def)
    have inv2: "mirrored parse nil name late w2" using inv1 by (rule mirrored_same) (simp_all add: w2 offset_of_def)
    have "offsets w2 name \<noteq> None" using off w2 by simp
    with inv2 mirror_write_keeps [OF inv2 this es] fetched(2) show ?thesis by (cases "es = []") simp_all
  qed
qed

lemma mirrored_commit:
  assumes "mirrored parse nil name late w" "row_seq r \<notin> row_seq ` set (events_log w)"
  shows "mirrored parse nil name (if row_seq r \<le> offset_of w name then insert r late else late) (w\<lparr>events_log := events_log w @ [r]\<rparr>)"
  using assms by (auto simp: mirrored_def offset_of_def)

lemma mirrored_blind: "mirrored parse nil name late (w\<lparr>faults := fs\<rparr>) = mirrored parse nil name late w"
  by (simp add: mirrored_def offset_of_def)

lemma course_keeps_mirrored:
  assumes "mirror_course parse nil name x y" "mirrored parse nil name (fst x) (snd x)"
  shows "mirrored parse nil name (fst y) (snd y)"
  using assms
proof (induction rule: mirror_course.induct)
  case (run x late w fs res w')
  then have "mirrored parse nil name late (w\<lparr>faults := fs\<rparr>)" by (simp add: mirrored_blind)
  from mirror_once_keeps [OF this run.hyps(2)] show ?case by simp
next
  case (commits x late w r)
  then show ?case using mirrored_commit [of parse nil name late w r] by simp
qed

text \<open>The job ends, whatever fails, and when it reports success every event that was pending is in the store.\<close>

lemma mirror_once_takes:
  fixes w w' :: "('u, 'w) mirror_world_scheme"
  assumes "distinct (map row_seq (events_log w))" "mirror_once parse nil name w = (Inr n, w')"
  shows "n = length (take mirrorBatchLimit (pending_rows name w)) \<and> events_log w' = events_log w
    \<and> pending_rows name w' = drop mirrorBatchLimit (pending_rows name w)
    \<and> Inr ` set (raw_rows w') = Inr ` set (raw_rows w) \<union> raw_of parse nil ` set (take mirrorBatchLimit (pending_rows name w))"
proof -
  let ?ps = "take mirrorBatchLimit (pending_rows name w)"
  from assms(2) obtain s w1 es w2 where 1: "mirror_offset name w = (Inr s, w1)" and 2: "mirror_fetch s mirrorBatchLimit w1 = (Inr es, w2)"
    and rest: "(if es = [] then ret 0
         else and_then (wrapping ''mirror: convert event'' (of_result (map_result (to_raw_event parse nil) es))) (\<lambda>rows.
           and_then (wrapping ''mirror: insert into clickhouse'' (insert_raw_events rows)) (\<lambda>_.
             and_then (wrapping ''mirror: advance offset'' (exec (\<lambda>w.
                 w\<lparr>offsets := (\<lambda>n. if n = name \<and> offsets w n \<noteq> None then Some (le_seq (last es)) else offsets w n)\<rparr>)))
               (\<lambda>_. ret (length es))))) w2 = (Inr n, w')"
    by (auto simp: mirror_once_def and_then_ok)
  note off = mirror_offset_result [OF 1]
  from 2 [unfolded mirror_fetch_def wrapping_ok, THEN query_ok] obtain fs where w2: "w2 = w1\<lparr>faults := fs\<rparr>"
    and es: "es = map logged_of_row ?ps" using off by (auto simp: pending_rows_def)
  show ?thesis
  proof (cases "es = []")
    case True
    with rest have "n = 0" "w' = w2" by auto
    moreover have "pending_rows name w2 = pending_rows name w" using off w2 by (simp add: pending_rows_def offset_of_def)
    ultimately show ?thesis using True es off w2 by auto
  next
    case False
    with rest obtain raws w3 w4 where conv: "map_result (to_raw_event parse nil) es = Inr raws"
      and ins: "insert_raw_events raws w2 = (Inr w3, w4)" and n: "n = length es"
      and adv: "exec (\<lambda>w. w\<lparr>offsets := (\<lambda>n. if n = name \<and> offsets w n \<noteq> None then Some (le_seq (last es)) else offsets w n)\<rparr>) w4 = (Inr (), w')"
      by (auto simp: and_then_ok)
    have raws: "list_all2 (\<lambda>r raw. raw_of parse nil r = Inr raw) ?ps raws"
      using conv by (auto simp: map_result_Inr_iff es list_all2_map1 raw_of_def)
    then have img: "Inr ` set raws = raw_of parse nil ` set ?ps" by (induction rule: list_all2_induct) simp_all
    from insert_raw_events_result [OF ins] have w4: "events_log w4 = events_log w2" "offsets w4 = offsets w2"
      "raw_rows w4 = raw_rows w2 @ raws" by auto
    from exec_ok [OF adv] obtain gs where w': "events_log w' = events_log w4" "raw_rows w' = raw_rows w4"
      "offset_of w' name = le_seq (last es)" using off w4(2) w2 by (auto simp: offset_of_def)
    have "?ps \<noteq> []" using False es by auto
    moreover from this have "le_seq (last es) = row_seq (last ?ps)" by (simp add: es last_map logged_of_row_def)
    ultimately have "pending_rows name w' = drop mirrorBatchLimit (pending_rows name w)"
      using rows_since_rest [OF assms(1), of mirrorBatchLimit "offset_of w name"] w' w4 w2 off by (simp add: pending_rows_def)
    with n es w' w4 w2 off img show ?thesis by (simp add: image_Un)
  qed
qed

interpretation mirror_job: batch_job mirrorBatchLimit "mirror_once parse nil name" "\<lambda>w. distinct (map row_seq (events_log w))"
    "pending_rows name" "raw_of parse nil" "\<lambda>w. Inr ` set (raw_rows w)" for parse nil name
proof unfold_locales
  show "n = length (take mirrorBatchLimit (pending_rows name w)) \<and> distinct (map row_seq (events_log w'))
      \<and> pending_rows name w' = drop mirrorBatchLimit (pending_rows name w)
      \<and> Inr ` set (raw_rows w') = Inr ` set (raw_rows w) \<union> raw_of parse nil ` set (take mirrorBatchLimit (pending_rows name w))"
    if "distinct (map row_seq (events_log w))" "mirror_once parse nil name w = (Inr n, w')"
    for n and w w' :: "('u, 'w) mirror_world_scheme" and parse :: "string \<Rightarrow> 'u option" and nil name
    using mirror_once_takes [OF that] that(1) by simp
qed (simp add: mirrorBatchLimit_def)

lemma mirror_drains:
  assumes "distinct (map row_seq (events_log w))" "length (pending_rows MirrorConsumer w) < fuel"
  shows "\<exists>r w'. mirror_work parse nil fuel [] w = Some (r, w')
    \<and> (is_ok r \<longrightarrow> pending_rows MirrorConsumer w' = []
        \<and> Inr ` set (raw_rows w') = Inr ` set (raw_rows w) \<union> raw_of parse nil ` set (pending_rows MirrorConsumer w))"
proof -
  let ?msg = "''mirror: scheduled clickhouse mirror''"
  obtain r w' where run: "batches ?msg mirrorBatchLimit (mirror_once parse nil MirrorConsumer) fuel w = Some (r, w')"
    using mirror_job.batches_end [OF assms] by blast
  with mirror_job.batches_ok [OF assms(1)] show ?thesis
    by (cases r) (auto simp: mirror_work_def mirror_drain_batches)
qed

text \<open>A row that commits behind the offset breaks it for good: its event is never mirrored.\<close>

lemma late_row_not_mirrored:
  assumes "offset_of w name \<ge> row_seq r" "faults w = []"
    and "rows_since (events_log w) (offset_of w name) = []" "offsets w name \<noteq> None"
  shows "mirror_once parse nil name (w\<lparr>events_log := r # events_log w\<rparr>) = (Inr 0, w\<lparr>events_log := r # events_log w\<rparr>)"
proof -
  let ?w = "w\<lparr>events_log := r # events_log w\<rparr>"
  from assms(4) obtain s where s: "offsets w name = Some s" by blast
  have "rows_since (r # events_log w) s = []" using assms(1,3) s by (simp add: rows_since_def offset_of_def)
  then show ?thesis
    using assms(2) s by (simp add: mirror_once_def mirror_offset_def mirror_fetch_def and_then_def wrapping_def remote_calm query_calm)
qed

text \<open>
  C31: whatever fails and however often the job runs, every event of the table up to the job's offset is in the measurement
  store, unless it committed when the offset had passed it already; and the store has no row that is not of an event of
  the table. The exception is needed: such an event is never mirrored (\<open>late_row_not_mirrored\<close>).
\<close>

theorem mirror_misses_nothing:
  assumes "mirror_course parse nil name ({}, w) (late, w')" "mirrored parse nil name {} w"
  shows "mirrored parse nil name late w'"
  using course_keeps_mirrored [OF assms(1)] assms(2) by simp

text \<open>The offset of the first run is lost, so the second writes the event again.\<close>

definition demo_mirror :: "string mirror_world" where
  "demo_mirror = consumer_world.extend (demo_consumer_world\<lparr>events_log := [demo_row 2 ''a'']\<rparr>) \<lparr>raw_rows = []\<rparr>"

definition demo_mirror_runs :: "string mirror_world" where
  "demo_mirror_runs = snd (mirror_once Some [] MirrorConsumer
     ((snd (mirror_once Some [] MirrorConsumer (demo_mirror\<lparr>faults := [Done, Done, Done, Done, Lost]\<rparr>)))\<lparr>faults := []\<rparr>))"

text \<open>Then a row commits with a number that the offset has passed.\<close>

definition demo_mirror_late :: "string mirror_world" where
  "demo_mirror_late = demo_mirror_runs\<lparr>events_log := events_log demo_mirror_runs @ [demo_row 1 ''b'']\<rparr>"

theorem mirror_misses_nothing_witness:
  "mirrored Some [] MirrorConsumer {demo_row 1 ''b''} demo_mirror_late \<and> offset_of demo_mirror_late MirrorConsumer = 2
     \<and> map raw_id (raw_rows demo_mirror_late) = [''a'', ''a'']"
proof -
  have runs: "offset_of demo_mirror_runs MirrorConsumer = 2" "map raw_id (raw_rows demo_mirror_runs) = [''a'', ''a'']"
    "events_log demo_mirror_runs = [demo_row 2 ''a'']"
    by (simp_all add: demo_mirror_runs_def demo_mirror_def demo_consumer_world_def consumer_world.defs mirror_once_def
        mirror_offset_def mirror_fetch_def and_then_def wrapping_def query_def exec_def remote_def rows_since_def
        insert_raw_events_def logged_of_row_def demo_row_def to_raw_event_def parse_uuid_def parse_optional_uuid_def
        mirrorBatchLimit_def offset_of_def)
  have "mirror_course Some [] MirrorConsumer ({}, demo_mirror) ({}, demo_mirror_runs)"
    unfolding demo_mirror_runs_def
    by (rule mirror_course.run [OF mirror_course.run [OF mirror_course.here prod.collapse [symmetric]] prod.collapse [symmetric]])
  moreover have "row_seq (demo_row 1 ''b'') \<notin> row_seq ` set (events_log demo_mirror_runs)"
    by (simp add: runs demo_row_def)
  ultimately have "mirror_course Some [] MirrorConsumer ({}, demo_mirror)
      (if row_seq (demo_row 1 ''b'') \<le> offset_of demo_mirror_runs MirrorConsumer then insert (demo_row 1 ''b'') {} else {}, demo_mirror_late)"
    unfolding demo_mirror_late_def by (rule mirror_course.commits)
  then have "mirror_course Some [] MirrorConsumer ({}, demo_mirror) ({demo_row 1 ''b''}, demo_mirror_late)"
    by (simp add: runs demo_row_def)
  moreover have "mirrored Some [] MirrorConsumer {} demo_mirror"
    by (simp add: mirrored_def demo_mirror_def offset_of_def demo_consumer_world_def consumer_world.defs demo_row_def)
  ultimately have "mirrored Some [] MirrorConsumer {demo_row 1 ''b''} demo_mirror_late" by (rule mirror_misses_nothing)
  moreover have "offset_of demo_mirror_late MirrorConsumer = 2" "map raw_id (raw_rows demo_mirror_late) = [''a'', ''a'']"
    using runs by (simp_all add: demo_mirror_late_def offset_of_def)
  ultimately show ?thesis by simp
qed

end
