(* ===== verification/EndToEnd.thy ===== *)
theory EndToEnd
  imports Reports
begin

text \<open>
  From a device to a report: what a batch of events that was accepted adds to the figures of a campaign once the rollup
  worker has run, across \<^verbatim>\<open>event/ingest\<close>, \<^verbatim>\<open>event/consumer\<close> and \<^verbatim>\<open>event/report\<close>.
\<close>

section \<open>The rows a batch adds to the log\<close>

definition valid_events :: "event list \<Rightarrow> event list" where
  "valid_events es = filter (\<lambda>e. is_ok (validate_event e)) es"

definition recorded_as :: "event \<Rightarrow> event_row \<Rightarrow> bool" where
  "recorded_as e r = (row_id r = ev_id e \<and> row_kind r = kind_string (ev_kind e)
     \<and> row_message r = null_if_empty (ev_message e) \<and> row_variant r = null_if_empty (ev_variant e))"

definition new_events :: "'w ingest_world_scheme \<Rightarrow> event list \<Rightarrow> event list" where
  "new_events w es = filter (\<lambda>e. ev_id e \<notin> rows_on_record w) es"

lemma insert_events_new:
  fixes w :: "'w ingest_world_scheme"
  assumes "distinct (map ev_id es)"
  shows "\<exists>new n. snd (insert_events es now w) = w\<lparr>next_seq := n, events_log := events_log w @ new\<rparr>
    \<and> list_all2 recorded_as (new_events w es) new \<and> sorted_wrt (<) (map row_seq new)
    \<and> (\<forall>r\<in>set new. next_seq w \<le> row_seq r)"
  using assms
proof (induction es arbitrary: w)
  case Nil
  show ?case by (intro exI [of _ "[]"] exI [of _ "next_seq w"]) (simp add: new_events_def)
next
  case (Cons e es)
  let ?w1 = "snd (insert_event e now w)"
  have step: "snd (insert_events (e # es) now w) = snd (insert_events es now ?w1)" by (simp split: prod.split)
  from Cons.IH [of ?w1] Cons.prems obtain new n where
    IH: "snd (insert_events es now ?w1) = ?w1\<lparr>next_seq := n, events_log := events_log ?w1 @ new\<rparr>"
      "list_all2 recorded_as (new_events ?w1 es) new" "sorted_wrt (<) (map row_seq new)" "\<forall>r\<in>set new. next_seq ?w1 \<le> row_seq r"
    by auto
  have seq: "next_seq ?w1 = next_seq w + 1" by (simp add: insert_event_def Let_def)
  show ?case
  proof (cases "ev_id e \<in> rows_on_record w")
    case True
    then have w1: "?w1 = w\<lparr>next_seq := next_seq w + 1\<rparr>" by (simp add: insert_event_def Let_def rows_on_record_def)
    then have "new_events ?w1 es = new_events w (e # es)" using True by (simp add: new_events_def rows_on_record_def)
    with IH w1 step show ?thesis by (intro exI [of _ new] exI [of _ n]) (auto simp: w1)
  next
    case False
    then obtain row where w1: "?w1 = w\<lparr>next_seq := next_seq w + 1, events_log := events_log w @ [row]\<rparr>"
      and row: "recorded_as e row" "row_seq row = next_seq w"
      by (auto simp: insert_event_def Let_def rows_on_record_def recorded_as_def)
    have "ev_id x \<noteq> ev_id e" if "x \<in> set es" for x using Cons.prems imageI [OF that, of ev_id] by auto
    then have "new_events ?w1 es = new_events w es"
      using row(1) unfolding w1 by (auto simp: new_events_def rows_on_record_def recorded_as_def intro!: filter_cong)
    then have "new_events w (e # es) = e # new_events ?w1 es" using False by (simp add: new_events_def)
    with IH w1 step row show ?thesis
      by (intro exI [of _ "row # new"] exI [of _ n]) (auto simp: w1)
  qed
qed

text \<open>An accepted batch that was not over the limit is in the log, and nothing else of the world has moved but counters.\<close>

lemma accept_new:
  fixes w :: "'w ingest_world_scheme"
  assumes "accept postgres_publish l ch batch now w = (Inr res, w1)" "rejected_rate_limited res = 0"
  shows "\<exists>fs c x. w1 = snd (insert_events (valid_events batch) now
      (w\<lparr>faults := fs, rl_counts := c, rl_expiring := x\<rparr>))"
proof -
  from assms(1) obtain valid res0 where s: "screen_batch ch batch now no_events = Inr (valid, res0)"
    and rest: "(if valid = [] then ret res0
       else and_then (wrapping ''ingest: rate limit check'' (allow l ch (int (length valid)) now)) (\<lambda>allowed.
         if \<not> allowed then ret (res0\<lparr>rejected_rate_limited := int (length valid)\<rparr>)
         else and_then (postgres_publish valid now) (\<lambda>n. ret (res0\<lparr>accepted := n\<rparr>)))) w = (Inr res, w1)"
    by (auto simp: accept_def and_then_ok)
  have v: "valid = valid_events batch" using screen_batch_tally [OF s] by (simp add: valid_events_def)
  show ?thesis
  proof (cases "valid = []")
    case True
    with rest have "w1 = w" by simp
    then have "w1 = w\<lparr>faults := faults w, rl_counts := rl_counts w, rl_expiring := rl_expiring w\<rparr>" by simp
    with True v show ?thesis
      by (intro exI [of _ "faults w"] exI [of _ "rl_counts w"] exI [of _ "rl_expiring w"]) simp
  next
    case False
    with rest obtain allowed w0 where a: "allow l ch (int (length valid)) now w = (Inr allowed, w0)"
      and rest': "(if \<not> allowed then ret (res0\<lparr>rejected_rate_limited := int (length valid)\<rparr>)
         else and_then (postgres_publish valid now) (\<lambda>n. ret (res0\<lparr>accepted := n\<rparr>))) w0 = (Inr res, w1)"
      by (auto simp: and_then_ok)
    from rest' assms(2) False have allowed by (cases allowed) auto
    with rest' obtain n where p: "append_to_log valid now w0 = (Inr n, w1)" by (auto simp: and_then_ok postgres_publish_def)
    from append_to_log_ok [OF p] obtain fs where w1: "w1 = snd (insert_events valid now (w0\<lparr>faults := fs\<rparr>))"
      by (metis snd_conv)
    from a obtain gs c x where w0: "w0 = w\<lparr>faults := gs, rl_counts := c, rl_expiring := x\<rparr>"
      by (cases w) (auto simp: allow_def incr_by_def exec_def remote_def and_then_def wrapping_def Let_def
        split: list.splits outcome.splits if_splits)
    have "w0\<lparr>faults := fs\<rparr> = w\<lparr>faults := fs, rl_counts := c, rl_expiring := x\<rparr>" by (cases w) (simp add: w0)
    with w1 v show ?thesis by (intro exI [of _ fs] exI [of _ c] exI [of _ x]) simp
  qed
qed

section \<open>What the worker makes of them\<close>

text \<open>The consumer has caught up: every row is applied, and the sequence is ahead of the log and of the offset.\<close>

definition caught_up :: "string \<Rightarrow> 'w consumer_world_scheme \<Rightarrow> bool" where
  "caught_up name w =
     (applied w = rows_on_record w \<and> distinct (map row_seq (events_log w)) \<and> offset_of w name < next_seq w
      \<and> (\<forall>r\<in>set (events_log w). row_seq r \<le> offset_of w name))"

lemma worker_applies:
  fixes w w1 w2 :: "'w consumer_world_scheme"
  assumes "caught_up TargetingRollupConsumer w" "exact src w" "rows_stand src (events_log w1)"
    and "distinct (map ev_id es)" and w1: "w1 = snd (insert_events es now (w\<lparr>faults := fs, rl_counts := c, rl_expiring := x\<rparr>))"
    and run: "recompute_work fuel [] counter w1 = Some (Inr (), w2)"
  obtains new where "list_all2 recorded_as (new_events w es) new" "set new \<subseteq> set (events_log w1)"
    "applied w2 = applied w \<union> row_id ` set new" "exact src w2"
proof -
  let ?n = TargetingRollupConsumer and ?msg = "''consumer: scheduled rollup recompute''"
  let ?v = "w\<lparr>faults := fs, rl_counts := c, rl_expiring := x\<rparr>"
  from insert_events_new [OF assms(4), of now ?v] obtain new n where
    ins: "w1 = ?v\<lparr>next_seq := n, events_log := events_log w @ new\<rparr>" "list_all2 recorded_as (new_events w es) new"
      "sorted_wrt (<) (map row_seq new)" "\<forall>r\<in>set new. next_seq w \<le> row_seq r"
    unfolding w1 by (auto simp: new_events_def rows_on_record_def)
  have off: "offset_of w1 ?n = offset_of w ?n" "applied w1 = applied w" by (simp_all add: ins(1) offset_of_def)
  have "row_seq r \<noteq> row_seq q" if "r \<in> set (events_log w)" "q \<in> set new" for r q
    using that assms(1) ins(4) unfolding caught_up_def by fastforce
  moreover have "distinct (map row_seq new)" using ins(3) by (simp add: strict_sorted_iff)
  ultimately have dist: "distinct (map row_seq (events_log w1))" using assms(1) by (auto simp: ins(1) caught_up_def)
  have "filter (\<lambda>r. offset_of w ?n < row_seq r) (events_log w) = []" "filter (\<lambda>r. offset_of w ?n < row_seq r) new = new"
    using assms(1) ins(4) by (fastforce simp: caught_up_def filter_empty_conv filter_id_conv)+
  then have "pending_rows ?n w1 = sort_key row_seq new" unfolding pending_rows_def rows_since_def off by (simp add: ins(1))
  moreover have steps: "batches ?msg rollupRecomputeBatchLimit (run_once ?n rollupRecomputeBatchLimit counter) fuel w1 = Some (Inr (), w2)"
    using run by (simp add: recompute_work_def drain_batches)
  ultimately have "applied w2 = applied w \<union> row_id ` set new"
    using rollup_job.batches_ok [OF dist steps] off by simp
  moreover have "exact src w2"
  proof -
    have "exact src w1" using assms(2) by (simp add: ins(1) exact_def exact_reach_def keyed_def)
    with assms(3) show ?thesis
      using batches_keep [where I = "\<lambda>w. exact src w \<and> rows_stand src (events_log w)", OF _ _ steps] run_once_exact by blast
  qed
  ultimately show thesis using that [of new] ins by auto
qed

section \<open>What the report makes of them\<close>

text \<open>The events of a batch that are new to the log and are of a kind a report counts for a variant.\<close>

definition new_of :: "'w ingest_world_scheme \<Rightarrow> event list \<Rightarrow> string \<Rightarrow> string \<Rightarrow> event_kind \<Rightarrow> event list" where
  "new_of w es m v kind = filter (\<lambda>e. ev_message e = m \<and> ev_variant e = v \<and> ev_kind e = kind) (new_events w es)"

lemma recorded_stands:
  assumes "recorded_as e r" "rows_stand src rows" "r \<in> set rows" "k \<in> set campaign_rollup_kinds" "m \<noteq> []"
    and "ev_kind e \<in> set known_kinds"
  shows "row_id r \<in> counted src {row_id r} m v (kind_string k) \<longleftrightarrow> ev_message e = m \<and> ev_variant e = v \<and> ev_kind e = k"
proof -
  have "stands_for src (stored_of_row r)" using assms(2,3) by (simp add: rows_stand_def)
  then obtain n where "src (row_id r) = (stored_of_row r)\<lparr>se_seq := n\<rparr>" by (auto simp: stands_for_def stored_of_row_def)
  then have s: "se_message (src (row_id r)) = ev_message e" "se_variant (src (row_id r)) = ev_variant e"
    "se_kind (src (row_id r)) = ev_kind e"
    using assms(1) kind_of_kind_string [OF assms(6)] by (auto simp: stored_of_row_def recorded_as_def null_if_empty_def)
  have "kind_string (ev_kind e) = kind_string k \<longleftrightarrow> ev_kind e = k"
    using kind_of_kind_string [OF assms(6)] kind_of_kind_string [of k] assms(4)
    by (auto simp: campaign_rollup_kinds_def known_kinds_def)
  with s assms(4,5) show ?thesis by (auto simp: counted_def counts_campaign_def)
qed

lemma counted_after:
  assumes "list_all2 recorded_as (new_events w es) new" "rows_stand src (events_log w1)" "set new \<subseteq> set (events_log w1)"
    and "distinct (map ev_id es)" "\<forall>e\<in>set es. ev_kind e \<in> set known_kinds" "finite A" "A = rows_on_record w"
    and "k \<in> set campaign_rollup_kinds" "m \<noteq> []"
  shows "card (counted src (A \<union> row_id ` set new) m v (kind_string k))
    = card (counted src A m v (kind_string k)) + length (new_of w es m v k)"
proof -
  have pairs: "\<And>r. r \<in> set new \<Longrightarrow> \<exists>e\<in>set (new_events w es). recorded_as e r"
    "\<And>e. e \<in> set (new_events w es) \<Longrightarrow> \<exists>r\<in>set new. recorded_as e r"
    using assms(1) by (fastforce simp: list_all2_conv_all_nth in_set_conv_nth)+
  have one: "row_id r \<in> counted src {row_id r} m v (kind_string k) \<longleftrightarrow> ev_message e = m \<and> ev_variant e = v \<and> ev_kind e = k"
    if "recorded_as e r" "r \<in> set new" "e \<in> set (new_events w es)" for e r
    using recorded_stands [OF that(1) assms(2) _ assms(8,9)] that assms(3,5) by (auto simp: new_events_def)
  have split: "counted src (A \<union> row_id ` set new) m v (kind_string k)
      = counted src A m v (kind_string k) \<union> ev_id ` set (new_of w es m v k)"
  proof -
    have "counted src (A \<union> B) m v kd = counted src A m v kd \<union> {i \<in> B. i \<in> counted src {i} m v kd}" for B kd
      by (auto simp: counted_def)
    moreover have "{i \<in> row_id ` set new. i \<in> counted src {i} m v (kind_string k)} = ev_id ` set (new_of w es m v k)"
    proof (intro equalityI subsetI)
      fix i assume "i \<in> {i \<in> row_id ` set new. i \<in> counted src {i} m v (kind_string k)}"
      then obtain r where r: "r \<in> set new" "i = row_id r" "row_id r \<in> counted src {row_id r} m v (kind_string k)" by blast
      from pairs(1) [OF r(1)] obtain e where e: "e \<in> set (new_events w es)" "recorded_as e r" by blast
      with one [OF e(2) r(1) e(1)] r show "i \<in> ev_id ` set (new_of w es m v k)" by (auto simp: new_of_def recorded_as_def)
    next
      fix i assume "i \<in> ev_id ` set (new_of w es m v k)"
      then obtain e where e: "e \<in> set (new_events w es)" "i = ev_id e" "ev_message e = m \<and> ev_variant e = v \<and> ev_kind e = k"
        by (auto simp: new_of_def)
      from pairs(2) [OF e(1)] obtain r where r: "r \<in> set new" "recorded_as e r" by blast
      with one [OF r(2,1) e(1)] e have "row_id r \<in> counted src {row_id r} m v (kind_string k)" "i = row_id r"
        by (auto simp: recorded_as_def)
      with r(1) show "i \<in> {i \<in> row_id ` set new. i \<in> counted src {i} m v (kind_string k)}" by simp
    qed
    ultimately show ?thesis by simp
  qed
  have "counted src A m v (kind_string k) \<inter> ev_id ` set (new_of w es m v k) = {}"
    using assms(7) by (auto simp: counted_def new_of_def new_events_def)
  moreover have "card (ev_id ` set (new_of w es m v k)) = length (new_of w es m v k)"
  proof -
    have "distinct (map ev_id (new_of w es m v k))"
      unfolding new_of_def new_events_def by (intro distinct_map_filter assms(4))
    then show ?thesis by (metis distinct_card length_map list.set_map)
  qed
  moreover have "finite (counted src A m v (kind_string k))" using assms(6) by (simp add: counted_def)
  ultimately show ?thesis unfolding split by (simp add: card_Un_disjoint)
qed

text \<open>What a report shows of a variant: the figure of its line, nothing when it has none.\<close>

definition shown :: "(variant_report \<Rightarrow> int) \<Rightarrow> variant_report list \<Rightarrow> string \<Rightarrow> int" where
  "shown f rs v = sum_list (map f (filter (\<lambda>r. vr_variant r = v) rs))"

lemma filter_key_one: "distinct (map f xs) \<Longrightarrow> x \<in> set xs \<Longrightarrow> filter (\<lambda>y. f y = f x) xs = [x]"
proof (induction xs)
  case (Cons a xs)
  show ?case
  proof (cases "a = x")
    case True
    have "f y \<noteq> f a" if "y \<in> set xs" for y using Cons.prems(1) imageI [OF that, of f] by auto
    with True show ?thesis by (simp add: filter_empty_conv)
  next
    case False
    with Cons have "x \<in> set xs" by simp
    with Cons.prems(1) imageI [OF this, of f] have "f a \<noteq> f x" by auto
    with Cons \<open>x \<in> set xs\<close> show ?thesis by simp
  qed
qed simp

lemma shown_counted:
  fixes w :: "'w consumer_world_scheme"
  assumes "exact src w" "faults w = []" "\<And>xs. mset (arrange xs) = mset xs"
  shows "\<exists>rs. variant_reports lg arrange m w = (Inr rs, w)
    \<and> shown vr_impressions rs v = int (card (counted src (applied w) m v ''impression''))
    \<and> shown vr_clicks rs v = int (card (counted src (applied w) m v ''button_press''))
    \<and> shown vr_dismissals rs v = int (card (counted src (applied w) m v ''dismissal''))"
proof -
  from variants_calm [OF assms, of lg m] obtain rs where rs: "variant_reports lg arrange m w = (Inr rs, w)" "distinct (map vr_variant rs)"
    "\<And>r. r \<in> set rs \<Longrightarrow> report_line lg src (applied w) m r"
    "vr_variant ` set rs = (\<lambda>((m, v, h, kind), n). v) ` {row \<in> set (campaign w). fst (fst row) = m}" by blast
  show ?thesis
  proof (cases "v \<in> vr_variant ` set rs")
    case True
    then obtain r where r: "r \<in> set rs" "vr_variant r = v" by blast
    with filter_key_one [OF rs(2) r(1)] have "filter (\<lambda>r. vr_variant r = v) rs = [r]" by simp
    with rs(1) rs(3) [OF r(1)] r(2) show ?thesis by (simp add: shown_def report_line_def)
  next
    case False
    then have "filter (\<lambda>r. vr_variant r = v) rs = []" by (auto simp: filter_empty_conv)
    then have none: "shown f rs v = 0" for f by (simp add: shown_def)
    have "counted src (applied w) m v kind = {}" for kind
    proof (rule ccontr)
      assume "counted src (applied w) m v kind \<noteq> {}"
      then obtain i where i: "i \<in> applied w" "counts_campaign (src i)" "se_message (src i) = m" "se_variant (src i) = v"
        by (auto simp: counted_def)
      let ?k = "campaign_key (src i)"
      have "count_of (campaign w) ?k = int (card {j \<in> applied w. counts_campaign (src j) \<and> campaign_key (src j) = ?k})"
        "finite (applied w)" using assms(1) by (simp_all add: exact_def del: split_paired_All)
      moreover from this(2) i have "0 < card {j \<in> applied w. counts_campaign (src j) \<and> campaign_key (src j) = ?k}"
        by (auto simp: card_gt_0_iff)
      ultimately have "map_of (campaign w) ?k \<noteq> None" by (auto simp: count_of_def split: option.splits)
      then obtain n where "(?k, n) \<in> set (campaign w)" by (auto dest: map_of_SomeD)
      with i(3,4) have "v \<in> vr_variant ` set rs" unfolding rs(4) by (force simp: campaign_key_def)
      with False show False ..
    qed
    with rs(1) none show ?thesis by simp
  qed
qed

lemma batch_reported:
  fixes w w1 w2 :: "'w consumer_world_scheme"
  assumes start: "caught_up TargetingRollupConsumer w" "exact src w" "rows_stand src (events_log w1)"
    and acc: "accept postgres_publish l ch batch now w = (Inr res, w1)" "rejected_rate_limited res = 0" "distinct (map ev_id batch)"
    and run: "recompute_work fuel [] counter w1 = Some (Inr (), w2)"
    and "m \<noteq> []" and arr: "\<And>xs. mset (arrange xs) = mset xs"
  shows "\<exists>old new. variant_reports lg arrange m (w\<lparr>faults := []\<rparr>) = (Inr old, w\<lparr>faults := []\<rparr>)
    \<and> variant_reports lg arrange m (w2\<lparr>faults := []\<rparr>) = (Inr new, w2\<lparr>faults := []\<rparr>)
    \<and> shown vr_impressions new v = shown vr_impressions old v + int (length (new_of w (valid_events batch) m v KindImpression))
    \<and> shown vr_clicks new v = shown vr_clicks old v + int (length (new_of w (valid_events batch) m v KindButtonPress))
    \<and> shown vr_dismissals new v = shown vr_dismissals old v + int (length (new_of w (valid_events batch) m v KindDismissal))"
proof -
  from accept_new [OF acc(1,2)] obtain fs c x where
    w1: "w1 = snd (insert_events (valid_events batch) now (w\<lparr>faults := fs, rl_counts := c, rl_expiring := x\<rparr>))"
    by blast
  have ids: "distinct (map ev_id (valid_events batch))" unfolding valid_events_def by (rule distinct_map_filter [OF acc(3)])
  obtain rows where rows: "list_all2 recorded_as (new_events w (valid_events batch)) rows" "set rows \<subseteq> set (events_log w1)"
    "applied w2 = applied w \<union> row_id ` set rows" "exact src w2"
    using worker_applies [OF start ids w1 run] by blast
  have known: "\<forall>e\<in>set (valid_events batch). ev_kind e \<in> set known_kinds"
    by (auto simp: valid_events_def validate_event_def split: if_splits)
  have fin: "finite (applied w)" and A: "applied w = rows_on_record w"
    using start(1,2) by (simp_all add: exact_def caught_up_def)
  note after = counted_after [OF rows(1) start(3) rows(2) ids known fin A _ \<open>m \<noteq> []\<close>, folded rows(3)]
  have "exact src (w\<lparr>faults := []\<rparr>)" "exact src (w2\<lparr>faults := []\<rparr>)" using start(2) rows(4) by (simp_all add: exact_blind)
  with shown_counted [of src "w\<lparr>faults := []\<rparr>" arrange lg m v] shown_counted [of src "w2\<lparr>faults := []\<rparr>" arrange lg m v] arr
    after [of KindImpression v] after [of KindButtonPress v] after [of KindDismissal v]
  show ?thesis by (fastforce simp: campaign_rollup_kinds_def)
qed

text \<open>
  C6: from the device to the report, an event counts once. When the consumer has caught up and a batch of distinct identifiers is
  accepted with the Postgres publisher, the report
  of a campaign after the worker's next successful run shows of each variant what it showed before and as many impressions,
  clicks and dismissals more as the batch has valid ones that were not in the log: none when the batch is sent again.
\<close>

theorem batch_counts_once:
  fixes w w1 w2 :: "'w consumer_world_scheme"
  assumes "caught_up TargetingRollupConsumer w" "exact src w" "rows_stand src (events_log w1)"
    and "accept postgres_publish l ch batch now w = (Inr res, w1)" "rejected_rate_limited res = 0" "distinct (map ev_id batch)"
    and "recompute_work fuel [] counter w1 = Some (Inr (), w2)"
    and "m \<noteq> []" and "\<And>xs. mset (arrange xs) = mset xs"
  shows "\<exists>old new. variant_reports lg arrange m (w\<lparr>faults := []\<rparr>) = (Inr old, w\<lparr>faults := []\<rparr>)
    \<and> variant_reports lg arrange m (w2\<lparr>faults := []\<rparr>) = (Inr new, w2\<lparr>faults := []\<rparr>)
    \<and> shown vr_impressions new v = shown vr_impressions old v + int (length (new_of w (valid_events batch) m v KindImpression))
    \<and> shown vr_clicks new v = shown vr_clicks old v + int (length (new_of w (valid_events batch) m v KindButtonPress))
    \<and> shown vr_dismissals new v = shown vr_dismissals old v + int (length (new_of w (valid_events batch) m v KindDismissal))"
  using assms by (rule batch_reported)

definition demo_shot :: event where
  "demo_shot = empty_event\<lparr>ev_id := ''i'', ev_channel := ''c'', ev_kind := KindImpression, device_time := 60 * second,
     ev_message := ''m'', ev_variant := ''v''\<rparr>"

definition demo_shot_row :: event_row where
  "demo_shot_row = \<lparr>row_seq = 1, row_id = ''i'', row_channel = ''c'', row_kind = ''impression'', row_name = event_name demo_shot,
     row_device_time = 60 * second, row_server_time = 61 * second, row_properties = ev_properties demo_shot,
     row_message = Some ''m'', row_variant = Some ''v'', row_reason = null_if_empty (suppression_reason demo_shot)\<rparr>"

lemma demo_shot_valid: "is_ok (validate_event demo_shot)"
  by (simp add: validate_event_def demo_shot_def empty_event_def known_kinds_def impression_family_def variant_required_def
      zero_time_def second_def)

lemma demo_shot_accepted:
  "\<exists>res w1. accept postgres_publish demo_limiter ''c'' [demo_shot] (61 * second) demo_consumer_world = (Inr res, w1)
     \<and> rejected_rate_limited res = 0 \<and> events_log w1 = [demo_shot_row] \<and> sketches_ok w1 \<and> offsets w1 = Map.empty"
proof -
  have "ev_channel demo_shot = ''c''" by (simp add: demo_shot_def)
  then obtain res0 where s: "screen_batch ''c'' [demo_shot] (61 * second) no_events = Inr ([demo_shot], res0)" "rejected_rate_limited res0 = 0"
    by (simp add: demo_shot_valid no_events_def)
  show ?thesis
    unfolding accept_def s(1)
    by (simp add: s(2) and_then_def allow_def incr_by_def wrapping_def remote_def exec_def Let_def demo_limiter_def
        demo_consumer_world_def postgres_publish_def append_to_log_def insert_event_def sketches_ok_def)
      (simp add: demo_shot_row_def demo_shot_def null_if_empty_def pg_time_def second_def)
qed

theorem batch_counts_once_witness:
  "\<exists>res w1 w2 new. accept postgres_publish demo_limiter ''c'' [demo_shot] (61 * second) demo_consumer_world = (Inr res, w1)
     \<and> recompute_work 2 [] None w1 = Some (Inr (), w2)
     \<and> variant_reports (\<lambda>x. x) rev ''m'' (w2\<lparr>faults := []\<rparr>) = (Inr new, w2\<lparr>faults := []\<rparr>) \<and> shown vr_impressions new ''v'' = 1"
proof -
  obtain res w1 where acc: "accept postgres_publish demo_limiter ''c'' [demo_shot] (61 * second) demo_consumer_world = (Inr res, w1)"
    "rejected_rate_limited res = 0" and w1: "events_log w1 = [demo_shot_row]" "sketches_ok w1" "offsets w1 = Map.empty"
    using demo_shot_accepted by blast
  have "length (rows_since (events_log w1) s) < 2" "distinct (map row_seq (events_log w1))" for s
    by (simp_all add: rows_since_def w1)
  from recompute_ends [OF this(2,1), of None] w1(2) have "\<exists>r w2. recompute_work 2 [] None w1 = Some (r, w2) \<and> is_ok r" by blast
  then obtain w2 where run: "recompute_work 2 [] None w1 = Some (Inr (), w2)" by (auto simp: is_ok_unit)
  let ?src = "\<lambda>_. stored_of_row demo_shot_row"
  have start: "caught_up TargetingRollupConsumer demo_consumer_world" "exact ?src demo_consumer_world" "rows_stand ?src (events_log w1)"
    by (simp_all add: caught_up_def exact_def exact_reach_def keyed_def reached_def rows_on_record_def demo_consumer_world_def
        offset_of_def rows_stand_def stands_for_def w1 count_of_def)
  from batch_counts_once [OF start acc _ run, of "''m''" rev "\<lambda>x. x" "''v''"] obtain old new where
    "variant_reports (\<lambda>x. x) rev ''m'' (w2\<lparr>faults := []\<rparr>) = (Inr new, w2\<lparr>faults := []\<rparr>)"
    "variant_reports (\<lambda>x. x) rev ''m'' (demo_consumer_world\<lparr>faults := []\<rparr>) = (Inr old, demo_consumer_world\<lparr>faults := []\<rparr>)"
    "shown vr_impressions new ''v'' = shown vr_impressions old ''v'' + int (length (new_of demo_consumer_world (valid_events [demo_shot]) ''m'' ''v'' KindImpression))"
    by auto
  moreover have "length (new_of demo_consumer_world (valid_events [demo_shot]) ''m'' ''v'' KindImpression) = 1"
    by (simp add: new_of_def new_events_def valid_events_def demo_shot_valid rows_on_record_def demo_consumer_world_def)
      (simp add: demo_shot_def)
  moreover have "shown vr_impressions old ''v'' = 0"
    using calculation(2) shown_counted [of ?src "demo_consumer_world\<lparr>faults := []\<rparr>" rev "\<lambda>x. x" "''m''" "''v''"] start(2)
    by (auto simp: exact_blind counted_def) (simp_all add: demo_consumer_world_def)
  ultimately show ?thesis using acc(1) run by auto
qed

end
