(* ===== verification/Handlers.thy ===== *)
theory Handlers
  imports Deliver Register AdminAuth AdminWire Validate
begin

text \<open>
  \<^verbatim>\<open>internal/platform/connectserver\<close>: the services a process serves, the interceptors in front of
  them, and \<^verbatim>\<open>NewMux\<close>, which puts them together. A request carries its \<^verbatim>\<open>Authorization\<close> header and
  is answered at one instant. Text in JSON is read by a parser that is an argument; the
  nested entities of a message definition are values already.
\<close>

section \<open>Codes\<close>

text \<open>An error with a code is \<^verbatim>\<open>connect.NewError\<close>; the framework and the log see no more of it.\<close>

datatype code = CodeUnknown | CodeInvalidArgument | CodeNotFound | CodePermissionDenied | CodeFailedPrecondition
  | CodeInternal | CodeUnavailable | CodeUnauthenticated

fun code_text :: "code \<Rightarrow> string" where
  "code_text CodeUnknown = ''unknown''"
| "code_text CodeInvalidArgument = ''invalid_argument''"
| "code_text CodeNotFound = ''not_found''"
| "code_text CodePermissionDenied = ''permission_denied''"
| "code_text CodeFailedPrecondition = ''failed_precondition''"
| "code_text CodeInternal = ''internal''"
| "code_text CodeUnavailable = ''unavailable''"
| "code_text CodeUnauthenticated = ''unauthenticated''"

definition new_error :: "code \<Rightarrow> go_error \<Rightarrow> go_error" where
  "new_error c e = Wrap (code_text c) e"

definition coded :: "code \<Rightarrow> ('w, 'a) io \<Rightarrow> ('w, 'a) io" where
  "coded c m = wrapping (code_text c) m"

section \<open>The context of a request\<close>

record request_context =
  ctx_channel :: "string option"
  ctx_principal :: "principal option"

definition with_channel_id :: "request_context \<Rightarrow> string \<Rightarrow> request_context" where
  "with_channel_id ctx channelID = ctx\<lparr>ctx_channel := Some channelID\<rparr>"

definition with_principal :: "request_context \<Rightarrow> principal \<Rightarrow> request_context" where
  "with_principal ctx p = ctx\<lparr>ctx_principal := Some p\<rparr>"

definition bearer_token :: "string \<Rightarrow> string" where
  "bearer_token authorization = trim_prefix authorization ''Bearer ''"

definition device_auth_interceptor ::
  "(string \<Rightarrow> json option) \<Rightarrow> string \<Rightarrow> string \<Rightarrow> time \<Rightarrow> (request_context \<Rightarrow> ('w, 'a) deliver_io) \<Rightarrow> request_context
     \<Rightarrow> ('w, 'a) deliver_io" where
  "device_auth_interceptor dec secret authorization now nxt ctx =
     (let tok = bearer_token authorization in
      if tok = [] then fail (new_error CodeUnauthenticated (Errorf ''missing bearer token''))
      else case verify_token dec secret tok now of
          Inl e \<Rightarrow> fail (new_error CodeUnauthenticated e)
        | Inr channelID \<Rightarrow> nxt (with_channel_id ctx channelID))"

definition admin_auth_interceptor ::
  "(string \<Rightarrow> principal result) \<Rightarrow> (string \<rightharpoonup> role) \<Rightarrow> string \<Rightarrow> string \<Rightarrow> (request_context \<Rightarrow> ('w, 'a) deliver_io)
     \<Rightarrow> request_context \<Rightarrow> ('w, 'a) deliver_io" where
  "admin_auth_interceptor authenticator requiredRoleByProcedure authorization procedure nxt ctx =
     (case requiredRoleByProcedure procedure of
        None \<Rightarrow> fail (new_error CodeInternal (Errorf ''no role requirement configured for this procedure''))
      | Some requiredRole \<Rightarrow>
          (case authenticator (bearer_token authorization) of
             Inl e \<Rightarrow> fail (new_error CodeUnauthenticated e)
           | Inr p \<Rightarrow>
               if \<not> satisfies (principal_role p) requiredRole then
                 fail (new_error CodePermissionDenied (Errorf ''role does not satisfy this operation's requirement''))
               else nxt (with_principal ctx p)))"

definition admin_role_by_procedure :: "string \<rightharpoonup> role" where
  "admin_role_by_procedure = map_of
     [(''/citywalk.admin.v1.AdminService/CreateMessage'', RoleEditor),
      (''/citywalk.admin.v1.AdminService/UpdateMessageState'', RoleEditor),
      (''/citywalk.admin.v1.AdminService/GetMessage'', RoleViewer),
      (''/citywalk.admin.v1.AdminService/ListAuditLog'', RoleViewer)]"

section \<open>The environment and the wire\<close>

text \<open>What a process takes from its libraries, and its text form of JSON read back.\<close>

record server_env =
  se_build :: build_env
  se_parse :: "string \<Rightarrow> json option"
  se_random :: "nat \<Rightarrow> string result"

definition to_int32 :: "int \<Rightarrow> int" where
  "to_int32 n = sint (word_of_int n :: 32 word)"

record entry_wire =
  ew_message :: string
  ew_version :: int
  ew_variant :: string
  ew_major :: int
  ew_minor :: int
  ew_priority :: int
  ew_content :: string
  ew_triggers :: json
  ew_conditions :: json
  ew_policy :: json
  ew_expires :: time

record sync_response =
  rsp_unchanged :: bool
  rsp_etag :: string
  rsp_next_sync :: time
  rsp_is_delta :: bool
  rsp_cursor :: string
  rsp_budget :: "int option"
  rsp_entries :: "entry_wire list"
  rsp_tombstoned :: "string list"

record submit_response =
  sub_accepted :: int
  sub_invalid :: int
  sub_rate_limited :: int

record event_wire =
  evw_id :: string
  evw_channel :: string
  evw_kind :: string
  evw_name :: string
  evw_time :: "time option"
  evw_properties :: string
  evw_message :: string
  evw_variant :: string
  evw_reason :: string

datatype response =
    Serving
  | Synced sync_response
  | Confirmed bool
  | Submitted submit_response
  | Registered registration
  | Refreshed registration
  | Created string
  | StateUpdated string
  | MessageFound message_definition
  | AuditListed "audit_entry list"

type_synonym 'w deliver_sink = "event list \<Rightarrow> time \<Rightarrow> ('w, int) deliver_io"

section \<open>The delivery service\<close>

definition defaultProjectBudgetCap :: int where "defaultProjectBudgetCap = 2"
definition defaultProjectBudgetWindow :: duration where "defaultProjectBudgetWindow = 24 * hour"

definition default_sync_config :: sync_config where
  "default_sync_config =
     \<lparr>size_ceiling = 40 * 1024, sync_interval = 15 * minute, sync_jitter = fl (2 / 10), tag_ttl = 30 * second,
      budget_cap = defaultProjectBudgetCap, budget_window = defaultProjectBudgetWindow, delta_mode = False\<rparr>"

record 'w delivery_server =
  ds_redis :: bool
  ds_delta :: bool
  ds_publisher :: "'w deliver_sink"

definition require_channel_id :: "request_context \<Rightarrow> ('w, string) deliver_io" where
  "require_channel_id ctx =
     (case ctx_channel ctx of
        Some channelID \<Rightarrow> if channelID = [] then fail (new_error CodeInternal (Errorf ''no authenticated channel id in context''))
          else ret channelID
      | None \<Rightarrow> fail (new_error CodeInternal (Errorf ''no authenticated channel id in context'')))"

definition wire_entries :: "entry list \<Rightarrow> entry_wire list" where
  "wire_entries = map (\<lambda>e.
     \<lparr>ew_message = en_message e, ew_version = to_int32 (en_version e), ew_variant = en_variant e,
      ew_major = to_int32 (major (en_schema e)), ew_minor = to_int32 (minor (en_schema e)),
      ew_priority = to_int32 (en_priority e), ew_content = en_content e,
      ew_triggers = slice_json trigger_json (en_triggers e), ew_conditions = slice_json condition_json (en_conditions e),
      ew_policy = policy_json (en_policy e), ew_expires = en_expires e\<rparr>)"

definition sync_response_of :: "sync_result \<Rightarrow> sync_response" where
  "sync_response_of r =
     (let resp = \<lparr>rsp_unchanged = unchanged r, rsp_etag = res_tag r, rsp_next_sync = res_next_sync r,
        rsp_is_delta = is_delta r, rsp_cursor = res_cursor r, rsp_budget = None, rsp_entries = [], rsp_tombstoned = []\<rparr>
      in case res_payload r of
          None \<Rightarrow> resp
        | Some p \<Rightarrow> resp\<lparr>rsp_budget := map_option to_int32 (budget_remaining p), rsp_entries := wire_entries (entries p),
            rsp_tombstoned := tombstones r\<rparr>)"

definition sync_handler ::
  "server_env \<Rightarrow> 'w delivery_server \<Rightarrow> string \<Rightarrow> string \<Rightarrow> string \<Rightarrow> time \<Rightarrow> request_context \<Rightarrow> ('w, response) deliver_io" where
  "sync_handler env s lang clientETag clientCursor now ctx =
     (if \<not> ds_redis s then fail (new_error CodeUnavailable (Errorf ''sync requires redis''))
      else and_then (require_channel_id ctx) (\<lambda>channelID.
        and_then (coded CodeInternal (sync_channel (se_build env) (Some (ds_publisher s)) channelID lang clientETag clientCursor now
            (default_sync_config\<lparr>delta_mode := ds_delta s\<rparr>)))
          (\<lambda>r. ret (Synced (sync_response_of r)))))"

definition is_exempt_from_project_cap :: "string \<Rightarrow> ('w, bool) deliver_io" where
  "is_exempt_from_project_cap messageID = wrapping ''isExemptFromProjectCap: message'' (remote (\<lambda>w.
     (case map_of (policies w) messageID of None \<Rightarrow> Inl (Sentinel ErrNoRows) | Some r \<Rightarrow> Inr (pr_exempt r), w)))"

definition suppression_event :: "string \<Rightarrow> string \<Rightarrow> string \<Rightarrow> time \<Rightarrow> event" where
  "suppression_event i channelID messageID now =
     \<lparr>ev_id = i, ev_channel = channelID, ev_kind = KindSuppression, ev_name = [], device_time = now, server_time = zero_time,
      ev_properties = [], ev_message = messageID, ev_variant = [], suppression_reason = ''project_budget''\<rparr>"

definition check_project_budget ::
  "db_gen \<Rightarrow> 'w deliver_sink \<Rightarrow> string \<Rightarrow> string \<Rightarrow> time \<Rightarrow> ('w, bool) deliver_io" where
  "check_project_budget g publish messageID channelID now =
     and_then (is_exempt_from_project_cap messageID) (\<lambda>exempt.
       if exempt then ret True
       else and_then (wrapping ''checkProjectBudget''
           (check_and_increment defaultProjectBudgetWindow channelID defaultProjectBudgetCap now)) (\<lambda>allowed.
         if allowed then ret True
         else and_then (wrapping ''checkProjectBudget: record suppression'' (\<lambda>w.
             record_event publish (suppression_event (gen_uuid g (id_supply w)) channelID messageID now) now
               (w\<lparr>id_supply := Suc (id_supply w)\<rparr>)))
           (\<lambda>_. ret False)))"

definition confirm_handler ::
  "server_env \<Rightarrow> 'w delivery_server \<Rightarrow> string \<Rightarrow> time \<Rightarrow> request_context \<Rightarrow> ('w, response) deliver_io" where
  "confirm_handler env s messageID now ctx =
     and_then (coded CodeInternal (confirm_display messageID now)) (\<lambda>approved.
       if approved \<and> ds_redis s then
         and_then (require_channel_id ctx) (\<lambda>channelID.
           and_then (coded CodeInternal
               (check_project_budget (env_gen (se_build env)) (ds_publisher s) messageID channelID now))
             (\<lambda>allowed. ret (Confirmed allowed)))
       else ret (Confirmed approved))"

section \<open>The event service\<close>

definition default_rate_limit :: limiter where
  "default_rate_limit = \<lparr>rl_limit = 1000, rl_window = minute\<rparr>"

text \<open>A nil timestamp is the Unix epoch.\<close>

definition from_wire :: "(string \<Rightarrow> json option) \<Rightarrow> event_wire \<Rightarrow> event result" where
  "from_wire parse wire =
     res_bind (if evw_properties wire = [] then Inr []
         else wrap_err ''event: decode properties_json'' (case parse (evw_properties wire) of
             None \<Rightarrow> Inl (Errorf ''invalid JSON'') | Some j \<Rightarrow> dec_any_map j []))
       (\<lambda>properties. Inr \<lparr>ev_id = evw_id wire, ev_channel = evw_channel wire, ev_kind = kind_of_string (evw_kind wire),
          ev_name = evw_name wire, device_time = (case evw_time wire of None \<Rightarrow> 0 | Some t \<Rightarrow> t), server_time = zero_time,
          ev_properties = properties, ev_message = evw_message wire, ev_variant = evw_variant wire,
          suppression_reason = evw_reason wire\<rparr>)"

definition submit_handler ::
  "server_env \<Rightarrow> bool \<Rightarrow> 'w deliver_sink \<Rightarrow> event_wire list \<Rightarrow> time \<Rightarrow> request_context \<Rightarrow> ('w, response) deliver_io" where
  "submit_handler env redis publish events now ctx =
     (if \<not> redis then fail (new_error CodeUnavailable (Errorf ''submit requires redis''))
      else and_then (require_channel_id ctx) (\<lambda>channelID.
        and_then (coded CodeInvalidArgument (of_result (map_result (\<lambda>wire.
            res_bind (from_wire (se_parse env) wire) (\<lambda>e. Inr (e\<lparr>ev_channel := channelID\<rparr>))) events))) (\<lambda>es.
          and_then (coded CodeInternal (accept publish default_rate_limit channelID es now)) (\<lambda>r.
            ret (Submitted \<lparr>sub_accepted = to_int32 (accepted r), sub_invalid = to_int32 (rejected_invalid r),
                            sub_rate_limited = to_int32 (rejected_rate_limited r)\<rparr>)))))"

section \<open>The channel service\<close>

text \<open>The attributes a device sends: \<^verbatim>\<open>null\<close> makes the map nil, which is a null of the column.\<close>

definition decode_attributes_json :: "(string \<Rightarrow> json option) \<Rightarrow> string \<Rightarrow> json result" where
  "decode_attributes_json parse raw =
     (if raw = [] then Inr (JObj [])
      else wrap_err ''decode attributes_json'' (case parse raw of
          None \<Rightarrow> Inl (Errorf ''invalid JSON'')
        | Some JNull \<Rightarrow> Inr JNull
        | Some j \<Rightarrow> res_bind (dec_any_map j []) (\<lambda>m. Inr (JObj m))))"

definition register_handler :: "server_env \<Rightarrow> string \<Rightarrow> string \<Rightarrow> int \<Rightarrow> time \<Rightarrow> ('w, response) deliver_io" where
  "register_handler env secret raw supportedSchemaMajor now =
     and_then (coded CodeInvalidArgument (of_result (decode_attributes_json (se_parse env) raw))) (\<lambda>attrs.
       let supportedMajor = (if supportedSchemaMajor \<le> 0 then 1 else supportedSchemaMajor) in
       and_then (coded CodeInternal (register_channel (env_render (se_build env)) (se_random env) (env_gen (se_build env)) secret
           attrs supportedMajor now)) (\<lambda>r. ret (Registered r)))"

definition refresh_code :: "go_error \<Rightarrow> code" where
  "refresh_code e = (if errors_is e ErrInvalidCredential then CodeUnauthenticated else CodeInternal)"

definition refresh_handler :: "server_env \<Rightarrow> string \<Rightarrow> string \<Rightarrow> string \<Rightarrow> time \<Rightarrow> ('w, response) deliver_io" where
  "refresh_handler env secret channelID cred now = (\<lambda>w.
     case refresh_token (env_render (se_build env)) secret channelID cred now w of
       (Inl e, w') \<Rightarrow> (Inl (new_error (refresh_code e) e), w')
     | (Inr r, w') \<Rightarrow> (Inr (Refreshed r), w'))"

section \<open>The administrative service\<close>

text \<open>The one check of a message that asks the database is its last.\<close>

definition validate_message :: "message \<Rightarrow> time \<Rightarrow> ('w, unit) deliver_io" where
  "validate_message msg now = (\<lambda>w.
     if audience_ref msg = [] then (validate True [] msg now, w)
     else case query (\<lambda>w. map sr_id (segment_rows w)) w of
         (Inl e, w') \<Rightarrow> (validate False [] msg now, w')
       | (Inr segments, w') \<Rightarrow> (validate True segments msg now, w'))"

definition create_message_handler :: "server_env \<Rightarrow> message_definition \<Rightarrow> time \<Rightarrow> ('w, response) deliver_io" where
  "create_message_handler env d now =
     and_then (coded CodeInvalidArgument (of_result (from_message_definition d))) (\<lambda>msg.
       let msg = msg\<lparr>msg_state := StateDraft\<rparr> in
       and_then (coded CodeInvalidArgument (validate_message msg now)) (\<lambda>_.
         and_then (coded CodeInternal (insert_message (env_gen (se_build env)) msg)) (\<lambda>m.
           ret (Created (msg_id m)))))"

definition update_message_state_handler ::
  "bool \<Rightarrow> string \<Rightarrow> string \<Rightarrow> time \<Rightarrow> request_context \<Rightarrow> ('w, response) deliver_io" where
  "update_message_state_handler redis messageID newState now ctx =
     (case ctx_principal ctx of
        None \<Rightarrow> fail (new_error CodeInternal (Errorf ''no authenticated principal in context''))
      | Some p \<Rightarrow>
          and_then (coded CodeFailedPrecondition (update_state messageID (state_of_text newState) (subject p) now)) (\<lambda>_.
            let kind = (if state_of_text newState = StateActive then KindUpsert else KindTombstone) in
            and_then (coded CodeInternal (record_change messageID kind now)) (\<lambda>_.
              and_then (if redis then coded CodeInternal (invalidate_campaign messageID) else ret ()) (\<lambda>_.
                ret (StateUpdated newState)))))"

definition get_message_handler :: "string \<Rightarrow> ('w, response) deliver_io" where
  "get_message_handler messageID =
     and_then (coded CodeNotFound (get_message messageID)) (\<lambda>m. ret (MessageFound (to_message_definition m)))"

definition list_audit_log_handler :: "string \<Rightarrow> ('w, response) deliver_io" where
  "list_audit_log_handler messageID =
     and_then (coded CodeInternal (list_audit_log messageID)) (\<lambda>es. ret (AuditListed es))"

section \<open>The services of a process\<close>

datatype admin_call =
    CreateMessage message_definition
  | UpdateMessageState string string
  | GetMessage string
  | ListAuditLog string

datatype request =
    Check
  | Sync string string string
  | Confirm string
  | Submit "event_wire list"
  | Register string int
  | RefreshToken string string
  | Admin admin_call

fun admin_procedure :: "admin_call \<Rightarrow> string" where
  "admin_procedure (CreateMessage d) = ''/citywalk.admin.v1.AdminService/CreateMessage''"
| "admin_procedure (UpdateMessageState i s) = ''/citywalk.admin.v1.AdminService/UpdateMessageState''"
| "admin_procedure (GetMessage i) = ''/citywalk.admin.v1.AdminService/GetMessage''"
| "admin_procedure (ListAuditLog i) = ''/citywalk.admin.v1.AdminService/ListAuditLog''"

text \<open>What \<^verbatim>\<open>NewMux\<close> is given: a pool, Redis, a secret, an authenticator and a publisher, each perhaps missing.\<close>

record 'w server =
  srv_pool :: bool
  srv_redis :: bool
  srv_secret :: string
  srv_authenticator :: "(string \<Rightarrow> principal result) option"
  srv_publisher :: "'w deliver_sink option"

definition delivery_server_of :: "'w server \<Rightarrow> 'w delivery_server" where
  "delivery_server_of s =
     \<lparr>ds_redis = srv_redis s, ds_delta = False,
      ds_publisher = (case srv_publisher s of None \<Rightarrow> postgres_publish | Some p \<Rightarrow> p)\<rparr>"

fun serve_admin :: "server_env \<Rightarrow> 'w server \<Rightarrow> admin_call \<Rightarrow> time \<Rightarrow> request_context \<Rightarrow> ('w, response) deliver_io" where
  "serve_admin env s (CreateMessage d) now ctx = create_message_handler env d now"
| "serve_admin env s (UpdateMessageState i st) now ctx = update_message_state_handler (srv_redis s) i st now ctx"
| "serve_admin env s (GetMessage i) now ctx = get_message_handler i"
| "serve_admin env s (ListAuditLog i) now ctx = list_audit_log_handler i"

definition background :: request_context where
  "background = \<lparr>ctx_channel = None, ctx_principal = None\<rparr>"

definition device_services :: "'w server \<Rightarrow> bool" where
  "device_services s = (srv_pool s \<and> srv_secret s \<noteq> [])"

definition not_registered :: go_error where
  "not_registered = Errorf ''404 page not found''"

definition behind_device_auth ::
  "server_env \<Rightarrow> 'w server \<Rightarrow> string \<Rightarrow> time \<Rightarrow> (request_context \<Rightarrow> ('w, response) deliver_io) \<Rightarrow> ('w, response) deliver_io" where
  "behind_device_auth env s authorization now handler =
     (if device_services s then device_auth_interceptor (se_parse env) (srv_secret s) authorization now handler background
      else fail not_registered)"

fun new_mux :: "server_env \<Rightarrow> 'w server \<Rightarrow> string \<Rightarrow> request \<Rightarrow> time \<Rightarrow> ('w, response) deliver_io" where
  "new_mux env s authorization Check now = ret Serving"
| "new_mux env s authorization (Sync lang tag token) now =
     behind_device_auth env s authorization now (sync_handler env (delivery_server_of s) lang tag token now)"
| "new_mux env s authorization (Confirm i) now =
     behind_device_auth env s authorization now (confirm_handler env (delivery_server_of s) i now)"
| "new_mux env s authorization (Submit events) now =
     behind_device_auth env s authorization now
       (submit_handler env (srv_redis s) (ds_publisher (delivery_server_of s)) events now)"
| "new_mux env s authorization (Register raw supportedSchemaMajor) now =
     (if device_services s then register_handler env (srv_secret s) raw supportedSchemaMajor now else fail not_registered)"
| "new_mux env s authorization (RefreshToken channelID cred) now =
     (if device_services s then refresh_handler env (srv_secret s) channelID cred now else fail not_registered)"
| "new_mux env s authorization (Admin call) now =
     (case srv_authenticator s of
        None \<Rightarrow> fail not_registered
      | Some authenticator \<Rightarrow>
          if srv_pool s then
            admin_auth_interceptor authenticator admin_role_by_procedure authorization (admin_procedure call)
              (serve_admin env s call now) background
          else fail not_registered)"

end
