(* ===== verification/Triple.thy ===== *)
theory Triple
  imports Handlers
begin

text \<open>
  Triples over the worlds of the services: what holds after a step, when it answers and when it fails. They carry the
  proofs that follow a value through a handler, where \<open>keeps\<close> only follows an invariant.
\<close>

section \<open>Triples\<close>

text \<open>A step from \<open>P\<close> ends in \<open>Q\<close> with its value, or in \<open>E\<close> with an error.\<close>

definition triple ::
  "('w world_scheme \<Rightarrow> bool) \<Rightarrow> ('w, 'a) io \<Rightarrow> ('a \<Rightarrow> 'w world_scheme \<Rightarrow> bool) \<Rightarrow> ('w world_scheme \<Rightarrow> bool) \<Rightarrow> bool" where
  "triple P m Q E = (\<forall>w. P w \<longrightarrow> (case m w of (Inl e, w') \<Rightarrow> E w' | (Inr x, w') \<Rightarrow> Q x w'))"

named_theorems triples

lemma tripleI: "(\<And>w. P w \<Longrightarrow> case m w of (Inl e, w') \<Rightarrow> E w' | (Inr x, w') \<Rightarrow> Q x w') \<Longrightarrow> triple P m Q E"
  by (simp add: triple_def)

lemma triple_ok: "triple P m Q E \<Longrightarrow> P w \<Longrightarrow> m w = (Inr x, w') \<Longrightarrow> Q x w'"
  by (auto simp: triple_def dest!: spec [of _ w])

lemma triple_end: "triple P m (\<lambda>_. E) E \<Longrightarrow> P w \<Longrightarrow> E (snd (m w))"
  by (cases "m w"; cases "fst (m w)") (force simp: triple_def dest!: spec [of _ w])+

lemma triple_weaken: "triple P m Q E \<Longrightarrow> (\<And>w. P' w \<Longrightarrow> P w) \<Longrightarrow> (\<And>x w. Q x w \<Longrightarrow> Q' x w) \<Longrightarrow> (\<And>w. E w \<Longrightarrow> E' w)
    \<Longrightarrow> triple P' m Q' E'"
  unfolding triple_def by (fastforce split: prod.splits sum.splits)

lemma triple_post: "triple P m Q E \<Longrightarrow> (\<And>x w. Q x w \<Longrightarrow> Q' x w) \<Longrightarrow> triple P m Q' E"
  by (erule triple_weaken)

lemma triple_and_then [triples]:
  "triple P m R E \<Longrightarrow> (\<And>x. triple (R x) (f x) Q E) \<Longrightarrow> triple P (and_then m f) Q E"
  unfolding triple_def and_then_def by (fastforce split: prod.splits sum.splits)

lemma triple_wrapping [triples]: "triple P m Q E \<Longrightarrow> triple P (wrapping msg m) Q E"
  unfolding triple_def wrapping_def by (fastforce split: prod.splits sum.splits)

lemma triple_coded [triples]: "triple P m Q E \<Longrightarrow> triple P (coded c m) Q E"
  unfolding coded_def by (rule triple_wrapping)

lemma triple_ret: "(\<And>w. P w \<Longrightarrow> Q x w) \<Longrightarrow> triple P (ret x) Q E"
  by (simp add: triple_def)

lemma triple_fail: "(\<And>w. P w \<Longrightarrow> E w) \<Longrightarrow> triple P (fail e) Q E"
  by (simp add: triple_def)

lemma triple_of_result: "(\<And>w. P w \<Longrightarrow> E w) \<Longrightarrow> (\<And>x w. r = Inr x \<Longrightarrow> P w \<Longrightarrow> Q x w) \<Longrightarrow> triple P (of_result r) Q E"
  by (cases r) (simp_all add: triple_def)

lemma triple_keeps: "keeps I m \<Longrightarrow> triple I m (\<lambda>_. I) I"
  unfolding triple_def keeps_def by (fastforce split: prod.splits sum.splits)

lemma keeps_triple: "triple I m (\<lambda>_. I) I \<Longrightarrow> keeps I m"
  by (rule keepsI) (rule triple_end)

lemma triple_remote:
  assumes "fault_blind P" "\<And>w. P w \<Longrightarrow> E w" "\<And>w. P w \<Longrightarrow> case f w of (Inl e, w') \<Rightarrow> E w' | (Inr x, w') \<Rightarrow> Q x w'"
    "\<And>w. P w \<Longrightarrow> E (snd (f w))"
  shows "triple P (remote f) Q E"
  using assms by (auto simp: triple_def remote_def fault_blind_def split: list.splits outcome.splits)

lemma triple_query [triples]: "fault_blind I \<Longrightarrow> triple I (query f) (\<lambda>x w. I w \<and> x = f w) I"
  unfolding query_def by (rule triple_remote) auto

lemma triple_keep: "keeps I m \<Longrightarrow> (\<And>w. I w \<Longrightarrow> E w) \<Longrightarrow> triple I m (\<lambda>_. I) E"
  by (rule triple_weaken [OF triple_keeps])

lemma triple_if: "(b \<Longrightarrow> triple P m Q E) \<Longrightarrow> (\<not> b \<Longrightarrow> triple P n Q E) \<Longrightarrow> triple P (if b then m else n) Q E"
  by simp

lemma keeps_only_reads: "only_reads m \<Longrightarrow> fault_blind I \<Longrightarrow> keeps I m"
  unfolding only_reads_def keeps_def fault_blind_def by metis

lemma keeps_if: "(b \<Longrightarrow> keeps I m) \<Longrightarrow> (\<not> b \<Longrightarrow> keeps I n) \<Longrightarrow> keeps I (if b then m else n)"
  by simp

lemma keeps_coded [inv_intros]: "keeps I m \<Longrightarrow> keeps I (coded c m)"
  unfolding coded_def by (rule keeps_wrapping)

end
