(* ===== verification/Bundles.thy ===== *)
theory Bundles
  imports Triple
begin

text \<open>
  The cached bundles of \<^verbatim>\<open>delivery/payload/bundle.go\<close> under every operation of the services: the index
  by segment finds each of them, and stopping a campaign removes those that hold it.
\<close>

section \<open>Steps that leave the campaigns and the bundles alone\<close>

text \<open>What the invariants below look at.\<close>

definition on_data ::
  "((string \<times> message_row) list \<times> (string \<times> message_bundle) list \<times> (string \<times> string list) list \<Rightarrow> bool)
     \<Rightarrow> 'w deliver_world_scheme \<Rightarrow> bool" where
  "on_data P w = P (messages w, bundle_cache w, bundle_index w)"

lemma on_data_blind: "fault_blind (on_data P)"
  by (simp add: fault_blind_def on_data_def)

lemma keeps_data_reads: "only_reads m \<Longrightarrow> keeps (on_data P) m"
  by (rule keeps_only_reads) (simp_all add: on_data_blind)

lemma keeps_data_remote: "(\<And>w. messages (snd (f w)) = messages w \<and> bundle_cache (snd (f w)) = bundle_cache w
    \<and> bundle_index (snd (f w)) = bundle_index w) \<Longrightarrow> keeps (on_data P) (remote f)"
  by (rule keeps_remote) (simp_all add: on_data_blind on_data_def)

lemma keeps_data_query: "keeps (on_data P) (query f)"
  by (rule keeps_query) (rule on_data_blind)

lemma keeps_data_exec: "(\<And>w. messages (f w) = messages w \<and> bundle_cache (f w) = bundle_cache w
    \<and> bundle_index (f w) = bundle_index w) \<Longrightarrow> keeps (on_data P) (exec f)"
  unfolding exec_def by (rule keeps_data_remote) simp

lemmas data_intros = keeps_ret keeps_fail keeps_of_result keeps_and_then keeps_wrapping keeps_coded
  keeps_for_each keeps_map_io keeps_data_query keeps_if

lemma data_budget: "keeps (on_data P) (budget_eval window ident now n cap)"
  unfolding budget_eval_def by (auto intro!: data_intros keeps_data_remote simp: Let_def split: prod.split)

lemma data_check: "keeps (on_data P) (check_and_increment window ident cap now)"
  unfolding check_and_increment_def by (auto intro!: data_intros data_budget split: prod.split)

lemma data_remaining: "keeps (on_data P) (remaining window ident cap now)"
  unfolding remaining_def by (auto intro!: data_intros data_budget simp: Let_def split: prod.split)

lemma data_accept:
  assumes "\<And>es t. keeps (on_data P) (publish es t)"
  shows "keeps (on_data P) (accept publish l c es now)"
  unfolding accept_def allow_def incr_by_def
  by (auto intro!: data_intros keeps_data_remote keeps_data_exec assms simp: Let_def split: prod.split)

lemma data_record_event:
  assumes "\<And>es t. keeps (on_data P) (publish es t)"
  shows "keeps (on_data P) (record_event publish e now)"
  unfolding record_event_def by (auto intro!: data_intros assms)

lemma snd_insert_events: "snd (insert_events (e # es) now w) = snd (insert_events es now (snd (insert_event e now w)))"
  by (simp split: prod.split)

lemma insert_events_apart:
  fixes w :: "'w deliver_world_scheme"
  shows "messages (snd (insert_events es now w)) = messages w \<and> bundle_cache (snd (insert_events es now w)) = bundle_cache w
      \<and> bundle_index (snd (insert_events es now w)) = bundle_index w"
proof (induction es arbitrary: w)
  case (Cons e es)
  show ?case unfolding snd_insert_events using Cons [of "snd (insert_event e now w)"]
    by (simp add: insert_event_def Let_def)
qed simp

lemma data_append: "keeps (on_data P) (append_to_log es now)"
  unfolding append_to_log_def
  by (intro keeps_wrapping keeps_data_remote) (simp add: insert_events_apart case_prod_unfold)

lemma data_log_publish: "keeps (on_data P) (log_publish put_time es now)"
proof -
  have "keeps (on_data P) (log_publish_from put_time i es now)" for i
    by (induction es arbitrary: i)
      (auto intro!: data_intros keeps_data_exec simp: producer_publish_def)
  then show ?thesis by (simp add: log_publish_def)
qed

text \<open>The publishers the program has.\<close>

definition known_publisher :: "'w server \<Rightarrow> bool" where
  "known_publisher s = (srv_publisher s = None \<or> (\<exists>put_time. srv_publisher s = Some (log_publish put_time)))"

lemma data_publisher:
  assumes "known_publisher s"
  shows "keeps (on_data P) (ds_publisher (delivery_server_of s) es now)"
  using assms data_log_publish data_append
  by (auto simp: known_publisher_def delivery_server_of_def postgres_publish_def)

section \<open>Invariants of the bundles\<close>

text \<open>A campaign is silenced when it is not active and no cached bundle holds it.\<close>

definition dead :: "string \<Rightarrow> (string \<times> message_row) list \<Rightarrow> bool" where
  "dead i ms = (\<forall>(j, r)\<in>set ms. j = i \<longrightarrow> mr_state r \<noteq> ''active'')"

definition free_of :: "string \<Rightarrow> (string \<times> message_bundle) list \<Rightarrow> bool" where
  "free_of i cache = (\<forall>(k, b)\<in>set cache. i \<notin> bm_id ` set b)"

definition silenced :: "string \<Rightarrow> 'w deliver_world_scheme \<Rightarrow> bool" where
  "silenced i = on_data (\<lambda>(ms, cache, idx). dead i ms \<and> free_of i cache)"

lemma silenced_iff: "silenced i w \<longleftrightarrow> dead i (messages w) \<and> free_of i (bundle_cache w)"
  by (simp add: silenced_def on_data_def)

text \<open>A bundle is found by the index under the audience of each of its messages.\<close>

definition index_keys :: "(string \<times> string list) list \<Rightarrow> string \<Rightarrow> string list" where
  "index_keys idx s = (case map_of idx (bundle_segment_index_key s) of None \<Rightarrow> [] | Some ks \<Rightarrow> ks)"

definition has_audience :: "(string \<times> message_row) list \<Rightarrow> string \<Rightarrow> string \<Rightarrow> bool" where
  "has_audience ms i s = (\<exists>r. map_of ms i = Some r \<and> mr_audience r = Some s)"

definition indexed :: "'w deliver_world_scheme \<Rightarrow> bool" where
  "indexed = on_data (\<lambda>(ms, cache, idx). distinct (map fst ms)
     \<and> (\<forall>(k, b)\<in>set cache. \<forall>x\<in>set b. \<exists>s. has_audience ms (bm_id x) s \<and> k \<in> set (index_keys idx s)))"

lemma blind_silenced: "fault_blind (silenced i)"
  unfolding silenced_def by (rule on_data_blind)

lemma blind_indexed: "fault_blind indexed"
  unfolding indexed_def by (rule on_data_blind)

lemma assemble_reads: "only_reads (assemble_messages render lang d is)"
  by (induction "is") (auto simp only: assemble_messages.simps intro!: read_intros get_message_reads)

lemma assemble_ids:
  assumes "fault_blind I"
  shows "triple I (assemble_messages render lang d is) (\<lambda>b w. I w \<and> bm_id ` set b \<subseteq> set is) I"
proof (rule tripleI)
  fix w assume "I w"
  obtain r w' where run: "assemble_messages render lang d is w = (r, w')" by force
  from keeps_result [OF keeps_only_reads [OF assemble_reads assms] \<open>I w\<close> run] have "I w'" .
  with run assemble_messages_ok show "case assemble_messages render lang d is w of (Inl e, w') \<Rightarrow> I w'
      | (Inr b, w') \<Rightarrow> I w' \<and> bm_id ` set b \<subseteq> set is"
    by (cases r) fastforce+
qed

lemma eligible_silenced:
  "triple (silenced i) (eligible_message_ids sids now) (\<lambda>ids w. silenced i w \<and> i \<notin> set ids) (silenced i)"
  unfolding eligible_message_ids_def
  by (rule triple_post [OF triple_wrapping [OF triple_query [OF blind_silenced]]])
    (auto simp: silenced_iff dead_def eligible_def)

lemma triple_case_option:
  "(x = None \<Longrightarrow> triple P m Q E) \<Longrightarrow> (\<And>y. x = Some y \<Longrightarrow> triple P (f y) Q E)
    \<Longrightarrow> triple P (case x of None \<Rightarrow> m | Some y \<Rightarrow> f y) Q E"
  by (cases x) auto

lemma triple_know: "(C \<Longrightarrow> triple P m Q E) \<Longrightarrow> triple (\<lambda>w. P w \<and> C) m Q E"
  by (cases C) (simp_all add: triple_def)

lemma upsert_mem: "(k, c) \<in> set (upsert (\<lambda>_. b) key t) \<Longrightarrow> k = key \<and> c = b \<or> (k, c) \<in> set t"
  by (induction t) (auto split: if_splits)

lemma set_cached_silenced:
  assumes "i \<notin> bm_id ` set b"
  shows "keeps (silenced i) (set_cached_bundle key sids b)"
proof -
  have "free_of i (upsert (\<lambda>_. b) key t)" if "free_of i t" for t
    using that assms upsert_mem by (fastforce simp: free_of_def)
  then show ?thesis
    unfolding set_cached_bundle_def index_bundle_def
    by (intro keeps_and_then keeps_if keeps_ret keeps_wrapping keeps_for_each keeps_exec blind_silenced) (simp_all add: silenced_iff)
qed

lemma shared_bundle_silenced:
  "triple (silenced i) (shared_bundle_for render marshal bm lang d now) (\<lambda>b w. silenced i w \<and> i \<notin> bm_id ` set b) (silenced i)"
  unfolding shared_bundle_for_def Let_def
proof (rule triple_and_then)
  show "triple (silenced i) (get_cached_bundle (bundle_key lang d (reverse_hash marshal bm)))
      (\<lambda>c w. silenced i w \<and> (\<forall>b. c = Some b \<longrightarrow> i \<notin> bm_id ` set b)) (silenced i)"
    unfolding get_cached_bundle_def
    by (rule triple_post [OF triple_wrapping [OF triple_query [OF blind_silenced]]])
      (fastforce simp: silenced_iff free_of_def dest!: map_of_SomeD)
  fix c
  let ?Q = "\<lambda>b w. silenced i w \<and> i \<notin> bm_id ` set b"
  have "triple (silenced i) (assemble_shared render sids lang d now) ?Q (silenced i)" for sids
    unfolding assemble_shared_def
    by (auto intro!: triple_ret triple_and_then [OF eligible_silenced] triple_know
        triple_post [OF assemble_ids [OF blind_silenced]])
  then show "triple (\<lambda>w. silenced i w \<and> (\<forall>b. c = Some b \<longrightarrow> i \<notin> bm_id ` set b))
      (case c of None \<Rightarrow> and_then (segment_ids_for_ordinals (sorted_list_of_set bm)) (\<lambda>sids.
              and_then (assemble_shared render sids lang d now) (\<lambda>b.
                and_then (set_cached_bundle (bundle_key lang d (reverse_hash marshal bm)) sids b) (\<lambda>_. ret b)))
        | Some b \<Rightarrow> ret b) ?Q (silenced i)"
    apply (intro triple_case_option triple_know)
     apply (rule triple_and_then [OF triple_keeps])
      apply (simp add: segment_ids_for_ordinals_def keeps_wrapping keeps_query blind_silenced)
     apply (rule triple_and_then, assumption)
     apply (rule triple_know)
     apply (rule triple_and_then [OF triple_keeps [OF set_cached_silenced]])
      apply (auto intro!: triple_ret)
    done
qed

section \<open>The index finds every bundle\<close>

lemma indexed_iff: "indexed w \<longleftrightarrow> distinct (map fst (messages w))
    \<and> (\<forall>(k, b)\<in>set (bundle_cache w). \<forall>x\<in>set b. \<exists>s. has_audience (messages w) (bm_id x) s \<and> k \<in> set (index_keys (bundle_index w) s))"
  by (simp add: indexed_def on_data_def)

lemma keeps_calm_remote:
  "(\<And>w. faults w = [] \<Longrightarrow> faults (snd (f w)) = []) \<Longrightarrow> keeps (\<lambda>w. faults w = []) (remote f)"
  by (simp add: keeps_def remote_def)

lemma keeps_calm_query: "keeps (\<lambda>w. faults w = []) (query f)"
  unfolding query_def by (rule keeps_calm_remote) simp

lemma still:
  assumes "only_reads m" "keeps (\<lambda>w. faults w = []) m" "faults w = []"
  shows "m w = (fst (m w), w)"
proof -
  obtain r w' where m: "m w = (r, w')" by force
  from only_readsD [OF assms(1) m] obtain fs where "w' = w\<lparr>faults := fs\<rparr>" by blast
  moreover from keepsD [OF assms(2,3)] m have "faults w' = []" by simp
  ultimately show ?thesis using assms(3) m by simp
qed

lemma assemble_calm: "keeps (\<lambda>w. faults w = []) (assemble_messages render lang d is)"
proof (induction "is")
  case (Cons i "is")
  have "keeps (\<lambda>w. faults w = []) (get_message i)"
    unfolding get_message_def
    by (intro keeps_and_then keeps_wrapping keeps_calm_query keeps_of_result keeps_ret keeps_calm_remote) simp_all
  with Cons show ?case
    by (auto simp only: assemble_messages.simps intro!: inv_intros)
qed (simp only: assemble_messages.simps keeps_ret)

lemma index_keys_fold:
  "set (index_keys (fold (\<lambda>s. upsert (\<lambda>ks. case ks of None \<Rightarrow> [key] | Some ks \<Rightarrow> List.insert key ks)
      (bundle_segment_index_key s)) sids idx) t)
    = (if t \<in> set sids then insert key (set (index_keys idx t)) else set (index_keys idx t))"
  by (induction sids arbitrary: idx) (auto simp: index_keys_def bundle_segment_index_key_def split: option.splits)

text \<open>A bundle whose messages have their audience among the segments may be cached under them.\<close>

lemma set_cached_indexed:
  assumes "faults w = []" "indexed w" and b: "\<And>x. x \<in> set b \<Longrightarrow> \<exists>s\<in>set sids. has_audience (messages w) (bm_id x) s"
  shows "indexed (snd (set_cached_bundle key sids b w))"
proof -
  let ?idx = "fold (\<lambda>s. upsert (\<lambda>ks. case ks of None \<Rightarrow> [key] | Some ks \<Rightarrow> List.insert key ks)
      (bundle_segment_index_key s)) sids (bundle_index w)"
  have all: "\<exists>s. has_audience (messages w) (bm_id x) s \<and> k \<in> set (index_keys ?idx s)"
    if "(k, c) \<in> set (upsert (\<lambda>_. b) key (bundle_cache w))" "x \<in> set c" for k c x
  proof (cases "k = key \<and> c = b")
    case True
    with b [of x] that(2) show ?thesis by (auto simp: index_keys_fold)
  next
    case False
    with upsert_mem [OF that(1)] have "(k, c) \<in> set (bundle_cache w)" by auto
    with assms(2) that(2) show ?thesis by (force simp: indexed_iff index_keys_fold)
  qed
  from b have "sids = [] \<Longrightarrow> b = []" by (cases b) auto
  with assms(1,2) all show ?thesis
    by (cases "sids = []")
      (auto simp: set_cached_bundle_def and_then_def wrapping_def exec_calm index_bundle_calm indexed_iff)
qed

lemma shared_bundle_indexed:
  fixes w :: "'w deliver_world_scheme"
  assumes calm: "faults w = []" and "indexed w"
  shows "indexed (snd (shared_bundle_for render marshal bm lang d now w))"
proof -
  let ?key = "bundle_key lang d (reverse_hash marshal bm)"
  define sids where "sids = map sr_id (filter (\<lambda>r. sr_ordinal r \<in> int ` set (sorted_list_of_set bm)) (segment_rows w))"
  define ids where "ids = ranked_ids (eligible sids now) (messages w)"
  have run: "assemble_shared render sids lang d now w
      = (fst (assemble_shared render sids lang d now w), w)"
    using still [OF assemble_reads assemble_calm calm]
    by (cases "sids = []")
      (simp_all add: assemble_shared_def and_then_def eligible_message_ids_def wrapping_def query_calm calm)
  have b: "\<exists>s\<in>set sids. has_audience (messages w) (bm_id x) s"
    if r: "assemble_shared render sids lang d now w = (Inr b, w)" and x: "x \<in> set b" for b x
  proof -
    have "sids \<noteq> []" using r x by (auto simp: assemble_shared_def)
    with r have "assemble_messages render lang d ids w = (Inr b, w)"
      by (simp add: assemble_shared_def eligible_message_ids_def ids_def ranked_ids_def wrapping_def query_calm calm
          and_then_def)
    with assemble_messages_ok x have "bm_id x \<in> set ids" by blast
    with ranked_ids_sound(2) assms(2) show ?thesis
      unfolding ids_def by (fastforce simp: indexed_iff eligible_def has_audience_def)
  qed
  show ?thesis
  proof (cases "map_of (bundle_cache w) ?key")
    case (Some b)
    with assms show ?thesis
      by (simp add: shared_bundle_for_def get_cached_bundle_def wrapping_def query_calm and_then_def Let_def)
  next
    case None
    have "shared_bundle_for render marshal bm lang d now w
        = and_then (assemble_shared render sids lang d now) (\<lambda>b. and_then (set_cached_bundle ?key sids b) (\<lambda>_. ret b)) w"
      using None calm
      by (simp add: shared_bundle_for_def get_cached_bundle_def segment_ids_for_ordinals_def wrapping_def query_calm
          and_then_def sids_def Let_def)
    moreover have "snd (and_then (set_cached_bundle ?key sids b) (\<lambda>_. ret b) w) = snd (set_cached_bundle ?key sids b w)" for b
      by (simp add: and_then_def split: prod.split sum.split)
    ultimately show ?thesis
      using run set_cached_indexed [OF calm assms(2) b] assms(2)
      by (cases "fst (assemble_shared render sids lang d now w)") (simp_all add: and_then_Inr and_then_Inl)
  qed
qed

section \<open>A campaign that is stopped\<close>

text \<open>A transaction commits what its body established, or changes nothing.\<close>

lemma triple_in_tx:
  assumes "triple I m Q I" "fault_blind I" "\<And>x. fault_blind (Q x)" "\<And>x w. Q x w \<Longrightarrow> I w"
  shows "triple I (in_tx b c m) Q I"
proof (rule tripleI)
  fix w assume "I w"
  then have start: "I (w\<lparr>faults := fs\<rparr>)" for fs using assms(2) by (simp add: fault_blind_def)
  obtain r w' where tx: "in_tx b c m w = (r, w')" by force
  have "I w'"
    using in_tx_atomic [OF tx] start triple_ok [OF assms(1) start] assms(4) assms(2)
    by (auto simp: fault_blind_def) blast
  moreover have "Q x w'" if "r = Inr x" for x
    using in_tx_ok [OF tx [unfolded that]] triple_ok [OF assms(1) start] assms(3)
    by (auto simp: fault_blind_def)
  ultimately show "case in_tx b c m w of (Inl e, w') \<Rightarrow> I w' | (Inr x, w') \<Rightarrow> Q x w'"
    by (simp add: tx split: sum.split)
qed

definition move_rows :: "string \<Rightarrow> message_state \<Rightarrow> (string \<times> message_row) list \<Rightarrow> (string \<times> message_row) list" where
  "move_rows i s = map (\<lambda>(j, r). (j, if j = i then r\<lparr>mr_state := state_text s\<rparr> else r))"

lemma dead_move_rows:
  "state_text s \<noteq> ''active'' \<Longrightarrow> dead i (move_rows i s ms)"
  "dead i ms \<Longrightarrow> j \<noteq> i \<or> state_text s \<noteq> ''active'' \<Longrightarrow> dead i (move_rows j s ms)"
  by (auto simp: dead_def move_rows_def split: if_splits)

lemma has_audience_move_rows [simp]: "has_audience (move_rows i s ms) j t \<longleftrightarrow> has_audience ms j t"
proof -
  have "map_of (move_rows i s ms) j = map_option (\<lambda>r. if j = i then r\<lparr>mr_state := state_text s\<rparr> else r) (map_of ms j)"
    by (induction ms) (auto simp: move_rows_def)
  then show ?thesis by (cases "map_of ms j") (simp_all add: has_audience_def)
qed

lemma keys_move_rows [simp]: "map fst (move_rows i s ms) = map fst ms"
  by (simp add: move_rows_def case_prod_unfold)

lemma set_state_rows: "set_state i s = wrapping ''store: update state: update message'' (exec (\<lambda>w. w\<lparr>messages := move_rows i s (messages w)\<rparr>))"
  by (simp add: set_state_def move_rows_def)

lemma keeps_record_audit: "keeps (on_data P) (record_audit i from to actor now)"
  unfolding record_audit_def by (intro data_intros keeps_data_exec) simp

lemma keeps_move:
  assumes "\<And>w. I w \<Longrightarrow> I (w\<lparr>messages := move_rows i s (messages w)\<rparr>)" and I: "I = on_data P"
  shows "keeps I (update_state i s actor now)"
  unfolding update_state_def update_state_tx_def set_state_rows
  using assms(1)
  by (intro keeps_in_tx keeps_and_then keeps_wrapping keeps_if keeps_fail)
    (auto intro!: keeps_exec simp: I on_data_blind keeps_record_audit intro: keeps_data_remote)

lemma move_keeps_silenced:
  "j \<noteq> i \<or> state_text s \<noteq> ''active'' \<Longrightarrow> keeps (silenced i) (update_state j s actor now)"
  by (rule keeps_move [OF _ silenced_def]) (simp add: silenced_iff dead_move_rows)

text \<open>The rows when the transaction of a stop has committed.\<close>

definition stopped :: "string \<Rightarrow> message_state \<Rightarrow> 'w deliver_world_scheme \<Rightarrow> bool" where
  "stopped i s = on_data (\<lambda>(ms, cache, idx). (distinct (map fst ms)
     \<and> (\<forall>(k, b)\<in>set cache. \<forall>x\<in>set b. \<exists>s. has_audience ms (bm_id x) s \<and> k \<in> set (index_keys idx s)))
     \<and> (state_text s \<noteq> ''active'' \<longrightarrow> dead i ms))"

lemma stopped_iff: "stopped i s w \<longleftrightarrow> indexed w \<and> (state_text s \<noteq> ''active'' \<longrightarrow> dead i (messages w))"
  by (simp add: indexed_iff stopped_def on_data_def)

lemma stop_indexed: "triple indexed (update_state i s actor now) (\<lambda>_. stopped i s) indexed"
  unfolding update_state_def update_state_tx_def
proof (rule triple_in_tx; (intro triple_and_then triple_wrapping triple_if triple_fail)?)
  show "triple indexed (remote (\<lambda>w. (case map_of (messages w) i of None \<Rightarrow> Inl (Sentinel ErrNotFound)
      | Some r \<Rightarrow> Inr (state_of_text (mr_state r)), w))) (\<lambda>_. indexed) indexed"
    by (intro triple_keeps keeps_only_reads only_reads_remote blind_indexed) simp
  show "triple indexed (set_state i s) (\<lambda>_. stopped i s) indexed"
    unfolding set_state_rows exec_def
    by (intro triple_wrapping triple_remote blind_indexed) (simp_all add: indexed_iff dead_move_rows stopped_iff)
  show "triple (stopped i s) (record_audit i x s actor now) (\<lambda>_. stopped i s) indexed" for x
    using keeps_record_audit by (intro triple_keep) (simp_all only: stopped_def [symmetric] stopped_iff, simp add: stopped_def)
qed (simp_all add: blind_indexed stopped_iff, simp add: stopped_def on_data_blind)

lemma data_record_change: "keeps (on_data P) (record_change i kind now)"
  unfolding record_change_def by (intro data_intros keeps_data_remote keeps_data_exec) auto

text \<open>The invalidation of a stopped campaign drops every bundle that holds it.\<close>

lemma free_after_invalidation:
  assumes "indexed w" "map_of (messages w) i = Some r"
    and "\<And>k b. (k, b) \<in> set cache \<Longrightarrow> (k, b) \<in> set (bundle_cache w)
      \<and> (\<forall>s. mr_audience r = Some s \<longrightarrow> k \<notin> set (index_keys (bundle_index w) s))"
  shows "free_of i cache"
  unfolding free_of_def
proof safe
  fix k b x assume x: "(k, b) \<in> set cache" "x \<in> set b" "i = bm_id x"
  with assms(1,3) obtain s where "has_audience (messages w) i s" "k \<in> set (index_keys (bundle_index w) s)"
    by (fastforce simp: indexed_iff)
  with assms(2,3) x(1) show False by (auto simp: has_audience_def)
qed

lemma invalidate_silences:
  "triple (\<lambda>w. indexed w \<and> dead i (messages w)) (invalidate_campaign i) (\<lambda>_. silenced i) (\<lambda>_. True)"
proof (rule tripleI)
  fix w :: "'a deliver_world_scheme" assume w: "indexed w \<and> dead i (messages w)"
  have "silenced i w'" if run: "invalidate_campaign i w = (Inr x, w')" for x w'
  proof -
    from run obtain a w1 where 1: "remote (\<lambda>w. (case map_of (messages w) i of None \<Rightarrow> Inl (Sentinel ErrNoRows)
        | Some r \<Rightarrow> Inr (mr_audience r), w)) w = (Inr a, w1)"
      and 2: "(case a of None \<Rightarrow> ret () | Some s \<Rightarrow>
            and_then (wrapping ''payload: read bundle index for segment'' (query (\<lambda>w.
                case map_of (bundle_index w) (bundle_segment_index_key s) of None \<Rightarrow> [] | Some ks \<Rightarrow> ks)))
              (\<lambda>keys. if keys = [] then ret ()
                 else wrapping ''payload: invalidate bundles for segment'' (exec (\<lambda>w.
                   w\<lparr>bundle_cache := filter (\<lambda>(k, b). k \<notin> set keys) (bundle_cache w)\<rparr>)))) w1 = (Inr x, w')"
      by (auto simp: invalidate_campaign_def and_then_ok)
    from remote_ok [OF 1] obtain fs r where r: "map_of (messages w) i = Some r" "a = mr_audience r" and w1: "w1 = w\<lparr>faults := fs\<rparr>"
      by (auto split: option.splits)
    note fr = free_after_invalidation [OF conjunct1 [OF w] r(1)]
    show ?thesis
    proof (cases a)
      case None
      with 2 have "w' = w1" by simp
      with None w1 w r show ?thesis by (auto simp: silenced_iff intro!: fr)
    next
      case (Some s)
      let ?keys = "index_keys (bundle_index w) s"
      from 2 Some obtain keys w2 where q: "query (\<lambda>w. case map_of (bundle_index w) (bundle_segment_index_key s) of None \<Rightarrow> [] | Some ks \<Rightarrow> ks) w1
            = (Inr keys, w2)" and
        4: "(if keys = [] then ret () else wrapping ''payload: invalidate bundles for segment'' (exec (\<lambda>w.
                   w\<lparr>bundle_cache := filter (\<lambda>(k, b). k \<notin> set keys) (bundle_cache w)\<rparr>))) w2 = (Inr x, w')"
        by (auto simp: and_then_ok)
      from query_ok [OF q] obtain gs where w2: "w2 = w\<lparr>faults := gs\<rparr>" and keys: "keys = ?keys"
        by (auto simp: index_keys_def w1)
      show ?thesis
      proof (cases "keys = []")
        case True
        with 4 have "w' = w2" by simp
        with True keys w2 w r Some show ?thesis by (auto simp: silenced_iff intro!: fr)
      next
        case False
        with 4 obtain hs where "w' = w2\<lparr>faults := hs, bundle_cache := filter (\<lambda>(k, b). k \<notin> set keys) (bundle_cache w2)\<rparr>"
          by (auto dest!: exec_ok)
        with keys w2 w r Some show ?thesis by (auto simp: silenced_iff intro!: fr)
      qed
    qed
  qed
  then show "case invalidate_campaign i w of (Inl e, w') \<Rightarrow> True | (Inr x, w') \<Rightarrow> silenced i w'"
    by (auto split: prod.split sum.split)
qed

end
