(* ===== verification/KillSwitch.thy ===== *)
theory KillSwitch
  imports Bundles
begin

text \<open>
  The kill switch end to end: an administrator stops a campaign, and from then on no device is sent
  it, whatever requests the process serves in between and whatever fails meanwhile. The cached
  bundles are the difficulty: each must be found by the invalidation.
\<close>

section \<open>The other requests\<close>

lemma keeps_insert_message:
  assumes I: "I = on_data P"
    and row: "\<And>w j r. I w \<Longrightarrow> j \<notin> fst ` set (messages w) \<Longrightarrow> mr_state r = state_text (msg_state msg)
      \<Longrightarrow> I (w\<lparr>messages := messages w @ [(j, r)]\<rparr>)"
  shows "keeps I (insert_message g msg)"
proof -
  have blind: "fault_blind I" by (simp add: I on_data_blind)
  have id: "I (w\<lparr>id_supply := n\<rparr>) = I w" for w n by (simp add: I on_data_def)
  have "I (snd (let j = gen_uuid g (id_supply w); s = gen_salt g (id_supply w)
        in if j \<in> fst ` set (messages w) then (Inl IOFailure, w)
           else (Inr (m\<lparr>msg_id := j, experiment_salt := s\<rparr>),
             w\<lparr>messages := messages w @ [(j, row_of_message m s)], id_supply := Suc (id_supply w)\<rparr>)))"
    if "I w" "msg_state m = msg_state msg" for w m
    using row [OF that(1), of "gen_uuid g (id_supply w)" "row_of_message m (gen_salt g (id_supply w))"] that
    by (simp add: Let_def id row_of_message_def)
  then have 1: "keeps I (insert_message_row g m)" if "msg_state m = msg_state msg" for m
    unfolding insert_message_row_def checked_def using that
    by (intro keeps_wrapping keeps_remote blind) auto
  have 2: "keeps I (insert_policy m)" "keeps I (insert_trigger g j t)" "keeps I (insert_condition g j c)"
    "keeps I (insert_variant g j v)" for m j t c v
    unfolding I insert_policy_def insert_trigger_def insert_condition_def insert_variant_def checked_def Let_def
    by (auto intro!: keeps_wrapping keeps_data_remote)
  show ?thesis
    unfolding insert_message_def
    by (intro keeps_in_tx keeps_and_then keeps_map_io keeps_for_each keeps_ret 1 2 blind) simp_all
qed

lemma insert_silenced: "state_text (msg_state msg) \<noteq> ''active'' \<Longrightarrow> keeps (silenced i) (insert_message g msg)"
  by (rule keeps_insert_message [OF silenced_def]) (simp add: silenced_iff dead_def)

lemma insert_indexed: "keeps indexed (insert_message g msg)"
proof (rule keeps_insert_message [OF indexed_def])
  fix w :: "'a deliver_world_scheme" and j r
  assume "indexed w" "j \<notin> fst ` set (messages w)"
  moreover from this(2) have "has_audience (messages w) k s \<Longrightarrow> has_audience (messages w @ [(j, r)]) k s" for k s
    by (auto simp: has_audience_def map_add_def)
  ultimately show "indexed (w\<lparr>messages := messages w @ [(j, r)]\<rparr>)" by (fastforce simp: indexed_iff)
qed

lemma data_register: "keeps (on_data P) (register_channel enc random g secret attrs d now)"
  unfolding register_channel_def insert_channel_def allocate_ordinal_def checked_def
  by (intro data_intros keeps_data_remote) (auto simp: Let_def split: option.split)

lemma data_validate: "keeps (on_data P) (validate_message msg now)"
proof (rule keepsI)
  fix w :: "'a deliver_world_scheme" assume "on_data P w"
  then have "on_data P (snd (query (\<lambda>w. map sr_id (segment_rows w)) w))" by (rule keepsD [OF keeps_data_query])
  with \<open>on_data P w\<close> show "on_data P (snd (validate_message msg now w))"
    by (auto simp: validate_message_def split: prod.split sum.split)
qed

lemma keeps_after_id:
  assumes "keeps (on_data P) m"
  shows "keeps (on_data P) (\<lambda>w. m (w\<lparr>id_supply := f w\<rparr>))"
  using assms by (simp add: keeps_def on_data_def)

lemma data_record_later:
  assumes "\<And>es t. keeps (on_data P) (publish es t)"
  shows "keeps (on_data P) (\<lambda>w. record_event publish (e (id_supply w)) now (w\<lparr>id_supply := Suc (id_supply w)\<rparr>))"
proof (rule keepsI)
  fix w :: "'a deliver_world_scheme" assume "on_data P w"
  then have "on_data P (w\<lparr>id_supply := Suc (id_supply w)\<rparr>)" by (simp add: on_data_def)
  then show "on_data P (snd (record_event publish (e (id_supply w)) now (w\<lparr>id_supply := Suc (id_supply w)\<rparr>)))"
    by (rule keepsD [OF data_record_event [OF assms]])
qed

lemma data_check_budget:
  assumes "\<And>es t. keeps (on_data P) (publish es t)"
  shows "keeps (on_data P) (check_project_budget g publish i c now)"
  unfolding check_project_budget_def is_exempt_from_project_cap_def
  by (intro data_intros data_check keeps_data_remote data_record_later assms) simp_all

lemma data_overlay:
  assumes "\<And>es t. keeps (on_data P) (publish es t)"
  shows "keeps (on_data P) (overlay_all g publish c now b)"
proof (induction b)
  case (Cons x b)
  have "keeps (on_data P) (apply_overlay g publish x c now)"
    unfolding apply_overlay_def record_holdout_qualified_def
    by (intro data_intros data_record_later assms)
      (auto intro!: data_intros data_record_later assms split: prod.split option.split)
  with Cons show ?case by (auto simp only: overlay_all.simps intro!: data_intros)
qed (simp only: overlay_all.simps keeps_ret)

lemma reads_delta: "only_reads (compute_delta marshal c es token now)"
  unfolding compute_delta_def get_reverse_def current_seq_def changes_since_def window_starts_for_def Let_def
  by (intro read_intros) (auto intro!: read_intros split: if_splits)

section \<open>Synchronizations\<close>

lemma keeps_silenced: "(\<And>P. keeps (on_data P) m) \<Longrightarrow> keeps (silenced i) m"
  by (simp add: silenced_def)

lemma keeps_indexed: "(\<And>P. keeps (on_data P) m) \<Longrightarrow> keeps indexed m"
  by (simp add: indexed_def)

lemma data_get_reverse: "keeps (on_data P) (get_reverse c)"
  unfolding get_reverse_def by (intro data_intros)

lemma data_schema_major: "keeps (on_data P) (supported_schema_major c)"
  unfolding supported_schema_major_def by (intro data_intros keeps_data_remote) simp

lemma triple_triv: "keeps I m \<Longrightarrow> (\<And>w r w'. m w = (Inr r, w') \<Longrightarrow> R r) \<Longrightarrow> triple I m (\<lambda>r w. I w \<and> R r) I"
proof (rule tripleI)
  fix w assume "keeps I m" and R: "\<And>w r w'. m w = (Inr r, w') \<Longrightarrow> R r" and "I w"
  then have "I (snd (m w))" by (auto dest: keepsD)
  with R show "case m w of (Inl e, w') \<Rightarrow> I w' | (Inr x, w') \<Rightarrow> I w' \<and> R x" by (auto split: prod.split sum.split)
qed

lemma build_payload_silenced:
  assumes "\<And>P es t. keeps (on_data P) (publish es t)"
  shows "triple (silenced i) (build_payload env (Some publish) c lang now limit interval jitter)
    (\<lambda>p w. silenced i w \<and> i \<notin> en_message ` set (entries p)) (silenced i)"
proof -
  have over: "triple (silenced i) (overlay_all g publish c now b) (\<lambda>es w. silenced i w \<and> en_message ` set es \<subseteq> bm_id ` set b) (silenced i)" for g b
  proof (rule triple_triv)
    show "keeps (silenced i) (overlay_all g publish c now b)" by (intro keeps_silenced data_overlay assms)
    show "en_message ` set es \<subseteq> bm_id ` set b" if "overlay_all g publish c now b w = (Inr es, w')" for es and w w' :: "'a deliver_world_scheme"
      using overlay_all_ok [OF that] by (force simp: entry_of_def)
  qed
  have trunc: "set (fst (truncate_entries es limit)) \<subseteq> set es" for es
  proof -
    obtain n where "fitting limit 0 es = take n es" using fitting_prefix by blast
    then show ?thesis by (simp add: truncate_entries_def set_take_subset)
  qed
  show ?thesis
    unfolding build_payload_def Let_def option.case
    apply (rule triple_and_then [OF triple_wrapping [OF triple_keeps [OF keeps_silenced [OF data_get_reverse]]]])
    apply (rule triple_if)
     apply (simp add: triple_ret)
    apply (rule triple_and_then [OF triple_keeps [OF keeps_silenced [OF data_schema_major]]])
    apply (rule triple_and_then [OF shared_bundle_silenced])
    apply (rule triple_know)
    apply (rule triple_and_then [OF over])
    apply (rule triple_ret)
    apply (auto dest!: subsetD [OF trunc])
    done
qed

definition holds_not :: "string \<Rightarrow> sync_result \<Rightarrow> bool" where
  "holds_not i r = (\<forall>p. res_payload r = Some p \<longrightarrow> i \<notin> en_message ` set (entries p))"

lemma data_read_tag: "keeps (on_data P) (read_tag c tag now)"
  unfolding read_tag_def cached_tag_def by (intro data_intros)

lemma data_cache_tag: "keeps (on_data P) (cache_tag c tag ttl now)"
  unfolding cache_tag_def by (intro data_intros keeps_data_exec) simp

lemma issue_budget_entries:
  "triple (silenced i) (issue_budget cfg c now p) (\<lambda>q w. silenced i w \<and> entries q = entries p) (silenced i)"
proof (rule triple_triv)
  show "keeps (silenced i) (issue_budget cfg c now p)"
    unfolding issue_budget_def by (intro keeps_silenced data_intros data_remaining)
qed (auto simp: issue_budget_def and_then_ok split: if_splits)

lemma delta_entries_of:
  "triple (silenced i) (compute_delta marshal c es token now)
     (\<lambda>r w. silenced i w \<and> (\<forall>es' ts. fst r = Some (es', ts) \<longrightarrow> set es' \<subseteq> set es)) (silenced i)"
proof (rule triple_triv)
  show "keeps (silenced i) (compute_delta marshal c es token now)"
    by (intro keeps_only_reads reads_delta blind_silenced)
qed (auto simp: compute_delta_def and_then_ok Let_def delta_entries_def split: if_splits)

lemma sync_silenced:
  assumes "\<And>P es t. keeps (on_data P) (publish es t)"
  shows "triple (silenced i) (sync_channel env (Some publish) c lang tag token now cfg)
    (\<lambda>r w. silenced i w \<and> holds_not i r) (silenced i)"
proof -
  have tail: "triple (\<lambda>w. silenced i w \<and> entries q = entries p)
      (let full = \<lparr>res_tag = t, unchanged = False, res_payload = Some q, res_next_sync = next_sync q,
                         is_delta = False, tombstones = [], res_cursor = []\<rparr> in
             if \<not> delta_mode cfg then ret full
             else and_then (wrapping ''deliver: compute delta''
                 (compute_delta (env_marshal env) c (entries q) token now)) (\<lambda>(delta, fresh).
               case delta of
                 None \<Rightarrow> ret (full\<lparr>res_cursor := fresh\<rparr>)
               | Some (es, ts) \<Rightarrow> ret (full\<lparr>res_cursor := fresh, res_payload := Some (q\<lparr>entries := es\<rparr>),
                   is_delta := True, tombstones := ts\<rparr>)))
      (\<lambda>r w. silenced i w \<and> holds_not i r) (silenced i)"
    if p: "i \<notin> en_message ` set (entries p)" for p q t
    unfolding Let_def
    apply (rule triple_know)
    apply (rule triple_if)
     apply (rule triple_ret)
     using p apply (simp add: holds_not_def)
    apply (rule triple_and_then [OF triple_wrapping [OF delta_entries_of]])
    apply (rule triple_know)
    using p apply (auto simp: holds_not_def intro!: triple_ret split: prod.split option.split)
    apply blast
    done
  show ?thesis
    unfolding sync_channel_def
    apply (rule triple_and_then [OF triple_keeps [OF keeps_silenced [OF data_read_tag]]])
    apply (rule triple_if)
     apply (simp add: triple_ret holds_not_def)
    apply (rule triple_and_then [OF triple_wrapping [OF build_payload_silenced [OF assms]]])
    apply (rule triple_know)
    apply (unfold Let_def [of "compute_tag _"])
    apply (rule triple_and_then [OF triple_keeps [OF keeps_silenced [OF data_cache_tag]]])
    apply (rule triple_if)
     apply (simp add: triple_ret holds_not_def)
    apply (rule triple_and_then [OF issue_budget_entries])
    apply (rule tail, assumption)
    done
qed

lemma triple_calm:
  assumes "keeps I m" "keeps (\<lambda>w. faults w = []) m"
  shows "triple (\<lambda>w. faults w = [] \<and> I w) m (\<lambda>_ w. faults w = [] \<and> I w) I"
proof (rule tripleI)
  fix w :: "'a world_scheme" assume "faults w = [] \<and> I w"
  with keepsD [OF assms(1)] keepsD [OF assms(2)] have "I (snd (m w))" "faults (snd (m w)) = []" by auto
  then show "case m w of (Inl e, w') \<Rightarrow> I w' | (Inr x, w') \<Rightarrow> faults w' = [] \<and> I w'"
    by (auto split: prod.split sum.split)
qed

lemma shared_bundle_calm:
  "triple (\<lambda>w. faults w = [] \<and> indexed w) (shared_bundle_for render marshal bm lang d now) (\<lambda>_. indexed) indexed"
proof (rule tripleI)
  fix w :: "'a deliver_world_scheme" assume "faults w = [] \<and> indexed w"
  then have "indexed (snd (shared_bundle_for render marshal bm lang d now w))" using shared_bundle_indexed by blast
  then show "case shared_bundle_for render marshal bm lang d now w of (Inl e, w') \<Rightarrow> indexed w' | (Inr x, w') \<Rightarrow> indexed w'"
    by (auto split: prod.split sum.split)
qed

lemma sync_indexed:
  assumes "\<And>P es t. keeps (on_data P) (publish es t)"
  shows "triple (\<lambda>w. faults w = [] \<and> indexed w) (sync_channel env (Some publish) c lang tag token now cfg)
    (\<lambda>_. indexed) indexed"
proof -
  have rest: "keeps indexed (issue_budget cfg c now p)" "keeps indexed (cache_tag c t ttl now)"
    "keeps indexed (compute_delta (env_marshal env) c es token now)" "keeps indexed (overlay_all g publish c now b)" for p t ttl es g b
    unfolding issue_budget_def
    by (intro keeps_indexed data_intros data_remaining data_cache_tag data_overlay assms
        keeps_only_reads [OF reads_delta on_data_blind])+
  have calm: "keeps (\<lambda>w. faults w = []) (read_tag c tag now)" "keeps (\<lambda>w. faults w = []) (get_reverse c)"
    "keeps (\<lambda>w. faults w = []) (supported_schema_major c)"
    unfolding read_tag_def cached_tag_def get_reverse_def supported_schema_major_def
    by (intro keeps_if keeps_ret keeps_wrapping keeps_calm_query keeps_calm_remote; simp)+
  have build: "triple (\<lambda>w. faults w = [] \<and> indexed w)
      (build_payload env (Some publish) c lang now limit interval jitter) (\<lambda>_. indexed) indexed" for limit interval jitter
    unfolding build_payload_def Let_def option.case
    by (intro triple_and_then [OF triple_wrapping [OF triple_calm [OF keeps_indexed [OF data_get_reverse] calm(2)]]]
        triple_if triple_ret triple_and_then [OF triple_calm [OF keeps_indexed [OF data_schema_major] calm(3)]]
        triple_and_then [OF shared_bundle_calm] triple_and_then [OF triple_keeps [OF rest(4)]]) simp_all
  show ?thesis
    unfolding sync_channel_def Let_def
    by (intro triple_and_then [OF triple_calm [OF keeps_indexed [OF data_read_tag] calm(1)]] triple_if triple_ret
        triple_and_then [OF triple_wrapping [OF build]] triple_and_then [OF triple_keeps [OF rest(2)]]
        triple_and_then [OF triple_keeps [OF rest(1)]] triple_and_then [OF triple_wrapping [OF triple_keeps [OF rest(3)]]])
      (auto intro: triple_ret split: prod.split option.split)
qed

section \<open>Requests\<close>

lemma keeps_behind_device_auth:
  "(\<And>ctx. keeps I (handler ctx)) \<Longrightarrow> keeps I (behind_device_auth env s authorization now handler)"
  unfolding behind_device_auth_def device_auth_interceptor_def Let_def
  by (auto intro!: keeps_if keeps_fail split: sum.split)

lemma keeps_admin_auth:
  "(\<And>ctx. keeps I (handler ctx)) \<Longrightarrow> keeps I (admin_auth_interceptor auth roles authorization procedure handler ctx)"
  unfolding admin_auth_interceptor_def by (auto intro!: keeps_if keeps_fail split: option.split sum.split)

lemma keeps_require: "keeps I (require_channel_id ctx)"
  unfolding require_channel_id_def by (auto intro!: keeps_if keeps_fail keeps_ret split: option.split)

lemma data_confirm:
  assumes "\<And>es t. keeps (on_data P) (ds_publisher d es t)"
  shows "keeps (on_data P) (confirm_handler env d i now ctx)"
  unfolding confirm_handler_def confirm_display_def
  by (intro data_intros keeps_require data_check_budget assms)
    (auto intro!: keeps_fail keeps_ret split: option.split)

lemma data_submit:
  assumes "\<And>es t. keeps (on_data P) (publish es t)"
  shows "keeps (on_data P) (submit_handler env redis publish events now ctx)"
  unfolding submit_handler_def
  by (intro data_intros keeps_require data_accept assms)

lemma data_refresh: "keeps (on_data P) (refresh_handler env secret c cred now)"
proof (rule keepsI)
  fix w :: "'a deliver_world_scheme" assume "on_data P w"
  then have "on_data P (snd (refresh_token (env_render (se_build env)) secret c cred now w))"
    by (rule keepsD [OF keeps_data_reads [OF refresh_reads]])
  then show "on_data P (snd (refresh_handler env secret c cred now w))"
    by (auto simp: refresh_handler_def split: prod.split sum.split)
qed

lemma data_register_handler: "keeps (on_data P) (register_handler env secret raw d now)"
  unfolding register_handler_def Let_def by (intro data_intros data_register)

lemma data_get_message: "keeps (on_data P) (get_message_handler i)"
  unfolding get_message_handler_def by (intro data_intros keeps_data_reads [OF get_message_reads])

lemma data_list_audit: "keeps (on_data P) (list_audit_log_handler i)"
  unfolding list_audit_log_handler_def list_audit_log_def by (intro data_intros)

lemma keeps_invalidate:
  assumes "I = on_data P" "\<And>w ks. I w \<Longrightarrow> I (w\<lparr>bundle_cache := filter (\<lambda>(k, b). k \<notin> set ks) (bundle_cache w)\<rparr>)"
  shows "keeps I (invalidate_campaign i)"
proof -
  have b: "fault_blind I" using assms(1) by (simp add: on_data_blind)
  have "keeps I (if ks = [] then ret () else wrapping msg (exec (\<lambda>w. w\<lparr>bundle_cache := filter (\<lambda>(k, b). k \<notin> set ks) (bundle_cache w)\<rparr>)))"
    for ks msg
    by (intro keeps_if keeps_ret keeps_wrapping keeps_exec b assms(2))
  then show ?thesis
    unfolding invalidate_campaign_def
    by (auto intro!: keeps_and_then keeps_wrapping keeps_query keeps_ret b keeps_only_reads [OF only_reads_remote] split: option.split)
qed

lemma invalidate_silenced: "keeps (silenced i) (invalidate_campaign j)"
  by (rule keeps_invalidate [OF silenced_def]) (auto simp: silenced_iff free_of_def)

lemma invalidate_indexed: "keeps indexed (invalidate_campaign j)"
  by (rule keeps_invalidate [OF indexed_def]) (auto simp: indexed_iff)

lemma keeps_update_handler:
  assumes "I = on_data P" "keeps I (invalidate_campaign j)" "\<And>actor. keeps I (update_state j (state_of_text st) actor now)"
  shows "keeps I (update_message_state_handler redis j st now ctx)"
proof -
  have "keeps I (record_change j kind now)" for kind by (simp add: assms(1) data_record_change)
  then show ?thesis
    unfolding update_message_state_handler_def Let_def
    by (auto intro!: keeps_fail keeps_and_then keeps_coded keeps_ret keeps_if assms(2) split: option.split)
      (use assms(3) in metis)+
qed

lemma keeps_create_handler:
  assumes "I = on_data P" "\<And>g msg. state_text (msg_state msg) \<noteq> ''active'' \<Longrightarrow> keeps I (insert_message g msg)"
  shows "keeps I (create_message_handler env d now)"
  unfolding create_message_handler_def Let_def
  by (intro keeps_and_then keeps_coded keeps_of_result keeps_ret assms(2)) (simp_all add: assms(1) data_validate)

definition activates :: "string \<Rightarrow> request \<Rightarrow> bool" where
  "activates i req = (req = Admin (UpdateMessageState i ''active''))"

lemma serve_admin_silenced:
  assumes "\<not> activates i (Admin call)"
  shows "keeps (silenced i) (serve_admin env s call now ctx)"
proof (cases call)
  case (CreateMessage d)
  then show ?thesis by (auto intro!: keeps_create_handler [OF silenced_def] insert_silenced)
next
  case (UpdateMessageState j st)
  with assms have "j \<noteq> i \<or> state_text (state_of_text st) \<noteq> ''active''" by (auto simp: activates_def state_text_of_text)
  with UpdateMessageState show ?thesis
    by (auto intro!: keeps_update_handler [OF silenced_def] invalidate_silenced move_keeps_silenced)
qed (auto intro: keeps_silenced data_get_message data_list_audit)

lemma serve_admin_indexed: "keeps indexed (serve_admin env s call now ctx)"
proof (cases call)
  case (CreateMessage d)
  then show ?thesis by (auto intro!: keeps_create_handler [OF indexed_def] insert_indexed)
next
  case (UpdateMessageState j st)
  have "keeps indexed (update_state j (state_of_text st) actor now)" for actor
    by (rule keeps_triple) (rule triple_post [OF stop_indexed], simp add: stopped_iff)
  with UpdateMessageState show ?thesis
    by (auto intro!: keeps_update_handler [OF indexed_def] invalidate_indexed)
qed (auto intro: keeps_indexed data_get_message data_list_audit)

text \<open>A request other than the one that starts the campaign again leaves it silenced.\<close>

lemma request_silenced:
  assumes "known_publisher s" "\<not> activates i req"
  shows "keeps (silenced i) (new_mux env s authorization req now)"
proof (cases req)
  case (Sync lang tag tok)
  note pub = data_publisher [OF assms(1)]
  have "keeps (silenced i) (sync_handler env (delivery_server_of s) lang tag tok now ctx)" for ctx
    unfolding sync_handler_def
    by (intro keeps_if keeps_fail keeps_and_then keeps_require keeps_coded keeps_ret
        keeps_triple [OF triple_post [OF sync_silenced [OF pub]]]) simp
  with Sync show ?thesis by (auto intro: keeps_behind_device_auth)
next
  case (Admin call)
  with assms(2) show ?thesis
    by (auto intro!: keeps_fail keeps_admin_auth serve_admin_silenced split: option.split)
qed (auto intro!: keeps_ret keeps_fail keeps_silenced keeps_behind_device_auth data_confirm data_submit data_register_handler
    data_refresh data_publisher [OF assms(1)])

text \<open>A request in which no call fails leaves the bundles indexed.\<close>

lemma request_indexed:
  assumes "known_publisher s" "faults w = []" "indexed w"
  shows "indexed (snd (new_mux env s authorization req now w))"
proof (cases req)
  case (Sync lang tag tok)
  note pub = data_publisher [OF assms(1)]
  have "keeps (\<lambda>w. faults w = []) (require_channel_id ctx)" for ctx by (rule keeps_require)
  then have "triple (\<lambda>w. faults w = [] \<and> indexed w) (sync_handler env (delivery_server_of s) lang tag tok now ctx) (\<lambda>_. indexed) indexed" for ctx
    unfolding sync_handler_def
    by (intro triple_if triple_fail triple_and_then [OF triple_calm [OF keeps_require]]
        triple_and_then [OF triple_coded [OF sync_indexed [OF pub]]] triple_ret) simp_all
  then have "indexed (snd (sync_handler env (delivery_server_of s) lang tag tok now ctx w))" for ctx
    using assms(2,3) by (auto dest: triple_end)
  with Sync assms(3) show ?thesis
    by (auto simp: behind_device_auth_def device_auth_interceptor_def Let_def split: sum.split)
next
  case (Admin call)
  have "keeps indexed (new_mux env s authorization (Admin call) now)"
    by (auto intro!: keeps_fail keeps_admin_auth serve_admin_indexed split: option.split)
  from keepsD [OF this assms(3)] Admin show ?thesis by simp
next
  case Check
  with assms(3) show ?thesis by simp
next
  case (Confirm i)
  have "keeps indexed (new_mux env s authorization (Confirm i) now)"
    by (auto intro!: keeps_indexed keeps_behind_device_auth data_confirm data_publisher [OF assms(1)])
  from keepsD [OF this assms(3)] Confirm show ?thesis by simp
next
  case (Submit events)
  have "keeps indexed (new_mux env s authorization (Submit events) now)"
    by (auto intro!: keeps_indexed keeps_behind_device_auth data_submit data_publisher [OF assms(1)])
  from keepsD [OF this assms(3)] Submit show ?thesis by simp
next
  case (Register raw d)
  have "keeps indexed (new_mux env s authorization (Register raw d) now)"
    by (auto intro!: keeps_indexed keeps_fail data_register_handler)
  from keepsD [OF this assms(3)] Register show ?thesis by simp
next
  case (RefreshToken c cred)
  have "keeps indexed (new_mux env s authorization (RefreshToken c cred) now)"
    by (auto intro!: keeps_indexed keeps_fail data_refresh)
  from keepsD [OF this assms(3)] RefreshToken show ?thesis by simp
qed

lemma kill_silences:
  assumes "st \<noteq> ''active''"
  shows "triple indexed (update_message_state_handler True i st now ctx) (\<lambda>_. silenced i) (\<lambda>_. True)"
proof (cases "ctx_principal ctx")
  case None
  then show ?thesis by (simp add: update_message_state_handler_def triple_fail)
next
  case (Some p)
  let ?s = "state_of_text st"
  have 1: "triple indexed (update_state i ?s (subject p) now) (\<lambda>_. stopped i ?s) (\<lambda>_. True)"
    by (rule triple_weaken [OF stop_indexed]) simp_all
  have 2: "triple (stopped i ?s) (record_change i kind now) (\<lambda>_. stopped i ?s) (\<lambda>_. True)" for kind
    by (rule triple_keep) (simp_all add: stopped_def data_record_change)
  have 3: "triple (stopped i ?s) (invalidate_campaign i) (\<lambda>_. silenced i) (\<lambda>_. True)"
    by (rule triple_weaken [OF invalidate_silences]) (use assms in \<open>simp_all add: stopped_iff state_text_of_text\<close>)
  show ?thesis
    unfolding update_message_state_handler_def Some option.case Let_def if_True
    by (rule triple_and_then [OF triple_coded [OF 1]])
      (rule triple_and_then [OF triple_coded [OF 2]], rule triple_and_then [OF triple_coded [OF 3]], simp add: triple_ret)
qed

text \<open>An answer to a synchronization in a world where the campaign is silenced.\<close>

lemma sync_answer_silenced:
  assumes "known_publisher s" "silenced i w"
    and "new_mux env s authorization (Sync lang tag tok) now w = (Inr (Synced rsp), w')"
  shows "i \<notin> ew_message ` set (rsp_entries rsp)"
proof -
  note pub = data_publisher [OF assms(1)]
  have sync: "triple (silenced i) (sync_handler env (delivery_server_of s) lang tag tok now ctx)
      (\<lambda>r _. \<forall>rsp. r = Synced rsp \<longrightarrow> i \<notin> ew_message ` set (rsp_entries rsp)) (silenced i)" for ctx
    unfolding sync_handler_def
    by (intro triple_if triple_fail triple_and_then [OF triple_keeps [OF keeps_require]]
        triple_and_then [OF triple_coded [OF sync_silenced [OF pub]]] triple_ret)
      (auto simp: sync_response_of_def holds_not_def wire_entries_def Let_def split: option.splits)
  from assms(3) obtain c where "sync_handler env (delivery_server_of s) lang tag tok now (with_channel_id background c) w
      = (Inr (Synced rsp), w')"
    by (auto simp: behind_device_auth_def device_auth_interceptor_def Let_def split: if_splits sum.splits)
  from triple_ok [OF sync assms(2) this] show ?thesis by blast
qed

text \<open>Requests one after another, each with the outcomes of the calls it makes.\<close>

type_synonym incoming = "string \<times> request \<times> time \<times> outcome list"

fun serve_all_requests :: "server_env \<Rightarrow> 'w server \<Rightarrow> incoming list \<Rightarrow> 'w deliver_world_scheme \<Rightarrow> 'w deliver_world_scheme" where
  "serve_all_requests env s [] w = w"
| "serve_all_requests env s ((authorization, req, now, fs) # rs) w =
     serve_all_requests env s rs (snd (new_mux env s authorization req now (w\<lparr>faults := fs\<rparr>)))"

text \<open>What one request keeps, under any outcomes of its calls that are admitted, a series of requests keeps.\<close>

locale kept_by_requests =
  fixes env :: server_env
    and s :: "'w server"
    and admits :: "incoming \<Rightarrow> bool"
    and I :: "'w deliver_world_scheme \<Rightarrow> bool"
  assumes request_keeps: "admits (authorization, req, now, fs) \<Longrightarrow> I w \<Longrightarrow>
      I (snd (new_mux env s authorization req now (w\<lparr>faults := fs\<rparr>)))"
begin

lemma series_keeps: "list_all admits rs \<Longrightarrow> I w \<Longrightarrow> I (serve_all_requests env s rs w)"
proof (induction rs arbitrary: w)
  case (Cons r rs)
  obtain authorization req now fs where "r = (authorization, req, now, fs)" by (cases r) auto
  with Cons request_keeps show ?case by simp
qed simp

end

interpretation silent_series: kept_by_requests env s "\<lambda>(_, req, _, _). \<not> activates i req"
    "\<lambda>w. known_publisher s \<and> silenced i w" for env s i
proof unfold_locales
  fix authorization :: string and req :: request and now :: time and fs :: "outcome list" and w :: "'a deliver_world_scheme"
  assume "case (authorization, req, now, fs) of (_, req, _, _) \<Rightarrow> \<not> activates i req" "known_publisher s \<and> silenced i w"
  then show "known_publisher s \<and> silenced i (snd (new_mux env s authorization req now (w\<lparr>faults := fs\<rparr>)))"
    using keepsD [OF request_silenced [of s i req], of "w\<lparr>faults := fs\<rparr>"] by (simp add: silenced_iff)
qed

interpretation indexed_series: kept_by_requests env s "\<lambda>(_, _, _, fs). fs = []" "\<lambda>w. known_publisher s \<and> indexed w" for env s
proof unfold_locales
  fix authorization :: string and req :: request and now :: time and fs :: "outcome list" and w :: "'a deliver_world_scheme"
  assume "case (authorization, req, now, fs) of (_, _, _, fs) \<Rightarrow> fs = []" "known_publisher s \<and> indexed w"
  then show "known_publisher s \<and> indexed (snd (new_mux env s authorization req now (w\<lparr>faults := fs\<rparr>)))"
    using request_indexed [of s "w\<lparr>faults := []\<rparr>" env authorization req now] by (simp add: indexed_iff)
qed

lemma kill_switch:
  assumes "known_publisher s" "srv_redis s" "indexed w"
    and calm: "list_all (\<lambda>(_, _, _, fs). fs = []) before"
    and kill: "new_mux env s authorization (Admin (UpdateMessageState i st)) now ((serve_all_requests env s before w)\<lparr>faults := fs\<rparr>)
        = (Inr resp, w1)"
    and st: "st \<noteq> ''active''"
    and later: "list_all (\<lambda>(_, req, _, _). \<not> activates i req) later"
    and sync: "new_mux env s authorization' (Sync lang tag tok) now' ((serve_all_requests env s later w1)\<lparr>faults := fs'\<rparr>)
        = (Inr (Synced rsp), w2)"
  shows "i \<notin> ew_message ` set (rsp_entries rsp)"
proof -
  have ix: "indexed ((serve_all_requests env s before w)\<lparr>faults := fs\<rparr>)"
    using indexed_series.series_keeps [OF calm, of s w env] assms(1,3) by (simp add: indexed_iff)
  from kill obtain p where "update_message_state_handler True i st now (with_principal background p)
      ((serve_all_requests env s before w)\<lparr>faults := fs\<rparr>) = (Inr resp, w1)"
    by (auto simp: admin_auth_interceptor_def assms(2) split: option.splits sum.splits if_splits)
  from triple_ok [OF kill_silences [OF st] ix this] have "silenced i w1" .
  with silent_series.series_keeps [OF later, of s w1 env] assms(1)
  have "silenced i ((serve_all_requests env s later w1)\<lparr>faults := fs'\<rparr>)"
    by (simp add: silenced_iff)
  from sync_answer_silenced [OF assms(1) this sync] show ?thesis .
qed

text \<open>
  C1: once an administrator's request to move a campaign out of the active state has been answered, no
  synchronization sends it to any device until a request starts it again, whatever other requests come in between, one after
  another, and whichever of their calls fail. The index of the bundles is complete at the start, and no call of the requests before
  the stop fails, since a bundle whose indexing was lost is one that the stop does not find; nor does a synchronization overlap
  the stop, which could write its bundle behind it (\<open>stale_bundle_brings_campaign_back\<close>).
\<close>

theorem killed_campaign_never_sent:
  assumes "known_publisher s" "srv_redis s" "indexed w"
    and "list_all (\<lambda>(_, _, _, fs). fs = []) before"
    and "new_mux env s authorization (Admin (UpdateMessageState i st)) now ((serve_all_requests env s before w)\<lparr>faults := fs\<rparr>)
        = (Inr resp, w1)"
    and "st \<noteq> ''active''"
    and "list_all (\<lambda>(_, req, _, _). \<not> activates i req) later"
    and "new_mux env s authorization' (Sync lang tag tok) now' ((serve_all_requests env s later w1)\<lparr>faults := fs'\<rparr>)
        = (Inr (Synced rsp), w2)"
  shows "i \<notin> ew_message ` set (rsp_entries rsp)"
  using assms by (rule kill_switch)

text \<open>The bundle of the first device's segment is cached with the campaign; an editor pauses it.\<close>

definition demo_server_env :: server_env where
  "demo_server_env = \<lparr>se_build = demo_env,
     se_parse = (\<lambda>s. if s = ''c1'' then Some (claims_json (claims_for ''c1'' 0 AccessTokenTTL)) else None),
     se_random = (\<lambda>n. Inr (replicate n CHR ''k''))\<rparr>"

definition demo_server :: "unit server" where
  "demo_server = \<lparr>srv_pool = True, srv_redis = True, srv_secret = ''secret'',
     srv_authenticator = Some (authenticate [(''abc'', \<lparr>subject = ''alice'', principal_role = RoleEditor\<rparr>)]), srv_publisher = None\<rparr>"

definition demo_token :: string where
  "demo_token = projr (issue_token (\<lambda>_. ''c1'') ''secret'' ''c1'' 0 AccessTokenTTL)"

definition demo_bundle_key :: string where
  "demo_bundle_key = bundle_key ''fr'' 1 (reverse_hash (env_marshal demo_env) {1})"

definition demo_bundled :: bundle_message where
  "demo_bundled = \<lparr>bm_id = ''m'', bm_version = 1, bm_priority = 1, bm_expires = 9000, bm_policy = policy_of_row demo_policy,
     bm_triggers = [], bm_conditions = [], bm_holdout = 0, bm_salt = [],
     bm_fallback = \<lparr>bv_id = ''v'', bv_weight = 100, bv_language = ''en'', bv_schema = \<lparr>major = 1, minor = 0\<rparr>, bv_content = []\<rparr>,
     bm_variants = []\<rparr>"

definition demo_cached :: deliver_world where
  "demo_cached = demo_deliver\<lparr>bundle_cache := [(demo_bundle_key, [demo_bundled])],
     bundle_index := [(bundle_segment_index_key ''s'', [demo_bundle_key])]\<rparr>"

lemma demo_verified: "verify_token (se_parse demo_server_env) ''secret'' demo_token 3000 = Inr ''c1''"
proof -
  have "issue_token (\<lambda>_. ''c1'') ''secret'' ''c1'' 0 AccessTokenTTL = Inr demo_token"
    by (simp add: demo_token_def issue_token_def Let_def)
  from issued_token_verifies [OF this, of "se_parse demo_server_env" 3000] show ?thesis
    by (simp add: demo_server_env_def unix_def time_add_def AccessTokenTTL_def hour_def minute_def second_def
        min_int64_def max_int64_def)
qed

lemma demo_cached_tables:
  "faults demo_cached = []" "messages demo_cached = messages demo_delivery" "reverse_keys demo_cached = [(reverse_key ''c1'', {1})]"
  "segment_rows demo_cached = segment_rows demo_members" "channel_rows demo_cached = channel_rows demo_members"
  "bundle_cache demo_cached = [(demo_bundle_key, [demo_bundled])]"
  "bundle_index demo_cached = [(bundle_segment_index_key ''s'', [demo_bundle_key])]"
  by (simp_all add: demo_cached_def demo_deliver_def demo_delivery_def demo_members_def membership_world.defs payload_world.defs)

lemma demo_indexed: "indexed demo_cached"
  by (simp add: indexed_iff demo_cached_tables demo_tables has_audience_def index_keys_def demo_bundled_def demo_row_def)

lemma demo_states:
  "state_of_text ''paused'' = StatePaused" "state_of_text (mr_state (demo_row 1 0 9000)) = StateActive"
  by (simp_all add: state_of_text_def known_states_def demo_row_def)

lemma demo_killed:
  "\<exists>w1. new_mux demo_server_env demo_server ''Bearer abc'' (Admin (UpdateMessageState ''m'' ''paused'')) 3000 demo_cached
      = (Inr (StateUpdated ''paused''), w1) \<and> faults w1 = [] \<and> bundle_cache w1 = []
    \<and> messages w1 = move_rows ''m'' StatePaused (messages demo_delivery)
    \<and> reverse_keys w1 = reverse_keys demo_cached
    \<and> segment_rows w1 = segment_rows demo_members \<and> channel_rows w1 = channel_rows demo_members"
proof -
  define w1 where "w1 = demo_cached\<lparr>messages := move_rows ''m'' StatePaused (messages demo_cached),
    audit_log := audit_log demo_cached @ [\<lparr>ar_message = ''m'', ar_from = ''active'', ar_to = ''paused'', ar_actor = ''alice'', ar_at = pg_time 3000\<rparr>]\<rparr>"
  have f1: "faults w1 = []" "messages w1 = move_rows ''m'' StatePaused (messages demo_delivery)"
    "bundle_cache w1 = bundle_cache demo_cached" "bundle_index w1 = bundle_index demo_cached"
    "segment_rows w1 = segment_rows demo_cached" "channel_rows w1 = channel_rows demo_cached" "reverse_keys w1 = reverse_keys demo_cached"
    by (simp_all add: w1_def demo_cached_tables)
  have rows: "map_of (messages demo_cached) ''m'' = Some (demo_row 1 0 9000)"
    "map_of (messages w1) ''m'' = Some (demo_row 1 0 9000\<lparr>mr_state := ''paused''\<rparr>)" "''m'' \<in> fst ` set (messages w1)"
    by (simp_all add: f1 move_rows_def demo_cached_tables demo_tables)
  have 1: "update_state ''m'' StatePaused ''alice'' 3000 demo_cached = (Inr (), w1)"
    unfolding update_state_def
  proof (rule in_tx_calm)
    show "update_state_tx ''m'' StatePaused ''alice'' 3000 demo_cached = (Inr (), w1)"
      by (simp add: update_state_tx_def and_then_def wrapping_def remote_calm rows demo_states set_state_rows record_audit_def
          exec_calm demo_cached_tables(1) w1_def can_transition_def)
  qed (simp_all add: f1 demo_cached_tables)
  obtain w2 where 2: "record_change ''m'' KindTombstone 3000 w1 = (Inr (), w2)" and f2: "faults w2 = []" "messages w2 = messages w1"
    "bundle_cache w2 = bundle_cache demo_cached" "bundle_index w2 = bundle_index demo_cached"
    "segment_rows w2 = segment_rows demo_cached" "channel_rows w2 = channel_rows demo_cached" "reverse_keys w2 = reverse_keys demo_cached"
    using f1 rows(3) by (simp add: record_change_def and_then_def wrapping_def remote_calm exec_calm)
  obtain w3 where 3: "invalidate_campaign ''m'' w2 = (Inr (), w3)" and f3: "faults w3 = []" "messages w3 = messages w1"
    "bundle_cache w3 = []" "segment_rows w3 = segment_rows demo_cached" "channel_rows w3 = channel_rows demo_cached"
    "reverse_keys w3 = reverse_keys demo_cached"
    using f2 rows(2) by (simp add: invalidate_campaign_def and_then_def wrapping_def remote_calm query_calm exec_calm
        demo_row_def demo_cached_tables)
  have auth: "admin_role_by_procedure (admin_procedure (UpdateMessageState ''m'' ''paused'')) = Some RoleEditor"
    "bearer_token ''Bearer abc'' = ''abc''"
    by (simp_all add: admin_role_by_procedure_def bearer_token_def trim_prefix_def has_prefix_def)
  have "new_mux demo_server_env demo_server ''Bearer abc'' (Admin (UpdateMessageState ''m'' ''paused'')) 3000 demo_cached
      = (Inr (StateUpdated ''paused''), w3)"
    by (simp add: demo_server_def admin_auth_interceptor_def auth [simplified] authenticate_def satisfies_known
        update_message_state_handler_def with_principal_def demo_states Let_def and_then_def coded_def wrapping_def 1 2 3)
  with f3 f1(2) show ?thesis by (simp add: demo_cached_tables)
qed

text \<open>A synchronization of the first device answers with the campaigns of the bundle it is given.\<close>

lemma demo_synced:
  fixes w w1 :: deliver_world
  assumes "faults w = []" "reverse_keys w = reverse_keys demo_cached" "channel_rows w = channel_rows demo_members"
    and shared: "shared_bundle_for (env_render demo_env) (env_marshal demo_env) {1} ''fr'' 1 3000 w = (Inr b, w1)" "faults w1 = []"
    and b: "b = [] \<or> (\<exists>x. b = [x] \<and> bm_variants x = [] \<and> length (bv_content (bm_fallback x)) \<le> 1024)"
  shows "\<exists>rsp w'. new_mux demo_server_env demo_server (''Bearer '' @ demo_token) (Sync ''fr'' [] []) 3000 w = (Inr (Synced rsp), w')
    \<and> ew_message ` set (rsp_entries rsp) = bm_id ` set b"
proof -
  have segs: "get_reverse ''c1'' w = (Inr {1}, w)" "supported_schema_major ''c1'' w = (Inr 1, w)"
    by (simp_all add: get_reverse_def supported_schema_major_def wrapping_def query_calm remote_calm assms demo_cached_tables demo_members_def)
  let ?cfg = "default_sync_config\<lparr>delta_mode := False\<rparr>"
  obtain es where es: "overlay_all (env_gen demo_env) postgres_publish ''c1'' 3000 b w1 = (Inr es, w1)"
    "en_message ` set (fst (truncate_entries es (size_ceiling ?cfg))) = bm_id ` set b"
    using b by (auto simp: apply_overlay_def and_then_def wrapping_def entry_of_def truncate_entries_def default_sync_config_def)
  obtain p where p: "build_payload demo_env (Some postgres_publish) ''c1'' ''fr'' 3000 (size_ceiling ?cfg) (sync_interval ?cfg)
      (sync_jitter ?cfg) w = (Inr p, w1)" "en_message ` set (entries p) = bm_id ` set b"
    using segs shared es by (simp add: build_payload_def Let_def and_then_def wrapping_def del: One_nat_def)
  have "\<exists>w2. cache_tag ''c1'' t (tag_ttl ?cfg) 3000 w1 = (Inr (), w2) \<and> faults w2 = []" for t
    using shared(2) by (simp add: cache_tag_def wrapping_def exec_calm)
  moreover have "\<exists>q w3. issue_budget cfg ''c1'' 3000 p v = (Inr q, w3) \<and> entries q = entries p" if "faults v = []" for cfg and v :: deliver_world
    using that by (auto simp: issue_budget_def remaining_def budget_eval_def and_then_def wrapping_def remote_calm Let_def split: prod.split)
  ultimately obtain w2 q w3 where tag: "cache_tag ''c1'' (compute_tag (entries p)) (tag_ttl ?cfg) 3000 w1 = (Inr (), w2)"
    and q: "issue_budget ?cfg ''c1'' 3000 p w2 = (Inr q, w3)" "entries q = entries p" by blast
  obtain r where r: "sync_channel demo_env (Some postgres_publish) ''c1'' ''fr'' [] [] 3000 ?cfg w = (Inr r, w3)" "res_payload r = Some q"
    using tag q by (simp add: sync_channel_def read_tag_def and_then_def wrapping_def Let_def p(1) [simplified])
  have tok: "bearer_token (''Bearer '' @ demo_token) = demo_token" by (simp add: bearer_token_def trim_prefix_def has_prefix_def)
  have ne: "demo_token \<noteq> []" using demo_verified by (auto simp: verify_token_def)
  have "new_mux demo_server_env demo_server (''Bearer '' @ demo_token) (Sync ''fr'' [] []) 3000 w = (Inr (Synced (sync_response_of r)), w3)"
    using ne r(1) demo_verified tok
    by (simp add: behind_device_auth_def device_services_def device_auth_interceptor_def demo_server_def Let_def sync_handler_def
        delivery_server_of_def require_channel_id_def with_channel_id_def and_then_def coded_def wrapping_def demo_server_env_def)
  moreover have "ew_message ` set (rsp_entries (sync_response_of r)) = bm_id ` set b"
    using p(2) q(2) by (simp add: sync_response_of_def r(2) Let_def wire_entries_def image_image)
  ultimately show ?thesis by blast
qed

lemma demo_nothing_left:
  fixes w :: deliver_world
  assumes "faults w = []" "bundle_cache w = []" "messages w = move_rows ''m'' StatePaused (messages demo_delivery)"
    and "segment_rows w = segment_rows demo_members"
  shows "\<exists>w1. shared_bundle_for (env_render demo_env) (env_marshal demo_env) {1} ''fr'' 1 3000 w = (Inr [], w1) \<and> faults w1 = []"
proof -
  have "segment_ids_for_ordinals [1] w = (Inr [''s''], w)" "eligible_message_ids [''s''] 3000 w = (Inr [], w)"
    by (simp_all add: segment_ids_for_ordinals_def eligible_message_ids_def wrapping_def query_calm assms
        demo_members_def move_rows_def demo_tables eligible_def demo_row_def pg_time_def)
  with assms show ?thesis
    by (simp add: shared_bundle_for_def Let_def get_cached_bundle_def and_then_def wrapping_def query_calm exec_calm
        assemble_shared_def set_cached_bundle_def index_bundle_def del: One_nat_def)
qed

theorem killed_campaign_never_sent_witness:
  "\<exists>w1 rsp w2. new_mux demo_server_env demo_server ''Bearer abc'' (Admin (UpdateMessageState ''m'' ''paused'')) 3000 demo_cached
      = (Inr (StateUpdated ''paused''), w1)
    \<and> new_mux demo_server_env demo_server (''Bearer '' @ demo_token) (Sync ''fr'' [] []) 3000 w1 = (Inr (Synced rsp), w2)
    \<and> ''m'' \<notin> ew_message ` set (rsp_entries rsp)"
proof -
  obtain w1 where w1: "new_mux demo_server_env demo_server ''Bearer abc'' (Admin (UpdateMessageState ''m'' ''paused'')) 3000 demo_cached
      = (Inr (StateUpdated ''paused''), w1)" "faults w1 = []" "bundle_cache w1 = []"
    "messages w1 = move_rows ''m'' StatePaused (messages demo_delivery)" "reverse_keys w1 = reverse_keys demo_cached"
    "segment_rows w1 = segment_rows demo_members" "channel_rows w1 = channel_rows demo_members"
    using demo_killed by blast
  from demo_nothing_left [OF w1(2-4,6)] obtain v where "shared_bundle_for (env_render demo_env) (env_marshal demo_env) {1} ''fr'' 1 3000 w1 = (Inr [], v)"
    "faults v = []" by blast
  from demo_synced [OF w1(2,5,7) this] obtain rsp w2 where
    sync: "new_mux demo_server_env demo_server (''Bearer '' @ demo_token) (Sync ''fr'' [] []) 3000 w1 = (Inr (Synced rsp), w2)"
    by blast
  have "known_publisher demo_server" "srv_redis demo_server" by (simp_all add: known_publisher_def demo_server_def)
  from killed_campaign_never_sent [of demo_server demo_cached "[]" demo_server_env "''Bearer abc''" "''m''" "''paused''" 3000 "[]"
      "StateUpdated ''paused''" w1 "[]" "''Bearer '' @ demo_token" "''fr''" "[]" "[]" 3000 "[]" rsp w2, OF this demo_indexed]
  have "''m'' \<notin> ew_message ` set (rsp_entries rsp)"
    using w1(1,2) sync by (simp add: demo_cached_tables)
  with w1(1) sync show ?thesis by blast
qed

text \<open>
  The theorem speaks of requests that follow each other, and needs to. A synchronization that assembled its bundle before
  the campaign was stopped, and writes it to the cache after, brings the campaign back, and since the cache has no expiry it is
  sent until the next change of that campaign.
\<close>

lemma demo_assembled:
  "\<exists>x. assemble_shared (env_render demo_env) [''s''] ''fr'' 1 3000 demo_cached = (Inr [x], demo_cached)
     \<and> bm_id x = ''m'' \<and> bm_variants x = [] \<and> length (bv_content (bm_fallback x)) \<le> 1024"
proof -
  have tables: "policies demo_cached = policies demo_delivery" "variant_rows demo_cached = variant_rows demo_delivery"
    "trigger_rows demo_cached = trigger_rows demo_delivery" "condition_rows demo_cached = condition_rows demo_delivery"
    by (simp_all add: demo_cached_def demo_deliver_def demo_delivery_def demo_members_def membership_world.defs payload_world.defs)
  have ids: "eligible_message_ids [''s''] 3000 demo_cached = (Inr [''m''], demo_cached)"
    by (simp add: eligible_message_ids_def wrapping_def query_calm demo_cached_tables demo_tables eligible_def demo_row_def pg_time_def)
  obtain m where m: "get_message ''m'' demo_cached = (Inr m, demo_cached)" "msg_id m = ''m''"
    "variants m = [zero_variant\<lparr>variant_id := ''v'', variant_message := ''m'', language := ''en'', weight := 100, schema := \<lparr>major = 1, minor = 0\<rparr>\<rparr>]"
    by (auto simp: get_message_def and_then_def wrapping_def remote_calm query_calm demo_cached_tables tables demo_tables rows_of_def
        demo_variant_of_row message_of_row_def empty_message_def)
  then show ?thesis
    by (auto simp: assemble_shared_def ids and_then_def wrapping_def to_bundle_message_def variants_supporting_major_def
        supports_major_def variants_for_language_def zero_variant_def to_bundle_variant_def demo_env_def)
qed

theorem stale_bundle_brings_campaign_back:
  "\<exists>b w1 w2 rsp w3. assemble_shared (env_render demo_env) [''s''] ''fr'' 1 3000 demo_cached = (Inr b, demo_cached)
    \<and> new_mux demo_server_env demo_server ''Bearer abc'' (Admin (UpdateMessageState ''m'' ''paused'')) 3000 demo_cached
        = (Inr (StateUpdated ''paused''), w1)
    \<and> set_cached_bundle demo_bundle_key [''s''] b w1 = (Inr (), w2)
    \<and> new_mux demo_server_env demo_server (''Bearer '' @ demo_token) (Sync ''fr'' [] []) 3000 w2 = (Inr (Synced rsp), w3)
    \<and> ''m'' \<in> ew_message ` set (rsp_entries rsp)"
proof -
  obtain x where x: "assemble_shared (env_render demo_env) [''s''] ''fr'' 1 3000 demo_cached = (Inr [x], demo_cached)"
    "bm_id x = ''m''" "bm_variants x = []" "length (bv_content (bm_fallback x)) \<le> 1024" using demo_assembled by blast
  obtain w1 where w1: "new_mux demo_server_env demo_server ''Bearer abc'' (Admin (UpdateMessageState ''m'' ''paused'')) 3000 demo_cached
      = (Inr (StateUpdated ''paused''), w1)" "faults w1 = []" "bundle_cache w1 = []"
    "messages w1 = move_rows ''m'' StatePaused (messages demo_delivery)" "reverse_keys w1 = reverse_keys demo_cached"
    "segment_rows w1 = segment_rows demo_members" "channel_rows w1 = channel_rows demo_members"
    using demo_killed by blast
  obtain w2 where w2: "set_cached_bundle demo_bundle_key [''s''] [x] w1 = (Inr (), w2)" "faults w2 = []"
    "bundle_cache w2 = [(demo_bundle_key, [x])]" "reverse_keys w2 = reverse_keys w1" "channel_rows w2 = channel_rows w1"
    using w1(2,3) by (simp add: set_cached_bundle_def index_bundle_def and_then_def wrapping_def exec_calm)
  have "shared_bundle_for (env_render demo_env) (env_marshal demo_env) {1} ''fr'' 1 3000 w2 = (Inr [x], w2)"
    using w2 by (simp add: shared_bundle_for_def Let_def get_cached_bundle_def and_then_def wrapping_def query_calm demo_bundle_key_def
        del: One_nat_def)
  from demo_synced [OF w2(2) _ _ this w2(2)] w1 w2 x obtain rsp w3 where
    "new_mux demo_server_env demo_server (''Bearer '' @ demo_token) (Sync ''fr'' [] []) 3000 w2 = (Inr (Synced rsp), w3)"
    "''m'' \<in> ew_message ` set (rsp_entries rsp)" by auto
  with x w1 w2 show ?thesis by blast
qed

end
