(* ===== verification/Access.thy ===== *)
theory Access
  imports KillSwitch
begin

text \<open>
  Who may do what: an administrative call runs only for a principal whose role covers it, and is recorded
  under that principal; a device's request acts on the channel its token names and on no other.
\<close>

section \<open>Administrators\<close>

text \<open>Entries that one subject added to the audit log.\<close>

definition signed_by :: "string \<Rightarrow> 'w deliver_world_scheme \<Rightarrow> 'w deliver_world_scheme \<Rightarrow> bool" where
  "signed_by who w0 w = (\<exists>new. audit_log w = audit_log w0 @ new \<and> list_all (\<lambda>a. ar_actor a = who) new)"

lemma signed_by_same: "audit_log w' = audit_log w \<Longrightarrow> signed_by who w0 w \<Longrightarrow> signed_by who w0 w'"
  by (simp add: signed_by_def)

lemma signed_by_blind: "fault_blind (signed_by who w0)"
  by (simp add: fault_blind_def signed_by_def)

lemma keeps_signed_remote: "(\<And>w. audit_log (snd (f w)) = audit_log w) \<Longrightarrow> keeps (signed_by who w0) (remote f)"
  by (rule keeps_remote [OF signed_by_blind]) (rule signed_by_same)

lemma keeps_signed_exec: "(\<And>w. audit_log (f w) = audit_log w) \<Longrightarrow> keeps (signed_by who w0) (exec f)"
  unfolding exec_def by (rule keeps_signed_remote) simp

lemmas signed_intros = keeps_and_then keeps_wrapping keeps_coded keeps_ret keeps_fail keeps_of_result keeps_if
  keeps_for_each keeps_map_io keeps_query [OF signed_by_blind] keeps_in_tx [OF signed_by_blind]

lemma signed_update:
  assumes "subject p = who"
  shows "keeps (signed_by who w0) (update_message_state_handler redis i st now (with_principal ctx p))"
proof -
  have audit: "keeps (signed_by who w0) (record_audit i from to who now)" for "from" to
    unfolding record_audit_def
    by (intro keeps_wrapping keeps_exec signed_by_blind) (auto simp: signed_by_def)
  have move: "keeps (signed_by who w0) (update_state i s who now)" for s
    unfolding update_state_def update_state_tx_def set_state_def
    by (intro signed_intros audit keeps_signed_exec keeps_signed_remote) simp_all
  have change: "keeps (signed_by who w0) (record_change i kind now)" for kind
    unfolding record_change_def by (intro signed_intros keeps_signed_exec keeps_signed_remote) simp_all
  have inval: "keeps (signed_by who w0) (invalidate_campaign i)"
    unfolding invalidate_campaign_def
    by (auto intro!: signed_intros keeps_signed_exec keeps_signed_remote split: option.split)
  show ?thesis
    unfolding update_message_state_handler_def Let_def
    by (auto simp: with_principal_def assms intro!: keeps_and_then keeps_coded keeps_ret move change inval)
qed

lemma signed_create: "keeps (signed_by who w0) (create_message_handler env d now)"
proof -
  have val: "keeps (signed_by who w0) (validate_message m now)" for m
    unfolding validate_message_def
    by (rule keepsI) (auto split: prod.split sum.split dest: keepsD [OF keeps_query [OF signed_by_blind]] intro: keeps_result [OF keeps_query [OF signed_by_blind]])
  have ins: "keeps (signed_by who w0) (insert_message g m)" for g m
    unfolding insert_message_def insert_message_row_def insert_policy_def insert_trigger_def insert_condition_def
      insert_variant_def checked_def Let_def
    by (intro signed_intros keeps_signed_remote) simp_all
  show ?thesis
    unfolding create_message_handler_def Let_def by (intro signed_intros val ins)
qed

lemma signed_reads: "only_reads m \<Longrightarrow> keeps (signed_by who w0) m"
  by (rule keeps_only_reads [OF _ signed_by_blind])

lemma get_handler_reads: "only_reads (get_message_handler i)"
  unfolding get_message_handler_def coded_def by (intro read_intros get_message_reads)

lemma list_handler_reads: "only_reads (list_audit_log_handler i)"
  unfolding list_audit_log_handler_def list_audit_log_def coded_def by (intro read_intros)

definition required_role :: "admin_call \<Rightarrow> role" where
  "required_role call = the (admin_role_by_procedure (admin_procedure call))"

lemma required_roles:
  "admin_role_by_procedure (admin_procedure call) = Some (required_role call)"
  "required_role (CreateMessage d) = RoleEditor" "required_role (UpdateMessageState i st) = RoleEditor"
  "required_role (GetMessage i) = RoleViewer" "required_role (ListAuditLog i) = RoleViewer"
  by (cases call) (simp_all add: required_role_def admin_role_by_procedure_def)

lemma serve_admin_signed: "signed_by (subject p) w (snd (serve_admin env s call now (with_principal ctx p) w))"
proof -
  have "keeps (signed_by (subject p) w) (serve_admin env s call now (with_principal ctx p))"
    by (cases call)
      (simp_all add: signed_update signed_create signed_reads get_handler_reads list_handler_reads)
  moreover have "signed_by (subject p) w w" by (simp add: signed_by_def)
  ultimately show ?thesis by (rule keepsD)
qed

lemma viewer_only_reads:
  assumes "required_role call = RoleViewer"
  shows "only_reads (serve_admin env s call now ctx)"
  using assms by (cases call) (simp_all add: required_roles get_handler_reads list_handler_reads)

lemma admin_call_cases:
  fixes w :: "'w deliver_world_scheme"
  assumes "new_mux env s authorization (Admin call) now w = (r, w')"
  obtains (refused) e where "r = Inl e" "w' = w"
    | (granted) authenticator p where "srv_authenticator s = Some authenticator"
      "authenticator (bearer_token authorization) = Inr p" "satisfies (principal_role p) (required_role call)"
      "serve_admin env s call now (with_principal background p) w = (r, w')"
  using assms
  by (auto simp: admin_auth_interceptor_def required_roles(1) split: option.splits sum.splits if_splits)

text \<open>
  C10: an administrative call changes nothing and answers an error, or its bearer authenticates as a principal whose
  role covers what the procedure requires, and every entry it adds to the audit log is under that principal's
  subject; a viewer's call changes nothing at all.
\<close>

theorem admin_calls_authorized:
  fixes w :: "'w deliver_world_scheme"
  assumes "new_mux env s authorization (Admin call) now w = (r, w')"
  shows "(\<not> is_ok r \<and> w' = w)
    \<or> (\<exists>authenticator p new. srv_authenticator s = Some authenticator
        \<and> authenticator (bearer_token authorization) = Inr p \<and> satisfies (principal_role p) (required_role call)
        \<and> audit_log w' = audit_log w @ new \<and> list_all (\<lambda>a. ar_actor a = subject p) new
        \<and> (required_role call = RoleViewer \<longrightarrow> (\<exists>fs. w' = w\<lparr>faults := fs\<rparr>)))"
  using assms
proof (cases rule: admin_call_cases)
  case (granted authenticator p)
  have "signed_by (subject p) w w'"
    using serve_admin_signed [of p w env s call now background] granted(4) by simp
  moreover have "\<exists>fs. w' = w\<lparr>faults := fs\<rparr>" if "required_role call = RoleViewer"
    using only_readsD [OF viewer_only_reads [OF that] granted(4)] .
  ultimately show ?thesis using granted(1-3) by (auto simp: signed_by_def)
qed simp

theorem admin_calls_authorized_witness:
  "\<exists>w1 new. new_mux demo_server_env demo_server ''Bearer abc'' (Admin (UpdateMessageState ''m'' ''paused'')) 3000 demo_cached
      = (Inr (StateUpdated ''paused''), w1)
    \<and> audit_log w1 = audit_log demo_cached @ new \<and> list_all (\<lambda>a. ar_actor a = ''alice'') new"
proof -
  obtain w1 where w1: "new_mux demo_server_env demo_server ''Bearer abc'' (Admin (UpdateMessageState ''m'' ''paused'')) 3000 demo_cached
      = (Inr (StateUpdated ''paused''), w1)" using demo_killed by blast
  have "authenticate [(''abc'', \<lparr>subject = ''alice'', principal_role = RoleEditor\<rparr>)] (bearer_token ''Bearer abc'')
      = Inr \<lparr>subject = ''alice'', principal_role = RoleEditor\<rparr>"
    by (simp add: authenticate_def bearer_token_def trim_prefix_def has_prefix_def)
  with admin_calls_authorized [OF w1] w1 show ?thesis by (auto simp: demo_server_def)
qed

section \<open>Devices\<close>

text \<open>What a request of a device may touch at all: nothing else of the world differs.\<close>

definition device_frame :: "'w deliver_world_scheme \<Rightarrow> 'w deliver_world_scheme \<Rightarrow> bool" where
  "device_frame w0 w =
     (w\<lparr>faults := faults w0, rl_counts := rl_counts w0, rl_expiring := rl_expiring w0, events_log := events_log w0,
        next_seq := next_seq w0, topic := topic w0, budgets := budgets w0, id_supply := id_supply w0,
        bundle_cache := bundle_cache w0, bundle_index := bundle_index w0, tag_cache := tag_cache w0\<rparr> = w0)"

text \<open>
  The cache of bundles is shared by the channels of the same segments. A bundle that a request of the channel \<open>c\<close> may put
  there is the one of the channel's own segments, assembled from the tables as they are.
\<close>

definition own_segments :: "string \<Rightarrow> 'w deliver_world_scheme \<Rightarrow> bitmap" where
  "own_segments c w = (case map_of (reverse_keys w) (reverse_key c) of None \<Rightarrow> {} | Some b \<Rightarrow> b)"

definition own_segment_ids :: "string \<Rightarrow> 'w deliver_world_scheme \<Rightarrow> string list" where
  "own_segment_ids c w = map sr_id (filter (\<lambda>r. sr_ordinal r \<in> int ` set (sorted_list_of_set (own_segments c w))) (segment_rows w))"

definition own_key :: "build_env \<Rightarrow> string \<Rightarrow> 'w deliver_world_scheme \<Rightarrow> string \<Rightarrow> int \<Rightarrow> string" where
  "own_key B c w lang d = bundle_key lang d (reverse_hash (env_marshal B) (own_segments c w))"

definition own_bundle :: "build_env \<Rightarrow> string \<Rightarrow> time \<Rightarrow> 'w deliver_world_scheme \<Rightarrow> string \<Rightarrow> message_bundle \<Rightarrow> bool" where
  "own_bundle B c now w0 k b =
     (\<exists>lang d v v'. k = own_key B c w0 lang d \<and> device_frame w0 v
        \<and> assemble_shared (env_render B) (own_segment_ids c w0) lang d now v = (Inr b, v'))"

text \<open>What a request of the channel \<open>c\<close> may have changed.\<close>

definition carries_channel :: "string \<Rightarrow> string \<times> json \<Rightarrow> bool" where
  "carries_channel c kv = (fst kv = c \<and> (\<exists>kvs. snd kv = JObj kvs \<and> map_of kvs ''channel_id'' = Some (JStr c)))"

definition only_own :: "build_env \<Rightarrow> string \<Rightarrow> time \<Rightarrow> 'w deliver_world_scheme \<Rightarrow> 'w deliver_world_scheme \<Rightarrow> bool" where
  "only_own B c now w0 w =
     (device_frame w0 w
      \<and> (\<exists>new. events_log w = events_log w0 @ new \<and> list_all (\<lambda>r. row_channel r = c) new)
      \<and> (\<exists>new. topic w = topic w0 @ new \<and> list_all (carries_channel c) new)
      \<and> (\<forall>k. k \<noteq> budget_key c \<longrightarrow> budgets w k = budgets w0 k)
      \<and> (\<forall>k. k \<noteq> rate_key default_rate_limit c now \<longrightarrow> rl_counts w k = rl_counts w0 k \<and> rl_expiring w k = rl_expiring w0 k)
      \<and> (\<forall>k. k \<noteq> tag_key c \<longrightarrow> map_of (tag_cache w) k = map_of (tag_cache w0) k)
      \<and> (\<forall>k. map_of (bundle_cache w) k = map_of (bundle_cache w0) k
           \<or> map_of (bundle_cache w0) k = None \<and> (\<exists>b. map_of (bundle_cache w) k = Some b \<and> own_bundle B c now w0 k b))
      \<and> (\<forall>s. set (index_keys (bundle_index w0) s) \<subseteq> set (index_keys (bundle_index w) s)
           \<and> (\<forall>k\<in>set (index_keys (bundle_index w) s) - set (index_keys (bundle_index w0) s).
                s \<in> set (own_segment_ids c w0) \<and> (\<exists>lang d. k = own_key B c w0 lang d))))"

lemma own_blind: "fault_blind (only_own B c now w0)"
  by (simp add: fault_blind_def only_own_def device_frame_def)

lemma own_refl: "only_own B c now w w"
  by (simp add: only_own_def device_frame_def)

text \<open>The tables a request of a device leaves alone.\<close>

lemma device_frame_tables:
  assumes "device_frame w0 w"
  shows "messages w = messages w0" "audit_log w = audit_log w0" "change_log w = change_log w0" "policies w = policies w0"
    "channel_rows w = channel_rows w0" "ordinal_rows w = ordinal_rows w0" "segment_rows w = segment_rows w0"
    "forward_rows w = forward_rows w0" "generation w = generation w0" "reverse_keys w = reverse_keys w0"
  using assms [unfolded device_frame_def, THEN arg_cong, of messages] assms [unfolded device_frame_def, THEN arg_cong, of audit_log]
    assms [unfolded device_frame_def, THEN arg_cong, of change_log] assms [unfolded device_frame_def, THEN arg_cong, of policies]
    assms [unfolded device_frame_def, THEN arg_cong, of channel_rows] assms [unfolded device_frame_def, THEN arg_cong, of ordinal_rows]
    assms [unfolded device_frame_def, THEN arg_cong, of segment_rows] assms [unfolded device_frame_def, THEN arg_cong, of forward_rows]
    assms [unfolded device_frame_def, THEN arg_cong, of generation] assms [unfolded device_frame_def, THEN arg_cong, of reverse_keys]
  by simp_all

lemma own_tables:
  assumes "only_own B c now w0 w"
  shows "reverse_keys w = reverse_keys w0" "segment_rows w = segment_rows w0"
  using assms device_frame_tables [of w0 w] by (simp_all add: only_own_def)

lemma keeps_own_exec: "(\<And>w. only_own B c now w0 w \<Longrightarrow> only_own B c now w0 (f w)) \<Longrightarrow> keeps (only_own B c now w0) (exec f)"
  by (rule keeps_exec [OF own_blind])

lemmas own_intros = keeps_and_then keeps_wrapping keeps_coded keeps_ret keeps_fail keeps_of_result keeps_if
  keeps_query [OF own_blind]

lemma own_budget: "keeps (only_own B c now w0) (budget_eval window c t n cap)"
  unfolding budget_eval_def
  by (auto intro!: own_intros keeps_remote [OF own_blind] simp: Let_def only_own_def device_frame_def split: prod.split)

text \<open>Both publishers write what they are given, under its channel.\<close>

definition publishes_own :: "build_env \<Rightarrow> string \<Rightarrow> time \<Rightarrow> 'w deliver_world_scheme
    \<Rightarrow> (event list \<Rightarrow> time \<Rightarrow> ('w, int) deliver_io) \<Rightarrow> bool" where
  "publishes_own B c now w0 publish = (\<forall>es t. list_all (\<lambda>e. ev_channel e = c) es \<longrightarrow> keeps (only_own B c now w0) (publish es t))"

lemma own_append: "publishes_own B c now w0 postgres_publish"
  unfolding publishes_own_def
proof (intro allI impI)
  fix es :: "event list" and t assume es: "list_all (\<lambda>e. ev_channel e = c) es"
  have step: "only_own B c now w0 (snd (insert_event e t w))" if "ev_channel e = c" "only_own B c now w0 w" for e w
    using that by (auto simp: insert_event_def Let_def only_own_def device_frame_def)
  have "only_own B c now w0 (snd (insert_events es t w))" if "only_own B c now w0 w" for w
    using es that
  proof (induction es arbitrary: w)
    case (Cons e es)
    then have "ev_channel e = c" "list_all (\<lambda>e. ev_channel e = c) es" by simp_all
    with Cons.IH [OF _ step] Cons.prems(2) show ?case unfolding snd_insert_events by blast
  qed simp
  then show "keeps (only_own B c now w0) (postgres_publish es t)"
    unfolding postgres_publish_def append_to_log_def
    by (intro keeps_wrapping keeps_remote own_blind) (simp add: case_prod_unfold)
qed

lemma own_log: "publishes_own B c now w0 (log_publish put_time)"
  unfolding publishes_own_def
proof (intro allI impI)
  fix es :: "event list" and t assume es: "list_all (\<lambda>e. ev_channel e = c) es"
  have "keeps (only_own B c now w0) (log_publish_from put_time i es t)" for i
    using es
  proof (induction es arbitrary: i)
    case (Cons e es)
    show ?case
    proof (cases "encode_log put_time (e\<lparr>server_time := t\<rparr>)")
      case (Inl err)
      then show ?thesis by (simp add: keeps_def and_then_def wrapping_def)
    next
      case (Inr v)
      with Cons.prems have "carries_channel c (partition_key (ev_channel e), v)"
        by (auto simp: carries_channel_def partition_key_def encode_log_def res_bind_Inr_iff)
      then have "keeps (only_own B c now w0) (producer_publish (partition_key (ev_channel e)) v)"
        unfolding producer_publish_def
        by (intro own_intros keeps_own_exec) (auto simp: only_own_def device_frame_def)
      then have "keeps (only_own B c now w0) (and_then (wrapping ''ingest: publish event to log''
          (producer_publish (partition_key (ev_channel e)) v)) (\<lambda>_. log_publish_from put_time (Suc i) es t))"
        using Cons by (intro own_intros) simp_all
      then show ?thesis by (simp add: Inr keeps_def and_then_Inr wrapping_Inr)
    qed
  qed (simp add: keeps_ret)
  then show "keeps (only_own B c now w0) (log_publish put_time es t)" by (simp add: log_publish_def)
qed

lemma own_publisher:
  assumes "known_publisher s"
  shows "publishes_own B c now w0 (ds_publisher (delivery_server_of s))"
  using assms own_append own_log by (auto simp: known_publisher_def delivery_server_of_def)

lemma own_record:
  assumes "publishes_own B c now w0 publish" "ev_channel e = c"
  shows "keeps (only_own B c now w0) (record_event publish e t)"
  using assms unfolding record_event_def publishes_own_def by (intro own_intros) simp_all

lemma own_record_later:
  assumes "publishes_own B c now w0 publish" "\<And>n. ev_channel (e n) = c"
  shows "keeps (only_own B c now w0) (\<lambda>w. record_event publish (e (id_supply w)) t (w\<lparr>id_supply := Suc (id_supply w)\<rparr>))"
proof (rule keepsI)
  fix w :: "'a deliver_world_scheme" assume "only_own B c now w0 w"
  then have "only_own B c now w0 (w\<lparr>id_supply := Suc (id_supply w)\<rparr>)" by (simp add: only_own_def device_frame_def)
  then show "only_own B c now w0 (snd (record_event publish (e (id_supply w)) t (w\<lparr>id_supply := Suc (id_supply w)\<rparr>)))"
    by (rule keepsD [OF own_record [OF assms]])
qed

lemma own_reads: "only_reads m \<Longrightarrow> keeps (only_own B c now w0) m"
  by (rule keeps_only_reads [OF _ own_blind])

lemma own_overlay:
  assumes "publishes_own B c now w0 publish"
  shows "keeps (only_own B c now w0) (overlay_all g publish c t b)"
proof (induction b)
  case (Cons x b)
  have "keeps (only_own B c now w0) (apply_overlay g publish x c t)"
    unfolding apply_overlay_def record_holdout_qualified_def
    by (intro own_intros)
      (auto intro!: own_intros own_record_later [OF assms] split: prod.split option.split)
  with Cons show ?case by (auto simp only: overlay_all.simps intro!: own_intros)
qed (simp only: overlay_all.simps keeps_ret)

section \<open>The shared bundles a device may add\<close>

text \<open>A step that answers with a value of which something is known, and what follows it.\<close>

lemma keeps_knowing:
  assumes "triple I m (\<lambda>x w. I w \<and> C x) I" "\<And>x. C x \<Longrightarrow> keeps I (f x)"
  shows "keeps I (and_then m f)"
  by (rule keeps_triple) (intro triple_and_then [OF assms(1)] triple_know triple_keeps assms(2))

lemma own_segments_known:
  "triple (only_own B c now w0) (get_reverse c) (\<lambda>bm w. only_own B c now w0 w \<and> bm = own_segments c w0) (only_own B c now w0)"
  unfolding get_reverse_def
  by (rule triple_post [OF triple_wrapping [OF triple_query [OF own_blind]]])
    (simp add: own_tables own_segments_def)

lemma reads_value:
  assumes "only_reads m" "fault_blind P"
  shows "triple P m (\<lambda>x w. P w \<and> (\<exists>v v'. P v \<and> m v = (Inr x, v'))) P"
proof (rule tripleI)
  fix w assume "P w"
  obtain r w' where m: "m w = (r, w')" by force
  from only_readsD [OF assms(1) m] assms(2) \<open>P w\<close> have "P w'" by (auto simp: fault_blind_def)
  with m \<open>P w\<close> show "case m w of (Inl e, w') \<Rightarrow> P w' | (Inr x, w') \<Rightarrow> P w' \<and> (\<exists>v v'. P v \<and> m v = (Inr x, v'))"
    by (cases r) auto
qed

lemma own_index_put:
  assumes "only_own B c now w0 w" "s \<in> set (own_segment_ids c w0)" "\<exists>lang d. key = own_key B c w0 lang d"
    and idx: "\<And>t. set (index_keys idx t) = (if t = s then insert key (set (index_keys (bundle_index w) t)) else set (index_keys (bundle_index w) t))"
  shows "only_own B c now w0 (w\<lparr>bundle_index := idx\<rparr>)"
  using assms(1-3) unfolding only_own_def device_frame_def by (simp add: idx) blast

lemma own_index:
  assumes "set sids \<subseteq> set (own_segment_ids c w0)" "key = own_key B c w0 lang d"
  shows "keeps (only_own B c now w0) (for_each (index_bundle key) sids)"
  using assms(1)
proof (induction sids)
  case (Cons s sids)
  have idx: "set (index_keys (upsert (\<lambda>ks. case ks of None \<Rightarrow> [key] | Some ks \<Rightarrow> List.insert key ks) (bundle_segment_index_key s) idx) t)
      = (if t = s then insert key (set (index_keys idx t)) else set (index_keys idx t))" for idx t
    using index_keys_fold [of key "[s]" idx t] by simp
  have "keeps (only_own B c now w0) (index_bundle key s)"
    unfolding index_bundle_def
  proof (rule keeps_own_exec)
    fix w :: "'a deliver_world_scheme" assume "only_own B c now w0 w"
    then show "only_own B c now w0 (w\<lparr>bundle_index := upsert (\<lambda>ks. case ks of None \<Rightarrow> [key] | Some ks \<Rightarrow> List.insert key ks)
        (bundle_segment_index_key s) (bundle_index w)\<rparr>)"
      using Cons.prems assms(2) by (intro own_index_put [OF _ _ _ idx]) auto
  qed
  with Cons show ?case by (auto intro!: own_intros)
qed (simp add: keeps_ret)

lemma own_cache:
  assumes b: "own_bundle B c now w0 key b" and key: "key = own_key B c w0 lang d" and "set sids \<subseteq> set (own_segment_ids c w0)"
  shows "triple (\<lambda>w. only_own B c now w0 w \<and> map_of (bundle_cache w) key = None)
    (set_cached_bundle key sids b) (\<lambda>_. only_own B c now w0) (only_own B c now w0)"
  unfolding set_cached_bundle_def
proof (intro triple_and_then triple_wrapping)
  have blind: "fault_blind (\<lambda>w. only_own B c now w0 w \<and> map_of (bundle_cache w) key = None)"
    using own_blind [of B c now w0] by (simp add: fault_blind_def)
  have put: "only_own B c now w0 (w\<lparr>bundle_cache := upsert (\<lambda>_. b) key (bundle_cache w)\<rparr>)"
    if w: "only_own B c now w0 w" "map_of (bundle_cache w) key = None" for w
  proof -
    have "map_of (bundle_cache w0) key = None" using w by (auto simp: only_own_def dest!: spec [of _ key])
    with w b show ?thesis by (auto simp: only_own_def device_frame_def map_of_upsert)
  qed
  show "triple (\<lambda>w. only_own B c now w0 w \<and> map_of (bundle_cache w) key = None)
      (exec (\<lambda>w. w\<lparr>bundle_cache := upsert (\<lambda>_. b) key (bundle_cache w)\<rparr>)) (\<lambda>_. only_own B c now w0) (only_own B c now w0)"
    unfolding exec_def by (rule triple_remote [OF blind]) (simp_all add: put)
  show "triple (only_own B c now w0) (if sids = [] then ret () else wrapping ''payload: index bundle'' (for_each (index_bundle key) sids))
      (\<lambda>_. only_own B c now w0) (only_own B c now w0)"
    using own_index [OF assms(3) key] by (intro triple_keeps own_intros)
qed

lemma shared_reads: "only_reads (assemble_shared render sids lang d t)"
  unfolding assemble_shared_def eligible_message_ids_def by (simp add: only_reads_ret) (intro impI read_intros assemble_reads)

lemma own_shared:
  fixes w0 :: "'w deliver_world_scheme"
  shows "keeps (only_own B c now w0) (shared_bundle_for (env_render B) (env_marshal B) (own_segments c w0) lang d now)"
proof (rule keeps_triple)
  let ?I = "only_own B c now w0" and ?key = "own_key B c w0 lang d" and ?sids = "own_segment_ids c w0"
  let ?P = "\<lambda>w. ?I w \<and> map_of (bundle_cache w) ?key = None"
  have blind: "fault_blind ?P" using own_blind [of B c now w0] by (simp add: fault_blind_def)
  have assemble: "triple ?P (and_then (assemble_shared (env_render B) ?sids lang d now)
      (\<lambda>b. and_then (set_cached_bundle ?key ?sids b) (\<lambda>_. ret b))) (\<lambda>_. ?I) ?I"
  proof (rule triple_and_then)
    show "triple ?P (assemble_shared (env_render B) ?sids lang d now) (\<lambda>b w. ?P w \<and> own_bundle B c now w0 ?key b) ?I"
      by (rule triple_weaken [OF reads_value [OF shared_reads blind]]) (auto simp: own_bundle_def only_own_def)
    fix b
    show "triple (\<lambda>w. ?P w \<and> own_bundle B c now w0 ?key b) (and_then (set_cached_bundle ?key ?sids b) (\<lambda>_. ret b)) (\<lambda>_. ?I) ?I"
      by (intro triple_know triple_and_then [OF own_cache] triple_ret) (simp_all add: order_refl)
  qed
  have "triple ?P (segment_ids_for_ordinals (sorted_list_of_set (own_segments c w0))) (\<lambda>sids w. ?P w \<and> sids = ?sids) ?I"
    unfolding segment_ids_for_ordinals_def
    by (rule triple_weaken [OF triple_wrapping [OF triple_query [OF blind]]])
      (auto simp: own_segment_ids_def own_tables)
  then have missing: "triple ?P (and_then (segment_ids_for_ordinals (sorted_list_of_set (own_segments c w0))) (\<lambda>sids.
      and_then (assemble_shared (env_render B) sids lang d now) (\<lambda>b. and_then (set_cached_bundle ?key sids b) (\<lambda>_. ret b)))) (\<lambda>_. ?I) ?I"
    by (rule triple_and_then) (rule triple_know, simp add: assemble)
  have "triple ?I (get_cached_bundle ?key) (\<lambda>cached w. ?I w \<and> cached = map_of (bundle_cache w) ?key) ?I"
    unfolding get_cached_bundle_def by (rule triple_wrapping [OF triple_query [OF own_blind]])
  then show "triple ?I (shared_bundle_for (env_render B) (env_marshal B) (own_segments c w0) lang d now) (\<lambda>_. ?I) ?I"
    unfolding shared_bundle_for_def Let_def own_key_def [symmetric]
  proof (rule triple_and_then)
    fix cached
    show "triple (\<lambda>w. ?I w \<and> cached = map_of (bundle_cache w) ?key)
        (case cached of None \<Rightarrow> and_then (segment_ids_for_ordinals (sorted_list_of_set (own_segments c w0))) (\<lambda>sids.
            and_then (assemble_shared (env_render B) sids lang d now) (\<lambda>b. and_then (set_cached_bundle ?key sids b) (\<lambda>_. ret b)))
         | Some b \<Rightarrow> ret b) (\<lambda>_. ?I) ?I"
      by (intro triple_case_option triple_ret triple_weaken [OF missing]) simp_all
  qed
qed

lemma own_sync:
  assumes pub: "publishes_own B c now w0 publish"
  shows "keeps (only_own B c now w0) (sync_channel B (Some publish) c lang tag tok now cfg)"
proof -
  have rev: "keeps (only_own B c now w0) (supported_schema_major c)" "keeps (only_own B c now w0) (read_tag c tag now)"
    unfolding supported_schema_major_def read_tag_def cached_tag_def
    by (intro own_intros own_reads [OF only_reads_remote]; simp)+
  have build: "keeps (only_own B c now w0) (build_payload B (Some publish) c lang now limit interval jitter)" for limit interval jitter
    unfolding build_payload_def Let_def option.case
    by (rule keeps_knowing [OF triple_wrapping [OF own_segments_known]], simp only:)
      (intro own_intros own_shared own_overlay [OF pub] rev)
  have budget: "keeps (only_own B c now w0) (issue_budget cfg c now p)" for p
    unfolding issue_budget_def remaining_def
    by (auto intro!: own_intros own_budget simp: Let_def)
  have cache: "keeps (only_own B c now w0) (cache_tag c g ttl now)" for g ttl
    unfolding cache_tag_def by (intro own_intros keeps_own_exec) (simp add: only_own_def device_frame_def)
  have delta: "keeps (only_own B c now w0) (compute_delta (env_marshal B) c es tok now)" for es
    by (rule own_reads [OF reads_delta])
  show ?thesis
    unfolding sync_channel_def Let_def
    by (intro own_intros rev build budget cache delta)
      (auto intro!: own_intros rev build budget cache delta split: prod.split option.split)
qed

section \<open>Handlers\<close>

text \<open>A handler behind the interceptor acts on the channel of the token.\<close>

lemma and_then_channel:
  "and_then (require_channel_id (with_channel_id ctx c)) f
    = (if c = [] then fail (new_error CodeInternal (Errorf ''no authenticated channel id in context'')) else f c)"
  by (rule ext) (simp add: require_channel_id_def with_channel_id_def and_then_def)

lemma own_confirm:
  assumes "publishes_own B c now w0 (ds_publisher d)"
  shows "keeps (only_own B c now w0) (confirm_handler env d i t (with_channel_id ctx c))"
proof -
  have exempt: "keeps (only_own B c now w0) (is_exempt_from_project_cap i)"
    unfolding is_exempt_from_project_cap_def by (intro own_reads read_intros only_reads_remote) simp
  have check: "keeps (only_own B c now w0) (check_and_increment window c cap t)" for window cap
    unfolding check_and_increment_def by (auto intro!: own_intros own_budget)
  have "keeps (only_own B c now w0) (check_project_budget g (ds_publisher d) i c t)" for g
    unfolding check_project_budget_def
    by (intro own_intros exempt check own_record_later [OF assms]) (simp add: suppression_event_def)
  then show ?thesis
    unfolding confirm_handler_def confirm_display_def and_then_channel
    by (auto intro!: own_intros split: option.split)
qed

lemma screened_channel:
  "screen_batch c es t res = Inr (valid, res') \<Longrightarrow> list_all (\<lambda>e. ev_channel e = c) valid"
  by (induction es arbitrary: res valid res')
    (auto split: if_splits sum.splits simp: res_bind_Inr_iff)

lemma own_submit:
  assumes pub: "publishes_own B c now w0 publish"
  shows "keeps (only_own B c now w0) (submit_handler env redis publish events now (with_channel_id ctx c))"
proof -
  have allow: "keeps (only_own B c now w0) (allow default_rate_limit c n now)" for n
    unfolding allow_def incr_by_def Let_def
    by (intro own_intros keeps_own_exec keeps_remote own_blind) (auto simp: only_own_def device_frame_def)
  have "keeps (only_own B c now w0) (accept publish default_rate_limit c es now)" for es
  proof (cases "screen_batch c es now no_events")
    case (Inl e)
    then show ?thesis by (simp add: accept_def and_then_def keeps_def)
  next
    case (Inr vr)
    obtain valid res where vr: "vr = (valid, res)" by force
    have "keeps (only_own B c now w0) (publish valid now)"
      using pub screened_channel Inr vr unfolding publishes_own_def by blast
    then have "keeps (only_own B c now w0) (if valid = [] then ret res
        else and_then (wrapping ''ingest: rate limit check'' (allow default_rate_limit c (int (length valid)) now)) (\<lambda>allowed.
         if \<not> allowed then ret (res\<lparr>rejected_rate_limited := int (length valid)\<rparr>)
         else and_then (publish valid now) (\<lambda>n. ret (res\<lparr>accepted := n\<rparr>))))"
      by (intro own_intros allow)
    then show ?thesis
      by (simp add: accept_def Inr vr keeps_def and_then_Inr)
  qed
  then show ?thesis
    unfolding submit_handler_def and_then_channel
    by (auto intro!: own_intros)
qed

fun device_request :: "request \<Rightarrow> bool" where
  "device_request (Sync lang tag tok) = True"
| "device_request (Confirm i) = True"
| "device_request (Submit events) = True"
| "device_request req = False"

lemma device_request_cases:
  fixes w :: "'w deliver_world_scheme"
  assumes "new_mux env s authorization req now w = (r, w')" "device_request req" "known_publisher s"
  obtains (refused) e where "r = Inl e" "w' = w"
    | (served) c where "verify_token (se_parse env) (srv_secret s) (bearer_token authorization) now = Inr c"
        "only_own (se_build env) c now w w'"
proof -
  note pub = own_publisher [OF assms(3)]
  have sync: "keeps (only_own (se_build env) c now w)
      (sync_handler env (delivery_server_of s) lang tag tok now (with_channel_id background c))" for c lang tag tok
    unfolding sync_handler_def and_then_channel by (intro own_intros own_sync pub)
  from assms(2) obtain handler where h: "new_mux env s authorization req now = behind_device_auth env s authorization now handler"
    and own: "\<And>c. keeps (only_own (se_build env) c now w) (handler (with_channel_id background c))"
    using sync own_confirm [OF pub] own_submit [OF pub] by (cases req) auto
  show thesis
  proof (cases "\<exists>c. device_services s \<and> bearer_token authorization \<noteq> []
      \<and> verify_token (se_parse env) (srv_secret s) (bearer_token authorization) now = Inr c")
    case True
    then obtain c where c: "device_services s" "bearer_token authorization \<noteq> []"
      "verify_token (se_parse env) (srv_secret s) (bearer_token authorization) now = Inr c" by blast
    with assms(1) h have "handler (with_channel_id background c) w = (r, w')"
      by (simp add: behind_device_auth_def device_auth_interceptor_def Let_def)
    with keepsD [OF own own_refl] have "only_own (se_build env) c now w w'" by (metis snd_conv)
    with c served show thesis by blast
  next
    case False
    with assms(1) h refused show thesis
      by (auto simp: behind_device_auth_def device_auth_interceptor_def Let_def split: if_splits sum.splits)
  qed
qed

text \<open>
  C9: a device's request, to a process with either publisher, changes nothing and answers an error, or its token verifies
  for a channel and all it changes is this: the events it adds, to the table or to the log, carry that channel whatever the
  request says; of the budgets, the rates and the entity tags only those of that channel move; and to the
  bundles, which the channels of the same segments share, it may add the one of that channel's own segments where there
  was none, as assembled from the tables, and its entry in the index. Nothing else of the world differs: no campaign, no
  membership, no channel, no audit or change entry.
\<close>

theorem device_acts_on_own_channel:
  fixes w :: "'w deliver_world_scheme"
  assumes "new_mux env s authorization req now w = (r, w')" and "device_request req" and "known_publisher s"
  shows "(\<not> is_ok r \<and> w' = w)
    \<or> (\<exists>c. verify_token (se_parse env) (srv_secret s) (bearer_token authorization) now = Inr c
         \<and> only_own (se_build env) c now w w')"
  using assms(2,3) by (cases rule: device_request_cases [OF assms(1)]) auto

text \<open>A device that claims another channel in the events it sends.\<close>

definition demo_wire :: event_wire where
  "demo_wire = \<lparr>evw_id = ''x'', evw_channel = ''c2'', evw_kind = ''custom'', evw_name = ''tapped'', evw_time = Some 2000,
     evw_properties = [], evw_message = [], evw_variant = [], evw_reason = []\<rparr>"

theorem device_acts_on_own_channel_witness:
  "\<exists>r w'. new_mux demo_server_env demo_server (''Bearer '' @ demo_token) (Submit [demo_wire]) 3000 demo_cached = (Inr r, w')
     \<and> only_own (se_build demo_server_env) ''c1'' 3000 demo_cached w'"
proof -
  have tok: "bearer_token (''Bearer '' @ demo_token) = demo_token" by (simp add: bearer_token_def trim_prefix_def has_prefix_def)
  have ne: "demo_token \<noteq> []" using demo_verified by (auto simp: verify_token_def)
  obtain e where e: "from_wire (se_parse demo_server_env) demo_wire = Inr e"
    by (simp add: from_wire_def demo_wire_def)
  let ?es = "[e\<lparr>ev_channel := ''c1''\<rparr>]"
  have "is_ok (screen_batch ''c1'' ?es 3000 no_events)" by simp
  then have "is_ok (fst (accept postgres_publish default_rate_limit ''c1'' ?es 3000 demo_cached))"
    by (cases "screen_batch ''c1'' ?es 3000 no_events")
      (auto simp: accept_def and_then_def allow_def incr_by_def wrapping_def remote_calm exec_calm demo_cached_tables(1) Let_def
        postgres_publish_def append_to_log_def simp del: screen_batch.simps split: prod.split)
  then obtain a w' where acc: "accept postgres_publish default_rate_limit ''c1'' ?es 3000 demo_cached = (Inr a, w')"
    by (cases "accept postgres_publish default_rate_limit ''c1'' ?es 3000 demo_cached"; cases "fst (accept postgres_publish default_rate_limit ''c1'' ?es 3000 demo_cached)") auto
  obtain r where run: "new_mux demo_server_env demo_server (''Bearer '' @ demo_token) (Submit [demo_wire]) 3000 demo_cached = (Inr r, w')"
    using e acc ne tok demo_verified
    by (simp add: behind_device_auth_def device_services_def device_auth_interceptor_def demo_server_def Let_def submit_handler_def
        require_channel_id_def with_channel_id_def delivery_server_of_def and_then_def coded_def wrapping_def)
  have "verify_token (se_parse demo_server_env) (srv_secret demo_server) (bearer_token (''Bearer '' @ demo_token)) 3000 = Inr ''c1''"
    using demo_verified tok by (simp add: demo_server_def)
  moreover have "known_publisher demo_server" by (simp add: known_publisher_def demo_server_def)
  ultimately have "only_own (se_build demo_server_env) ''c1'' 3000 demo_cached w'"
    using device_acts_on_own_channel [OF run] by simp
  with run show ?thesis by blast
qed

end
