(* ===== verification/EventLog.thy ===== *)
theory EventLog
  imports Consumer
begin

text \<open>
  The consuming half of \<^verbatim>\<open>internal/platform/eventlog\<close> over a topic of several partitions: what \<^verbatim>\<open>Poll\<close> makes of a
  fetch, what \<^verbatim>\<open>Commit\<close> records for the group, and what a reader that acts on a batch before it commits it gets to
  see. Of the client library the model has what it documents: a poll moves the client's position past every record
  it fetched, a commit sets the group's offset of a partition behind the last record of it, and a new member of the
  group starts from the offsets.
\<close>

section \<open>The client of a consumer group\<close>

record log_record =
  rec_key :: string
  rec_value :: json
  rec_partition :: nat
  rec_offset :: nat

record log_world = world +
  part_log :: "nat \<Rightarrow> (string \<times> json) list"
  fetch_position :: "nat \<Rightarrow> nat"
  committed_offset :: "nat \<Rightarrow> nat"
  acted_on :: "(nat \<times> nat) set"

type_synonym ('w, 'a) log_io = "'w log_world_scheme \<Rightarrow> 'a result \<times> 'w log_world_scheme"

definition new_consumer :: "bool \<Rightarrow> log_config \<Rightarrow> string \<Rightarrow> (string \<times> string) result" where
  "new_consumer built c groupID =
     res_bind (validate_log_config c) (\<lambda>_.
       if trim_space groupID = [] then Inl (Errorf ''eventlog: consumer group id is required'')
       else if built then Inr (log_topic c, groupID)
       else Inl (Wrap ''eventlog: new consumer client'' IOFailure))"

definition rejoin :: "'w log_world_scheme \<Rightarrow> 'w log_world_scheme" where
  "rejoin w = w\<lparr>fetch_position := committed_offset w\<rparr>"

text \<open>
  What a poll fetches is up to the brokers: of some partitions, some records, an error or both. The end of the
  context is reported as a fetch of no topic with the context's error.
\<close>

record fetch =
  ft_topic :: string
  ft_partition :: nat
  ft_count :: nat
  ft_error :: "go_error option"

record fetch_error =
  fe_topic :: string
  fe_partition :: nat
  fe_error :: go_error

definition next_records :: "nat \<Rightarrow> nat \<Rightarrow> 'w log_world_scheme \<Rightarrow> log_record list" where
  "next_records p n w =
     map (\<lambda>i. \<lparr>rec_key = fst (part_log w p ! i), rec_value = snd (part_log w p ! i), rec_partition = p, rec_offset = i\<rparr>)
       [fetch_position w p ..< min (fetch_position w p + n) (length (part_log w p))]"

definition errors_of_fetch :: "fetch \<Rightarrow> fetch_error list" where
  "errors_of_fetch f =
     (case ft_error f of None \<Rightarrow> [] | Some e \<Rightarrow> [\<lparr>fe_topic = ft_topic f, fe_partition = ft_partition f, fe_error = e\<rparr>])"

fun poll_fetches :: "fetch list \<Rightarrow> 'w log_world_scheme \<Rightarrow> (log_record list \<times> fetch_error list) \<times> 'w log_world_scheme" where
  "poll_fetches [] w = (([], []), w)"
| "poll_fetches (f # fs) w =
     (let p = ft_partition f; rs = next_records p (ft_count f) w;
          ((rs', es), w') = poll_fetches fs (w\<lparr>fetch_position := (fetch_position w)(p := fetch_position w p + length rs)\<rparr>)
      in ((rs @ rs', errors_of_fetch f @ es), w'))"

section \<open>The code's consumer\<close>

definition format_fetch_errors :: "(go_error \<Rightarrow> string) \<Rightarrow> fetch_error list \<Rightarrow> string" where
  "format_fetch_errors error_text es =
     join ''; '' (map (\<lambda>e. fe_topic e @ ''['' @ dec_of_nat (fe_partition e) @ '']: '' @ error_text (fe_error e)) es)"

definition real_errors :: "sentinel option \<Rightarrow> fetch_error list \<Rightarrow> fetch_error list" where
  "real_errors ctx_err es =
     filter (\<lambda>e. \<not> (case ctx_err of None \<Rightarrow> False | Some s \<Rightarrow> errors_is (fe_error e) s)) es"

definition poll_log :: "(go_error \<Rightarrow> string) \<Rightarrow> sentinel option \<Rightarrow> fetch list \<Rightarrow> ('w, log_record list) log_io" where
  "poll_log error_text ctx_err fetches = (\<lambda>w.
     let ((rs, es), w') = poll_fetches fetches w; realErrs = real_errors ctx_err es
     in if realErrs \<noteq> [] then (Inl (Errorf (''eventlog: poll: '' @ format_fetch_errors error_text realErrs)), w')
        else (Inr rs, w'))"

text \<open>The offset behind the last record of a partition in a batch, or 0 when it has none.\<close>

definition behind_last :: "log_record list \<Rightarrow> nat \<Rightarrow> nat" where
  "behind_last rs p = foldr (\<lambda>r m. if rec_partition r = p then max m (Suc (rec_offset r)) else m) rs 0"

definition commit_log :: "log_record list \<Rightarrow> ('w, unit) log_io" where
  "commit_log rs =
     (if rs = [] then ret ()
      else wrapping ''eventlog: commit offsets'' (exec (\<lambda>w. w\<lparr>committed_offset :=
        (\<lambda>p. if behind_last rs p = 0 then committed_offset w p else behind_last rs p)\<rparr>)))"

section \<open>A reader that acts, then commits\<close>

text \<open>
  The order of \<^verbatim>\<open>RunOnceFromLog\<close>: poll, decode, act on the batch in one transaction, commit, reconcile the budget, which
  may fail and touches nothing of the log. The record \<open>acted_on\<close> has the partition and the offset of what was acted on; what
  the act and the reconciliation do is in theory Consumer.
\<close>

definition act_on :: "log_record list \<Rightarrow> ('w, unit) log_io" where
  "act_on rs = wrapping ''consumer: commit'' (exec (\<lambda>w. w\<lparr>acted_on := acted_on w \<union> (\<lambda>r. (rec_partition r, rec_offset r)) ` set rs\<rparr>))"

definition read_round ::
  "(go_error \<Rightarrow> string) \<Rightarrow> (string \<Rightarrow> time option) \<Rightarrow> bool \<Rightarrow> sentinel option \<Rightarrow> fetch list \<Rightarrow> ('w, nat) log_io" where
  "read_round error_text get_time counter ctx_err fetches =
     and_then (wrapping ''consumer: poll log'' (poll_log error_text ctx_err fetches)) (\<lambda>rs.
       if rs = [] then ret 0
       else and_then (wrapping ''consumer: decode log record''
           (of_result (map_result (\<lambda>r. decode_log_event get_time (rec_value r)) rs))) (\<lambda>es.
         and_then (act_on rs) (\<lambda>_.
           and_then (wrapping ''consumer: commit log offsets'' (commit_log rs)) (\<lambda>_.
             and_then (if counter then wrapping ''consumer: reconcile budget'' (query (\<lambda>_. ())) else ret ()) (\<lambda>_.
               ret (length es))))))"

text \<open>Rounds of one process, which starts anew, or not, when a round fails. Each has its context, fetches and faults.\<close>

type_synonym round = "sentinel option \<times> fetch list \<times> outcome list"

fun read_rounds :: "bool \<Rightarrow> (go_error \<Rightarrow> string) \<Rightarrow> (string \<Rightarrow> time option) \<Rightarrow> bool \<Rightarrow> round list \<Rightarrow> 'w log_world_scheme \<Rightarrow> 'w log_world_scheme" where
  "read_rounds restarts error_text get_time counter [] w = w"
| "read_rounds restarts error_text get_time counter ((ctx_err, fetches, fs) # rounds) w =
     read_rounds restarts error_text get_time counter rounds
       (case read_round error_text get_time counter ctx_err fetches (w\<lparr>faults := fs\<rparr>) of
          (Inr _, w') \<Rightarrow> w'
        | (Inl e, w') \<Rightarrow> if restarts then rejoin w' else w')"

section \<open>What a poll fetches\<close>

definition positions :: "log_record list \<Rightarrow> (nat \<times> nat) set" where
  "positions rs = (\<lambda>r. (rec_partition r, rec_offset r)) ` set rs"

lemma positions_append: "positions (rs @ rs') = positions rs \<union> positions rs'"
  by (auto simp: positions_def)

lemma positions_next: "positions (next_records p n w) = {p} \<times> {fetch_position w p ..< fetch_position w p + length (next_records p n w)}"
  by (auto simp: positions_def next_records_def image_iff)

text \<open>A poll moves over the records it fetches, no more and no fewer.\<close>

lemma poll_fetches_span:
  assumes "poll_fetches fetches w = ((rs, es), w')"
  shows "\<exists>pos. w' = w\<lparr>fetch_position := pos\<rparr> \<and> (\<forall>p. fetch_position w p \<le> pos p)
    \<and> positions rs = {(p, i). fetch_position w p \<le> i \<and> i < pos p}"
  using assms
proof (induction fetches arbitrary: w rs es)
  case Nil
  then show ?case by (auto simp: positions_def intro!: exI [of _ "fetch_position w"])
next
  case (Cons f fetches)
  let ?p = "ft_partition f" and ?rs = "next_records (ft_partition f) (ft_count f) w"
  let ?w = "w\<lparr>fetch_position := (fetch_position w)(?p := fetch_position w ?p + length ?rs)\<rparr>"
  from Cons.prems obtain rs' es' where rest: "poll_fetches fetches ?w = ((rs', es'), w')" and rs: "rs = ?rs @ rs'"
    by (auto simp: Let_def split: prod.splits)
  from Cons.IH [OF rest] obtain pos where w': "w' = ?w\<lparr>fetch_position := pos\<rparr>"
    and le: "\<And>p. fetch_position ?w p \<le> pos p" and span: "positions rs' = {(p, i). fetch_position ?w p \<le> i \<and> i < pos p}" by blast
  have "fetch_position w p \<le> pos p" for p using le [of p] by (simp split: if_splits)
  moreover have "positions rs = {(p, i). fetch_position w p \<le> i \<and> i < pos p}"
    using le [of ?p] by (auto simp: rs positions_append positions_next span split: if_splits)
  ultimately show ?case using w' by auto
qed

lemma behind_last_span:
  assumes "positions rs = {(p, i). start p \<le> i \<and> i < pos p}" "start p \<le> pos p"
  shows "behind_last rs p = (if start p < pos p then pos p else 0)"
proof -
  have bound: "behind_last rs p = Max (insert 0 (Suc ` {i. (p, i) \<in> positions rs}))"
  proof (induction rs)
    case (Cons r rs)
    let ?S = "\<lambda>rs. Suc ` {i. (p, i) \<in> positions rs}"
    have fin: "finite (?S rs)"
    proof -
      have "{i. (p, i) \<in> positions rs} \<subseteq> rec_offset ` set rs" by (auto simp: positions_def)
      then show ?thesis by (meson finite_imageI finite_set finite_subset)
    qed
    have S: "?S (r # rs) = (if rec_partition r = p then insert (Suc (rec_offset r)) (?S rs) else ?S rs)"
      by (auto simp: positions_def image_iff)
    have M: "Max (insert 0 (insert x (?S rs))) = max (Max (insert 0 (?S rs))) x" for x
      using fin by (subst insert_commute, subst Max_insert) (simp_all add: max.commute)
    have "behind_last (r # rs) p = (if rec_partition r = p then max (behind_last rs p) (Suc (rec_offset r)) else behind_last rs p)"
      by (simp add: behind_last_def)
    then show ?case unfolding S Cons.IH by (cases "rec_partition r = p") (simp_all only: M if_True if_False simp_thms)
  qed (simp add: behind_last_def positions_def)
  have "{i. (p, i) \<in> positions rs} = {start p ..< pos p}" using assms(1) by auto
  moreover have "Max (insert 0 (Suc ` {start p ..< pos p})) = (if start p < pos p then pos p else 0)"
  proof (cases "start p < pos p")
    case True
    have "Max (insert 0 (Suc ` {start p ..< pos p})) = pos p"
    proof (rule Max_eqI)
      show "pos p \<in> insert 0 (Suc ` {start p ..< pos p})"
        using True by (cases "pos p") (auto intro!: rev_image_eqI [of "pos p - 1"])
    qed auto
    with True show ?thesis by simp
  qed simp
  ultimately show ?thesis using bound by simp
qed

section \<open>At least once\<close>

definition acted_below :: "'w log_world_scheme \<Rightarrow> bool" where
  "acted_below w = (\<forall>p. \<forall>i < committed_offset w p. (p, i) \<in> acted_on w)"

lemma acted_below_simps [simp]:
  "acted_below (w\<lparr>faults := fs\<rparr>) = acted_below w"
  "acted_below (w\<lparr>fetch_position := pos\<rparr>) = acted_below w"
  by (simp_all add: acted_below_def)

lemma acted_below_more: "acted_below w \<Longrightarrow> acted_below (w\<lparr>acted_on := acted_on w \<union> S\<rparr>)"
  by (simp add: acted_below_def)

lemma poll_log_span:
  assumes "poll_log error_text ctx_err fetches w = (r, w')"
  obtains pos where "w' = w\<lparr>fetch_position := pos\<rparr>" "\<And>p. fetch_position w p \<le> pos p"
    and "\<And>rs. r = Inr rs \<Longrightarrow> positions rs = {(p, i). fetch_position w p \<le> i \<and> i < pos p}"
proof -
  obtain rs es v where v: "poll_fetches fetches w = ((rs, es), v)" by (metis prod.collapse)
  then have w': "w' = v" and r: "\<And>rs'. r = Inr rs' \<Longrightarrow> rs' = rs"
    using assms by (auto simp: poll_log_def Let_def split: if_splits)
  from poll_fetches_span [OF v] obtain pos where "v = w\<lparr>fetch_position := pos\<rparr>" "\<forall>p. fetch_position w p \<le> pos p"
    and "positions rs = {(p, i). fetch_position w p \<le> i \<and> i < pos p}" by blast
  with w' r show thesis by (intro that [of pos]) simp_all
qed

lemma commit_log_span:
  assumes "commit_log rs w = (r, w')" and "positions rs = {(p, i). committed_offset w p \<le> i \<and> i < pos p}"
    and "\<And>p. committed_offset w p \<le> pos p"
  shows "(\<exists>fs. w' = w\<lparr>faults := fs\<rparr>) \<and> \<not> is_ok r \<or> (\<exists>fs. w' = w\<lparr>faults := fs, committed_offset := pos\<rparr>)"
proof -
  let ?set = "\<lambda>v :: 'a log_world_scheme. v\<lparr>committed_offset := (\<lambda>p. if behind_last rs p = 0 then committed_offset v p else behind_last rs p)\<rparr>"
  have "(\<lambda>p. if behind_last rs p = 0 then committed_offset w p else behind_last rs p) = pos"
  proof
    fix p
    show "(if behind_last rs p = 0 then committed_offset w p else behind_last rs p) = pos p"
      using behind_last_span [OF assms(2,3), of p] assms(3) [of p] by (simp split: if_splits)
  qed
  then have new: "?set (w\<lparr>faults := fs\<rparr>) = w\<lparr>faults := fs, committed_offset := pos\<rparr>" for fs
    by (simp cong: if_cong)
  show ?thesis
  proof (cases "rs = []")
    case True
    with assms(2) have "pos p \<le> committed_offset w p" for p by (fastforce simp: positions_def not_less [symmetric])
    with assms(3) have "pos = committed_offset w" by (simp add: fun_eq_iff eq_iff)
    with True assms(1) have "w' = w\<lparr>faults := faults w, committed_offset := pos\<rparr>" by (simp add: commit_log_def)
    then show ?thesis by blast
  next
    case False
    with assms(1) obtain q where run: "exec ?set w = (q, w')" and q: "is_ok r = is_ok q"
      by (auto simp: commit_log_def wrapping_def split: prod.splits sum.splits)
    show ?thesis
    proof (cases q)
      case (Inl e)
      with exec_any [OF run] new q show ?thesis by auto
    next
      case (Inr u)
      with exec_ok [of ?set w u w'] run new show ?thesis by blast
    qed
  qed
qed

text \<open>What follows a poll that moved the positions of the client to \<open>pos\<close>.\<close>

lemma after_poll:
  assumes "acted_below w" and le: "\<And>p. committed_offset w p \<le> pos p"
    and span: "positions rs = {(p, i). committed_offset w p \<le> i \<and> i < pos p}"
    and run: "and_then (wrapping ''consumer: decode log record'' (of_result dec)) (\<lambda>es.
         and_then (act_on rs) (\<lambda>_.
           and_then (wrapping ''consumer: commit log offsets'' (commit_log rs)) (\<lambda>_.
             and_then (if counter then wrapping ''consumer: reconcile budget'' (query (\<lambda>_. ())) else ret ()) (\<lambda>_.
               ret (length es))))) (w\<lparr>fetch_position := pos\<rparr>) = (r, w')"
  shows "acted_below w' \<and> (is_ok r \<longrightarrow> fetch_position w' = committed_offset w')"
  using run
proof (cases rule: and_then_cases)
  case (failed e)
  then show ?thesis using assms(1) by (auto simp: wrapping_def acted_below_def split: sum.splits)
next
  case dec: (went_on es w1)
  from dec(1) have w1: "w1 = w\<lparr>fetch_position := pos\<rparr>" by (auto simp: wrapping_def split: sum.splits)
  from dec(2) show ?thesis
  proof (cases rule: and_then_cases)
    case (failed e)
    then obtain q where "exec (\<lambda>v. v\<lparr>acted_on := acted_on v \<union> positions rs\<rparr>) w1 = (q, w')"
      by (auto simp: act_on_def positions_def wrapping_def split: prod.splits sum.splits)
    from exec_any [OF this] assms(1) failed(2) show ?thesis by (auto simp: w1 acted_below_def)
  next
    case (went_on u w2)
    from went_on(1) have "exec (\<lambda>v. v\<lparr>acted_on := acted_on v \<union> positions rs\<rparr>) w1 = (Inr u, w2)"
      by (simp add: act_on_def positions_def)
    from exec_ok [OF this] obtain fs where w2: "w2 = w\<lparr>fetch_position := pos, faults := fs, acted_on := acted_on w \<union> positions rs\<rparr>"
      by (auto simp: w1)
    have sp: "positions rs = {(p, i). committed_offset w2 p \<le> i \<and> i < pos p}" "\<And>p. committed_offset w2 p \<le> pos p"
      using span le by (simp_all add: w2)
    obtain q w3 where commit: "commit_log rs w2 = (q, w3)" by force
    from commit_log_span [OF commit sp]
    have w3: "(\<exists>gs. w3 = w2\<lparr>faults := gs\<rparr>) \<and> \<not> is_ok q \<or> (\<exists>gs. w3 = w2\<lparr>faults := gs, committed_offset := pos\<rparr>)" .
    from went_on(2) have "(\<exists>gs. w' = w3\<lparr>faults := gs\<rparr>) \<and> (is_ok r \<longrightarrow> is_ok q)"
    proof (cases rule: and_then_cases)
      case (failed e)
      with commit have "w' = w3" by (auto simp: wrapping_def split: prod.splits sum.splits)
      then have "w' = w3\<lparr>faults := faults w3\<rparr>" by simp
      with failed(2) show ?thesis by (simp add: exI [of _ "faults w3"])
    next
      case settle: (went_on u2 w4)
      from settle(1) commit have w4: "w4 = w3" "is_ok q" by (auto simp: wrapping_def split: prod.splits sum.splits)
      from settle(2) show ?thesis
        unfolding w4 using w4(2)
        by (cases counter; cases rule: and_then_cases [of _ _ w3 r w'])
          (auto simp: wrapping_def dest: query_any split: prod.splits sum.splits intro: exI [of _ "faults w3"])
    qed
    with w3 assms(1) span show ?thesis by (fastforce simp: w2 acted_below_def not_le)
  qed
qed

lemma read_round_keeps:
  assumes "acted_below w" "fetch_position w = committed_offset w"
    and run: "read_round error_text get_time counter ctx_err fetches w = (r, w')"
  shows "acted_below w' \<and> (is_ok r \<longrightarrow> fetch_position w' = committed_offset w')"
  using run unfolding read_round_def
proof (cases rule: and_then_cases)
  case (failed e)
  then obtain q where "poll_log error_text ctx_err fetches w = (q, w')"
    by (auto simp: wrapping_def split: prod.splits sum.splits)
  then show ?thesis by (rule poll_log_span) (simp add: assms(1) failed)
next
  case (went_on rs w1)
  from went_on(1) have "poll_log error_text ctx_err fetches w = (Inr rs, w1)" by simp
  then obtain pos where w1: "w1 = w\<lparr>fetch_position := pos\<rparr>" and le: "\<And>p. committed_offset w p \<le> pos p"
    and span: "positions rs = {(p, i). committed_offset w p \<le> i \<and> i < pos p}"
    by (rule poll_log_span) (simp add: assms(2))
  show ?thesis
  proof (cases "rs = []")
    case True
    with span have "pos p \<le> committed_offset w p" for p by (fastforce simp: positions_def not_less [symmetric])
    with le have "pos = committed_offset w" by (simp add: fun_eq_iff eq_iff)
    with True went_on(2) show ?thesis by (auto simp: w1 assms(1))
  next
    case False
    with went_on(2) show ?thesis by (simp add: w1) (rule after_poll [OF assms(1) le span])
  qed
qed

lemma read_rounds_keeps:
  "acted_below w \<Longrightarrow> fetch_position w = committed_offset w
    \<Longrightarrow> acted_below (read_rounds True error_text get_time counter rounds w)
      \<and> fetch_position (read_rounds True error_text get_time counter rounds w) = committed_offset (read_rounds True error_text get_time counter rounds w)"
proof (induction rounds arbitrary: w)
  case (Cons x rounds)
  obtain ctx_err fetches fs where x: "x = (ctx_err, fetches, fs)" by (cases x)
  obtain r w' where run: "read_round error_text get_time counter ctx_err fetches (w\<lparr>faults := fs\<rparr>) = (r, w')" by force
  from Cons.prems read_round_keeps [OF _ _ run] have "acted_below w'" "is_ok r \<Longrightarrow> fetch_position w' = committed_offset w'"
    by simp_all
  with Cons.IH run show ?case
    by (cases r) (auto simp: x rejoin_def)
qed simp

text \<open>
  C24: a reader that starts anew whenever a round of it fails has acted on every record below the offsets its group
  committed, whichever brokers, transactions and commits fail; a record may be acted on twice, none is passed over.
\<close>

theorem restarts_pass_over_nothing:
  assumes "\<And>p. committed_offset w p = 0" "\<And>p. fetch_position w p = 0"
    and "i < committed_offset (read_rounds True error_text get_time counter rounds w) p"
  shows "(p, i) \<in> acted_on (read_rounds True error_text get_time counter rounds w)"
proof -
  have "acted_below w" "fetch_position w = committed_offset w" using assms(1,2) by (simp_all add: acted_below_def fun_eq_iff)
  with read_rounds_keeps have "acted_below (read_rounds True error_text get_time counter rounds w)" by blast
  with assms(3) show ?thesis by (simp add: acted_below_def)
qed

text \<open>
  Two partitions of two records. The first poll fetches a record of one of them and an error of the other, and the
  code drops the record with the error.
\<close>

definition demo_topic :: log_world where
  "demo_topic = \<lparr>faults = [], part_log = (\<lambda>p. if p < 2 then [(''c1'', JObj [(''id'', JStr ''a'')]), (''c2'', JObj [(''id'', JStr ''b'')])] else []),
     fetch_position = (\<lambda>_. 0), committed_offset = (\<lambda>_. 0), acted_on = {}\<rparr>"

definition demo_rounds :: "round list" where
  "demo_rounds =
     [(None, [\<lparr>ft_topic = ''events'', ft_partition = 0, ft_count = 1, ft_error = None\<rparr>,
              \<lparr>ft_topic = ''events'', ft_partition = 1, ft_count = 0, ft_error = Some IOFailure\<rparr>], []),
      (None, [\<lparr>ft_topic = ''events'', ft_partition = 0, ft_count = 1, ft_error = None\<rparr>], [])]"

theorem restarts_pass_over_nothing_witness:
  "committed_offset (read_rounds True (\<lambda>_. ''i/o'') (\<lambda>_. Some 0) False demo_rounds demo_topic) 0 = 1
    \<and> (0, 0) \<in> acted_on (read_rounds True (\<lambda>_. ''i/o'') (\<lambda>_. Some 0) False demo_rounds demo_topic)"
proof -
  have 1: "committed_offset (read_rounds True (\<lambda>_. ''i/o'') (\<lambda>_. Some 0) False demo_rounds demo_topic) 0 = 1" by code_simp
  have 0: "committed_offset demo_topic p = 0" "fetch_position demo_topic p = 0" for p by (simp_all add: demo_topic_def)
  from restarts_pass_over_nothing [where w = demo_topic and i = 0 and p = 0 and rounds = demo_rounds, OF 0] 1
  show ?thesis by simp
qed

text \<open>
  A process that polls again after the error, as a periodic job does, never acts on the record, and the next commit
  puts the group past it.
\<close>

lemma poll_error_passes_over:
  "committed_offset (read_rounds False (\<lambda>_. ''i/o'') (\<lambda>_. Some 0) False demo_rounds demo_topic) 0 = 2
    \<and> acted_on (read_rounds False (\<lambda>_. ''i/o'') (\<lambda>_. Some 0) False demo_rounds demo_topic) = {(0, 1)}"
  by code_simp

section \<open>One partition\<close>

text \<open>On one partition without an error the poll is that of theory Consumer, which the consumer of the rollups is proved with.\<close>

lemma one_partition_poll:
  assumes same: "part_log w 0 = topic v" "fetch_position w 0 = topic_position v" and "faults v = []"
    and "poll n v = (Inr (kvs, q), v')"
    and "poll_log error_text ctx_err [\<lparr>ft_topic = name, ft_partition = 0, ft_count = n, ft_error = None\<rparr>] w = (r, w')"
  obtains rs where "r = Inr rs" "map (\<lambda>r. (rec_key r, rec_value r)) rs = kvs" "fetch_position w' 0 = topic_position v'"
proof -
  let ?rs = "next_records 0 n w"
  have "kvs = take n (drop (topic_position v) (topic v))" "topic_position v' = topic_position v + length kvs"
    using assms(3,4) by (auto simp: poll_def wrapping_def remote_def Let_def)
  moreover have "map (\<lambda>r. (rec_key r, rec_value r)) ?rs = take n (drop (topic_position v) (topic v))"
    by (auto simp: next_records_def same min_def nth_upt intro!: nth_equalityI)
  moreover from this have "length ?rs = length (take n (drop (topic_position v) (topic v)))" by (metis length_map)
  moreover have "r = Inr ?rs" "fetch_position w' 0 = fetch_position w 0 + length ?rs"
    using assms(5) by (auto simp: poll_log_def errors_of_fetch_def real_errors_def Let_def)
  ultimately show thesis using that same by simp
qed

end
