(* ===== verification/Migrate.thy ===== *)
theory Migrate
  imports World Text
begin

text \<open>
  \<^verbatim>\<open>internal/platform/postgres/migrate.go\<close>: the schema changes a process applies when it starts, each
  in its own transaction and in the order of their file names. What a script does to the database is
  an argument: whether it runs after the scripts that ran before it.
\<close>

record dir_entry =
  entry_name :: string
  is_dir :: bool

text \<open>The ledger of the file names, and the scripts the database has run, each with its name.\<close>

record migrate_world = world +
  ledger_exists :: bool
  schema_migrations :: "string list"
  executed :: "(string \<times> string) list"

type_synonym ('w, 'a) migrate_io = "'w migrate_world_scheme \<Rightarrow> 'a result \<times> 'w migrate_world_scheme"

definition has_suffix :: "string \<Rightarrow> string \<Rightarrow> bool" where
  "has_suffix s t = (length t \<le> length s \<and> drop (length s - length t) s = t)"

definition migration_filenames :: "dir_entry list \<Rightarrow> string list" where
  "migration_filenames es = sort (map entry_name (filter (\<lambda>e. \<not> is_dir e \<and> has_suffix (entry_name e) ''.sql'') es))"

definition create_ledger :: "('w, unit) migrate_io" where
  "create_ledger = wrapping ''postgres: create schema_migrations'' (exec (\<lambda>w. w\<lparr>ledger_exists := True\<rparr>))"

definition apply_tx :: "(string \<Rightarrow> string list \<Rightarrow> bool) \<Rightarrow> string \<Rightarrow> string \<Rightarrow> ('w, unit) migrate_io" where
  "apply_tx runs filename contents =
     and_then (wrapping ''postgres: apply'' (remote (\<lambda>w.
         if runs contents (map snd (executed w)) then (Inr (), w\<lparr>executed := executed w @ [(filename, contents)]\<rparr>)
         else (Inl IOFailure, w))))
       (\<lambda>_. wrapping ''postgres: record'' (remote (\<lambda>w.
         if filename \<in> set (schema_migrations w) then (Inl IOFailure, w)
         else (Inr (), w\<lparr>schema_migrations := schema_migrations w @ [filename]\<rparr>))))"

definition apply_migration ::
  "(string \<Rightarrow> string list \<Rightarrow> bool) \<Rightarrow> (string \<Rightarrow> string result) \<Rightarrow> string \<Rightarrow> ('w, unit) migrate_io" where
  "apply_migration runs read_file filename =
     and_then (wrapping ''postgres: check'' (query (\<lambda>w. filename \<in> set (schema_migrations w)))) (\<lambda>applied.
       if applied then ret ()
       else and_then (wrapping ''postgres: read'' (of_result (read_file filename))) (\<lambda>contents.
         in_tx ''postgres: begin'' ''postgres: commit'' (apply_tx runs filename contents)))"

definition migrate ::
  "(string \<Rightarrow> string list \<Rightarrow> bool) \<Rightarrow> dir_entry list result \<Rightarrow> (string \<Rightarrow> string result) \<Rightarrow> ('w, unit) migrate_io" where
  "migrate runs read_dir read_file =
     and_then create_ledger (\<lambda>_.
       and_then (wrapping ''postgres: read migrations'' (of_result read_dir)) (\<lambda>es.
         for_each (apply_migration runs read_file) (migration_filenames es)))"

section \<open>Each migration once, in order\<close>

text \<open>
  What the starts of processes with one directory leave: the first so many of its files, each run once and
  recorded, in the order of their names.
\<close>

definition migrated :: "string list \<Rightarrow> (string \<Rightarrow> string result) \<Rightarrow> 'w migrate_world_scheme \<Rightarrow> bool" where
  "migrated names read_file w =
     (\<exists>n. schema_migrations w = take n names \<and> map fst (executed w) = take n names
        \<and> list_all (\<lambda>(name, contents). read_file name = Inr contents) (executed w))"

lemma migrated_blind: "fault_blind (migrated names read_file)"
  by (simp add: fault_blind_def migrated_def)

text \<open>The loop's position: what comes before it is recorded.\<close>

definition reached_file :: "string list \<Rightarrow> (string \<Rightarrow> string result) \<Rightarrow> nat \<Rightarrow> 'w migrate_world_scheme \<Rightarrow> bool" where
  "reached_file names read_file k w \<longleftrightarrow> migrated names read_file w \<and> set (take k names) \<subseteq> set (schema_migrations w)"

lemma reached_take:
  assumes "distinct names" "set (take k names) \<subseteq> set (take n names)" "k \<le> length names"
  shows "k \<le> n"
proof (rule ccontr)
  assume "\<not> k \<le> n"
  then have "n < k" "n < length names" using assms(3) by auto
  then have "names ! n \<in> set (take k names)" by (metis in_set_conv_nth length_take min_less_iff_conj nth_take)
  with assms(2) have "names ! n \<in> set (take n names)" by blast
  then show False
    using assms(1) \<open>n < length names\<close> by (auto simp: in_set_conv_nth nth_eq_iff_index_eq)
qed

lemma apply_tx_ok:
  assumes "distinct names" "k < length names" "reached_file names read_file k w" "names ! k \<notin> set (schema_migrations w)"
    and "read_file (names ! k) = Inr contents"
    and "apply_tx runs (names ! k) contents w = (Inr (), w')"
  shows "reached_file names read_file (Suc k) w'"
proof -
  from assms(3) obtain n where n: "schema_migrations w = take n names" "map fst (executed w) = take n names"
    "list_all (\<lambda>(name, contents). read_file name = Inr contents) (executed w)"
    and sub: "set (take k names) \<subseteq> set (take n names)"
    by (auto simp: reached_file_def migrated_def)
  have "k \<le> n" using reached_take [OF assms(1) sub] assms(2) by simp
  moreover have "\<not> k < n" using assms(2,4) n(1) by (auto simp: in_set_conv_nth)
  ultimately have kn: "n = k" by simp
  from assms(6) obtain w1 where 1: "remote (\<lambda>w. if runs contents (map snd (executed w)) then (Inr (), w\<lparr>executed := executed w @ [(names ! k, contents)]\<rparr>)
         else (Inl IOFailure, w)) w = (Inr (), w1)"
    and 2: "remote (\<lambda>w. if names ! k \<in> set (schema_migrations w) then (Inl IOFailure, w)
         else (Inr (), w\<lparr>schema_migrations := schema_migrations w @ [names ! k]\<rparr>)) w1 = (Inr (), w')"
    by (auto simp: apply_tx_def and_then_ok)
  from remote_ok [OF 1] obtain fs where w1: "w1 = w\<lparr>faults := fs, executed := executed w @ [(names ! k, contents)]\<rparr>"
    by (auto split: if_splits)
  from remote_ok [OF 2] obtain fs' where "w' = w1\<lparr>faults := fs', schema_migrations := schema_migrations w1 @ [names ! k]\<rparr>"
    by (auto split: if_splits)
  with w1 have "schema_migrations w' = take (Suc k) names" "map fst (executed w') = take (Suc k) names"
    "list_all (\<lambda>(name, contents). read_file name = Inr contents) (executed w')"
    using n kn assms(2,5) by (simp_all add: take_Suc_conv_app_nth)
  then show ?thesis by (auto simp: reached_file_def migrated_def)
qed

lemma apply_migration_keeps:
  fixes w :: "'w migrate_world_scheme"
  assumes "distinct names" "k < length names" "reached_file names read_file k w"
    and run: "apply_migration runs read_file (names ! k) w = (r, w')"
  shows "migrated names read_file w' \<and> (is_ok r \<longrightarrow> reached_file names read_file (Suc k) w')"
proof -
  have reached_fs: "reached_file names read_file j (v\<lparr>faults := fs\<rparr>) = reached_file names read_file j v" for j fs and v :: "'w migrate_world_scheme"
    by (simp add: reached_file_def migrated_def)
  have here: "migrated names read_file (w\<lparr>faults := fs\<rparr>)" for fs using assms(3) by (simp add: reached_file_def migrated_def)
  from run [unfolded apply_migration_def] show ?thesis
  proof (cases rule: and_then_cases)
    case (failed e)
    then obtain fs where "w' = w\<lparr>faults := fs\<rparr>"
      using query_any [of "\<lambda>w. names ! k \<in> set (schema_migrations w)" w] by (auto simp: wrapping_def split: prod.splits sum.splits)
    with here failed show ?thesis by simp
  next
    case (went_on applied w1)
    from query_ok [OF went_on(1) [unfolded wrapping_ok]] obtain fs where w1: "w1 = w\<lparr>faults := fs\<rparr>"
      and ap: "applied = (names ! k \<in> set (schema_migrations w))" by auto
    show ?thesis
    proof (cases applied)
      case True
      with went_on(2) have "w' = w1" "is_ok r" by auto
      with w1 ap True assms(2,3) here show ?thesis
        by (auto simp: reached_file_def take_Suc_conv_app_nth migrated_def)
    next
      case False
      with went_on(2) have tx: "and_then (wrapping ''postgres: read'' (of_result (read_file (names ! k)))) (\<lambda>contents.
         in_tx ''postgres: begin'' ''postgres: commit'' (apply_tx runs (names ! k) contents)) w1 = (r, w')" by simp
      then show ?thesis
      proof (cases rule: and_then_cases)
        case (failed e)
        then have "w' = w1" by (cases "read_file (names ! k)") (auto simp: wrapping_def)
        with failed here w1 show ?thesis by simp
      next
        case (went_on contents w2)
        then have rd: "read_file (names ! k) = Inr contents" and w2: "w2 = w1"
          by (cases "read_file (names ! k)"; auto simp: wrapping_def)+
        have fresh: "names ! k \<notin> set (schema_migrations (w\<lparr>faults := gs\<rparr>))" for gs using False ap by simp
        have start: "reached_file names read_file k (w\<lparr>faults := gs\<rparr>)" for gs using assms(3) reached_fs by blast
        note step = apply_tx_ok [OF assms(1,2) start fresh rd]
        have "migrated names read_file w'"
          using in_tx_atomic [OF went_on(2)] here step
          by (fastforce simp: w2 w1 reached_file_def fault_blindD [OF migrated_blind])
        moreover have "reached_file names read_file (Suc k) w'" if "is_ok r"
        proof -
          from that obtain u where "r = Inr u" by (cases r) auto
          from in_tx_ok [OF went_on(2) [unfolded this]] show ?thesis
            using step by (auto simp: w2 w1 reached_fs)
        qed
        ultimately show ?thesis by blast
      qed
    qed
  qed
qed

lemma apply_all_keeps:
  fixes w :: "'w migrate_world_scheme"
  assumes "distinct names" "k \<le> length names" "reached_file names read_file k w"
    and "for_each (apply_migration runs read_file) (drop k names) w = (r, w')"
  shows "migrated names read_file w' \<and> (is_ok r \<longrightarrow> reached_file names read_file (length names) w')"
  using assms(2-)
proof (induction "length names - k" arbitrary: k w)
  case 0
  then have "drop k names = []" "k = length names" by simp_all
  with 0 show ?case by (auto simp: reached_file_def)
next
  case (Suc d)
  then have k: "k < length names" by simp
  then have "drop k names = names ! k # drop (Suc k) names" by (simp add: Cons_nth_drop_Suc)
  with Suc.prems(3) have "and_then (apply_migration runs read_file (names ! k))
      (\<lambda>_. for_each (apply_migration runs read_file) (drop (Suc k) names)) w = (r, w')" by simp
  then show ?case
  proof (cases rule: and_then_cases)
    case (failed e)
    with apply_migration_keeps [OF assms(1) k Suc.prems(2)] show ?thesis by fastforce
  next
    case (went_on u w1)
    from apply_migration_keeps [OF assms(1) k Suc.prems(2) went_on(1)] have "reached_file names read_file (Suc k) w1" by simp
    with Suc.hyps(1) [of "Suc k"] Suc.hyps(2) k went_on(2) show ?thesis by simp
  qed
qed

lemma migrate_once:
  fixes w :: "'w migrate_world_scheme"
  assumes "distinct (migration_filenames es)" "migrated (migration_filenames es) read_file w"
    and run: "migrate runs (Inr es) read_file w = (r, w')"
  shows "migrated (migration_filenames es) read_file w'
    \<and> (is_ok r \<longrightarrow> schema_migrations w' = migration_filenames es)"
proof -
  let ?names = "migration_filenames es"
  from run [unfolded migrate_def] show ?thesis
  proof (cases rule: and_then_cases)
    case (failed e)
    then have "migrated ?names read_file w'"
      using assms(2) exec_any [of "\<lambda>w. w\<lparr>ledger_exists := True\<rparr>" w]
      by (fastforce simp: create_ledger_def wrapping_def migrated_def split: prod.splits sum.splits)
    with failed show ?thesis by simp
  next
    case (went_on u w1)
    from exec_ok [OF went_on(1) [unfolded create_ledger_def wrapping_ok]] have "migrated ?names read_file w1"
      using assms(2) by (auto simp: migrated_def)
    then have start: "reached_file ?names read_file 0 w1" by (simp add: reached_file_def)
    from went_on(2) have "for_each (apply_migration runs read_file) (drop 0 ?names) w1 = (r, w')"
      by (simp add: and_then_def wrapping_def)
    from apply_all_keeps [OF assms(1) _ start this] have m: "migrated ?names read_file w'"
      and all: "is_ok r \<Longrightarrow> set ?names \<subseteq> set (schema_migrations w')" by (auto simp: reached_file_def)
    have "schema_migrations w' = ?names" if "is_ok r"
    proof -
      from m obtain n where n: "schema_migrations w' = take n ?names" by (auto simp: migrated_def)
      with all [OF that] have "length ?names \<le> n"
        using reached_take [OF assms(1), of "length ?names" n] by simp
      with n show ?thesis by simp
    qed
    with m show ?thesis by blast
  qed
qed

text \<open>Starts of a process, each with its faults.\<close>

fun start_all ::
  "(string \<Rightarrow> string list \<Rightarrow> bool) \<Rightarrow> dir_entry list \<Rightarrow> (string \<Rightarrow> string result) \<Rightarrow> outcome list list \<Rightarrow> 'w migrate_world_scheme
     \<Rightarrow> 'w migrate_world_scheme" where
  "start_all runs es read_file [] w = w"
| "start_all runs es read_file (fs # fss) w =
     start_all runs es read_file fss (snd (migrate runs (Inr es) read_file (w\<lparr>faults := fs\<rparr>)))"

lemma start_all_migrated:
  "distinct (migration_filenames es) \<Longrightarrow> migrated (migration_filenames es) read_file w
    \<Longrightarrow> migrated (migration_filenames es) read_file (start_all runs es read_file fss w)"
proof (induction fss arbitrary: w)
  case (Cons fs fss)
  from Cons.prems(2) have "migrated (migration_filenames es) read_file (w\<lparr>faults := fs\<rparr>)" by (simp add: migrated_def)
  from migrate_once [OF Cons.prems(1) this prod.collapse [symmetric]] Cons show ?case by simp
qed simp

text \<open>
  C35: however often processes start on one directory of migrations and whatever calls fail, the database has run a
  first part of its scripts, each once, in the order of their names, and the ledger says which; once a start
  succeeds it has run them all.
\<close>

theorem migrations_run_once:
  fixes w :: "'w migrate_world_scheme"
  assumes "distinct (map entry_name es)" and "schema_migrations w = []" and "executed w = []"
    and "migrate runs (Inr es) read_file ((start_all runs es read_file fss w)\<lparr>faults := fs\<rparr>) = (r, w')"
  shows "migrated (migration_filenames es) read_file w'
    \<and> (is_ok r \<longrightarrow> map fst (executed w') = migration_filenames es)"
proof -
  have d: "distinct (migration_filenames es)"
    using assms(1) by (simp add: migration_filenames_def distinct_map_filter)
  have "migrated (migration_filenames es) read_file w"
    using assms(2,3) by (auto simp: migrated_def intro: exI [of _ 0])
  from start_all_migrated [OF d this]
  have "migrated (migration_filenames es) read_file ((start_all runs es read_file fss w)\<lparr>faults := fs\<rparr>)" by (simp add: migrated_def)
  from migrate_once [OF d this assms(4)] show ?thesis by (auto simp: migrated_def)
qed

text \<open>A start whose second commit is lost, and the next.\<close>

definition demo_dir :: "dir_entry list" where
  "demo_dir = [\<lparr>entry_name = ''0002_b.sql'', is_dir = False\<rparr>, \<lparr>entry_name = ''0001_a.sql'', is_dir = False\<rparr>,
     \<lparr>entry_name = ''embed.go'', is_dir = False\<rparr>]"

definition demo_fresh :: migrate_world where
  "demo_fresh = \<lparr>faults = [], ledger_exists = False, schema_migrations = [], executed = []\<rparr>"

definition demo_failures :: "outcome list" where
  "demo_failures = replicate 9 Done @ [Lost]"

theorem migrations_run_once_witness:
  "executed (start_all (\<lambda>_ _. True) demo_dir Inr [demo_failures] demo_fresh) = [(''0001_a.sql'', ''0001_a.sql'')]
    \<and> map fst (executed (snd (migrate (\<lambda>_ _. True) (Inr demo_dir) Inr (start_all (\<lambda>_ _. True) demo_dir Inr [demo_failures] demo_fresh\<lparr>faults := []\<rparr>))))
       = [''0001_a.sql'', ''0002_b.sql'']"
proof -
  let ?w = "start_all (\<lambda>_ _. True) demo_dir Inr [demo_failures] demo_fresh\<lparr>faults := []\<rparr>"
  have "executed (start_all (\<lambda>_ _. True) demo_dir Inr [demo_failures] demo_fresh) = [(''0001_a.sql'', ''0001_a.sql'')]"
    "is_ok (fst (migrate (\<lambda>_ _. True) (Inr demo_dir) Inr ?w))" "migration_filenames demo_dir = [''0001_a.sql'', ''0002_b.sql'']"
    by code_simp+
  moreover have "distinct (map entry_name demo_dir)" "schema_migrations demo_fresh = []" "executed demo_fresh = []"
    by (simp_all add: demo_dir_def demo_fresh_def)
  from migrations_run_once [where runs = "\<lambda>_ _. True" and read_file = Inr and fss = "[demo_failures]" and fs = "[]", OF this prod.collapse [symmetric]]
  have "is_ok (fst (migrate (\<lambda>_ _. True) (Inr demo_dir) Inr ?w)) \<longrightarrow>
      map fst (executed (snd (migrate (\<lambda>_ _. True) (Inr demo_dir) Inr ?w))) = migration_filenames demo_dir" by blast
  ultimately show ?thesis by simp
qed

end
