(* ===== verification/Jobs.thy ===== *)
theory Jobs
  imports Membership Mirror TimeSlot
begin

text \<open>
  The periodic jobs of a process and the queue's client they are registered with: \<^verbatim>\<open>internal/platform/jobqueue\<close> and
  the files of the four jobs. Theories Membership, Consumer and Mirror have what three of the workers do; the fourth
  logs which slot of the day has elapsed.
\<close>

datatype job_args =
    ReconcileArgs
  | RollupRecomputeArgs
  | ActivationSlotArgs activation_slot_args
  | MirrorArgs

fun job_kind :: "job_args \<Rightarrow> string" where
  "job_kind ReconcileArgs = ''membership_reconcile''"
| "job_kind RollupRecomputeArgs = ''event_rollup_recompute''"
| "job_kind (ActivationSlotArgs a) = ''channel_activation_slot''"
| "job_kind MirrorArgs = ''event_clickhouse_mirror''"

text \<open>A job is inserted at every interval, and at the start when it asks for that, with the arguments of the instant.\<close>

record periodic_job =
  pj_interval :: duration
  pj_constructor :: "time \<Rightarrow> job_args"
  pj_id :: string
  pj_run_on_start :: bool

definition RollupRecomputeInterval :: duration where "RollupRecomputeInterval = minute"
definition MirrorInterval :: duration where "MirrorInterval = 5 * minute"

definition reconcile_periodic_job :: periodic_job where
  "reconcile_periodic_job = \<lparr>pj_interval = ReconcileInterval, pj_constructor = (\<lambda>_. ReconcileArgs),
     pj_id = ''membership_reconcile'', pj_run_on_start = False\<rparr>"

definition rollup_recompute_periodic_job :: periodic_job where
  "rollup_recompute_periodic_job = \<lparr>pj_interval = RollupRecomputeInterval, pj_constructor = (\<lambda>_. RollupRecomputeArgs),
     pj_id = ''event_rollup_recompute'', pj_run_on_start = True\<rparr>"

definition activation_slot_periodic_job :: periodic_job where
  "activation_slot_periodic_job = \<lparr>pj_interval = SlotDuration,
     pj_constructor = (\<lambda>now. ActivationSlotArgs (new_activation_slot_args now)),
     pj_id = ''channel_activation_slot'', pj_run_on_start = False\<rparr>"

definition mirror_periodic_job :: periodic_job where
  "mirror_periodic_job = \<lparr>pj_interval = MirrorInterval, pj_constructor = (\<lambda>_. MirrorArgs),
     pj_id = ''event_clickhouse_mirror'', pj_run_on_start = True\<rparr>"

text \<open>A worker with what it holds: whether it has Redis, the name of its consumer, the window of its budget.\<close>

datatype worker =
    ReconcileWorker bool
  | RollupRecomputeWorker string "duration option"
  | ActivationSlotWorker
  | MirrorWorker string

fun worker_kind :: "worker \<Rightarrow> string" where
  "worker_kind (ReconcileWorker redis) = ''membership_reconcile''"
| "worker_kind (RollupRecomputeWorker name counter) = ''event_rollup_recompute''"
| "worker_kind ActivationSlotWorker = ''channel_activation_slot''"
| "worker_kind (MirrorWorker name) = ''event_clickhouse_mirror''"

text \<open>The line the fourth worker logs, with its one attribute.\<close>

definition activation_slot_work :: "activation_slot_args \<Rightarrow> string \<times> (string \<times> int)" where
  "activation_slot_work a =
     (''channel activation slot elapsed; no channel time zone field exists yet to act on it'', (''slot'', act_slot a))"

section \<open>The client of the queue\<close>

definition maxWorkers :: int where "maxWorkers = 10"

record job_client =
  jc_max_workers :: int
  jc_workers :: "worker list"
  jc_periodic_jobs :: "periodic_job list"

definition new_job_client :: "bool \<Rightarrow> worker list \<Rightarrow> periodic_job list \<Rightarrow> job_client result" where
  "new_job_client built workers periodicJobs =
     (if built then Inr \<lparr>jc_max_workers = maxWorkers, jc_workers = workers, jc_periodic_jobs = periodicJobs\<rparr>
      else Inl (Wrap ''jobqueue: new client'' IOFailure))"

text \<open>
  What makes a client sound: the kinds of its workers and the names of its jobs are distinct, and whenever a
  job fires there is a worker for what it inserts.
\<close>

definition served_jobs :: "worker list \<Rightarrow> periodic_job list \<Rightarrow> bool" where
  "served_jobs workers jobs \<longleftrightarrow>
     distinct (map worker_kind workers) \<and> distinct (map pj_id jobs)
     \<and> (\<forall>now. map (\<lambda>j. job_kind (pj_constructor j now)) jobs = map worker_kind workers)"

lemmas periodic_jobs = reconcile_periodic_job_def rollup_recompute_periodic_job_def activation_slot_periodic_job_def
  mirror_periodic_job_def

section \<open>The slots of a day\<close>

lemma slot_after:
  "slot_for_time_of_day (t + k * SlotDuration) = (slot_for_time_of_day t + k) mod SlotCount"
proof -
  have "(t + k * SlotDuration) mod day div SlotDuration = (t + k * SlotDuration) div SlotDuration mod SlotCount"
    unfolding slot_lengths(3) using zmod_zmult2_eq [of SlotCount "t + k * SlotDuration" SlotDuration]
    by (simp add: SlotCount_def slot_lengths(1) mult.commute)
  also have "(t + k * SlotDuration) div SlotDuration = t div SlotDuration + k" by (simp add: slot_lengths(1))
  also have "(t div SlotDuration + k) mod SlotCount = (t div SlotDuration mod SlotCount + k) mod SlotCount"
    by (simp add: mod_add_left_eq)
  also have "t div SlotDuration mod SlotCount = t mod day div SlotDuration"
    unfolding slot_lengths(3) using zmod_zmult2_eq [of SlotCount t SlotDuration]
    by (simp add: SlotCount_def slot_lengths(1) mult.commute)
  finally show ?thesis by (simp add: slot_of_clock)
qed

text \<open>A day of firings, one slot apart, from any instant on, names every slot once.\<close>

lemma day_of_firings:
  "bij_betw (\<lambda>k. act_slot (new_activation_slot_args (t + k * pj_interval activation_slot_periodic_job))) {0 ..< SlotCount} {0 ..< SlotCount}"
  (is "bij_betw ?f _ _")
proof -
  have slot: "?f k = (slot_for_time_of_day t + k) mod SlotCount" for k
    by (simp add: new_activation_slot_args_def periodic_jobs slot_after)
  have "inj_on ?f {0 ..< SlotCount}"
  proof (rule inj_onI)
    fix k l assume kl: "k \<in> {0 ..< SlotCount}" "l \<in> {0 ..< SlotCount}" "?f k = ?f l"
    from kl(3) have "k mod SlotCount = l mod SlotCount" unfolding slot by (metis add_diff_cancel_left' mod_diff_cong)
    with kl(1,2) show "k = l" by simp
  qed
  moreover have "?f ` {0 ..< SlotCount} \<subseteq> {0 ..< SlotCount}" by (auto simp: slot SlotCount_def)
  ultimately show ?thesis by (simp add: bij_betw_def endo_inj_surj)
qed

end
