(* ===== verification/Clients.thy ===== *)
theory Clients
  imports EventLog Migrate Jobs
begin

text \<open>
  What a process holds of other systems while it runs: \<^verbatim>\<open>internal/platform/postgres/postgres.go\<close>, \<^verbatim>\<open>redisclient\<close>,
  \<^verbatim>\<open>clickhouse\<close> with its schema, the clients of \<^verbatim>\<open>eventlog\<close>, and the providers of \<^verbatim>\<open>observability\<close>. A constructor that
  connects closes what it opened when the connection does not answer. Go's \<^verbatim>\<open>defer\<close> is a bracket; the contract
  between what opens a handle, what closes it and what runs in between is a locale, one for each system.
\<close>

section \<open>Handles\<close>

datatype handle =
    SignalContext
  | TracerProvider
  | MeterProvider
  | PostgresPool string
  | RedisClient string
  | ClickHouseConn string
  | JobQueue
  | LogClient string

datatype action = Opened handle | Closed handle

text \<open>The journal has every handle the process was given and every call that closes one, in their order.\<close>

record host_world = migrate_world +
  journal :: "action list"
  global_providers :: bool
  store_ddl :: "string list"

type_synonym ('w, 'a) host_io = "'w host_world_scheme \<Rightarrow> 'a result \<times> 'w host_world_scheme"

definition note_action :: "action \<Rightarrow> 'w host_world_scheme \<Rightarrow> 'w host_world_scheme" where
  "note_action a w = w\<lparr>journal := journal w @ [a]\<rparr>"

text \<open>
  A library's constructor that gives a handle or an error, one that cannot fail, a call whose failure
  leaves nothing behind, and a \<^verbatim>\<open>Close\<close>, which ends the use of the handle even when it reports an error.
\<close>

definition construct :: "handle \<Rightarrow> ('w, unit) host_io" where
  "construct h = (\<lambda>w. case faults w of
     [] \<Rightarrow> (Inr (), note_action (Opened h) w)
   | Done # fs \<Rightarrow> (Inr (), note_action (Opened h) (w\<lparr>faults := fs\<rparr>))
   | _ # fs \<Rightarrow> (Inl IOFailure, w\<lparr>faults := fs\<rparr>))"

definition obtain_handle :: "handle \<Rightarrow> ('w, unit) host_io" where
  "obtain_handle h = (\<lambda>w. (Inr (), note_action (Opened h) w))"

definition attempt :: "('w, unit) host_io" where
  "attempt = query (\<lambda>_. ())"

definition release :: "handle \<Rightarrow> ('w, unit) host_io" where
  "release h = (\<lambda>w. (Inr (), note_action (Closed h) w))"

text \<open>A closing that reports an error ends the use of the handle all the same: the code does not try again.\<close>

definition close_handle :: "handle \<Rightarrow> ('w, unit) host_io" where
  "close_handle h = (\<lambda>w. let (r, w') = attempt w in (r, note_action (Closed h) w'))"

text \<open>The body with \<^verbatim>\<open>defer\<close>, whose error is logged only, and the repair of a constructor that fails late.\<close>

definition deferring :: "('w, unit) host_io \<Rightarrow> ('w, 'a) host_io \<Rightarrow> ('w, 'a) host_io" where
  "deferring d m = (\<lambda>w. let (r, w') = m w in (r, snd (d w')))"

definition on_error :: "('w, unit) host_io \<Rightarrow> ('w, 'a) host_io \<Rightarrow> ('w, 'a) host_io" where
  "on_error c m = (\<lambda>w. case m w of (Inl e, w') \<Rightarrow> (Inl e, snd (c w')) | (Inr x, w') \<Rightarrow> (Inr x, w'))"

section \<open>Constructors and their ends\<close>

definition new_pool :: "string \<Rightarrow> ('w, unit) host_io" where
  "new_pool dsn =
     and_then (wrapping ''postgres: open pool'' (construct (PostgresPool dsn))) (\<lambda>_.
       on_error (release (PostgresPool dsn)) (wrapping ''postgres: ping'' attempt))"

definition new_redis :: "string \<Rightarrow> ('w, unit) host_io" where
  "new_redis addr =
     and_then (obtain_handle (RedisClient addr)) (\<lambda>_.
       on_error (close_handle (RedisClient addr)) (wrapping ''redisclient: ping'' attempt))"

definition tableName :: string where "tableName = ''events_raw''"

definition RawEventRetentionMonths :: nat where "RawEventRetentionMonths = 13"

text \<open>The columns of the statement, which the tags of \<^verbatim>\<open>RawEvent\<close> name.\<close>

definition raw_event_columns :: "(string \<times> string) list" where
  "raw_event_columns =
     [(''id'', ''UUID''), (''channel_id'', ''UUID''), (''kind'', ''LowCardinality(String)''), (''name'', ''String''),
      (''device_time'', ''DateTime64(3, 'UTC')''), (''server_time'', ''DateTime64(3, 'UTC')''), (''properties'', ''String''),
      (''message_id'', ''UUID''), (''variant_id'', ''UUID''), (''suppression_reason'', ''LowCardinality(String)'')]"

definition raw_event_tags :: "string list" where
  "raw_event_tags = [''id'', ''channel_id'', ''kind'', ''name'', ''device_time'', ''server_time'', ''properties'',
     ''message_id'', ''variant_id'', ''suppression_reason'']"

definition newline :: string where "newline = [CHR 0x0A]"

definition column_line :: "string \<times> string \<Rightarrow> string" where
  "column_line c = ''    '' @ fst c @ replicate (19 - length (fst c)) (CHR '' '') @ snd c"

definition raw_events_ddl :: string where
  "raw_events_ddl = join newline
     [''CREATE TABLE IF NOT EXISTS '' @ tableName, ''('',
      join ('','' @ newline) (map column_line raw_event_columns), '')'',
      ''ENGINE = ReplacingMergeTree(server_time)'', ''PARTITION BY toDate(device_time)'',
      ''ORDER BY (message_id, device_time, id)'',
      ''TTL device_time + INTERVAL '' @ dec_of_nat RawEventRetentionMonths @ '' MONTH'']"

definition ensure_schema :: "('w, unit) host_io" where
  "ensure_schema = wrapping (''clickhouse: create '' @ tableName) (exec (\<lambda>w. w\<lparr>store_ddl := store_ddl w @ [raw_events_ddl]\<rparr>))"

text \<open>\<open>dsn_ok\<close> is what the library's parser of addresses accepts.\<close>

definition new_clickhouse :: "(string \<Rightarrow> bool) \<Rightarrow> string \<Rightarrow> ('w, unit) host_io" where
  "new_clickhouse dsn_ok dsn =
     and_then (wrapping ''clickhouse: parse dsn'' (of_result (if dsn_ok dsn then Inr () else Inl (Errorf ''invalid dsn'')))) (\<lambda>_.
       and_then (wrapping ''clickhouse: open'' (construct (ClickHouseConn dsn))) (\<lambda>_.
         and_then (on_error (close_handle (ClickHouseConn dsn)) (wrapping ''clickhouse: ping'' attempt)) (\<lambda>_.
           on_error (close_handle (ClickHouseConn dsn)) (wrapping ''clickhouse: ensure schema'' ensure_schema))))"

definition new_log_producer :: "log_config \<Rightarrow> ('w, unit) host_io" where
  "new_log_producer c =
     and_then (of_result (validate_log_config c)) (\<lambda>_.
       wrapping ''eventlog: new producer client'' (construct (LogClient (log_topic c))))"

definition producer_ping :: "('w, unit) host_io" where
  "producer_ping = wrapping ''eventlog: ping'' attempt"

definition start_queue :: "worker list \<Rightarrow> periodic_job list \<Rightarrow> ('w, unit) host_io" where
  "start_queue workers periodicJobs =
     and_then (wrapping ''build job queue client'' (\<lambda>w. let (r, w') = attempt w in
         (case new_job_client (is_ok r) workers periodicJobs of Inl e \<Rightarrow> Inl e | Inr c \<Rightarrow> Inr (), w'))) (\<lambda>_.
       wrapping ''start job queue client'' (construct JobQueue))"

section \<open>Telemetry\<close>

definition setup_observability :: "('w, unit) host_io" where
  "setup_observability =
     and_then (wrapping ''observability: resource'' attempt) (\<lambda>_.
       and_then (wrapping ''observability: trace exporter'' attempt) (\<lambda>_.
         and_then (obtain_handle TracerProvider) (\<lambda>_.
           and_then (wrapping ''observability: metric exporter'' attempt) (\<lambda>_.
             and_then (obtain_handle MeterProvider) (\<lambda>_ w. (Inr (), w\<lparr>global_providers := True\<rparr>))))))"

definition shutdown_observability :: "('w, unit) host_io" where
  "shutdown_observability =
     and_then (wrapping ''observability: shutdown tracer provider'' (close_handle TracerProvider)) (\<lambda>_.
       wrapping ''observability: shutdown meter provider'' (close_handle MeterProvider))"

section \<open>What is open\<close>

text \<open>
  The handles that nest, replayed as a stack: an end that does not meet its own handle on top is \<open>None\<close>. The
  providers of telemetry, which do not nest, are left to theory Process.
\<close>

fun nests :: "handle \<Rightarrow> bool" where
  "nests TracerProvider = False"
| "nests MeterProvider = False"
| "nests h = True"

fun act_nests :: "action \<Rightarrow> bool" where
  "act_nests (Opened h) = nests h"
| "act_nests (Closed h) = nests h"

fun settle :: "action list \<Rightarrow> handle list \<Rightarrow> handle list option" where
  "settle [] s = Some s"
| "settle (Opened h # as) s = settle as (h # s)"
| "settle (Closed h # as) s = (case s of [] \<Rightarrow> None | h' # s' \<Rightarrow> if h' = h then settle as s' else None)"

definition settled :: "action list \<Rightarrow> handle list \<Rightarrow> handle list option" where
  "settled as s = settle (filter act_nests as) s"

lemma settle_append: "settle (as @ bs) s = (case settle as s of None \<Rightarrow> None | Some s' \<Rightarrow> settle bs s')"
  by (induction as s rule: settle.induct) (auto split: list.splits)

lemma settled_simps [simp]:
  "settled [] s = Some s"
  "settled (as @ bs) s = (case settled as s of None \<Rightarrow> None | Some s' \<Rightarrow> settled bs s')"
  "nests h \<Longrightarrow> settled [Opened h] s = Some (h # s)" "nests h \<Longrightarrow> settled [Closed h] (h # s) = Some s"
  "\<not> nests h \<Longrightarrow> settled [Opened h] s = Some s" "\<not> nests h \<Longrightarrow> settled [Closed h] s = Some s"
  by (simp_all add: settled_def settle_append cong: option.case_cong)

text \<open>What a step adds to the journal, and what that does to the stack.\<close>

definition moves_stack :: "('w, 'a) host_io \<Rightarrow> ('a result \<Rightarrow> handle list \<Rightarrow> handle list) \<Rightarrow> bool" where
  "moves_stack m f = (\<forall>w. \<exists>as. journal (snd (m w)) = journal w @ as \<and> (\<forall>s. settled as s = Some (f (fst (m w)) s)))"

definition balanced :: "('w, 'a) host_io \<Rightarrow> bool" where
  "balanced m = moves_stack m (\<lambda>_ s. s)"

definition opens :: "handle \<Rightarrow> ('w, 'a) host_io \<Rightarrow> bool" where
  "opens h m = moves_stack m (\<lambda>r s. if is_ok r then h # s else s)"

definition closes :: "handle \<Rightarrow> ('w, unit) host_io \<Rightarrow> bool" where
  "closes h m = (\<forall>w. \<exists>as. journal (snd (m w)) = journal w @ as \<and> (\<forall>s. settled as (h # s) = Some s))"

lemma moves_stackI:
  "(\<And>w. \<exists>as. journal (snd (m w)) = journal w @ as \<and> (\<forall>s. settled as s = Some (f (fst (m w)) s))) \<Longrightarrow> moves_stack m f"
  by (simp add: moves_stack_def)

lemma balanced_still: "(\<And>w. journal (snd (m w)) = journal w) \<Longrightarrow> balanced m"
  by (simp add: balanced_def moves_stack_def)

named_theorems balance_intros \<open>steps that leave nothing open\<close>

lemma balanced_basic [balance_intros]:
  "balanced (ret x)" "balanced (fail e)" "balanced (of_result r)"
  by (rule balanced_still, simp)+

lemma balanced_keeps:
  assumes "\<And>J. keeps (\<lambda>w. journal w = J) m"
  shows "balanced m"
proof (rule balanced_still)
  fix w show "journal (snd (m w)) = journal w" using keepsD [OF assms [of "journal w"], of w] by simp
qed

lemma journal_blind: "fault_blind (\<lambda>w :: 'w host_world_scheme. journal w = J)"
  by (simp add: fault_blind_def)

lemma keeps_attempt: "keeps (\<lambda>w. journal w = J) attempt"
  unfolding attempt_def by (rule keeps_query [OF journal_blind])

lemma balanced_attempt [balance_intros]: "balanced attempt"
  by (rule balanced_keeps [OF keeps_attempt])

lemma balanced_wrapping [balance_intros]: "balanced m \<Longrightarrow> balanced (wrapping msg m)"
  by (simp add: balanced_def moves_stack_def)

lemma is_ok_wrapping: "is_ok (fst (wrapping msg m w)) = is_ok (fst (m w))"
  by (simp add: wrapping_def split: prod.splits sum.splits)

lemma opens_wrapping [balance_intros]: "opens h m \<Longrightarrow> opens h (wrapping msg m)"
  by (simp add: opens_def moves_stack_def is_ok_wrapping)

lemma balanced_and_then [balance_intros]:
  assumes "balanced m" "\<And>x. balanced (k x)"
  shows "balanced (and_then m k)"
  unfolding balanced_def
proof (rule moves_stackI)
  fix w
  obtain r w1 where m: "m w = (r, w1)" by force
  from assms(1) obtain as where 1: "journal w1 = journal w @ as" "\<And>s. settled as s = Some s"
    unfolding balanced_def moves_stack_def using m by (metis snd_conv)
  show "\<exists>as. journal (snd (and_then m k w)) = journal w @ as \<and> (\<forall>s. settled as s = Some s)"
  proof (cases r)
    case (Inl e)
    with m 1 show ?thesis by (auto simp: and_then_def)
  next
    case (Inr x)
    from assms(2) [of x] obtain bs where "journal (snd (k x w1)) = journal w1 @ bs" "\<And>s. settled bs s = Some s"
      unfolding balanced_def moves_stack_def by blast
    with m 1 Inr show ?thesis by (intro exI [of _ "as @ bs"]) (simp add: and_then_def)
  qed
qed

lemma balanced_on_error:
  assumes "balanced m" "balanced c"
  shows "balanced (on_error c m)"
  unfolding balanced_def
proof (rule moves_stackI)
  fix w
  obtain r w1 where m: "m w = (r, w1)" by force
  from assms(1) obtain as where 1: "journal w1 = journal w @ as" "\<And>s. settled as s = Some s"
    unfolding balanced_def moves_stack_def using m by (metis snd_conv)
  from assms(2) obtain bs where "journal (snd (c w1)) = journal w1 @ bs" "\<And>s. settled bs s = Some s"
    unfolding balanced_def moves_stack_def by blast
  with m 1 show "\<exists>as. journal (snd (on_error c m w)) = journal w @ as \<and> (\<forall>s. settled as s = Some s)"
    by (cases r) (auto simp: on_error_def intro!: exI [of _ "as @ bs"])
qed

text \<open>A constructor that connects: it opens, and closes again when what comes after the opening fails.\<close>

lemma opens_checked:
  assumes "opens h m" "balanced k" "closes h c"
  shows "opens h (and_then m (\<lambda>_. on_error c k))"
  unfolding opens_def
proof (rule moves_stackI)
  fix w
  obtain r w1 where m: "m w = (r, w1)" by force
  from assms(1) obtain as where 1: "journal w1 = journal w @ as" "\<And>s. settled as s = Some (if is_ok r then h # s else s)"
    unfolding opens_def moves_stack_def using m by (metis fst_conv snd_conv)
  obtain q w2 where k: "k w1 = (q, w2)" by force
  from assms(2) obtain bs where 2: "journal w2 = journal w1 @ bs" "\<And>s. settled bs s = Some s"
    unfolding balanced_def moves_stack_def using k by (metis snd_conv)
  from assms(3) obtain cs where 3: "journal (snd (c w2)) = journal w2 @ cs" "\<And>s. settled cs (h # s) = Some s"
    unfolding closes_def by blast
  show "\<exists>as. journal (snd (and_then m (\<lambda>_. on_error c k) w)) = journal w @ as
      \<and> (\<forall>s. settled as s = Some (if is_ok (fst (and_then m (\<lambda>_. on_error c k) w)) then h # s else s))"
  proof (cases r)
    case (Inl e)
    with m 1 show ?thesis by (auto simp: and_then_def)
  next
    case r: (Inr x)
    show ?thesis
    proof (cases q)
      case (Inl e)
      with m r k 1 2 3 show ?thesis by (intro exI [of _ "as @ bs @ cs"]) (simp add: and_then_def on_error_def)
    next
      case (Inr y)
      with m r k 1 2 show ?thesis by (intro exI [of _ "as @ bs"]) (simp add: and_then_def on_error_def)
    qed
  qed
qed

lemma opens_construct: "nests h \<Longrightarrow> opens h (construct h)"
  unfolding opens_def
  by (rule moves_stackI) (auto simp: construct_def note_action_def split: list.splits outcome.splits)

lemma opens_obtain: "nests h \<Longrightarrow> opens h (obtain_handle h)"
  unfolding opens_def by (rule moves_stackI) (simp add: obtain_handle_def note_action_def)

lemma closes_release: "nests h \<Longrightarrow> closes h (release h)"
  by (simp add: closes_def release_def note_action_def)

lemma journal_attempt: "journal (snd (attempt w)) = journal w"
  using keepsD [OF keeps_attempt [of "journal w"], of w] by simp

lemma closes_close: "nests h \<Longrightarrow> closes h (close_handle h)"
  by (simp add: closes_def close_handle_def note_action_def split_beta journal_attempt)

section \<open>The contract of a connection\<close>

text \<open>A step into the use of the handles \<open>H\<close>, the last one first.\<close>

definition enters :: "handle list \<Rightarrow> 'w host_world_scheme \<Rightarrow> 'w host_world_scheme \<Rightarrow> bool" where
  "enters H w w1 = (\<exists>as. journal w1 = journal w @ as \<and> (\<forall>s. settled as s = Some (H @ s)))"

lemma enters_refl: "enters [] w w"
  by (simp add: enters_def)

lemma enters_trans:
  assumes "enters H w w1" "enters H' w1 w2"
  shows "enters (H' @ H) w w2"
proof -
  from assms obtain as bs where "journal w1 = journal w @ as" "\<And>s. settled as s = Some (H @ s)"
    "journal w2 = journal w1 @ bs" "\<And>s. settled bs s = Some (H' @ s)" by (auto simp: enters_def)
  then show ?thesis by (auto simp: enters_def intro!: exI [of _ "as @ bs"])
qed

lemma enters_balanced: "balanced m \<Longrightarrow> m w = (r, w') \<Longrightarrow> enters [] w w'"
  unfolding balanced_def moves_stack_def enters_def by (metis append_Nil snd_conv)

locale connection =
  fixes handle :: handle
    and connect :: "('w, 'x) host_io"
    and disconnect :: "('w, unit) host_io"
  assumes opens: "opens handle connect"
    and closes: "closes handle disconnect"
begin

lemma bracket:
  assumes "\<And>x. balanced (k x)"
  shows "balanced (and_then connect (\<lambda>x. deferring disconnect (k x)))"
  unfolding balanced_def
proof (rule moves_stackI)
  fix w
  obtain r w1 where m: "connect w = (r, w1)" by force
  from opens obtain as where 1: "journal w1 = journal w @ as" "\<And>s. settled as s = Some (if is_ok r then handle # s else s)"
    unfolding opens_def moves_stack_def using m by (metis fst_conv snd_conv)
  show "\<exists>as. journal (snd (and_then connect (\<lambda>x. deferring disconnect (k x)) w)) = journal w @ as \<and> (\<forall>s. settled as s = Some s)"
  proof (cases r)
    case (Inl e)
    with m 1 show ?thesis by (auto simp: and_then_def)
  next
    case (Inr x)
    obtain q w2 where k: "k x w1 = (q, w2)" by force
    from assms [of x] obtain bs where 2: "journal w2 = journal w1 @ bs" "\<And>s. settled bs s = Some s"
      unfolding balanced_def moves_stack_def using k by (metis snd_conv)
    from closes obtain cs where "journal (snd (disconnect w2)) = journal w2 @ cs" "\<And>s. settled cs (handle # s) = Some s"
      unfolding closes_def by blast
    with m k 1 2 Inr show ?thesis
      by (intro exI [of _ "as @ bs @ cs"]) (simp add: and_then_def deferring_def)
  qed
qed

lemma reaches:
  assumes "and_then connect (\<lambda>x. deferring disconnect (k x)) w = (Inr y, w')"
  obtains x w1 w2 where "enters [handle] w w1" "k x w1 = (Inr y, w2)"
proof -
  from assms obtain x w1 where m: "connect w = (Inr x, w1)" and d: "deferring disconnect (k x) w1 = (Inr y, w')"
    by (auto simp: and_then_ok)
  from opens obtain as where 1: "journal w1 = journal w @ as" "\<And>s. settled as s = Some (handle # s)"
    unfolding opens_def moves_stack_def using m by (metis fst_conv is_ok_simps(1) snd_conv)
  from d obtain w2 where "k x w1 = (Inr y, w2)" by (auto simp: deferring_def split: prod.splits)
  moreover have "enters [handle] w w1" using 1 by (auto simp: enters_def)
  ultimately show thesis using that by blast
qed

end

text \<open>The constructors of the program keep it.\<close>

lemma and_then_assoc: "and_then m (\<lambda>x. and_then (f x) g) = and_then (and_then m f) g"
  by (auto simp: fun_eq_iff and_then_def split: prod.splits sum.splits)

lemma opens_after:
  assumes "balanced m" "\<And>x. opens h (k x)"
  shows "opens h (and_then m k)"
  unfolding opens_def
proof (rule moves_stackI)
  fix w
  obtain r w1 where m: "m w = (r, w1)" by force
  from assms(1) obtain as where 1: "journal w1 = journal w @ as" "\<And>s. settled as s = Some s"
    unfolding balanced_def moves_stack_def using m by (metis snd_conv)
  show "\<exists>as. journal (snd (and_then m k w)) = journal w @ as
      \<and> (\<forall>s. settled as s = Some (if is_ok (fst (and_then m k w)) then h # s else s))"
  proof (cases r)
    case (Inl e)
    with m 1 show ?thesis by (auto simp: and_then_def)
  next
    case (Inr x)
    from assms(2) [of x] obtain bs where "journal (snd (k x w1)) = journal w1 @ bs"
      "\<And>s. settled bs s = Some (if is_ok (fst (k x w1)) then h # s else s)"
      unfolding opens_def moves_stack_def by blast
    with m 1 Inr show ?thesis by (intro exI [of _ "as @ bs"]) (simp add: and_then_def)
  qed
qed

lemma balanced_schema: "balanced ensure_schema"
  unfolding ensure_schema_def
  by (intro balanced_wrapping balanced_keeps keeps_exec [OF journal_blind]) simp

interpretation signals: connection SignalContext "obtain_handle SignalContext" "release SignalContext"
  by unfold_locales (simp_all add: opens_obtain closes_release)

interpretation postgres: connection "PostgresPool dsn" "wrapping msg (new_pool dsn)" "release (PostgresPool dsn)" for msg dsn
  by unfold_locales
    (auto simp: new_pool_def intro!: opens_wrapping opens_checked opens_construct balance_intros closes_release)

interpretation redis: connection "RedisClient addr" "wrapping msg (new_redis addr)" "close_handle (RedisClient addr)" for msg addr
  by unfold_locales
    (auto simp: new_redis_def intro!: opens_wrapping opens_checked opens_obtain balance_intros closes_close)

interpretation clickhouse: connection "ClickHouseConn dsn" "wrapping msg (new_clickhouse dsn_ok dsn)" "close_handle (ClickHouseConn dsn)"
  for msg dsn_ok dsn
proof
  show "opens (ClickHouseConn dsn) (wrapping msg (new_clickhouse dsn_ok dsn))"
  proof -
    have opened: "opens (ClickHouseConn dsn)
        (and_then (wrapping ''clickhouse: open'' (construct (ClickHouseConn dsn))) (\<lambda>_.
          on_error (close_handle (ClickHouseConn dsn)) (wrapping ''clickhouse: ping'' attempt)))"
      by (intro opens_checked opens_wrapping opens_construct balance_intros closes_close) simp_all
    show ?thesis
      unfolding new_clickhouse_def and_then_assoc [where m = "wrapping ''clickhouse: open'' m" for m]
      by (rule opens_wrapping, rule opens_after, intro balance_intros, rule opens_checked [OF opened])
        (auto simp: closes_close intro!: balance_intros balanced_schema)
  qed
qed (simp add: closes_close)

interpretation queue: connection JobQueue "start_queue workers jobs" "close_handle JobQueue" for workers jobs
proof
  have "balanced (\<lambda>w. let (r, w') = attempt w in
      (case new_job_client (is_ok r) workers jobs of Inl e \<Rightarrow> Inl e | Inr c \<Rightarrow> Inr (), w'))"
    by (rule balanced_still) (simp add: split_beta journal_attempt)
  then show "opens JobQueue (start_queue workers jobs)"
    unfolding start_queue_def by (intro opens_after opens_wrapping opens_construct balanced_wrapping) simp_all
qed (simp add: closes_close)

interpretation event_log: connection "LogClient (log_topic c)" "wrapping msg (new_log_producer c)" "release (LogClient (log_topic c))"
  for msg c
  by unfold_locales (auto simp: new_log_producer_def intro!: opens_after opens_wrapping opens_construct balance_intros closes_release)

end
