(* ===== verification/Process.thy ===== *)
theory Process
  imports Clients Handlers
begin

text \<open>
  \<^verbatim>\<open>cmd/server\<close>: a process from its environment to its exit. It connects to what its configuration names, starts the
  periodic workers, hands the rest to \<^verbatim>\<open>NewMux\<close>, serves until a signal or an error ends that, and gives back what it
  took, the last first. What is served in between is an argument of \<open>run\<close>; theories KillSwitch and Access have the
  properties of the requests.
\<close>

record outside =
  script_runs :: "string \<Rightarrow> string list \<Rightarrow> bool"
  migration_dir :: "dir_entry list result"
  read_migration :: "string \<Rightarrow> string result"
  dsn_accepted :: "string \<Rightarrow> bool"

record 'v process =
  proc_server :: "'v server"
  proc_workers :: "worker list"
  proc_jobs :: "periodic_job list"

section \<open>The way up\<close>

text \<open>Each part runs the rest of \<^verbatim>\<open>run\<close>, its last argument, inside its deferred end. An address that is not set is a part left out.\<close>

definition with_postgres :: "outside \<Rightarrow> process_config \<Rightarrow> (bool \<Rightarrow> ('w, 'a) host_io) \<Rightarrow> ('w, 'a) host_io" where
  "with_postgres out cfg k =
     (if postgres_dsn cfg = [] then k False
      else and_then (wrapping ''connect to postgres'' (new_pool (postgres_dsn cfg))) (\<lambda>_.
        deferring (release (PostgresPool (postgres_dsn cfg)))
          (and_then (wrapping ''apply migrations'' (migrate (script_runs out) (migration_dir out) (read_migration out)))
            (\<lambda>_. k True))))"

definition with_redis :: "process_config \<Rightarrow> (bool \<Rightarrow> ('w, 'a) host_io) \<Rightarrow> ('w, 'a) host_io" where
  "with_redis cfg k =
     (if redis_addr cfg = [] then k False
      else and_then (wrapping ''connect to redis'' (new_redis (redis_addr cfg))) (\<lambda>_.
        deferring (close_handle (RedisClient (redis_addr cfg))) (k True)))"

definition with_mirror ::
  "outside \<Rightarrow> process_config \<Rightarrow> (worker list \<Rightarrow> periodic_job list \<Rightarrow> ('w, 'a) host_io) \<Rightarrow> ('w, 'a) host_io" where
  "with_mirror out cfg k =
     (if clickhouse_mirror cfg \<and> clickhouse_dsn cfg \<noteq> [] then
        and_then (wrapping ''connect to clickhouse'' (new_clickhouse (dsn_accepted out) (clickhouse_dsn cfg))) (\<lambda>_.
          deferring (close_handle (ClickHouseConn (clickhouse_dsn cfg))) (k [MirrorWorker []] [mirror_periodic_job]))
      else k [] [])"

definition budget_counter :: "bool \<Rightarrow> duration option" where
  "budget_counter redis = (if redis then Some (24 * hour) else None)"

definition base_workers :: "bool \<Rightarrow> worker list" where
  "base_workers redis = [ReconcileWorker redis, RollupRecomputeWorker [] (budget_counter redis), ActivationSlotWorker]"

definition base_jobs :: "periodic_job list" where
  "base_jobs = [reconcile_periodic_job, rollup_recompute_periodic_job, activation_slot_periodic_job]"

definition with_jobs ::
  "outside \<Rightarrow> process_config \<Rightarrow> bool \<Rightarrow> bool \<Rightarrow> (worker list \<Rightarrow> periodic_job list \<Rightarrow> ('w, 'a) host_io) \<Rightarrow> ('w, 'a) host_io" where
  "with_jobs out cfg pool redis k =
     (if pool then
        and_then (wrapping ''build placeholder attribute registry'' (of_result (new_registry []))) (\<lambda>_.
          with_mirror out cfg (\<lambda>ws js.
            and_then (start_queue (base_workers redis @ ws) (base_jobs @ js)) (\<lambda>_.
              deferring (close_handle JobQueue) (k (base_workers redis @ ws) (base_jobs @ js)))))
      else k [] [])"

definition log_config_of :: "process_config \<Rightarrow> log_config" where
  "log_config_of cfg = \<lparr>log_brokers = event_log_brokers cfg, log_topic = event_log_topic cfg\<rparr>"

definition with_publisher ::
  "process_config \<Rightarrow> (time \<Rightarrow> string result) \<Rightarrow> ('v deliver_sink option \<Rightarrow> ('w, 'a) host_io) \<Rightarrow> ('w, 'a) host_io" where
  "with_publisher cfg put_time k =
     (if publisher_mode cfg = EventPublisherLog then
        and_then (wrapping ''connect to event log'' (new_log_producer (log_config_of cfg))) (\<lambda>_.
          deferring (release (LogClient (log_topic (log_config_of cfg)))) (k (Some (log_publish put_time))))
      else k None)"

definition server_of :: "process_config \<Rightarrow> bool \<Rightarrow> bool \<Rightarrow> 'v deliver_sink option \<Rightarrow> 'v server" where
  "server_of cfg pool redis pub =
     \<lparr>srv_pool = pool, srv_redis = redis, srv_secret = token_signing_key cfg,
      srv_authenticator = (if admin_keys cfg = [] then None else Some (authenticate (admin_keys cfg))),
      srv_publisher = pub\<rparr>"

definition run ::
  "outside \<Rightarrow> (time \<Rightarrow> string result) \<Rightarrow> environment \<Rightarrow> ('v process \<Rightarrow> ('w, 'a) host_io) \<Rightarrow> ('w, 'a) host_io" where
  "run out put_time env session =
     and_then (obtain_handle SignalContext) (\<lambda>_. deferring (release SignalContext)
       (and_then (wrapping ''load config'' (of_result (load_config env))) (\<lambda>cfg.
         and_then (wrapping ''set up observability'' setup_observability) (\<lambda>_. deferring shutdown_observability
           (with_postgres out cfg (\<lambda>pool.
             with_redis cfg (\<lambda>redis.
               with_jobs out cfg pool redis (\<lambda>workers jobs.
                 with_publisher cfg put_time (\<lambda>pub.
                   and_then (wrapping ''build connect mux'' attempt) (\<lambda>_.
                     session \<lparr>proc_server = server_of cfg pool redis pub, proc_workers = workers, proc_jobs = jobs\<rparr>))))))))))"

section \<open>Serving and the way down\<close>

text \<open>How \<^verbatim>\<open>ListenAndServe\<close> ends, and what \<^verbatim>\<open>select\<close> finds first: the signal, or that end.\<close>

datatype listen_end = ErrServerClosed | ListenError go_error

datatype wake = ContextDone | ServeErr

definition serve_err :: "listen_end \<Rightarrow> unit result" where
  "serve_err ending = (case ending of ErrServerClosed \<Rightarrow> Inr () | ListenError e \<Rightarrow> Inl e)"

definition serve_until :: "wake \<Rightarrow> listen_end \<Rightarrow> ('w, unit) host_io" where
  "serve_until first ending =
     (case first of
        ContextDone \<Rightarrow> and_then (wrapping ''shut down server'' attempt) (\<lambda>_. of_result (serve_err ending))
      | ServeErr \<Rightarrow> of_result (serve_err ending))"

definition run_server ::
  "outside \<Rightarrow> (time \<Rightarrow> string result) \<Rightarrow> environment \<Rightarrow> wake \<Rightarrow> listen_end \<Rightarrow> ('w, unit) host_io" where
  "run_server out put_time env first ending = run out put_time env (\<lambda>_ :: unit process. serve_until first ending)"

definition main_exit :: "unit result \<Rightarrow> int" where
  "main_exit r = (if is_ok r then 0 else 1)"

section \<open>What is opened is closed\<close>

lemma balanced_deferring:
  assumes "balanced d" "balanced m"
  shows "balanced (deferring d m)"
  unfolding balanced_def
proof (rule moves_stackI)
  fix w
  obtain r w1 where m: "m w = (r, w1)" by force
  from assms(2) obtain as where 1: "journal w1 = journal w @ as" "\<And>s. settled as s = Some s"
    unfolding balanced_def moves_stack_def using m by (metis snd_conv)
  from assms(1) obtain bs where "journal (snd (d w1)) = journal w1 @ bs" "\<And>s. settled bs s = Some s"
    unfolding balanced_def moves_stack_def by blast
  with m 1 show "\<exists>as. journal (snd (deferring d m w)) = journal w @ as \<and> (\<forall>s. settled as s = Some s)"
    by (intro exI [of _ "as @ bs"]) (simp add: deferring_def)
qed

lemma keeps_migrate_journal: "keeps (\<lambda>w. journal w = J) (migrate runs dir read_file)"
proof -
  let ?I = "\<lambda>w :: 'a host_world_scheme. journal w = J"
  note blind = journal_blind [of J]
  have "keeps ?I (apply_tx runs f c)" for f c
    unfolding apply_tx_def by (intro keeps_and_then keeps_wrapping keeps_remote [OF blind]) auto
  then have "keeps ?I (apply_migration runs read_file f)" for f
    unfolding apply_migration_def
    by (auto intro!: keeps_and_then keeps_wrapping keeps_query [OF blind] keeps_of_result keeps_ret keeps_in_tx blind)
  then show ?thesis
    unfolding migrate_def create_ledger_def
    by (intro keeps_and_then keeps_wrapping keeps_exec [OF blind] keeps_of_result keeps_for_each) auto
qed

lemma balanced_migrate: "balanced (migrate runs dir read_file)"
  by (rule balanced_keeps [OF keeps_migrate_journal])

lemma balanced_telemetry: "balanced setup_observability" "balanced shutdown_observability"
proof -
  have opened: "balanced (obtain_handle h)" if "\<not> nests h" for h :: handle
    unfolding balanced_def by (rule moves_stackI) (use that in \<open>simp add: obtain_handle_def note_action_def\<close>)
  have closed: "balanced (close_handle h)" if "\<not> nests h" for h :: handle
    unfolding balanced_def
    by (rule moves_stackI) (use that in \<open>simp add: close_handle_def note_action_def split_beta journal_attempt\<close>)
  have "balanced (\<lambda>w. (Inr (), w\<lparr>global_providers := True\<rparr>))" by (rule balanced_still) simp
  then show "balanced setup_observability"
    unfolding setup_observability_def by (intro balance_intros opened) simp_all
  show "balanced shutdown_observability"
    unfolding shutdown_observability_def by (intro balance_intros closed) simp_all
qed

lemma balanced_with_publisher: "(\<And>pub. balanced (k pub)) \<Longrightarrow> balanced (with_publisher cfg put_time k)"
  unfolding with_publisher_def by (auto intro: event_log.bracket)

lemma balanced_with_mirror: "(\<And>ws js. balanced (k ws js)) \<Longrightarrow> balanced (with_mirror out cfg k)"
  unfolding with_mirror_def by (auto intro: clickhouse.bracket)

lemma balanced_with_jobs: "(\<And>ws js. balanced (k ws js)) \<Longrightarrow> balanced (with_jobs out cfg pool redis k)"
  unfolding with_jobs_def by (auto intro!: balance_intros queue.bracket balanced_with_mirror)

lemma balanced_with_redis: "(\<And>b. balanced (k b)) \<Longrightarrow> balanced (with_redis cfg k)"
  unfolding with_redis_def by (auto intro: redis.bracket)

lemma balanced_with_postgres: "(\<And>b. balanced (k b)) \<Longrightarrow> balanced (with_postgres out cfg k)"
  unfolding with_postgres_def by (auto intro!: postgres.bracket balance_intros balanced_migrate)

lemma run_balanced: "(\<And>p. balanced (session p)) \<Longrightarrow> balanced (run out put_time env session)"
  unfolding run_def
  by (intro signals.bracket balance_intros balanced_deferring balanced_telemetry balanced_with_postgres
      balanced_with_redis balanced_with_jobs balanced_with_publisher)

lemma balanced_serve_until: "balanced (serve_until first ending)"
  by (cases first) (auto simp: serve_until_def intro!: balance_intros)

section \<open>What telemetry leaves\<close>

text \<open>The providers' part of the journal.\<close>

definition provider_actions :: "action list \<Rightarrow> action list" where
  "provider_actions as = filter (Not \<circ> act_nests) as"

lemma provider_actions_append [simp]: "provider_actions (as @ bs) = provider_actions as @ provider_actions bs"
  by (simp add: provider_actions_def)

lemma keeps_deferring: "keeps I m \<Longrightarrow> keeps I d \<Longrightarrow> keeps I (deferring d m)"
  by (simp add: keeps_def deferring_def split_beta)

lemma keeps_on_error: "keeps I m \<Longrightarrow> keeps I c \<Longrightarrow> keeps I (on_error c m)"
  unfolding keeps_def on_error_def by (auto split: prod.splits sum.splits)

text \<open>Nothing but the set up and the shutdown touches the providers.\<close>

named_theorems apart \<open>steps that do not touch the providers\<close>

abbreviation providers_at :: "action list \<Rightarrow> 'w host_world_scheme \<Rightarrow> bool" where
  "providers_at T w \<equiv> provider_actions (journal w) = T"

lemma providers_blind: "fault_blind (providers_at T)"
  by (simp add: fault_blind_def)

lemma apart_attempt [apart]: "keeps (providers_at T) attempt"
  unfolding attempt_def by (rule keeps_query [OF providers_blind])

lemma apart_handles [apart]:
  assumes "nests h"
  shows "keeps (providers_at T) (construct h)" "keeps (providers_at T) (obtain_handle h)"
    "keeps (providers_at T) (release h)" "keeps (providers_at T) (close_handle h)"
proof -
  have "providers_at T (note_action (Opened h) w) = providers_at T w" "providers_at T (note_action (Closed h) w) = providers_at T w"
    for w :: "'w host_world_scheme" using assms by (simp_all add: note_action_def provider_actions_def)
  note noted = this
  show "keeps (providers_at T) (construct h)"
    by (rule keepsI) (auto simp: construct_def noted split: list.splits outcome.splits)
  show "keeps (providers_at T) (obtain_handle h)" "keeps (providers_at T) (release h)"
    by (rule keepsI; simp add: obtain_handle_def release_def noted)+
  show "keeps (providers_at T) (close_handle h)"
    by (rule keepsI) (use keepsD [OF apart_attempt] in \<open>auto simp: close_handle_def noted split_beta\<close>)
qed

lemma apart_migrate [apart]: "keeps (providers_at T) (migrate runs dir read_file)"
proof (rule keepsI)
  fix w :: "'a host_world_scheme"
  assume T: "providers_at T w"
  have "journal (snd (migrate runs dir read_file w)) = journal w"
    using keepsD [OF keeps_migrate_journal [of "journal w"], of w] by simp
  with T show "providers_at T (snd (migrate runs dir read_file w))" by simp
qed

lemmas apart_steps = keeps_and_then keeps_wrapping keeps_of_result keeps_ret keeps_fail keeps_deferring keeps_on_error

lemma apart_clients [apart]:
  "keeps (providers_at T) (new_pool dsn)" "keeps (providers_at T) (new_redis addr)"
  "keeps (providers_at T) (new_clickhouse dsn_ok dsn)" "keeps (providers_at T) (new_log_producer c)"
proof -
  have "keeps (providers_at T) ensure_schema"
    unfolding ensure_schema_def by (intro keeps_wrapping keeps_exec [OF providers_blind]) simp
  then show "keeps (providers_at T) (new_clickhouse dsn_ok dsn)"
    unfolding new_clickhouse_def by (intro apart_steps apart) simp_all
qed (unfold new_pool_def new_redis_def new_log_producer_def, (intro apart_steps apart; simp)+)

lemma apart_queue [apart]: "keeps (providers_at T) (start_queue workers jobs)"
proof -
  have "keeps (providers_at T) (\<lambda>w. let (r, w') = attempt w in
      (case new_job_client (is_ok r) workers jobs of Inl e \<Rightarrow> Inl e | Inr c \<Rightarrow> Inr (), w'))"
    by (rule keepsI) (use keepsD [OF apart_attempt] in \<open>auto simp: split_beta\<close>)
  then show ?thesis unfolding start_queue_def by (intro apart_steps apart) simp_all
qed

lemma apart_parts [apart]:
  "(\<And>b. keeps (providers_at T) (k b)) \<Longrightarrow> keeps (providers_at T) (with_postgres out cfg k)"
  "(\<And>b. keeps (providers_at T) (k b)) \<Longrightarrow> keeps (providers_at T) (with_redis cfg k)"
  "(\<And>pub. keeps (providers_at T) (k' pub)) \<Longrightarrow> keeps (providers_at T) (with_publisher cfg put_time k')"
  "(\<And>ws js. keeps (providers_at T) (l ws js)) \<Longrightarrow> keeps (providers_at T) (with_mirror out cfg l)"
  by (auto simp: with_postgres_def with_redis_def with_publisher_def with_mirror_def intro!: apart_steps apart)

lemma apart_jobs [apart]:
  "(\<And>ws js. keeps (providers_at T) (l ws js)) \<Longrightarrow> keeps (providers_at T) (with_jobs out cfg pool redis l)"
  by (auto simp: with_jobs_def intro!: apart_steps apart)

lemma apart_serve_until [apart]: "keeps (providers_at T) (serve_until first ending)"
  by (cases first) (auto simp: serve_until_def intro!: apart_steps apart)

text \<open>All that can become of the two providers.\<close>

definition provider_courses :: "action list list" where
  "provider_courses =
     [[], [Opened TracerProvider],
      [Opened TracerProvider, Opened MeterProvider, Closed TracerProvider],
      [Opened TracerProvider, Opened MeterProvider, Closed TracerProvider, Closed MeterProvider]]"

lemma provider_note [simp]:
  "provider_actions (journal (note_action a w)) = provider_actions (journal w) @ (if act_nests a then [] else [a])"
  by (simp add: note_action_def provider_actions_def)

lemma snd_and_then: "snd (and_then m k w) = (case fst (m w) of Inl e \<Rightarrow> snd (m w) | Inr x \<Rightarrow> snd (k x (snd (m w))))"
  by (simp add: and_then_def split: prod.splits sum.splits)

lemma fst_and_then: "fst (and_then m k w) = (case fst (m w) of Inl e \<Rightarrow> Inl e | Inr x \<Rightarrow> fst (k x (snd (m w))))"
  by (simp add: and_then_def split: prod.splits sum.splits)

lemma providers_attempt [simp]: "provider_actions (journal (snd (attempt w))) = provider_actions (journal w)"
  by (simp add: journal_attempt)

lemma setup_course:
  "provider_actions (journal (snd (setup_observability w))) \<in> (\<lambda>as. provider_actions (journal w) @ as) `
     (if is_ok (fst (setup_observability w)) then {[Opened TracerProvider, Opened MeterProvider]} else {[], [Opened TracerProvider]})"
  by (auto simp: setup_observability_def snd_and_then fst_and_then is_ok_wrapping obtain_handle_def split: sum.splits)
   
lemma shutdown_course:
  "provider_actions (journal (snd (shutdown_observability w))) \<in> (\<lambda>as. provider_actions (journal w) @ as) `
     {[Closed TracerProvider], [Closed TracerProvider, Closed MeterProvider]}"
  by (auto simp: shutdown_observability_def snd_and_then close_handle_def split_beta split: sum.splits)

lemma run_providers:
  assumes "\<And>T p. keeps (providers_at T) (session p)"
  shows "\<exists>as \<in> set provider_courses.
    provider_actions (journal (snd (run out put_time env session w))) = provider_actions (journal w) @ as"
proof -
  let ?T = "provider_actions (journal w)"
  define inner where "inner cfg = with_postgres out cfg (\<lambda>pool.
             with_redis cfg (\<lambda>redis.
               with_jobs out cfg pool redis (\<lambda>workers jobs.
                 with_publisher cfg put_time (\<lambda>pub.
                   and_then (wrapping ''build connect mux'' attempt) (\<lambda>_.
                     session \<lparr>proc_server = server_of cfg pool redis pub, proc_workers = workers, proc_jobs = jobs\<rparr>)))))" for cfg
  have inner: "keeps (providers_at T) (inner cfg)" for T cfg
    unfolding inner_def by (intro apart_parts apart_jobs apart_steps apart assms)
  define body where "body cfg = and_then (wrapping ''set up observability'' setup_observability)
      (\<lambda>_. deferring shutdown_observability (inner cfg))" for cfg
  have body: "\<exists>as \<in> set provider_courses. provider_actions (journal (snd (body cfg v))) = provider_actions (journal v) @ as" for cfg v
  proof (cases "is_ok (fst (setup_observability v))")
    case False
    with setup_course [of v] show ?thesis
      by (auto simp: body_def snd_and_then wrapping_def provider_courses_def split: prod.splits sum.splits)
  next
    case True
    let ?v1 = "snd (setup_observability v)"
    let ?v2 = "snd (inner cfg ?v1)"
    from True setup_course [of v] have "provider_actions (journal ?v1) = provider_actions (journal v) @ [Opened TracerProvider, Opened MeterProvider]"
      by simp
    with keepsD [OF inner refl, of cfg ?v1]
    have "provider_actions (journal ?v2) = provider_actions (journal v) @ [Opened TracerProvider, Opened MeterProvider]" by simp
    with shutdown_course [of ?v2] True show ?thesis
      by (auto simp: body_def snd_and_then deferring_def split_beta provider_courses_def wrapping_def split: sum.splits prod.splits)
  qed
  have run: "run out put_time env session w = deferring (release SignalContext)
      (and_then (wrapping ''load config'' (of_result (load_config env))) body) (note_action (Opened SignalContext) w)"
    by (simp add: run_def body_def [abs_def] inner_def [abs_def] and_then_def obtain_handle_def)
  have "\<exists>as \<in> set provider_courses. provider_actions (journal (snd
      (and_then (wrapping ''load config'' (of_result (load_config env))) body (note_action (Opened SignalContext) w)))) = ?T @ as"
    using body [of _ "note_action (Opened SignalContext) w"]
    by (cases "load_config env") (simp_all add: and_then_def wrapping_def provider_courses_def)
  then show ?thesis by (simp add: run deferring_def release_def split_beta)
qed

text \<open>
  C12: whatever fails on the way up, while serving and on the way down, the process closes every connection, client and
  queue it opened, once and the last first; of the two telemetry providers it closes both, but for two failures, and then the
  tracer, after a metric exporter that fails, or the meter, after a tracer that does not shut down, is left.
\<close>

theorem process_closes_what_it_opens:
  "(\<exists>as. journal (snd (run_server out put_time env first ending w)) = journal w @ as \<and> settled as [] = Some [])
    \<and> (\<exists>as \<in> set provider_courses.
         provider_actions (journal (snd (run_server out put_time env first ending w))) = provider_actions (journal w) @ as)"
proof
  have "balanced (run_server out put_time env first ending :: ('a, unit) host_io)"
    unfolding run_server_def by (rule run_balanced [OF balanced_serve_until])
  then show "\<exists>as. journal (snd (run_server out put_time env first ending w)) = journal w @ as \<and> settled as [] = Some []"
    unfolding balanced_def moves_stack_def by blast
  show "\<exists>as \<in> set provider_courses.
      provider_actions (journal (snd (run_server out put_time env first ending w))) = provider_actions (journal w) @ as"
    unfolding run_server_def by (rule run_providers [OF apart_serve_until])
qed

section \<open>What a serving process has\<close>

definition process_of :: "(time \<Rightarrow> string result) \<Rightarrow> process_config \<Rightarrow> 'v process" where
  "process_of put_time cfg =
     (let pool = postgres_dsn cfg \<noteq> []; redis = redis_addr cfg \<noteq> [];
          mirror = clickhouse_mirror cfg \<and> clickhouse_dsn cfg \<noteq> []
      in \<lparr>proc_server = server_of cfg pool redis
            (if publisher_mode cfg = EventPublisherLog then Some (log_publish put_time) else None),
          proc_workers = (if pool then base_workers redis @ (if mirror then [MirrorWorker []] else []) else []),
          proc_jobs = (if pool then base_jobs @ (if mirror then [mirror_periodic_job] else []) else [])\<rparr>)"

text \<open>The handles in use while it serves, the last first.\<close>

definition handles_of :: "process_config \<Rightarrow> handle list" where
  "handles_of cfg =
     (if publisher_mode cfg = EventPublisherLog then [LogClient (event_log_topic cfg)] else [])
     @ (if postgres_dsn cfg \<noteq> [] then
          JobQueue # (if clickhouse_mirror cfg \<and> clickhouse_dsn cfg \<noteq> [] then [ClickHouseConn (clickhouse_dsn cfg)] else [])
        else [])
     @ (if redis_addr cfg = [] then [] else [RedisClient (redis_addr cfg)])
     @ (if postgres_dsn cfg = [] then [] else [PostgresPool (postgres_dsn cfg)])
     @ [SignalContext]"

lemma deferring_ok: "deferring d m w = (Inr y, w') \<Longrightarrow> \<exists>w1. m w = (Inr y, w1)"
  by (auto simp: deferring_def split: prod.splits)

lemma reaches_postgres:
  assumes "with_postgres out cfg k w = (Inr y, w')"
  shows "\<exists>w1 w2. enters (if postgres_dsn cfg = [] then [] else [PostgresPool (postgres_dsn cfg)]) w w1
    \<and> k (postgres_dsn cfg \<noteq> []) w1 = (Inr y, w2)"
proof (cases "postgres_dsn cfg = []")
  case True
  with assms show ?thesis by (auto simp: with_postgres_def intro: enters_refl)
next
  case False
  with assms have "and_then (wrapping ''connect to postgres'' (new_pool (postgres_dsn cfg))) (\<lambda>_.
        deferring (release (PostgresPool (postgres_dsn cfg)))
          (and_then (wrapping ''apply migrations'' (migrate (script_runs out) (migration_dir out) (read_migration out)))
            (\<lambda>_. k True))) w = (Inr y, w')" by (simp add: with_postgres_def)
  then obtain w1 w2 where 1: "enters [PostgresPool (postgres_dsn cfg)] w w1"
    and m: "and_then (wrapping ''apply migrations'' (migrate (script_runs out) (migration_dir out) (read_migration out))) (\<lambda>_. k True) w1 = (Inr y, w2)"
    by (rule postgres.reaches)
  from m obtain u v where "wrapping ''apply migrations'' (migrate (script_runs out) (migration_dir out) (read_migration out)) w1 = (Inr u, v)"
    and k: "k True v = (Inr y, w2)" by (auto simp only: and_then_ok)
  from enters_balanced [OF balanced_wrapping [OF balanced_migrate] this(1)] have "enters [] w1 v" .
  from enters_trans [OF 1 this] k False show ?thesis by auto
qed

lemma reaches_redis:
  "with_redis cfg k w = (Inr y, w') \<Longrightarrow>
    \<exists>w1 w2. enters (if redis_addr cfg = [] then [] else [RedisClient (redis_addr cfg)]) w w1 \<and> k (redis_addr cfg \<noteq> []) w1 = (Inr y, w2)"
  by (auto simp: with_redis_def intro: enters_refl elim!: redis.reaches split: if_splits)

lemma reaches_publisher:
  "with_publisher cfg put_time k w = (Inr y, w') \<Longrightarrow>
    \<exists>w1 w2. enters (if publisher_mode cfg = EventPublisherLog then [LogClient (event_log_topic cfg)] else []) w w1
      \<and> k (if publisher_mode cfg = EventPublisherLog then Some (log_publish put_time) else None) w1 = (Inr y, w2)"
  by (auto simp: with_publisher_def log_config_of_def intro: enters_refl elim!: event_log.reaches [where c = "log_config_of cfg", unfolded log_config_of_def, simplified]
      split: if_splits)

lemma reaches_mirror:
  "with_mirror out cfg k w = (Inr y, w') \<Longrightarrow>
    \<exists>w1 w2. enters (if clickhouse_mirror cfg \<and> clickhouse_dsn cfg \<noteq> [] then [ClickHouseConn (clickhouse_dsn cfg)] else []) w w1
      \<and> k (if clickhouse_mirror cfg \<and> clickhouse_dsn cfg \<noteq> [] then [MirrorWorker []] else [])
          (if clickhouse_mirror cfg \<and> clickhouse_dsn cfg \<noteq> [] then [mirror_periodic_job] else []) w1 = (Inr y, w2)"
  by (auto simp: with_mirror_def intro: enters_refl elim!: clickhouse.reaches split: if_splits)

lemma reaches_jobs:
  assumes "with_jobs out cfg pool redis k w = (Inr y, w')"
  defines "mirror \<equiv> clickhouse_mirror cfg \<and> clickhouse_dsn cfg \<noteq> []"
  shows "\<exists>w1 w2. enters (if pool then JobQueue # (if mirror then [ClickHouseConn (clickhouse_dsn cfg)] else []) else []) w w1
      \<and> k (if pool then base_workers redis @ (if mirror then [MirrorWorker []] else []) else [])
          (if pool then base_jobs @ (if mirror then [mirror_periodic_job] else []) else []) w1 = (Inr y, w2)"
proof (cases pool)
  case False
  with assms show ?thesis by (auto simp: with_jobs_def intro: enters_refl)
next
  case True
  let ?ws = "base_workers redis @ (if mirror then [MirrorWorker []] else [])"
  let ?js = "base_jobs @ (if mirror then [mirror_periodic_job] else [])"
  from True assms(1) have "with_mirror out cfg (\<lambda>ws js. and_then (start_queue (base_workers redis @ ws) (base_jobs @ js)) (\<lambda>_.
      deferring (close_handle JobQueue) (k (base_workers redis @ ws) (base_jobs @ js)))) w = (Inr y, w')"
    by (simp add: with_jobs_def new_registry_def and_then_def wrapping_def)
  from reaches_mirror [OF this] obtain w1 w2
    where 1: "enters (if mirror then [ClickHouseConn (clickhouse_dsn cfg)] else []) w w1"
      and q: "and_then (start_queue ?ws ?js) (\<lambda>_. deferring (close_handle JobQueue) (k ?ws ?js)) w1 = (Inr y, w2)"
    unfolding mirror_def by blast
  from q obtain w3 w4 where "enters [JobQueue] w1 w3" and k: "k ?ws ?js w3 = (Inr y, w4)" by (rule queue.reaches)
  from enters_trans [OF 1 this(1)] k True show ?thesis by auto
qed

lemma reaches_session:
  fixes session :: "'v process \<Rightarrow> ('w, 'a) host_io"
  assumes "run out put_time env session w = (Inr y, w')"
  shows "\<exists>cfg w1 w2. load_config env = Inr cfg \<and> enters (handles_of cfg) w w1 \<and> session (process_of put_time cfg) w1 = (Inr y, w2)"
proof -
  from assms obtain v v' where e1: "enters [SignalContext] w v"
    and up: "and_then (wrapping ''load config'' (of_result (load_config env))) (\<lambda>cfg.
         and_then (wrapping ''set up observability'' setup_observability) (\<lambda>_. deferring shutdown_observability
           (with_postgres out cfg (\<lambda>pool.
             with_redis cfg (\<lambda>redis.
               with_jobs out cfg pool redis (\<lambda>workers jobs.
                 with_publisher cfg put_time (\<lambda>pub.
                   and_then (wrapping ''build connect mux'' attempt) (\<lambda>_.
                     session \<lparr>proc_server = server_of cfg pool redis pub, proc_workers = workers, proc_jobs = jobs\<rparr>)))))))) v = (Inr y, v')"
    unfolding run_def by (rule signals.reaches)
  from up obtain cfg u v1 where cfg: "load_config env = Inr cfg" and su: "wrapping ''set up observability'' setup_observability v = (Inr u, v1)"
    and "deferring shutdown_observability
           (with_postgres out cfg (\<lambda>pool.
             with_redis cfg (\<lambda>redis.
               with_jobs out cfg pool redis (\<lambda>workers jobs.
                 with_publisher cfg put_time (\<lambda>pub.
                   and_then (wrapping ''build connect mux'' attempt) (\<lambda>_.
                     session \<lparr>proc_server = server_of cfg pool redis pub, proc_workers = workers, proc_jobs = jobs\<rparr>)))))) v1 = (Inr y, v')"
    by (cases "load_config env") (auto simp: and_then_ok)
  from deferring_ok [OF this(3)] obtain v2 where pg: "with_postgres out cfg (\<lambda>pool.
             with_redis cfg (\<lambda>redis.
               with_jobs out cfg pool redis (\<lambda>workers jobs.
                 with_publisher cfg put_time (\<lambda>pub.
                   and_then (wrapping ''build connect mux'' attempt) (\<lambda>_.
                     session \<lparr>proc_server = server_of cfg pool redis pub, proc_workers = workers, proc_jobs = jobs\<rparr>))))) v1 = (Inr y, v2)" ..
  note e2 = enters_balanced [OF balanced_wrapping [OF balanced_telemetry(1)] su]
  from reaches_postgres [OF pg] obtain w1 w1' where e3: "enters (if postgres_dsn cfg = [] then [] else [PostgresPool (postgres_dsn cfg)]) v1 w1"
    and rd: "with_redis cfg (\<lambda>redis.
               with_jobs out cfg (postgres_dsn cfg \<noteq> []) redis (\<lambda>workers jobs.
                 with_publisher cfg put_time (\<lambda>pub.
                   and_then (wrapping ''build connect mux'' attempt) (\<lambda>_.
                     session \<lparr>proc_server = server_of cfg (postgres_dsn cfg \<noteq> []) redis pub, proc_workers = workers, proc_jobs = jobs\<rparr>)))) w1 = (Inr y, w1')"
    by blast
  from reaches_redis [OF rd] obtain w2 w2' where e4: "enters (if redis_addr cfg = [] then [] else [RedisClient (redis_addr cfg)]) w1 w2"
    and jb: "with_jobs out cfg (postgres_dsn cfg \<noteq> []) (redis_addr cfg \<noteq> []) (\<lambda>workers jobs.
                 with_publisher cfg put_time (\<lambda>pub.
                   and_then (wrapping ''build connect mux'' attempt) (\<lambda>_.
                     session \<lparr>proc_server = server_of cfg (postgres_dsn cfg \<noteq> []) (redis_addr cfg \<noteq> []) pub, proc_workers = workers, proc_jobs = jobs\<rparr>))) w2 = (Inr y, w2')"
    by blast
  from reaches_jobs [OF jb] obtain w3 w3' where e5: "enters (if postgres_dsn cfg \<noteq> [] then JobQueue # (if clickhouse_mirror cfg \<and> clickhouse_dsn cfg \<noteq> [] then [ClickHouseConn (clickhouse_dsn cfg)] else []) else []) w2 w3"
    and pub: "with_publisher cfg put_time (\<lambda>pub.
         and_then (wrapping ''build connect mux'' attempt) (\<lambda>_. session ((process_of put_time cfg)
           \<lparr>proc_server := server_of cfg (postgres_dsn cfg \<noteq> []) (redis_addr cfg \<noteq> []) pub\<rparr>))) w3 = (Inr y, w3')"
    by (auto simp: process_of_def Let_def)
  from reaches_publisher [OF pub] obtain w4 w4' where
    e6: "enters (if publisher_mode cfg = EventPublisherLog then [LogClient (event_log_topic cfg)] else []) w3 w4"
    and "and_then (wrapping ''build connect mux'' attempt) (\<lambda>_. session (process_of put_time cfg)) w4 = (Inr y, w4')"
    by (auto simp: process_of_def Let_def)
  then obtain x w5 w5' where "wrapping ''build connect mux'' attempt w4 = (Inr x, w5)" and last: "session (process_of put_time cfg) w5 = (Inr y, w5')"
    by (auto simp only: and_then_ok)
  from enters_balanced [OF balanced_wrapping [OF balanced_attempt] this(1)] have e7: "enters [] w4 w5" .
  from enters_trans [OF enters_trans [OF enters_trans [OF enters_trans [OF enters_trans [OF enters_trans [OF e1 e2] e3] e4] e5] e6] e7]
  have "enters (handles_of cfg) w w5" by (simp only: handles_of_def append_Nil append_assoc)
  with cfg last show ?thesis by blast
qed

lemma process_jobs_served: "served_jobs (proc_workers (process_of put_time cfg)) (proc_jobs (process_of put_time cfg))"
  by (auto simp: served_jobs_def process_of_def Let_def base_workers_def base_jobs_def periodic_jobs)

text \<open>
  C32: when a process gets to serve, its services are those its configuration names, every connection they use is open and
  nothing else is, and each of its periodic jobs finds one worker for what it inserts.
\<close>

theorem serving_process_is_connected:
  fixes w :: "'w host_world_scheme"
  assumes "run out put_time env (\<lambda>p v. (Inr (p, journal v), v)) w = (Inr (p, js), w')" and "journal w = []"
  shows "(\<exists>cfg. load_config env = Inr cfg \<and> p = process_of put_time cfg \<and> settled js [] = Some (handles_of cfg))
    \<and> served_jobs (proc_workers p) (proc_jobs p)"
proof -
  from reaches_session [OF assms(1)] obtain cfg w1 where cfg: "load_config env = Inr cfg" "enters (handles_of cfg) w w1"
    and p: "p = process_of put_time cfg" "js = journal w1" by auto
  have "settled (journal w1) [] = Some (handles_of cfg)" using cfg(2) assms(2) by (auto simp: enters_def)
  with cfg p process_jobs_served show ?thesis by blast
qed

text \<open>A whole configuration, with every call answered.\<close>

definition demo_outside :: outside where
  "demo_outside = \<lparr>script_runs = (\<lambda>_ _. True), migration_dir = Inr [\<lparr>entry_name = ''0001_a.sql'', is_dir = False\<rparr>],
     read_migration = Inr, dsn_accepted = (\<lambda>_. True)\<rparr>"

definition demo_full_environment :: environment where
  "demo_full_environment = [''CITYWALK_POSTGRES_DSN'' \<mapsto> ''pg'', ''CITYWALK_REDIS_ADDR'' \<mapsto> ''redis:6379'',
     ''CITYWALK_CLICKHOUSE_MIRROR_ENABLED'' \<mapsto> ''true'', ''CITYWALK_CLICKHOUSE_DSN'' \<mapsto> ''ch'',
     ''CITYWALK_EVENT_PUBLISHER'' \<mapsto> ''log'', ''CITYWALK_EVENT_LOG_BROKERS'' \<mapsto> ''b1:9092'']"

definition demo_host :: "outcome list \<Rightarrow> host_world" where
  "demo_host fs = \<lparr>faults = fs, ledger_exists = False, schema_migrations = [], executed = [], journal = [],
     global_providers = False, store_ddl = []\<rparr>"

definition demo_up :: "(unit process \<times> action list) result \<times> host_world" where
  "demo_up = run demo_outside (\<lambda>_. Inr []) demo_full_environment (\<lambda>p v. (Inr (p, journal v), v)) (demo_host [])"

lemma demo_up_ok: "is_ok (fst demo_up)"
  unfolding demo_up_def by code_simp

theorem serving_process_is_connected_witness:
  "\<exists>p js w'. demo_up = (Inr (p, js), w')
     \<and> settled js [] = Some [LogClient ''citywalk.events'', JobQueue, ClickHouseConn ''ch'', RedisClient ''redis:6379'',
         PostgresPool ''pg'', SignalContext]
     \<and> served_jobs (proc_workers p) (proc_jobs p)"
proof -
  obtain r w' where rw: "demo_up = (r, w')" by force
  have "is_ok r" using demo_up_ok unfolding rw by simp
  then obtain p js where "r = Inr (p, js)" by (cases r) auto
  with rw have up: "demo_up = (Inr (p, js), w')" by simp
  have "journal (demo_host []) = []" by (simp add: demo_host_def)
  from serving_process_is_connected [OF up [unfolded demo_up_def] this] obtain cfg
    where "load_config demo_full_environment = Inr cfg" "settled js [] = Some (handles_of cfg)"
      "served_jobs (proc_workers p) (proc_jobs p)" by blast
  moreover have "(case load_config demo_full_environment of Inl e \<Rightarrow> [] | Inr cfg \<Rightarrow> handles_of cfg)
      = [LogClient ''citywalk.events'', JobQueue, ClickHouseConn ''ch'', RedisClient ''redis:6379'', PostgresPool ''pg'', SignalContext]"
    by code_simp
  ultimately have "settled js [] = Some [LogClient ''citywalk.events'', JobQueue, ClickHouseConn ''ch'', RedisClient ''redis:6379'',
      PostgresPool ''pg'', SignalContext]" "served_jobs (proc_workers p) (proc_jobs p)" by simp_all
  with up show ?thesis by blast
qed

text \<open>The two failures that leave a provider: the second and last exporter, and the tracer's last flush.\<close>

lemma metric_exporter_failure_leaves_tracer:
  "provider_actions (journal (snd (run_server demo_outside (\<lambda>_. Inr []) demo_full_environment ContextDone ErrServerClosed
     (demo_host [Done, Done, Lost])))) = [Opened TracerProvider]"
  by code_simp

lemma tracer_failure_skips_meter:
  "provider_actions (journal (snd (run_server demo_outside (\<lambda>_. Inr []) Map.empty ContextDone ErrServerClosed
     (demo_host [Done, Done, Done, Done, Done, Lost])))) = [Opened TracerProvider, Opened MeterProvider, Closed TracerProvider]"
  by code_simp

section \<open>What a started process has\<close>

lemma started_process:
  fixes w :: "'w host_world_scheme"
  assumes "run out put_time env ret w = (Inr p, w')"
  obtains cfg where "load_config env = Inr cfg" "p = process_of put_time cfg"
  using reaches_session [OF assms] that by auto

lemma process_of_server:
  "srv_redis (proc_server (process_of put_time cfg)) \<longleftrightarrow> redis_addr cfg \<noteq> []"
  "srv_pool (proc_server (process_of put_time cfg)) \<longleftrightarrow> postgres_dsn cfg \<noteq> []"
  "srv_publisher (proc_server (process_of put_time cfg))
     = (if publisher_mode cfg = EventPublisherLog then Some (log_publish put_time) else None)"
  by (simp_all add: process_of_def server_of_def Let_def)

text \<open>
  In the mode of the log an accepted event goes to the broker only: no row of the table the rollups, the mirror and
  the budget are computed from is written, and no worker of the process reads the broker.
\<close>

lemma log_mode_leaves_table:
  fixes w :: "'w deliver_world_scheme" and h :: "'h host_world_scheme"
  assumes "run out put_time env ret h = (Inr p, h')" "load_config env = Inr cfg" "publisher_mode cfg = EventPublisherLog"
  shows "events_log (snd (submit_handler env' redis (ds_publisher (delivery_server_of (proc_server p))) events now ctx w)) = events_log w"
proof -
  let ?I = "\<lambda>v :: 'w deliver_world_scheme. events_log v = events_log w"
  have blind: "fault_blind ?I" by (simp add: fault_blind_def)
  have pub: "ds_publisher (delivery_server_of (proc_server p)) = log_publish put_time"
    using assms by (elim started_process) (simp add: delivery_server_of_def process_of_server)
  have "keeps ?I (log_publish_from put_time i es t)" for i es t
  proof (induction es arbitrary: i)
    case (Cons e es)
    have "keeps ?I (producer_publish k v)" for k v
      unfolding producer_publish_def by (intro keeps_wrapping keeps_exec blind) simp
    with Cons show ?case by (auto simp only: log_publish_from.simps intro!: keeps_and_then keeps_wrapping keeps_of_result)
  qed (simp only: log_publish_from.simps keeps_ret)
  then have "keeps ?I (log_publish put_time es t)" for es t by (simp only: log_publish_def)
  moreover have "keeps ?I (allow l c n t)" for l c n t
  proof -
    have "keeps ?I (incr_by k n)" for k n unfolding incr_by_def by (rule keeps_remote [OF blind]) simp
    moreover have "keeps ?I (exec (\<lambda>v. v\<lparr>rl_expiring := f v\<rparr>))" for f by (rule keeps_exec [OF blind]) simp
    ultimately show ?thesis unfolding allow_def Let_def by (auto intro!: keeps_and_then keeps_wrapping keeps_ret)
  qed
  ultimately have "keeps ?I (accept (log_publish put_time) l c es t)" for l c es t
    unfolding accept_def by (auto intro!: keeps_and_then keeps_wrapping keeps_ret keeps_of_result)
  then have "keeps ?I (submit_handler env' redis (log_publish put_time) events now ctx)"
    unfolding submit_handler_def require_channel_id_def coded_def
    by (auto intro!: keeps_and_then keeps_wrapping keeps_ret keeps_of_result keeps_fail split: option.split)
  from keepsD [OF this, of w] show ?thesis by (simp add: pub)
qed

end
