(* ===== verification/Route.thy ===== *)
theory Route
  imports Process Url
begin

text \<open>
  From a client's call to a handler and back: the generated clients and handlers of the five services
  (\<^verbatim>\<open>src/gen/citywalk/*/v1/*v1connect\<close>), the paths \<^verbatim>\<open>NewMux\<close> mounts them at, and the multiplexer of \<^verbatim>\<open>net/http\<close>. The theory
  shows that \<open>new_mux\<close> of theory Handlers, which answers a request and not a path, is what a caller gets. How a
  message is encoded is an argument; a status of HTTP without a message is an error of its text.
\<close>

section \<open>Names\<close>

definition HealthServiceName :: string where "HealthServiceName = ''citywalk.platform.v1.HealthService''"
definition DeliveryServiceName :: string where "DeliveryServiceName = ''citywalk.delivery.v1.DeliveryService''"
definition EventServiceName :: string where "EventServiceName = ''citywalk.event.v1.EventService''"
definition ChannelServiceName :: string where "ChannelServiceName = ''citywalk.channel.v1.ChannelService''"
definition AdminServiceName :: string where "AdminServiceName = ''citywalk.admin.v1.AdminService''"

definition HealthServiceCheckProcedure :: string where
  "HealthServiceCheckProcedure = ''/citywalk.platform.v1.HealthService/Check''"
definition DeliveryServiceSyncProcedure :: string where
  "DeliveryServiceSyncProcedure = ''/citywalk.delivery.v1.DeliveryService/Sync''"
definition DeliveryServiceConfirmProcedure :: string where
  "DeliveryServiceConfirmProcedure = ''/citywalk.delivery.v1.DeliveryService/Confirm''"
definition EventServiceSubmitProcedure :: string where
  "EventServiceSubmitProcedure = ''/citywalk.event.v1.EventService/Submit''"
definition ChannelServiceRegisterProcedure :: string where
  "ChannelServiceRegisterProcedure = ''/citywalk.channel.v1.ChannelService/Register''"
definition ChannelServiceRefreshTokenProcedure :: string where
  "ChannelServiceRefreshTokenProcedure = ''/citywalk.channel.v1.ChannelService/RefreshToken''"
definition AdminServiceCreateMessageProcedure :: string where
  "AdminServiceCreateMessageProcedure = ''/citywalk.admin.v1.AdminService/CreateMessage''"
definition AdminServiceUpdateMessageStateProcedure :: string where
  "AdminServiceUpdateMessageStateProcedure = ''/citywalk.admin.v1.AdminService/UpdateMessageState''"
definition AdminServiceGetMessageProcedure :: string where
  "AdminServiceGetMessageProcedure = ''/citywalk.admin.v1.AdminService/GetMessage''"
definition AdminServiceListAuditLogProcedure :: string where
  "AdminServiceListAuditLogProcedure = ''/citywalk.admin.v1.AdminService/ListAuditLog''"

lemmas procedure_defs = HealthServiceCheckProcedure_def DeliveryServiceSyncProcedure_def DeliveryServiceConfirmProcedure_def
  EventServiceSubmitProcedure_def ChannelServiceRegisterProcedure_def ChannelServiceRefreshTokenProcedure_def
  AdminServiceCreateMessageProcedure_def AdminServiceUpdateMessageStateProcedure_def AdminServiceGetMessageProcedure_def
  AdminServiceListAuditLogProcedure_def

section \<open>Clients\<close>

text \<open>A client is the URL of each of its procedures.\<close>

record health_client = hc_check :: string
record delivery_client = dc_sync :: string dc_confirm :: string
record event_client = ec_submit :: string
record channel_client = cc_register :: string cc_refresh_token :: string
record admin_client = ac_create_message :: string ac_update_message_state :: string ac_get_message :: string ac_list_audit_log :: string

definition new_health_client :: "string \<Rightarrow> health_client" where
  "new_health_client baseURL = \<lparr>hc_check = trim_right (CHR ''/'') baseURL @ HealthServiceCheckProcedure\<rparr>"

definition new_delivery_client :: "string \<Rightarrow> delivery_client" where
  "new_delivery_client baseURL =
     (let base = trim_right (CHR ''/'') baseURL
      in \<lparr>dc_sync = base @ DeliveryServiceSyncProcedure, dc_confirm = base @ DeliveryServiceConfirmProcedure\<rparr>)"

definition new_event_client :: "string \<Rightarrow> event_client" where
  "new_event_client baseURL = \<lparr>ec_submit = trim_right (CHR ''/'') baseURL @ EventServiceSubmitProcedure\<rparr>"

definition new_channel_client :: "string \<Rightarrow> channel_client" where
  "new_channel_client baseURL =
     (let base = trim_right (CHR ''/'') baseURL
      in \<lparr>cc_register = base @ ChannelServiceRegisterProcedure, cc_refresh_token = base @ ChannelServiceRefreshTokenProcedure\<rparr>)"

definition new_admin_client :: "string \<Rightarrow> admin_client" where
  "new_admin_client baseURL =
     (let base = trim_right (CHR ''/'') baseURL
      in \<lparr>ac_create_message = base @ AdminServiceCreateMessageProcedure,
          ac_update_message_state = base @ AdminServiceUpdateMessageStateProcedure,
          ac_get_message = base @ AdminServiceGetMessageProcedure,
          ac_list_audit_log = base @ AdminServiceListAuditLogProcedure\<rparr>)"

text \<open>The URL the client's method for a request calls.\<close>

fun call_url :: "string \<Rightarrow> request \<Rightarrow> string" where
  "call_url baseURL Check = hc_check (new_health_client baseURL)"
| "call_url baseURL (Sync lang tag tok) = dc_sync (new_delivery_client baseURL)"
| "call_url baseURL (Confirm i) = dc_confirm (new_delivery_client baseURL)"
| "call_url baseURL (Submit events) = ec_submit (new_event_client baseURL)"
| "call_url baseURL (Register raw supported) = cc_register (new_channel_client baseURL)"
| "call_url baseURL (RefreshToken i cred) = cc_refresh_token (new_channel_client baseURL)"
| "call_url baseURL (Admin (CreateMessage d)) = ac_create_message (new_admin_client baseURL)"
| "call_url baseURL (Admin (UpdateMessageState i st)) = ac_update_message_state (new_admin_client baseURL)"
| "call_url baseURL (Admin (GetMessage i)) = ac_get_message (new_admin_client baseURL)"
| "call_url baseURL (Admin (ListAuditLog i)) = ac_list_audit_log (new_admin_client baseURL)"

section \<open>Handlers\<close>

text \<open>
  A request of HTTP with its path, the header and a body, and how a body is written and, by the type of a procedure's
  message, read.
\<close>

record 'b http_request =
  hr_path :: string
  hr_authorization :: string
  hr_body :: 'b

record 'b wire =
  wire_encode :: "request \<Rightarrow> 'b"
  wire_decode :: "string \<Rightarrow> 'b \<Rightarrow> request option"

type_synonym ('b, 'w) http_handler = "'b http_request \<Rightarrow> ('w, response) deliver_io"

type_synonym 'w interceptor = "string \<Rightarrow> string \<Rightarrow> (request_context \<Rightarrow> ('w, response) deliver_io) \<Rightarrow> ('w, response) deliver_io"

text \<open>\<^verbatim>\<open>connect.NewUnaryHandler\<close>: the message is read before the interceptors run, and they see the procedure.\<close>

definition new_unary_handler ::
  "'b wire \<Rightarrow> 'w interceptor \<Rightarrow> string \<Rightarrow> (request \<Rightarrow> request_context \<Rightarrow> ('w, response) deliver_io) \<Rightarrow> ('b, 'w) http_handler" where
  "new_unary_handler wire interceptors procedure svc http =
     (case wire_decode wire procedure (hr_body http) of
        None \<Rightarrow> fail (new_error CodeInvalidArgument (Errorf ''unmarshal message''))
      | Some req \<Rightarrow> interceptors procedure (hr_authorization http) (svc req))"

text \<open>A service's switch over the exact path.\<close>

definition switch_path :: "(string \<times> ('b, 'w) http_handler) list \<Rightarrow> ('b, 'w) http_handler" where
  "switch_path routes http = (case map_of routes (hr_path http) of None \<Rightarrow> fail not_registered | Some h \<Rightarrow> h http)"

text \<open>A service implementation, as a function of the messages its interface has methods for.\<close>

type_synonym 'w implementation = "request \<Rightarrow> request_context \<Rightarrow> ('w, response) deliver_io"

definition new_health_handler ::
  "'b wire \<Rightarrow> 'w interceptor \<Rightarrow> 'w implementation \<Rightarrow> string \<times> ('b, 'w) http_handler" where
  "new_health_handler wire opts svc =
     (''/citywalk.platform.v1.HealthService/'', switch_path
        [(HealthServiceCheckProcedure, new_unary_handler wire opts HealthServiceCheckProcedure svc)])"

definition new_delivery_handler ::
  "'b wire \<Rightarrow> 'w interceptor \<Rightarrow> 'w implementation \<Rightarrow> string \<times> ('b, 'w) http_handler" where
  "new_delivery_handler wire opts svc =
     (''/citywalk.delivery.v1.DeliveryService/'', switch_path
        [(DeliveryServiceSyncProcedure, new_unary_handler wire opts DeliveryServiceSyncProcedure svc),
         (DeliveryServiceConfirmProcedure, new_unary_handler wire opts DeliveryServiceConfirmProcedure svc)])"

definition new_event_handler ::
  "'b wire \<Rightarrow> 'w interceptor \<Rightarrow> 'w implementation \<Rightarrow> string \<times> ('b, 'w) http_handler" where
  "new_event_handler wire opts svc =
     (''/citywalk.event.v1.EventService/'', switch_path
        [(EventServiceSubmitProcedure, new_unary_handler wire opts EventServiceSubmitProcedure svc)])"

definition new_channel_handler ::
  "'b wire \<Rightarrow> 'w interceptor \<Rightarrow> 'w implementation \<Rightarrow> string \<times> ('b, 'w) http_handler" where
  "new_channel_handler wire opts svc =
     (''/citywalk.channel.v1.ChannelService/'', switch_path
        [(ChannelServiceRegisterProcedure, new_unary_handler wire opts ChannelServiceRegisterProcedure svc),
         (ChannelServiceRefreshTokenProcedure, new_unary_handler wire opts ChannelServiceRefreshTokenProcedure svc)])"

definition new_admin_handler ::
  "'b wire \<Rightarrow> 'w interceptor \<Rightarrow> 'w implementation \<Rightarrow> string \<times> ('b, 'w) http_handler" where
  "new_admin_handler wire opts svc =
     (''/citywalk.admin.v1.AdminService/'', switch_path
        [(AdminServiceCreateMessageProcedure, new_unary_handler wire opts AdminServiceCreateMessageProcedure svc),
         (AdminServiceUpdateMessageStateProcedure, new_unary_handler wire opts AdminServiceUpdateMessageStateProcedure svc),
         (AdminServiceGetMessageProcedure, new_unary_handler wire opts AdminServiceGetMessageProcedure svc),
         (AdminServiceListAuditLogProcedure, new_unary_handler wire opts AdminServiceListAuditLogProcedure svc)])"

text \<open>The interface of a service has no method for the messages of another.\<close>

definition no_method :: "('w, response) deliver_io" where "no_method = fail (Errorf ''no such method'')"

text \<open>The implementations of a service that has none.\<close>

definition not_implemented :: "string \<Rightarrow> ('w, response) deliver_io" where
  "not_implemented m = fail (Wrap ''unimplemented'' (Errorf (m @ '' is not implemented'')))"

definition unimplemented_health :: "'w implementation" where
  "unimplemented_health req ctx =
     (case req of Check \<Rightarrow> not_implemented ''citywalk.platform.v1.HealthService.Check'' | _ \<Rightarrow> no_method)"

definition unimplemented_delivery :: "'w implementation" where
  "unimplemented_delivery req ctx =
     (case req of
        Sync lang tag tok \<Rightarrow> not_implemented ''citywalk.delivery.v1.DeliveryService.Sync''
      | Confirm i \<Rightarrow> not_implemented ''citywalk.delivery.v1.DeliveryService.Confirm''
      | _ \<Rightarrow> no_method)"

definition unimplemented_event :: "'w implementation" where
  "unimplemented_event req ctx =
     (case req of Submit events \<Rightarrow> not_implemented ''citywalk.event.v1.EventService.Submit'' | _ \<Rightarrow> no_method)"

definition unimplemented_channel :: "'w implementation" where
  "unimplemented_channel req ctx =
     (case req of
        Register raw supported \<Rightarrow> not_implemented ''citywalk.channel.v1.ChannelService.Register''
      | RefreshToken i cred \<Rightarrow> not_implemented ''citywalk.channel.v1.ChannelService.RefreshToken''
      | _ \<Rightarrow> no_method)"

definition unimplemented_admin :: "'w implementation" where
  "unimplemented_admin req ctx =
     (case req of
        Admin (CreateMessage d) \<Rightarrow> not_implemented ''citywalk.admin.v1.AdminService.CreateMessage''
      | Admin (UpdateMessageState i st) \<Rightarrow> not_implemented ''citywalk.admin.v1.AdminService.UpdateMessageState''
      | Admin (GetMessage i) \<Rightarrow> not_implemented ''citywalk.admin.v1.AdminService.GetMessage''
      | Admin (ListAuditLog i) \<Rightarrow> not_implemented ''citywalk.admin.v1.AdminService.ListAuditLog''
      | _ \<Rightarrow> no_method)"

section \<open>The multiplexer\<close>

text \<open>
  \<^verbatim>\<open>http.ServeMux\<close>: a path that is not clean is redirected to its clean form; a pattern that ends in a slash
  takes every path below it, the longest one first; its path without the slash is redirected.
\<close>

definition moved_permanently :: go_error where "moved_permanently = Errorf ''301 moved permanently''"

definition clean_path :: "string \<Rightarrow> bool" where
  "clean_path p =
     (has_prefix p ''/''
      \<and> list_all (\<lambda>s. s \<notin> {[], ''.'', ''..''}) (butlast (tl (split_on (CHR ''/'') p)))
      \<and> last (split_on (CHR ''/'') p) \<notin> {''.'', ''..''})"

fun longest_match :: "string \<Rightarrow> (string \<times> 'h) list \<Rightarrow> (string \<times> 'h) option" where
  "longest_match path [] = None"
| "longest_match path ((p, h) # ps) =
     (case longest_match path ps of
        None \<Rightarrow> if has_prefix path p then Some (p, h) else None
      | Some (q, k) \<Rightarrow> if has_prefix path p \<and> length q < length p then Some (p, h) else Some (q, k))"

definition serve_mux :: "(string \<times> ('b, 'w) http_handler) list \<Rightarrow> ('b, 'w) http_handler" where
  "serve_mux patterns http =
     (if \<not> clean_path (hr_path http) then fail moved_permanently
      else case longest_match (hr_path http) patterns of
          Some (p, h) \<Rightarrow> h http
        | None \<Rightarrow> if hr_path http @ ''/'' \<in> fst ` set patterns then fail moved_permanently else fail not_registered)"

section \<open>The services of \<^verbatim>\<open>NewMux\<close>\<close>

definition health_server :: "'w implementation" where
  "health_server req ctx = (case req of Check \<Rightarrow> ret Serving | _ \<Rightarrow> no_method)"

definition delivery_implementation :: "server_env \<Rightarrow> 'w server \<Rightarrow> time \<Rightarrow> 'w implementation" where
  "delivery_implementation env s now req ctx =
     (case req of
        Sync lang tag tok \<Rightarrow> sync_handler env (delivery_server_of s) lang tag tok now ctx
      | Confirm i \<Rightarrow> confirm_handler env (delivery_server_of s) i now ctx
      | _ \<Rightarrow> no_method)"

definition event_implementation :: "server_env \<Rightarrow> 'w server \<Rightarrow> time \<Rightarrow> 'w implementation" where
  "event_implementation env s now req ctx =
     (case req of
        Submit events \<Rightarrow> submit_handler env (srv_redis s) (ds_publisher (delivery_server_of s)) events now ctx
      | _ \<Rightarrow> no_method)"

definition channel_implementation :: "server_env \<Rightarrow> 'w server \<Rightarrow> time \<Rightarrow> 'w implementation" where
  "channel_implementation env s now req ctx =
     (case req of
        Register raw supported \<Rightarrow> register_handler env (srv_secret s) raw supported now
      | RefreshToken i cred \<Rightarrow> refresh_handler env (srv_secret s) i cred now
      | _ \<Rightarrow> no_method)"

definition admin_implementation :: "server_env \<Rightarrow> 'w server \<Rightarrow> time \<Rightarrow> 'w implementation" where
  "admin_implementation env s now req ctx =
     (case req of Admin call \<Rightarrow> serve_admin env s call now ctx | _ \<Rightarrow> no_method)"

text \<open>\<^verbatim>\<open>NewMux\<close>: which services are mounted, and behind which interceptors.\<close>

definition open_to_all :: "'w interceptor" where
  "open_to_all procedure authorization h = h background"

definition device_interceptors :: "server_env \<Rightarrow> 'w server \<Rightarrow> time \<Rightarrow> 'w interceptor" where
  "device_interceptors env s now procedure authorization h =
     device_auth_interceptor (se_parse env) (srv_secret s) authorization now h background"

definition admin_interceptors :: "(string \<Rightarrow> principal result) \<Rightarrow> 'w interceptor" where
  "admin_interceptors authenticator procedure authorization h =
     admin_auth_interceptor authenticator admin_role_by_procedure authorization procedure h background"

definition mux_patterns :: "'b wire \<Rightarrow> server_env \<Rightarrow> 'w server \<Rightarrow> time \<Rightarrow> (string \<times> ('b, 'w) http_handler) list" where
  "mux_patterns wire env s now =
     [new_health_handler wire open_to_all health_server]
     @ (if device_services s then
          [new_delivery_handler wire (device_interceptors env s now) (delivery_implementation env s now),
           new_event_handler wire (device_interceptors env s now) (event_implementation env s now),
           new_channel_handler wire open_to_all (channel_implementation env s now)]
        else [])
     @ (case srv_authenticator s of
          None \<Rightarrow> []
        | Some authenticator \<Rightarrow>
            if srv_pool s then [new_admin_handler wire (admin_interceptors authenticator) (admin_implementation env s now)] else [])"

definition http_mux :: "'b wire \<Rightarrow> server_env \<Rightarrow> 'w server \<Rightarrow> time \<Rightarrow> ('b, 'w) http_handler" where
  "http_mux wire env s now = serve_mux (mux_patterns wire env s now)"

text \<open>A client's call: its URL, the path of which arrives at the multiplexer.\<close>

definition client_call ::
  "'b wire \<Rightarrow> server_env \<Rightarrow> 'w server \<Rightarrow> string \<Rightarrow> string \<Rightarrow> request \<Rightarrow> time \<Rightarrow> ('w, response) deliver_io" where
  "client_call wire env s baseURL authorization req now =
     (case url_parse (call_url baseURL req) of
        Inl e \<Rightarrow> fail e
      | Inr u \<Rightarrow> http_mux wire env s now
          \<lparr>hr_path = url_path u, hr_authorization = authorization, hr_body = wire_encode wire req\<rparr>)"

section \<open>Every call reaches its handler, and nothing else is reached\<close>

fun procedure_of :: "request \<Rightarrow> string" where
  "procedure_of Check = HealthServiceCheckProcedure"
| "procedure_of (Sync lang tag tok) = DeliveryServiceSyncProcedure"
| "procedure_of (Confirm i) = DeliveryServiceConfirmProcedure"
| "procedure_of (Submit events) = EventServiceSubmitProcedure"
| "procedure_of (Register raw supported) = ChannelServiceRegisterProcedure"
| "procedure_of (RefreshToken i cred) = ChannelServiceRefreshTokenProcedure"
| "procedure_of (Admin (CreateMessage d)) = AdminServiceCreateMessageProcedure"
| "procedure_of (Admin (UpdateMessageState i st)) = AdminServiceUpdateMessageStateProcedure"
| "procedure_of (Admin (GetMessage i)) = AdminServiceGetMessageProcedure"
| "procedure_of (Admin (ListAuditLog i)) = AdminServiceListAuditLogProcedure"

text \<open>
  What the code relies on in the encoding of messages: a message reads back as it was written, and a procedure's reader gives
  messages of its own type only.
\<close>

definition faithful_wire :: "'b wire \<Rightarrow> bool" where
  "faithful_wire wire \<longleftrightarrow>
     (\<forall>req. wire_decode wire (procedure_of req) (wire_encode wire req) = Some req)
     \<and> (\<forall>procedure body req. wire_decode wire procedure body = Some req \<longrightarrow> procedure_of req = procedure)"

lemma call_url_procedure: "call_url baseURL req = trim_right (CHR ''/'') baseURL @ procedure_of req"
  by (cases req rule: procedure_of.cases)
    (simp_all add: new_health_client_def new_delivery_client_def new_event_client_def new_channel_client_def
      new_admin_client_def Let_def)

lemma admin_procedure_of: "admin_procedure call = procedure_of (Admin call)"
  by (cases call) (simp_all add: procedure_defs)

lemma procedures_distinct:
  "procedure_of req = procedure_of req' \<Longrightarrow> (case (req, req') of
     (Check, Check) \<Rightarrow> True | (Sync _ _ _, Sync _ _ _) \<Rightarrow> True | (Confirm _, Confirm _) \<Rightarrow> True | (Submit _, Submit _) \<Rightarrow> True
   | (Register _ _, Register _ _) \<Rightarrow> True | (RefreshToken _ _, RefreshToken _ _) \<Rightarrow> True | (Admin _, Admin _) \<Rightarrow> True | _ \<Rightarrow> False)"
  by (cases req rule: procedure_of.cases; cases req' rule: procedure_of.cases) (simp_all add: procedure_defs)

lemma longest_match_mem: "longest_match path ps = Some (p, h) \<Longrightarrow> (p, h) \<in> set ps \<and> has_prefix path p"
  by (induction path ps arbitrary: p h rule: longest_match.induct) (auto split: option.splits if_splits prod.splits)

text \<open>
  What a handler with some procedures answers: nothing is there, nothing was read, or what \<open>new_mux\<close> answers.
\<close>

definition answers_as ::
  "'b wire \<Rightarrow> server_env \<Rightarrow> 'w server \<Rightarrow> time \<Rightarrow> string list \<Rightarrow> ('b, 'w) http_handler \<Rightarrow> bool" where
  "answers_as wire env s now procs h \<longleftrightarrow>
     (\<forall>http. h http =
        (if hr_path http \<in> set procs then
           (case wire_decode wire (hr_path http) (hr_body http) of
              None \<Rightarrow> fail (new_error CodeInvalidArgument (Errorf ''unmarshal message''))
            | Some req \<Rightarrow> new_mux env s (hr_authorization http) req now)
         else fail not_registered))"

lemma switched:
  assumes "faithful_wire wire"
    and "\<And>req authorization. procedure_of req \<in> set procs
          \<Longrightarrow> opts (procedure_of req) authorization (svc req) = new_mux env s authorization req now"
  shows "answers_as wire env s now procs (switch_path (map (\<lambda>p. (p, new_unary_handler wire opts p svc)) procs))"
  unfolding answers_as_def
proof
  fix http
  let ?h = "switch_path (map (\<lambda>p. (p, new_unary_handler wire opts p svc)) procs) http" and ?p = "hr_path http"
  have "map_of (map (\<lambda>p. (p, new_unary_handler wire opts p svc)) procs) ?p
      = (if ?p \<in> set procs then Some (new_unary_handler wire opts ?p svc) else None)"
    by (simp add: map_of_map_restrict restrict_map_def)
  moreover have "opts ?p a (svc req) = new_mux env s a req now" if "?p \<in> set procs" "wire_decode wire ?p b = Some req" for a b req
    using assms(2) [of req] that assms(1) by (auto simp: faithful_wire_def)
  ultimately show "?h = (if ?p \<in> set procs then (case wire_decode wire ?p (hr_body http) of
        None \<Rightarrow> fail (new_error CodeInvalidArgument (Errorf ''unmarshal message''))
      | Some req \<Rightarrow> new_mux env s (hr_authorization http) req now) else fail not_registered)"
    by (auto simp: switch_path_def new_unary_handler_def split: option.split)
qed

text \<open>The procedures, each with the pattern of its service.\<close>

definition procedures :: "(string \<times> string) list" where
  "procedures =
     [(HealthServiceCheckProcedure, ''/citywalk.platform.v1.HealthService/''),
      (DeliveryServiceSyncProcedure, ''/citywalk.delivery.v1.DeliveryService/''),
      (DeliveryServiceConfirmProcedure, ''/citywalk.delivery.v1.DeliveryService/''),
      (EventServiceSubmitProcedure, ''/citywalk.event.v1.EventService/''),
      (ChannelServiceRegisterProcedure, ''/citywalk.channel.v1.ChannelService/''),
      (ChannelServiceRefreshTokenProcedure, ''/citywalk.channel.v1.ChannelService/''),
      (AdminServiceCreateMessageProcedure, ''/citywalk.admin.v1.AdminService/''),
      (AdminServiceUpdateMessageStateProcedure, ''/citywalk.admin.v1.AdminService/''),
      (AdminServiceGetMessageProcedure, ''/citywalk.admin.v1.AdminService/''),
      (AdminServiceListAuditLogProcedure, ''/citywalk.admin.v1.AdminService/'')]"

definition procedures_of :: "string \<Rightarrow> string list" where
  "procedures_of m = map fst (filter (\<lambda>(p, m'). m' = m) procedures)"

lemma services_answer:
  assumes "faithful_wire wire"
  shows "answers_as wire env s now (procedures_of ''/citywalk.platform.v1.HealthService/'') (snd (new_health_handler wire open_to_all health_server))"
    and "device_services s \<Longrightarrow> answers_as wire env s now (procedures_of ''/citywalk.delivery.v1.DeliveryService/'')
      (snd (new_delivery_handler wire (device_interceptors env s now) (delivery_implementation env s now)))"
    and "device_services s \<Longrightarrow> answers_as wire env s now (procedures_of ''/citywalk.event.v1.EventService/'')
      (snd (new_event_handler wire (device_interceptors env s now) (event_implementation env s now)))"
    and "device_services s \<Longrightarrow> answers_as wire env s now (procedures_of ''/citywalk.channel.v1.ChannelService/'')
      (snd (new_channel_handler wire open_to_all (channel_implementation env s now)))"
    and "srv_authenticator s = Some authenticator \<Longrightarrow> srv_pool s \<Longrightarrow> answers_as wire env s now (procedures_of ''/citywalk.admin.v1.AdminService/'')
      (snd (new_admin_handler wire (admin_interceptors authenticator) (admin_implementation env s now)))"
proof -
  note sw = switched [OF assms, where env = env and s = s and now = now]
  note impls = open_to_all_def health_server_def device_interceptors_def delivery_implementation_def event_implementation_def
    channel_implementation_def admin_interceptors_def admin_implementation_def behind_device_auth_def
  have health: "open_to_all (procedure_of req) a (health_server req) = new_mux env s a req now"
    if "procedure_of req \<in> set [HealthServiceCheckProcedure]" for req a
    using that by (cases req rule: procedure_of.cases) (simp_all add: procedure_defs impls fun_eq_iff)
  from sw [where procs = "[HealthServiceCheckProcedure]" and opts = open_to_all and svc = health_server, OF health]
  show "answers_as wire env s now (procedures_of ''/citywalk.platform.v1.HealthService/'') (snd (new_health_handler wire open_to_all health_server))"
    by (simp add: new_health_handler_def procedures_of_def procedures_def)
  show "answers_as wire env s now (procedures_of ''/citywalk.delivery.v1.DeliveryService/'') (snd (new_delivery_handler wire (device_interceptors env s now) (delivery_implementation env s now)))"
    if d: "device_services s"
  proof -
    have "device_interceptors env s now (procedure_of req) a (delivery_implementation env s now req) = new_mux env s a req now"
      if "procedure_of req \<in> set [DeliveryServiceSyncProcedure, DeliveryServiceConfirmProcedure]" for req a
      using that d by (cases req rule: procedure_of.cases) (simp_all add: procedure_defs impls [abs_def])
    from sw [where procs = "[DeliveryServiceSyncProcedure, DeliveryServiceConfirmProcedure]", OF this] show ?thesis by (simp add: new_delivery_handler_def procedures_of_def procedures_def)
  qed
  show "answers_as wire env s now (procedures_of ''/citywalk.event.v1.EventService/'') (snd (new_event_handler wire (device_interceptors env s now) (event_implementation env s now)))"
    if d: "device_services s"
  proof -
    have "device_interceptors env s now (procedure_of req) a (event_implementation env s now req) = new_mux env s a req now"
      if "procedure_of req \<in> set [EventServiceSubmitProcedure]" for req a
      using that d by (cases req rule: procedure_of.cases) (simp_all add: procedure_defs impls [abs_def])
    from sw [where procs = "[EventServiceSubmitProcedure]", OF this] show ?thesis by (simp add: new_event_handler_def procedures_of_def procedures_def)
  qed
  show "answers_as wire env s now (procedures_of ''/citywalk.channel.v1.ChannelService/'') (snd (new_channel_handler wire open_to_all (channel_implementation env s now)))"
    if d: "device_services s"
  proof -
    have "open_to_all (procedure_of req) a (channel_implementation env s now req) = new_mux env s a req now"
      if "procedure_of req \<in> set [ChannelServiceRegisterProcedure, ChannelServiceRefreshTokenProcedure]" for req a
      using that d by (cases req rule: procedure_of.cases) (simp_all add: procedure_defs impls)
    from sw [where procs = "[ChannelServiceRegisterProcedure, ChannelServiceRefreshTokenProcedure]", OF this] show ?thesis by (simp add: new_channel_handler_def procedures_of_def procedures_def)
  qed
  show "answers_as wire env s now (procedures_of ''/citywalk.admin.v1.AdminService/'') (snd (new_admin_handler wire (admin_interceptors authenticator) (admin_implementation env s now)))"
    if a: "srv_authenticator s = Some authenticator" "srv_pool s"
  proof -
    have "admin_interceptors authenticator (procedure_of req) auth (admin_implementation env s now req) = new_mux env s auth req now"
      if "procedure_of req \<in> set [AdminServiceCreateMessageProcedure, AdminServiceUpdateMessageStateProcedure,
          AdminServiceGetMessageProcedure, AdminServiceListAuditLogProcedure]" for req auth
    proof (cases req)
      case (Admin call)
      with a show ?thesis by (simp add: impls [abs_def] admin_procedure_of)
    qed (use that in \<open>simp_all add: procedure_defs\<close>)
    from sw [where procs = "[AdminServiceCreateMessageProcedure, AdminServiceUpdateMessageStateProcedure, AdminServiceGetMessageProcedure, AdminServiceListAuditLogProcedure]", OF this] show ?thesis by (simp add: new_admin_handler_def procedures_of_def procedures_def)
  qed
qed

lemma mount_paths:
  "fst (new_health_handler wire opts svc) = ''/citywalk.platform.v1.HealthService/''"
  "fst (new_delivery_handler wire opts svc) = ''/citywalk.delivery.v1.DeliveryService/''"
  "fst (new_event_handler wire opts svc) = ''/citywalk.event.v1.EventService/''"
  "fst (new_channel_handler wire opts svc) = ''/citywalk.channel.v1.ChannelService/''"
  "fst (new_admin_handler wire opts svc) = ''/citywalk.admin.v1.AdminService/''"
  by (simp_all add: new_health_handler_def new_delivery_handler_def new_event_handler_def new_channel_handler_def new_admin_handler_def)

lemma patterns_answer:
  assumes "faithful_wire wire" "(m, h) \<in> set (mux_patterns wire env s now)"
  shows "answers_as wire env s now (procedures_of m) h"
proof -
  from assms(2) obtain mh where "mh \<in> set (mux_patterns wire env s now)" "m = fst mh" "h = snd mh" by force
  then show ?thesis
    using services_answer [OF assms(1), where env = env and s = s and now = now]
    by (cases "srv_authenticator s") (auto simp: mux_patterns_def mount_paths split: if_splits)
qed

text \<open>The other half: the path of a procedure is matched by the pattern of its service, when that is mounted.\<close>

fun service_of :: "request \<Rightarrow> string" where
  "service_of Check = ''/citywalk.platform.v1.HealthService/''"
| "service_of (Sync lang tag tok) = ''/citywalk.delivery.v1.DeliveryService/''"
| "service_of (Confirm i) = ''/citywalk.delivery.v1.DeliveryService/''"
| "service_of (Submit events) = ''/citywalk.event.v1.EventService/''"
| "service_of (Register raw supported) = ''/citywalk.channel.v1.ChannelService/''"
| "service_of (RefreshToken i cred) = ''/citywalk.channel.v1.ChannelService/''"
| "service_of (Admin call) = ''/citywalk.admin.v1.AdminService/''"

definition mounts :: "string list" where
  "mounts = [''/citywalk.platform.v1.HealthService/'', ''/citywalk.delivery.v1.DeliveryService/'',
     ''/citywalk.event.v1.EventService/'', ''/citywalk.channel.v1.ChannelService/'', ''/citywalk.admin.v1.AdminService/'']"

lemma patterns_mounts: "fst ` set (mux_patterns wire env s now) \<subseteq> set mounts"
  by (auto simp: mux_patterns_def mounts_def new_health_handler_def new_delivery_handler_def new_event_handler_def
      new_channel_handler_def new_admin_handler_def split: if_splits option.splits)

lemma procedures_apart:
  "list_all (\<lambda>(p, m). clean_path p \<and> plain_path p \<and> list_all (\<lambda>m'. has_prefix p m' = (m' = m)) mounts \<and> \<not> List.member mounts (p @ ''/'')) procedures"
  by code_simp

lemma procedure_listed: "(procedure_of req, service_of req) \<in> set procedures"
  by (cases req rule: procedure_of.cases) (simp_all add: procedures_def)

lemma procedure_path:
  "clean_path (procedure_of req)" "plain_path (procedure_of req)"
  "m \<in> set mounts \<Longrightarrow> has_prefix (procedure_of req) m \<longleftrightarrow> m = service_of req"
  "procedure_of req @ ''/'' \<notin> set mounts"
  using procedures_apart procedure_listed [of req] by (auto simp: list_all_iff)

lemma longest_match_only:
  assumes "\<And>p h. (p, h) \<in> set ps \<Longrightarrow> has_prefix path p \<longleftrightarrow> p = m" "distinct (map fst ps)"
  shows "longest_match path ps = map_option (Pair m) (map_of ps m)"
  using assms
proof (induction ps)
  case (Cons ph ps)
  obtain p h where ph: "ph = (p, h)" by force
  have IH: "longest_match path ps = map_option (Pair m) (map_of ps m)" using Cons.prems by (intro Cons.IH) auto
  have "map_of ps m = None" if "p = m" using Cons.prems(2) that by (auto simp: ph map_of_eq_None_iff)
  with IH Cons.prems(1) [of p h] show ?case by (auto simp: ph split: option.splits)
qed simp

lemma distinct_patterns: "distinct (map fst (mux_patterns wire env s now))"
  by (auto simp: mux_patterns_def new_health_handler_def new_delivery_handler_def new_event_handler_def
      new_channel_handler_def new_admin_handler_def split: option.splits)

lemma http_mux_procedure:
  "http_mux wire env s now \<lparr>hr_path = procedure_of req, hr_authorization = a, hr_body = b\<rparr>
    = (case map_of (mux_patterns wire env s now) (service_of req) of
         None \<Rightarrow> fail not_registered
       | Some h \<Rightarrow> h \<lparr>hr_path = procedure_of req, hr_authorization = a, hr_body = b\<rparr>)"
proof -
  have "has_prefix (procedure_of req) p \<longleftrightarrow> p = service_of req" if "(p, h) \<in> set (mux_patterns wire env s now)" for p h
    using that patterns_mounts [of wire env s now] procedure_path(3) by force
  from longest_match_only [OF this distinct_patterns]
  have "longest_match (procedure_of req) (mux_patterns wire env s now)
      = map_option (Pair (service_of req)) (map_of (mux_patterns wire env s now) (service_of req))" .
  moreover have "procedure_of req @ ''/'' \<notin> fst ` set (mux_patterns wire env s now)"
    using patterns_mounts procedure_path(4) by blast
  ultimately show ?thesis
    by (auto simp: http_mux_def serve_mux_def procedure_path(1) split: option.splits)
qed

lemma service_procedures: "procedure_of req \<in> set (procedures_of (service_of req))"
  using procedure_listed [of req] by (force simp: procedures_of_def)

lemma http_mux_call:
  assumes "faithful_wire wire"
  shows "http_mux wire env s now \<lparr>hr_path = procedure_of req, hr_authorization = a, hr_body = wire_encode wire req\<rparr>
    = new_mux env s a req now"
proof (cases "map_of (mux_patterns wire env s now) (service_of req)")
  case None
  then have "new_mux env s a req now = fail not_registered"
    by (cases req)
      (auto simp: mux_patterns_def new_health_handler_def new_delivery_handler_def new_event_handler_def
        new_channel_handler_def new_admin_handler_def behind_device_auth_def split: if_splits option.splits)
  with None show ?thesis by (simp add: http_mux_procedure)
next
  case (Some h)
  from patterns_answer [OF assms map_of_SomeD [OF this]] assms service_procedures [of req]
  have "h \<lparr>hr_path = procedure_of req, hr_authorization = a, hr_body = wire_encode wire req\<rparr> = new_mux env s a req now"
    by (simp add: answers_as_def faithful_wire_def)
  with Some show ?thesis by (simp add: http_mux_procedure)
qed

lemma http_mux_answers:
  assumes "faithful_wire wire"
  shows "(\<exists>e. http_mux wire env s now http = fail e)
    \<or> (\<exists>req. wire_decode wire (hr_path http) (hr_body http) = Some req \<and> hr_path http = procedure_of req
        \<and> http_mux wire env s now http = new_mux env s (hr_authorization http) req now)"
proof (cases "clean_path (hr_path http)")
  case False
  then show ?thesis by (auto simp: http_mux_def serve_mux_def)
next
  case clean: True
  show ?thesis
  proof (cases "longest_match (hr_path http) (mux_patterns wire env s now)")
    case None
    with clean show ?thesis by (auto simp: http_mux_def serve_mux_def)
  next
    case (Some ph)
    obtain m h where ph: "ph = (m, h)" by force
    from longest_match_mem [OF Some [unfolded ph]] patterns_answer [OF assms]
    have "answers_as wire env s now (procedures_of m) h" by blast
    moreover have "http_mux wire env s now http = h http" using clean Some ph by (simp add: http_mux_def serve_mux_def)
    ultimately show ?thesis using assms
      by (cases "wire_decode wire (hr_path http) (hr_body http)") (auto simp: answers_as_def faithful_wire_def)
  qed
qed

text \<open>
  C11: a client whose base URL is https and names a host without a port, with any number of slashes behind it, gets for each of its calls what
  \<open>new_mux\<close> answers to the request; and whatever else arrives is refused without an effect.
\<close>

theorem calls_reach_their_handlers:
  assumes "faithful_wire wire" and "host \<noteq> []" "list_all (\<lambda>c. host_char c \<and> \<not> is_ctl c) host" "CHR '':'' \<notin> set host" "CHR ''['' \<notin> set host"
  shows "client_call wire env s (''https://'' @ host @ replicate n (CHR ''/'')) authorization req now = new_mux env s authorization req now
    \<and> ((\<exists>e. http_mux wire env s now http = fail e)
       \<or> (\<exists>req. wire_decode wire (hr_path http) (hr_body http) = Some req \<and> hr_path http = procedure_of req
            \<and> http_mux wire env s now http = new_mux env s (hr_authorization http) req now))"
proof
  have "\<not> host_char (CHR ''/'')" by code_simp
  moreover have "host_char (last host)" using assms(2,3) by (simp add: list_all_iff)
  ultimately have "last host \<noteq> CHR ''/''" by metis
  then have "trim_right (CHR ''/'') (''https://'' @ host @ replicate n (CHR ''/'')) = ''https://'' @ host"
    using assms(2) by (cases host rule: rev_cases) (simp_all add: trim_right_def dropWhile_append)
  moreover have "url_parse (''https://'' @ host @ procedure_of req) = Inr \<lparr>url_scheme = ''https'', url_host = host, url_path = procedure_of req\<rparr>"
    by (rule url_parse_https) (use assms procedure_path(2) in \<open>auto simp: list_all_iff\<close>)
  ultimately show "client_call wire env s (''https://'' @ host @ replicate n (CHR ''/'')) authorization req now = new_mux env s authorization req now"
    by (simp add: client_call_def call_url_procedure http_mux_call [OF assms(1)])
qed (rule http_mux_answers [OF assms(1)])

text \<open>Messages that are their own encoding.\<close>

definition demo_wire :: "request wire" where
  "demo_wire = \<lparr>wire_encode = (\<lambda>req. req), wire_decode = (\<lambda>p req. if procedure_of req = p then Some req else None)\<rparr>"

lemma demo_wire_faithful: "faithful_wire demo_wire"
  by (auto simp: faithful_wire_def demo_wire_def split: if_splits)

definition demo_mux_server :: "unit server" where
  "demo_mux_server = \<lparr>srv_pool = False, srv_redis = False, srv_secret = [], srv_authenticator = None, srv_publisher = None\<rparr>"

theorem calls_reach_their_handlers_witness:
  "\<forall>env. client_call demo_wire env demo_mux_server ''https://example.com//'' [] Check 0 = ret Serving"
proof
  fix env
  have "list_all (\<lambda>c. host_char c \<and> \<not> is_ctl c) ''example.com''" "CHR '':'' \<notin> set ''example.com''" "CHR ''['' \<notin> set ''example.com''"
    by code_simp+
  from calls_reach_their_handlers [OF demo_wire_faithful _ this, of env demo_mux_server 2 "[]" Check 0]
  show "client_call demo_wire env demo_mux_server ''https://example.com//'' [] Check 0 = ret Serving"
    by (simp add: numeral_2_eq_2)
qed

section \<open>Without a credential\<close>

definition public_procedures :: "string set" where
  "public_procedures = {HealthServiceCheckProcedure, ChannelServiceRegisterProcedure, ChannelServiceRefreshTokenProcedure}"

text \<open>
  C33: in a process of any configuration, a request without a bearer token is refused without an effect, on every path but
  those of the health check, the registration and the refresh of a token.
\<close>

theorem requests_without_credential_refused:
  fixes w :: "'w deliver_world_scheme"
  assumes "faithful_wire wire" "bearer_token (hr_authorization http) = []" "hr_path http \<notin> public_procedures"
  shows "\<exists>e. http_mux wire env (proc_server (process_of put_time cfg)) now http w = (Inl e, w)"
proof -
  let ?s = "proc_server (process_of put_time cfg) :: 'w server"
  have keys: "srv_authenticator ?s = (if admin_keys cfg = [] then None else Some (authenticate (admin_keys cfg)))"
    by (simp add: process_of_def server_of_def Let_def)
  have "\<exists>e. new_mux env ?s (hr_authorization http) req now w = (Inl e, w)" if "hr_path http = procedure_of req" for req
  proof (cases req)
    case (Admin call)
    have "authenticate (admin_keys cfg) [] = Inl (Sentinel ErrUnauthenticated)" by (simp add: authenticate_def)
    with Admin assms(2) show ?thesis by (auto simp: keys admin_auth_interceptor_def split: option.splits)
  qed (use assms(2,3) that in \<open>auto simp: public_procedures_def behind_device_auth_def device_auth_interceptor_def Let_def\<close>)
  moreover from http_mux_answers [OF assms(1), of env ?s now http]
  have "(\<exists>e. http_mux wire env ?s now http w = (Inl e, w))
      \<or> (\<exists>req. hr_path http = procedure_of req \<and> http_mux wire env ?s now http w = new_mux env ?s (hr_authorization http) req now w)"
    by auto
  ultimately show ?thesis by metis
qed

theorem requests_without_credential_refused_witness:
  "\<forall>env cfg w. \<exists>e. http_mux demo_wire env (proc_server (process_of (\<lambda>_. Inr []) cfg)) 0
     \<lparr>hr_path = DeliveryServiceSyncProcedure, hr_authorization = ''Bearer '', hr_body = Sync [] [] []\<rparr> w = (Inl e, w)"
proof (intro allI)
  fix env cfg and w :: "'w deliver_world_scheme"
  let ?http = "\<lparr>hr_path = DeliveryServiceSyncProcedure, hr_authorization = ''Bearer '', hr_body = Sync [] [] []\<rparr>"
  have "bearer_token (hr_authorization ?http) = []" "hr_path ?http \<notin> public_procedures"
    by (simp_all add: bearer_token_def trim_prefix_def has_prefix_def public_procedures_def procedure_defs)
  from requests_without_credential_refused [OF demo_wire_faithful this]
  show "\<exists>e. http_mux demo_wire env (proc_server (process_of (\<lambda>_. Inr []) cfg)) 0 ?http w = (Inl e, w)" .
qed

end
