(* ===== verification/Walk.thy ===== *)
theory Walk
  imports Demo
begin

text \<open>
  The walk of \<^verbatim>\<open>cmd/demo\<close> does what \<^verbatim>\<open>docs/demo.md\<close> says, step by step, when no call fails: from any database that the
  program can clear, whatever else is in it.
\<close>

section \<open>The libraries\<close>

definition country_is_JP :: cel_expr where
  "country_is_JP = CallE ''_==_'' None [IdentE ''country'', LiteralE (VString ''JP'')]"

definition country_registry :: registry where
  "country_registry = \<lparr>reg_defs = [''country'' \<mapsto> country_attribute]\<rparr>"

definition country_document :: json where
  "country_document = JObj [(''country'', JStr ''JP'')]"

definition welcome_content :: content where
  "welcome_content = DialogContent
     \<lparr>heading = ''Welcome back to citywalk'', body = ''You unlocked a new route through Shibuya.'', media = None, buttons = [],
      pres_colors = \<lparr>colors.background = ''#1A1A2E'', text_color = ''#FFFFFF''\<rparr>, corner_radius = 16, auto_close = None\<rparr>"

definition welcome_variant :: variant where
  "welcome_variant = \<lparr>variant_id = [], variant_message = [], weight = 100, language = ''en'',
     schema = \<lparr>major = 1, minor = 0\<rparr>, variant_content = welcome_content\<rparr>"

text \<open>
  What the program relies on: JSON and CEL's trees read back as they were written, the predicate's text parses as it reads,
  the database finds a channel by its attribute, identifiers are not empty, and random bytes are to be had. The clock
  starts after 1970, within half of the range of its nanoseconds, and the walk takes less than half a minute.
\<close>

definition ready :: "demo_libraries \<Rightarrow> (nat \<Rightarrow> time) \<Rightarrow> bool" where
  "ready lib clock \<longleftrightarrow>
     (let L = lib_server lib; B = se_build L in
      se_parse L attributesJSON = Some country_document
      \<and> (\<forall>n m. let j = claims_json (claims_for (gen_uuid (env_gen B) n) (clock m) AccessTokenTTL) in se_parse L (env_render B j) = Some j)
      \<and> (\<forall>n. is_ok (se_random L n)) \<and> (\<forall>n. gen_uuid (env_gen B) n \<noteq> []) \<and> lib_uuid lib \<noteq> []
      \<and> length (env_render B (marshal_content_column welcome_variant)) \<le> 40960
      \<and> (\<forall>opts. is_ok (lib_new_env lib opts))
      \<and> lib_compile lib segment_source = Inr country_is_JP
      \<and> (\<exists>t. lib_serialise lib country_is_JP = Inr t \<and> lib_deserialise lib t = Inr country_is_JP
            \<and> lib_deserialise lib (lib_jsonb lib t) = Inr country_is_JP)
      \<and> (\<forall>q c r. compile_to_sql (lib_parse_time lib) country_registry country_is_JP = Inr q \<longrightarrow>
            chan_attributes r = country_document \<longrightarrow> lib_sql lib q (c, r))
      \<and> 0 \<le> clock 0 \<and> clock 0 < 4000000000000000000
      \<and> (\<forall>n. clock 0 \<le> clock n \<and> clock n < clock 0 + 30 * second))"

lemma readyD:
  assumes "ready lib clock"
  shows "se_parse (lib_server lib) attributesJSON = Some country_document"
    "se_parse (lib_server lib) (env_render (se_build (lib_server lib)) (claims_json (claims_for (gen_uuid (env_gen (se_build (lib_server lib))) n) (clock m) AccessTokenTTL)))
       = Some (claims_json (claims_for (gen_uuid (env_gen (se_build (lib_server lib))) n) (clock m) AccessTokenTTL))"
    "is_ok (se_random (lib_server lib) n)" "gen_uuid (env_gen (se_build (lib_server lib))) n \<noteq> []" "lib_uuid lib \<noteq> []"
    "length (env_render (se_build (lib_server lib)) (marshal_content_column welcome_variant)) \<le> 40960"
    "is_ok (lib_new_env lib opts)" "lib_compile lib segment_source = Inr country_is_JP"
    "\<exists>t. lib_serialise lib country_is_JP = Inr t \<and> lib_deserialise lib t = Inr country_is_JP
            \<and> lib_deserialise lib (lib_jsonb lib t) = Inr country_is_JP"
    "compile_to_sql (lib_parse_time lib) country_registry country_is_JP = Inr q \<Longrightarrow>
       chan_attributes r = country_document \<Longrightarrow> lib_sql lib q (c', r)"
    "0 \<le> clock 0" "clock 0 < 4000000000000000000" "clock 0 \<le> clock n" "clock n < clock 0 + 30 * second"
  using assms by (auto simp: ready_def Let_def)

section \<open>The registration\<close>

lemma registered:
  fixes w :: "'w deliver_world_scheme"
  assumes "ready lib clock" and calm: "faults w = []" "channel_rows w = []" "ordinal_rows w = []"
  obtains c tok h where
    "register_device (new_mux (lib_server lib) demo_services) (clock 5) w = (Inr (c, tok),
       w\<lparr>channel_rows := [(c, \<lparr>chan_attributes = country_document, chan_credential = h, chan_major = 1\<rparr>)],
         id_supply := Suc (id_supply w), ordinal_next := ordinal_next w + 1,
         ordinal_rows := [(c, \<lparr>or_ordinal = ordinal_next w, or_retired = False\<rparr>)]\<rparr>)"
    "c \<noteq> []" "tok \<noteq> []" "\<And>n. verify_token (se_parse (lib_server lib)) tokenSigningSecret tok (clock n) = Inr c"
proof -
  let ?L = "lib_server lib"
  let ?c = "gen_uuid (env_gen (se_build ?L)) (id_supply w)"
  note ready = readyD [OF assms(1)]
  obtain b where b: "se_random ?L credentialBytes = Inr b" using ready(3) [of credentialBytes] by (cases "se_random ?L credentialBytes") auto
  have secret: "tokenSigningSecret \<noteq> []" by (simp add: tokenSigningSecret_def)
  obtain tok where tok: "issue_token (env_render (se_build ?L)) tokenSigningSecret ?c (clock 5) AccessTokenTTL = Inr tok"
    using ready(4) secret by (simp add: issue_token_def Let_def)
  have "verify_token (se_parse ?L) tokenSigningSecret tok (clock n) = Inr ?c" for n
  proof -
    have "unix (time_add (clock 5) AccessTokenTTL) = unix (clock 5) + 3600"
      by (simp add: unix_def time_add_def AccessTokenTTL_def hour_def minute_def second_def)
    moreover have "0 \<le> unix (clock 5)" "unix (clock 5) < 5000000000" "unix (clock n) < unix (clock 5) + 3600"
      using ready(11,12) ready(13,14) [of 5] ready(13,14) [of n]
      by (auto simp: unix_def second_def)
    ultimately show ?thesis
      using issued_token_verifies [where dec = "se_parse ?L", OF tok ready(2), of "clock n"] by (simp add: min_int64_def max_int64_def)
  qed
  moreover have "tok \<noteq> []" using tok by (auto simp: issue_token_def Let_def split: if_splits)
  moreover have "decode_attributes_json (se_parse ?L) attributesJSON = Inr country_document"
    unfolding decode_attributes_json_def ready(1) by (simp add: country_document_def put_all_def) (simp add: attributesJSON_def)
  then have "register_device (new_mux ?L demo_services) (clock 5) w = (Inr (?c, tok),
       w\<lparr>channel_rows := [(?c, \<lparr>chan_attributes = country_document, chan_credential = Some (hash_credential (b64_encode b)), chan_major = 1\<rparr>)],
         id_supply := Suc (id_supply w), ordinal_next := ordinal_next w + 1,
         ordinal_rows := [(?c, \<lparr>or_ordinal = ordinal_next w, or_retired = False\<rparr>)]\<rparr>)"
    by (simp add: register_device_def answer_as_def demo_services_def device_services_def secret register_handler_def
        register_channel_def new_credential_def b insert_channel_def allocate_ordinal_def checked_def and_then_def wrapping_def
        coded_def Let_def remote_calm calm tok CurrentMajor_def to_int32_def fits_int4_def country_document_def)
  ultimately show thesis using that ready(4) by blast
qed

section \<open>The segment\<close>

lemma country_condition: "\<exists>q. compile_to_sql pt country_registry country_is_JP = Inr q"
  by (simp add: compile_to_sql_def country_is_JP_def compile_ident_scalar_def lookup_attribute_def country_registry_def
      country_attribute_def placeholder_def comparison_sql_def)

lemma country_predicate:
  assumes "parse src = Inr country_is_JP" "serialise country_is_JP = Inr t"
  shows "compile_predicate parse serialise country_registry src
      = Inr \<lparr>pred_source = src, pred_tree = t, pred_hash = hex_encode (sha256 t)\<rparr>"
    and "\<not> references_event_aggregate country_is_JP country_registry"
proof -
  have "validate_semver_usage country_is_JP country_registry = Inr ()" "validate_aggregate_granularity country_is_JP country_registry = Inr ()"
    by (simp_all add: validate_semver_usage_def validate_aggregate_granularity_def country_is_JP_def
      comparisonOperators_def lookup_attribute_def country_registry_def country_attribute_def)
  then show "compile_predicate parse serialise country_registry src
      = Inr \<lparr>pred_source = src, pred_tree = t, pred_hash = hex_encode (sha256 t)\<rparr>"
    by (simp add: compile_predicate_def assms)
  show "\<not> references_event_aggregate country_is_JP country_registry"
    by (simp add: references_event_aggregate_def country_is_JP_def lookup_attribute_def country_registry_def country_attribute_def)
qed

lemma saved:
  fixes w :: "'w deliver_world_scheme"
  assumes "ready lib clock" and calm: "faults w = []"
  obtains t where
    "save_segment (lib_compile lib) (lib_serialise lib) (lib_deserialise lib) (lib_jsonb lib) (env_gen (se_build (lib_server lib)))
       country_registry name segment_source w
     = (Inr \<lparr>seg_id = gen_uuid (env_gen (se_build (lib_server lib))) (id_supply w), seg_ordinal = segment_next w, seg_name = name,
          seg_predicate = \<lparr>pred_source = segment_source, pred_tree = t, pred_hash = hex_encode (sha256 t)\<rparr>,
          refresh_mode = RefreshIncremental\<rparr>,
        w\<lparr>segment_rows := segment_rows w @ [\<lparr>sr_id = gen_uuid (env_gen (se_build (lib_server lib))) (id_supply w),
             sr_ordinal = segment_next w, sr_name = name, sr_source = segment_source, sr_tree = lib_jsonb lib t, sr_mode = RefreshIncremental\<rparr>],
          segment_next := segment_next w + 1, id_supply := Suc (id_supply w)\<rparr>)"
    "lib_deserialise lib (lib_jsonb lib t) = Inr country_is_JP"
proof -
  from readyD(9) [OF assms(1)] obtain t where t: "lib_serialise lib country_is_JP = Inr t" "lib_deserialise lib t = Inr country_is_JP"
    "lib_deserialise lib (lib_jsonb lib t) = Inr country_is_JP" by blast
  note pred = country_predicate [where parse = "lib_compile lib" and serialise = "lib_serialise lib", OF readyD(8) [OF assms(1)] t(1)]
  show thesis
    using that [of t] t
    by (simp add: save_segment_def pred load_predicate_def and_then_def wrapping_def remote_calm calm Let_def)
qed

text \<open>With one segment, one channel that it holds and the index empty.\<close>

lemma recomputed:
  fixes w :: "'w deliver_world_scheme"
  assumes "ready lib clock" and calm: "faults w = []"
    and rows: "segment_rows w = [row]" "channel_rows w = [(c, ch)]" "ordinal_rows w = [(c, \<lparr>or_ordinal = o', or_retired = False\<rparr>)]"
    and index: "forward_rows w = []" "generation w = 0" "reverse_keys w = []"
    and row: "lib_deserialise lib (sr_tree row) = Inr country_is_JP" "chan_attributes ch = country_document"
    and range: "0 \<le> o'" "o' \<le> max_uint32"
  shows "\<exists>rep. recompute (lib_deserialise lib) (lib_parse_time lib) (lib_sql lib) country_registry w
    = (Inr rep, w\<lparr>forward_rows := [((sr_id row, 1), {to_uint32 o'})], generation := 1,
        reverse_keys := [(reverse_key c, {to_uint32 (sr_ordinal row)})]\<rparr>)"
proof -
  obtain q where q: "compile_to_sql (lib_parse_time lib) country_registry country_is_JP = Inr q"
    using country_condition by blast
  have holds: "lib_sql lib q (c, ch)" by (rule readyD(10) [OF assms(1) q row(2)])
  have o': "int (to_uint32 o') = o'" using range by (simp add: to_uint32_small max_uint32_def)
  let ?w1 = "w\<lparr>forward_rows := [((sr_id row, 1), {to_uint32 o'})], generation := 1\<rparr>"
  have swap: "swap_generation 1 [(sr_id row, {to_uint32 o'})] w = (Inr (), ?w1)"
    unfolding swap_generation_def
    by (rule in_tx_calm) (simp_all add: calm and_then_def write_bitmap_def wrapping_def remote_calm exec_calm index)
  show ?thesis
    by (simp add: recompute_on_def list_segments_def current_generation_def load_channel_ordinals_def and_then_def wrapping_def
        query_calm calm rows index segment_of_row_def recompute_segment_def load_predicate_def row q matching_ordinals_def holds range not_less [THEN iffD2, OF range(1)] not_less [THEN iffD2, OF range(2)]
        bitmap_at_def mark_segment_def o' swap set_many_reverse_def exec_calm reclaim_def reclaimGenerations_def)
qed

lemma defined:
  fixes w :: "'w deliver_world_scheme"
  assumes "ready lib clock" and calm: "faults w = []"
    and rows: "segment_rows w = []" "channel_rows w = [(c, ch)]" "ordinal_rows w = [(c, \<lparr>or_ordinal = o', or_retired = False\<rparr>)]"
    and index: "forward_rows w = []" "generation w = 0" "reverse_keys w = []"
    and doc: "chan_attributes ch = country_document" and range: "0 \<le> o'" "o' \<le> max_uint32"
  obtains row where
    "define_segment lib w = (Inr (sr_id row), w\<lparr>segment_rows := [row], segment_next := segment_next w + 1, id_supply := Suc (id_supply w),
       forward_rows := [((sr_id row, 1), {to_uint32 o'})], generation := 1, reverse_keys := [(reverse_key c, {to_uint32 (segment_next w)})]\<rparr>)"
    "sr_ordinal row = segment_next w" "sr_id row \<noteq> []"
proof -
  from saved [OF assms(1,2), of "''Japan travelers''"] obtain t w1 where
    save: "save_segment (lib_compile lib) (lib_serialise lib) (lib_deserialise lib) (lib_jsonb lib) (env_gen (se_build (lib_server lib)))
        country_registry ''Japan travelers'' segment_source w
      = (Inr \<lparr>seg_id = gen_uuid (env_gen (se_build (lib_server lib))) (id_supply w), seg_ordinal = segment_next w, seg_name = ''Japan travelers'',
          seg_predicate = \<lparr>pred_source = segment_source, pred_tree = t, pred_hash = hex_encode (sha256 t)\<rparr>,
          refresh_mode = RefreshIncremental\<rparr>, w1)"
    and w1: "w1 = w\<lparr>segment_rows := segment_rows w @ [\<lparr>sr_id = gen_uuid (env_gen (se_build (lib_server lib))) (id_supply w),
             sr_ordinal = segment_next w, sr_name = ''Japan travelers'', sr_source = segment_source, sr_tree = lib_jsonb lib t, sr_mode = RefreshIncremental\<rparr>],
          segment_next := segment_next w + 1, id_supply := Suc (id_supply w)\<rparr>"
    and t: "lib_deserialise lib (lib_jsonb lib t) = Inr country_is_JP" by metis
  have f: "faults w1 = []" "segment_rows w1 = [\<lparr>sr_id = gen_uuid (env_gen (se_build (lib_server lib))) (id_supply w),
             sr_ordinal = segment_next w, sr_name = ''Japan travelers'', sr_source = segment_source, sr_tree = lib_jsonb lib t, sr_mode = RefreshIncremental\<rparr>]"
    "channel_rows w1 = [(c, ch)]" "ordinal_rows w1 = [(c, \<lparr>or_ordinal = o', or_retired = False\<rparr>)]"
    "forward_rows w1 = []" "generation w1 = 0" "reverse_keys w1 = []"
    by (simp_all add: w1 calm rows index)
  from recomputed [OF assms(1) f _ doc range] t obtain rep where
    rep: "recompute (lib_deserialise lib) (lib_parse_time lib) (lib_sql lib) country_registry w1
      = (Inr rep, w1\<lparr>forward_rows := [((gen_uuid (env_gen (se_build (lib_server lib))) (id_supply w), 1), {to_uint32 o'})], generation := 1,
          reverse_keys := [(reverse_key c, {to_uint32 (segment_next w)})]\<rparr>)"
    by auto
  have reg: "new_registry [country_attribute] = Inr country_registry"
    by (simp add: new_registry_def country_attribute_def country_registry_def)
  let ?opts = "[EnvVariable ''country'' CelString, EnvFunction semverFunctionName (semverFunctionName @ ''_string'') [CelString] CelString]"
  obtain e where "lib_new_env lib ?opts = Inr e"
    using readyD(7) [OF assms(1), of ?opts] by (cases "lib_new_env lib ?opts") auto
  then have env: "build_env (lib_new_env lib) [country_attribute] = Inr e"
    by (simp add: build_env_def build_env_options_def country_attribute_def)
  show thesis
    using that [of "\<lparr>sr_id = gen_uuid (env_gen (se_build (lib_server lib))) (id_supply w), sr_ordinal = segment_next w,
        sr_name = ''Japan travelers'', sr_source = segment_source, sr_tree = lib_jsonb lib t, sr_mode = RefreshIncremental\<rparr>"]
      readyD(4) [OF assms(1)]
    by (simp add: define_segment_def reg env and_then_def wrapping_def save rep) (simp add: w1 rows)
qed

section \<open>The message\<close>

definition welcome_draft :: "time \<Rightarrow> string \<Rightarrow> message" where
  "welcome_draft now s =
     \<lparr>msg_id = [], msg_name = ''Welcome-back dialog'', msg_state = StateDraft, priority = 0,
      msg_window = \<lparr>win_start = time_add now (- hour), win_end = time_add now hour\<rparr>, msg_version = 0, audience_ref = s,
      policy = no_policy, holdout_fraction = 0, experiment_salt = [], conversion_event = [], triggers = [],
      display_conditions = [], variants = [welcome_variant]\<rparr>"

definition welcome_row :: "time \<Rightarrow> string \<Rightarrow> string \<Rightarrow> string \<Rightarrow> message_row" where
  "welcome_row now s salt state =
     \<lparr>mr_name = ''Welcome-back dialog'', mr_state = state, mr_priority = 0, mr_start = pg_time (time_add now (- hour)),
      mr_end = pg_time (time_add now hour), mr_audience = Some s, mr_holdout = 0, mr_conversion = None, mr_version = 1, mr_salt = salt\<rparr>"

lemma fl_sixteen: "fl 16 = 16"
  using fl_int [of 16] by simp

lemma welcome_unmarshalled: "unmarshal_content_column v demo_column
    = Inr (v\<lparr>schema := \<lparr>major = 1, minor = 0\<rparr>, variant_content := welcome_content\<rparr>)"
  by (simp add: unmarshal_content_column_def demo_column_def column_field_def schema_field_def field_defs lower_char_def
      unmarshal_content.simps layout_sniff_def welcome_content_def fl_sixteen min_int64_def max_int64_def)

lemma welcome_read: "from_message_definition (welcome_message now s) = Inr (welcome_draft now s\<lparr>msg_state := state_of_text []\<rparr>)"
  by (simp add: from_message_definition_def welcome_message_def if_bytes_def unmarshal_variants_def variantsJSON_def dec_slice_def
      variant_wire_of_json_def variant_wire_field_def lower_char_def variant_of_wire_def blank_variant_def welcome_unmarshalled
      welcome_draft_def welcome_variant_def min_int64_def max_int64_def)

lemma welcome_valid: "0 \<le> now \<Longrightarrow> s \<noteq> [] \<Longrightarrow> validate True [s] (welcome_draft now s) now = Inr ()"
  by (simp add: validate_def welcome_draft_def validate_temporal_sanity_def time_add_def hour_def minute_def second_def
      validate_variant_weights_def weight_totals_def welcome_variant_def expectedVariantWeightTotal_def
      validate_schema_version_def validate_content_security_def validate_media_ref_def welcome_content_def walk_content_def
      media_errors_def validate_audience_ref_def supports_schema_major_def SupportedMajors_def CurrentMajor_def wrap64_small)

definition author :: principal where
  "author = \<lparr>subject = ''demo-campaign-author'', principal_role = RoleEditor\<rparr>"

lemma walk_services:
  "srv_redis demo_services" "device_services demo_services" "srv_secret demo_services = tokenSigningSecret"
  "delivery_server_of demo_services = \<lparr>ds_redis = True, ds_delta = False, ds_publisher = postgres_publish\<rparr>"
  by (simp_all add: demo_services_def device_services_def tokenSigningSecret_def delivery_server_of_def)

lemma author_serves:
  "new_mux L demo_services (authed adminAPIKey) (Admin call) now = serve_admin L demo_services call now (with_principal background author)"
proof -
  have "authenticate [(adminAPIKey, author)] (bearer_token (authed adminAPIKey)) = Inr author"
    by (simp add: authenticate_def bearer_token_def trim_prefix_def has_prefix_def authed_def adminAPIKey_def)
  moreover have "satisfies RoleEditor (required_role call)"
    by (cases call) (simp_all add: required_roles satisfies_known)
  ultimately show ?thesis
    by (simp add: demo_services_def admin_auth_interceptor_def required_roles(1) author_def [symmetric]) (simp add: author_def)
qed

lemma authored:
  fixes w :: "'w deliver_world_scheme"
  assumes "ready lib clock" and calm: "faults w = []" and s: "map sr_id (segment_rows w) = [s]" "s \<noteq> []"
    and rows: "messages w = []" "policies w = []" "variant_rows w = []" and now: "now = clock k"
  obtains m salt v where
    "author_message (new_mux (lib_server lib) demo_services) s now w = (Inr m,
       w\<lparr>messages := [(m, welcome_row now s salt ''draft'')], policies := [(m, row_of_policy no_policy)],
         variant_rows := [(v, m, row_of_variant welcome_variant)], id_supply := Suc (Suc (id_supply w))\<rparr>)"
    "m \<noteq> []" "v \<noteq> []"
proof -
  let ?g = "env_gen (se_build (lib_server lib))"
  let ?m = "gen_uuid ?g (id_supply w)" and ?salt = "gen_salt ?g (id_supply w)" and ?v = "gen_uuid ?g (Suc (id_supply w))"
  note ready = readyD [OF assms(1)]
  have pos: "0 \<le> now" using ready(11) ready(13) [of k] now by simp
  have valid: "validate_message (welcome_draft now s) now w = (Inr (), w)"
    by (simp add: validate_message_def welcome_draft_def s calm query_calm) (simp add: welcome_valid [OF pos s(2), unfolded welcome_draft_def])
  have order: "pg_time (time_add now (- hour)) < pg_time (time_add now hour)"
    by (simp add: pg_time_def time_add_def hour_def minute_def second_def)
  have whole: "whole_seconds 0 = 0" using whole_seconds_exact [of 0] by simp
  let ?x = "welcome_draft now s\<lparr>msg_version := 1, msg_id := ?m, experiment_salt := ?salt,
      variants := [welcome_variant\<lparr>variant_message := ?m, variant_id := ?v\<rparr>]\<rparr>"
  have ins: "insert_message ?g (welcome_draft now s) w = (Inr ?x,
       w\<lparr>messages := [(?m, welcome_row now s ?salt ''draft'')], policies := [(?m, row_of_policy no_policy)],
         variant_rows := [(?v, ?m, row_of_variant welcome_variant)], id_supply := Suc (Suc (id_supply w))\<rparr>)"
    unfolding insert_message_def
    by (rule in_tx_calm)
      (simp_all add: calm welcome_draft_def insert_message_row_def checked_def message_row_ok_def row_of_message_def known_states_def
        order fits_int4_def and_then_def wrapping_def remote_calm Let_def rows insert_policy_def row_of_policy_def no_policy_def
        whole insert_variant_def welcome_variant_def row_of_variant_def marshal_content_column_def or_null_def s(2) welcome_row_def)
  show thesis
    using that ready(4) valid ins
    by (simp add: author_message_def answer_as_def author_serves create_message_handler_def welcome_read and_then_def wrapping_def
        coded_def Let_def welcome_draft_def del: new_mux.simps)
qed

section \<open>Publication\<close>

lemma published:
  fixes w :: "'w deliver_world_scheme"
  assumes calm: "faults w = []"
    and rows: "messages w = [(m, welcome_row now s salt ''draft'')]" "bundle_index w = []" "change_log w = []" "audit_log w = []"
  shows "publish_message (new_mux L demo_services) m t w = (Inr ''active'',
       w\<lparr>messages := [(m, welcome_row now s salt ''active'')],
         audit_log := [\<lparr>ar_message = m, ar_from = ''draft'', ar_to = ''active'', ar_actor = ''demo-campaign-author'', ar_at = pg_time t\<rparr>],
         change_log := [\<lparr>ch_seq = change_seq w, ch_message = m, ch_kind = KindUpsert, ch_at = pg_time t\<rparr>],
         change_seq := change_seq w + 1\<rparr>)"
proof -
  have states: "state_of_text ''draft'' = StateDraft" "state_of_text ''active'' = StateActive"
    by (simp_all add: state_of_text_def known_states_def)
  have row: "mr_state (welcome_row now s salt st) = st" "mr_audience (welcome_row now s salt st) = Some s"
    "welcome_row now s salt st\<lparr>mr_state := st'\<rparr> = welcome_row now s salt st'" for st st'
    by (simp_all add: welcome_row_def)
  let ?w1 = "w\<lparr>messages := [(m, welcome_row now s salt ''active'')],
      audit_log := [\<lparr>ar_message = m, ar_from = ''draft'', ar_to = ''active'', ar_actor = ''demo-campaign-author'', ar_at = pg_time t\<rparr>]\<rparr>"
  have "update_state m StateActive ''demo-campaign-author'' t w = (Inr (), ?w1)"
    unfolding update_state_def
    by (rule in_tx_calm)
      (simp_all add: calm update_state_tx_def and_then_def wrapping_def remote_calm exec_calm rows row states can_transition_def
        set_state_def record_audit_def)
  moreover have "\<not> pg_time t < pg_time (time_add t (- Retention))"
    by (simp add: pg_time_def time_add_def Retention_def hour_def minute_def second_def not_less)
  ultimately show ?thesis
    by (simp add: publish_message_def answer_as_def author_serves update_message_state_handler_def with_principal_def author_def states
        and_then_def wrapping_def coded_def Let_def record_change_def remote_calm exec_calm query_calm calm rows row
        invalidate_campaign_def walk_services del: new_mux.simps)
qed

lemma audited:
  fixes w :: "'w deliver_world_scheme"
  assumes "faults w = []"
    and "audit_log w = [\<lparr>ar_message = m, ar_from = ''draft'', ar_to = ''active'', ar_actor = ''demo-campaign-author'', ar_at = t\<rparr>]"
  shows "read_audit (new_mux L demo_services) m now w
    = (Inr [\<lparr>ae_from = StateDraft, ae_to = StateActive, ae_actor = ''demo-campaign-author'', ae_at = t\<rparr>], w)"
proof -
  have "state_of_text ''draft'' = StateDraft" "state_of_text ''active'' = StateActive"
    by (simp_all add: state_of_text_def known_states_def)
  then show ?thesis
    by (simp add: read_audit_def answer_as_def author_serves list_audit_log_handler_def list_audit_log_def and_then_def wrapping_def
        coded_def query_calm assms del: new_mux.simps)
qed

section \<open>Synchronization\<close>

lemma only_variant:
  assumes "weight x = 100"
  shows "assign_variant 0 salt [x] ident = Inr (x, False)"
proof -
  have none: "holdout_buckets 0 = 0" by (simp add: holdout_buckets_def math_round_def floor_eq_iff)
  have w: "weight_percent [x] (variant_id x) = 100" using assms by (simp add: weight_percent_def)
  have share: "sh_floor (share_of (weight_percent [x]) 10000 (variant_id x)) = 10000"
    using share_exact [of 100 10000 "weight_percent [x]" "variant_id x"] w by simp
  have id: "sh_id (share_of (weight_percent [x]) 10000 (variant_id x)) = variant_id x" by (simp add: share_of_def Let_def)
  have alloc: "allocate_experiment_buckets [variant_id x] (weight_percent [x]) 10000 = [variant_id x \<mapsto> 10000]"
    by (simp add: allocate_experiment_buckets_def share by_remainder_def id)
  have "0 \<le> bucket salt ident" "bucket salt ident < 10000" using bucket_range [of salt ident] by (simp_all add: BucketCount_def)
  then show ?thesis
    by (simp add: assign_variant_def Let_def none BucketCount_def alloc new_range_table_def wrap64_small assign_def lookup_def
        variant_by_id_def)
qed

lemma welcome_stored:
  "variant_of_row (v, m, row_of_variant welcome_variant)
    = Inr (welcome_variant\<lparr>variant_id := v, variant_message := m\<rparr>)"
proof -
  have "unmarshal_content_column (blank_variant\<lparr>variant_id := v, variant_message := m, weight := 100, language := ''en''\<rparr>)
      (marshal_content_column welcome_variant)
    = Inr (blank_variant\<lparr>variant_id := v, variant_message := m, weight := 100, language := ''en'',
        schema := schema welcome_variant, variant_content := variant_content welcome_variant\<rparr>)"
    by (rule content_column_step)
      (simp_all add: welcome_variant_def welcome_content_def wf_presentation_def fl_sixteen min_int64_def max_int64_def)
  then show ?thesis
    by (simp add: variant_of_row_def row_of_variant_def welcome_variant_def blank_variant_def)
qed

lemma welcome_eligible:
  assumes "0 \<le> now" "now - 30 * second < t" "t < now + 30 * second"
  shows "eligible [s] t (welcome_row now s salt ''active'')"
proof -
  have "(now - 3600000000000) div 1000 \<le> t div 1000" "t div 1000 < (now + 3600000000000) div 1000"
    using assms by (simp_all add: second_def zdiv_mono1) 
  then show ?thesis
    by (simp add: eligible_def welcome_row_def pg_time_def time_add_def hour_def minute_def second_def)
qed

definition welcome_bundled :: "(json \<Rightarrow> string) \<Rightarrow> time \<Rightarrow> string \<Rightarrow> string \<Rightarrow> string \<Rightarrow> bundle_message" where
  "welcome_bundled render now salt m v =
     (let bv = to_bundle_variant render (welcome_variant\<lparr>variant_id := v, variant_message := m\<rparr>)
      in \<lparr>bm_id = m, bm_version = 1, bm_priority = 0, bm_expires = pg_time (time_add now hour),
          bm_policy = policy_of_row (row_of_policy no_policy), bm_triggers = [], bm_conditions = [], bm_holdout = 0, bm_salt = salt,
          bm_fallback = bv, bm_variants = [bv]\<rparr>)"

text \<open>What the tables of the walk's message are when the device synchronizes.\<close>

definition published_tables ::
  "time \<Rightarrow> string \<Rightarrow> string \<Rightarrow> string \<Rightarrow> string \<Rightarrow> 'w store_world_scheme \<Rightarrow> bool" where
  "published_tables now s salt m v w \<longleftrightarrow>
     messages w = [(m, welcome_row now s salt ''active'')] \<and> policies w = [(m, row_of_policy no_policy)]
     \<and> trigger_rows w = [] \<and> condition_rows w = [] \<and> variant_rows w = [(v, m, row_of_variant welcome_variant)]"

lemma assembled:
  fixes w :: "'w payload_world_scheme"
  assumes "faults w = []" "published_tables now s salt m v w" "eligible [s] t (welcome_row now s salt ''active'')"
  shows "assemble_shared render [s] ''en'' 1 t w = (Inr [welcome_bundled render now salt m v], w)"
proof -
  from assms(2) have rows: "messages w = [(m, welcome_row now s salt ''active'')]" "policies w = [(m, row_of_policy no_policy)]"
    "trigger_rows w = []" "condition_rows w = []" "variant_rows w = [(v, m, row_of_variant welcome_variant)]"
    by (simp_all add: published_tables_def)
  have got: "get_message m w = (Inr ((message_of_row m (welcome_row now s salt ''active''))
      \<lparr>policy := policy_of_row (row_of_policy no_policy), triggers := [], display_conditions := [],
       variants := [welcome_variant\<lparr>variant_id := v, variant_message := m\<rparr>]\<rparr>), w)"
    by (simp add: get_message_def and_then_def wrapping_def remote_calm query_calm assms(1) rows rows_of_def welcome_stored)
  have "to_bundle_message render ((message_of_row m (welcome_row now s salt ''active''))
      \<lparr>policy := policy_of_row (row_of_policy no_policy), triggers := [], display_conditions := [],
       variants := [welcome_variant\<lparr>variant_id := v, variant_message := m\<rparr>]\<rparr>) ''en'' 1
      = Inr (Some (welcome_bundled render now salt m v))"
    by (simp add: to_bundle_message_def variants_supporting_major_def supports_major_def welcome_variant_def variants_for_language_def
        welcome_bundled_def Let_def message_of_row_def empty_message_def welcome_row_def)
  then show ?thesis
    by (simp add: assemble_shared_def eligible_message_ids_def and_then_def wrapping_def query_calm assms(1,3) rows got)
qed

lemma overlaid:
  fixes w :: "'w payload_world_scheme"
  shows "overlay_all g publish c t [welcome_bundled render now salt m v] w
    = (Inr [entry_of (welcome_bundled render now salt m v) (bm_fallback (welcome_bundled render now salt m v))], w)"
  by (simp add: apply_overlay_def welcome_bundled_def Let_def to_model_variants_def only_variant zero_variant_def to_bundle_variant_def
      welcome_variant_def find_bundle_variant_def and_then_def wrapping_def)

lemma built:
  fixes w :: "'w payload_world_scheme"
  assumes "faults w = []" "published_tables now s salt m v w" "eligible [s] t (welcome_row now s salt ''active'')"
    and indexed: "reverse_keys w = [(reverse_key c, {so})]" "segment_rows w = [row]" "sr_id row = s" "sr_ordinal row = int so"
    and chan: "channel_rows w = [(c, ch)]" "chan_major ch = 1" and cold: "bundle_cache w = []"
    and size: "length (env_render env (marshal_content_column welcome_variant)) \<le> 40960"
  obtains nxt w' where
    "build_payload env sink c ''en'' t 40960 interval jitter w
      = (Inr \<lparr>entries = [entry_of (welcome_bundled (env_render env) now salt m v)
            (bm_fallback (welcome_bundled (env_render env) now salt m v))], next_sync = nxt, budget_remaining = None\<rparr>, w')"
    "\<exists>cache index. w' = w\<lparr>bundle_cache := cache, bundle_index := index\<rparr>"
proof -
  let ?b = "welcome_bundled (env_render env) now salt m v"
  have "\<exists>cache index. shared_bundle_for (env_render env) (env_marshal env) {so} ''en'' 1 t w
      = (Inr [?b], w\<lparr>bundle_cache := cache, bundle_index := index\<rparr>)"
    by (simp add: shared_bundle_for_def get_cached_bundle_def segment_ids_for_ordinals_def and_then_def wrapping_def query_calm exec_calm
        Let_def assms(1) cold indexed assembled [OF assms(1-3)] set_cached_bundle_def index_bundle_def) blast
  then obtain w' where shared: "shared_bundle_for (env_render env) (env_marshal env) {so} ''en'' 1 t w = (Inr [?b], w')"
    and w': "\<exists>cache index. w' = w\<lparr>bundle_cache := cache, bundle_index := index\<rparr>" by blast
  have "fst (truncate_entries [entry_of ?b (bm_fallback ?b)] 40960) = [entry_of ?b (bm_fallback ?b)]"
    using size by (simp add: truncate_entries_def entry_of_def welcome_bundled_def Let_def to_bundle_variant_def
        marshal_content_column_def welcome_variant_def)
  then show thesis
    using that w'
    by (simp add: build_payload_def Let_def get_reverse_def supported_schema_major_def and_then_def wrapping_def query_calm remote_calm
        assms(1) indexed chan shared overlaid del: overlay_all.simps)
qed

text \<open>A device that its token lets in.\<close>

lemma device_serves:
  assumes "verify_token (se_parse L) tokenSigningSecret tok t = Inr c" "tok \<noteq> []"
  shows "behind_device_auth L demo_services (authed tok) t handler = handler (with_channel_id background c)"
proof -
  have "bearer_token (authed tok) = tok" by (simp add: bearer_token_def trim_prefix_def has_prefix_def authed_def)
  with assms show ?thesis by (simp add: behind_device_auth_def device_auth_interceptor_def walk_services)
qed

lemma let_in: "c \<noteq> [] \<Longrightarrow> require_channel_id (with_channel_id ctx c) = ret c"
  by (simp add: require_channel_id_def with_channel_id_def)

lemma default_config:
  "size_ceiling default_sync_config = 40960" "budget_cap default_sync_config = 2" "delta_mode default_sync_config = False"
  "tag_ttl default_sync_config = 30 * second" "default_sync_config\<lparr>delta_mode := False\<rparr> = default_sync_config"
  by (simp_all add: default_sync_config_def defaultProjectBudgetCap_def)

lemma peeked:
  assumes "faults w = []" "budgets w (budget_key c) = None"
  shows "\<exists>n idx. remaining window c cap t w
    = (Inr n, w\<lparr>budgets := (budgets w)(budget_key c \<mapsto> \<lparr>bc_window = idx, bc_count = 0, bc_prev = 0\<rparr>)\<rparr>)"
  using assms
  by (auto simp: remaining_def budget_eval_def and_then_def wrapping_def remote_calm Let_def budget_script_def rollover_def
      noCapCheck_def split: prod.split)

lemma synchronized:
  fixes w :: "'w deliver_world_scheme"
  assumes "ready lib clock" and calm: "faults w = []" and pub: "published_tables now s salt m v w"
    and opened: "eligible [s] t (welcome_row now s salt ''active'')"
    and indexed: "reverse_keys w = [(reverse_key c, {so})]" "segment_rows w = [row]" "sr_id row = s" "sr_ordinal row = int so"
    and chan: "channel_rows w = [(c, ch)]" "chan_major ch = 1"
    and cold: "bundle_cache w = []" "tag_cache w = []" "budgets w = Map.empty"
    and tok: "verify_token (se_parse (lib_server lib)) tokenSigningSecret tok t = Inr c" "tok \<noteq> []" "c \<noteq> []"
  obtains rsp e cache index idx where
    "synchronize (new_mux (lib_server lib) demo_services) msg tok [] t w = (Inr rsp,
       w\<lparr>bundle_cache := cache, bundle_index := index, tag_cache := [(tag_key c, rsp_etag rsp, Some (time_add t (30 * second)))],
         budgets := [budget_key c \<mapsto> \<lparr>bc_window = idx, bc_count = 0, bc_prev = 0\<rparr>]\<rparr>)"
    "rsp_entries rsp = [e]" "ew_message e = m" "ew_variant e = v" "ew_content e = env_render (se_build (lib_server lib)) (marshal_content_column welcome_variant)"
    "\<not> rsp_unchanged rsp" "\<not> rsp_is_delta rsp" "rsp_etag rsp \<noteq> []"
proof -
  let ?env = "se_build (lib_server lib)"
  let ?b = "welcome_bundled (env_render ?env) now salt m v"
  let ?e = "entry_of ?b (bm_fallback ?b)"
  from built [OF calm pub opened indexed chan cold(1) readyD(6) [OF assms(1)]] obtain nxt w1 where
    b: "build_payload ?env (Some postgres_publish) c ''en'' t 40960 (sync_interval default_sync_config) (sync_jitter default_sync_config) w
      = (Inr \<lparr>entries = [?e], next_sync = nxt, budget_remaining = None\<rparr>, w1)"
    and w1: "\<exists>cache index. w1 = w\<lparr>bundle_cache := cache, bundle_index := index\<rparr>" by metis
  then obtain cache index where w1: "w1 = w\<lparr>bundle_cache := cache, bundle_index := index\<rparr>" by blast
  let ?tag = "compute_tag [?e]"
  let ?w2 = "w1\<lparr>tag_cache := [(tag_key c, ?tag, Some (time_add t (30 * second)))]\<rparr>"
  have tagged: "cache_tag c ?tag (30 * second) t w1 = (Inr (), ?w2)"
    by (simp add: cache_tag_def wrapping_def exec_calm w1 calm cold second_def)
  from peeked [of ?w2 c "budget_window default_sync_config" 2 t] obtain n idx where
    p: "remaining (budget_window default_sync_config) c 2 t ?w2
      = (Inr n, ?w2\<lparr>budgets := (budgets ?w2)(budget_key c \<mapsto> \<lparr>bc_window = idx, bc_count = 0, bc_prev = 0\<rparr>)\<rparr>)"
    by (auto simp: w1 calm cold)
  have "?tag \<noteq> []" by (simp add: compute_tag_def hex_of_nat.simps [of "unat _"])
  moreover have "ew_content (hd (wire_entries [?e])) = env_render ?env (marshal_content_column welcome_variant)"
    by (simp add: wire_entries_def entry_of_def welcome_bundled_def Let_def to_bundle_variant_def marshal_content_column_def welcome_variant_def)
  moreover have "ew_message (hd (wire_entries [?e])) = m" "ew_variant (hd (wire_entries [?e])) = v"
    by (simp_all add: wire_entries_def entry_of_def welcome_bundled_def Let_def to_bundle_variant_def)
  moreover have "\<exists>rsp. synchronize (new_mux (lib_server lib) demo_services) msg tok [] t w = (Inr rsp,
       w\<lparr>bundle_cache := cache, bundle_index := index, tag_cache := [(tag_key c, rsp_etag rsp, Some (time_add t (30 * second)))],
         budgets := [budget_key c \<mapsto> \<lparr>bc_window = idx, bc_count = 0, bc_prev = 0\<rparr>]\<rparr>)
      \<and> rsp_entries rsp = [hd (wire_entries [?e])] \<and> \<not> rsp_unchanged rsp \<and> \<not> rsp_is_delta rsp \<and> rsp_etag rsp = ?tag"
    using b tagged p tok(3)
    by (simp add: synchronize_def answer_as_def device_serves [OF tok(1,2)] sync_handler_def walk_services let_in sync_channel_def
        read_tag_def issue_budget_def default_config and_then_def wrapping_def coded_def Let_def sync_response_of_def wire_entries_def)
      (simp add: w1 cold)
  ultimately show thesis using that by metis
qed

text \<open>While its tag is in the cache the device is told that nothing has changed.\<close>

lemma synchronized_again:
  fixes w :: "'w deliver_world_scheme"
  assumes "faults w = []" "tag_cache w = [(tag_key c, etag, Some expiry)]" "t < expiry" "etag \<noteq> []"
    and tok: "verify_token (se_parse L) tokenSigningSecret tok t = Inr c" "tok \<noteq> []" "c \<noteq> []"
  shows "\<exists>rsp. synchronize (new_mux L demo_services) msg tok etag t w = (Inr rsp, w)
    \<and> rsp_unchanged rsp \<and> rsp_entries rsp = [] \<and> rsp_etag rsp = etag"
  using assms
  by (simp add: synchronize_def answer_as_def device_serves [OF tok(1,2)] sync_handler_def walk_services let_in sync_channel_def
      read_tag_def cached_tag_def query_calm and_then_def wrapping_def coded_def Let_def sync_response_of_def)

section \<open>Confirmation and the event\<close>

lemma counted_first:
  assumes "faults w = []" "budgets w (budget_key c) = Some \<lparr>bc_window = idx, bc_count = 0, bc_prev = 0\<rparr>"
  shows "\<exists>cell. check_and_increment window c 2 t w = (Inr True, w\<lparr>budgets := (budgets w)(budget_key c \<mapsto> cell)\<rparr>)"
proof -
  obtain i x where p: "window_params t window = (i, x)" by force
  define cell where "cell = rollover (budgets w (budget_key c)) i"
  have zero: "bc_count cell = 0" "bc_prev cell = 0" using assms(2) by (simp_all add: cell_def rollover_def)
  then have "estimate cell x = 0" by (simp add: estimate_def)
  moreover have "fl 1 = 1" using fl_int [of 1] by simp
  ultimately have "snd (fst (budget_script (budgets w (budget_key c)) i x 1 2))"
    by (simp add: budget_script_def Let_def cell_def [symmetric])
  then show ?thesis
    by (cases "budget_script (budgets w (budget_key c)) i x 1 2")
      (auto simp: check_and_increment_def budget_eval_def p and_then_def wrapping_def remote_calm assms(1) Let_def)
qed

lemma pg_time_near: "pg_time x \<le> x" "x < pg_time x + 1000"
  unfolding pg_time_def by presburger+

lemma confirmed:
  fixes w :: "'w deliver_world_scheme"
  assumes calm: "faults w = []" and pub: "published_tables now s salt m v w"
    and time: "0 \<le> now" "now - 30 * second < t" "t < now + 30 * second"
    and budget: "budgets w (budget_key c) = Some \<lparr>bc_window = idx, bc_count = 0, bc_prev = 0\<rparr>"
    and tok: "verify_token (se_parse L) tokenSigningSecret tok t = Inr c" "tok \<noteq> []" "c \<noteq> []"
  shows "\<exists>cell. confirm_now (new_mux L demo_services) tok m t w = (Inr True, w\<lparr>budgets := (budgets w)(budget_key c \<mapsto> cell)\<rparr>)"
proof -
  have rows: "messages w = [(m, welcome_row now s salt ''active'')]" "policies w = [(m, row_of_policy no_policy)]"
    using pub by (simp_all add: published_tables_def)
  have "\<not> t < pg_time (time_add now (- hour))" "t < pg_time (time_add now hour)"
    using time pg_time_near [of "time_add now (- hour)"] pg_time_near [of "time_add now hour"]
    by (simp_all add: time_add_def hour_def minute_def second_def)
  then have shown: "confirm_display m t w = (Inr True, w)"
    by (simp add: confirm_display_def and_then_def wrapping_def query_calm calm rows welcome_row_def)
  from counted_first [OF calm budget, of defaultProjectBudgetWindow t] obtain cell where
    "check_and_increment defaultProjectBudgetWindow c 2 t w = (Inr True, w\<lparr>budgets := (budgets w)(budget_key c \<mapsto> cell)\<rparr>)" by blast
  then have "check_project_budget g publish m c t w = (Inr True, w\<lparr>budgets := (budgets w)(budget_key c \<mapsto> cell)\<rparr>)" for g publish
    by (simp add: check_project_budget_def is_exempt_from_project_cap_def and_then_def wrapping_def remote_calm calm rows
        row_of_policy_def no_policy_def defaultProjectBudgetCap_def)
  then show ?thesis
    using tok(3)
    by (auto simp: confirm_now_def answer_as_def device_serves [OF tok(1,2)] confirm_handler_def walk_services let_in shown
        and_then_def wrapping_def coded_def)
qed

lemma submitted:
  fixes w :: "'w deliver_world_scheme"
  assumes calm: "faults w = []" "events_log w = []" "rl_counts w = (\<lambda>_. 0)" and now: "0 \<le> now"
    and ids: "i \<noteq> []" "ew_message e \<noteq> []" "ew_variant e \<noteq> []"
    and tok: "verify_token (se_parse L) tokenSigningSecret tok t = Inr c" "tok \<noteq> []" "c \<noteq> []"
  shows "\<exists>w'. submit_impression (new_mux L demo_services) tok (impression_event i now e) t w
    = (Inr \<lparr>sub_accepted = 1, sub_invalid = 0, sub_rate_limited = 0\<rparr>, w')"
proof -
  define ev where "ev = \<lparr>ev_id = i, ev_channel = c, ev_kind = KindImpression, ev_name = [], device_time = now,
      server_time = zero_time, ev_properties = [], ev_message = ew_message e, ev_variant = ew_variant e, suppression_reason = []\<rparr>"
  have "kind_of_string ''impression'' = KindImpression" by (simp add: kind_of_string_def known_kinds_def)
  then have read: "res_bind (from_wire (se_parse L) (impression_event i now e)) (\<lambda>x. Inr (x\<lparr>ev_channel := c\<rparr>)) = Inr ev"
    by (simp add: from_wire_def impression_event_def ev_def)
  have "validate_event ev = Inr ()"
    using ids tok(3) now by (simp add: validate_event_def ev_def known_kinds_def zero_time_def second_def)
  then have "\<exists>res. screen_batch c [ev] t no_events = Inr ([ev], res) \<and> rejected_invalid res = 0 \<and> rejected_rate_limited res = 0"
    by (simp add: ev_def no_events_def)
  then obtain res where screened: "screen_batch c [ev] t no_events = Inr ([ev], res)"
    and res: "rejected_invalid res = 0" "rejected_rate_limited res = 0" by blast
  have "\<exists>w'. accept postgres_publish default_rate_limit c [ev] t w = (Inr (res\<lparr>accepted := 1\<rparr>), w')"
    by (simp add: accept_def screened and_then_def allow_def incr_by_def wrapping_def remote_calm exec_calm calm Let_def
        default_rate_limit_def postgres_publish_def append_to_log_def insert_event_def del: screen_batch.simps)
  then show ?thesis
    using tok(3) res
    by (auto simp: submit_impression_def answer_as_def device_serves [OF tok(1,2)] submit_handler_def walk_services let_in read
        and_then_def wrapping_def coded_def to_int32_def)
qed

section \<open>The whole of it\<close>

text \<open>What the walk prints, by the documentation: one audit entry, one entry of the message, nothing new, approved, accepted.\<close>

definition as_documented :: "(json \<Rightarrow> string) \<Rightarrow> time \<Rightarrow> walk \<Rightarrow> bool" where
  "as_documented render published r \<longleftrightarrow>
     walk_audit r = [\<lparr>ae_from = StateDraft, ae_to = StateActive, ae_actor = ''demo-campaign-author'', ae_at = pg_time published\<rparr>]
     \<and> map (\<lambda>e. (ew_message e, ew_content e)) (rsp_entries (walk_first r)) = [(walk_message r, render (marshal_content_column welcome_variant))]
     \<and> \<not> rsp_unchanged (walk_first r) \<and> rsp_unchanged (walk_second r) \<and> rsp_entries (walk_second r) = []
     \<and> rsp_etag (walk_second r) = rsp_etag (walk_first r)
     \<and> walk_approved r \<and> walk_submitted r = \<lparr>sub_accepted = 1, sub_invalid = 0, sub_rate_limited = 0\<rparr>"

definition emptied :: "'w deliver_world_scheme \<Rightarrow> bool" where
  "emptied w \<longleftrightarrow> channel_rows w = [] \<and> ordinal_rows w = [] \<and> segment_rows w = [] \<and> forward_rows w = [] \<and> generation w = 0
     \<and> reverse_keys w = [] \<and> messages w = [] \<and> policies w = [] \<and> trigger_rows w = [] \<and> condition_rows w = [] \<and> variant_rows w = []
     \<and> audit_log w = [] \<and> change_log w = [] \<and> events_log w = [] \<and> rl_counts w = (\<lambda>_. 0) \<and> budgets w = Map.empty
     \<and> bundle_cache w = [] \<and> bundle_index w = [] \<and> tag_cache w = []"

text \<open>The database when the device synchronizes: its channel is in the segment of the one message, and nothing is cached.\<close>

definition campaign_open ::
  "(string \<times> nat \<times> segment_row) \<Rightarrow> time \<Rightarrow> string \<Rightarrow> string \<Rightarrow> string \<Rightarrow> 'w deliver_world_scheme \<Rightarrow> bool" where
  "campaign_open seg now salt m v w \<longleftrightarrow>
     (case seg of (c, so, row) \<Rightarrow>
        faults w = [] \<and> published_tables now (sr_id row) salt m v w
        \<and> reverse_keys w = [(reverse_key c, {so})] \<and> segment_rows w = [row] \<and> sr_ordinal row = int so
        \<and> (\<exists>ch. channel_rows w = [(c, ch)] \<and> chan_major ch = 1)
        \<and> bundle_cache w = [] \<and> tag_cache w = [] \<and> budgets w = Map.empty \<and> events_log w = [] \<and> rl_counts w = (\<lambda>_. 0))"

lemma prepared:
  fixes w :: "'w deliver_world_scheme"
  assumes ready: "ready lib clock" and calm: "faults w = []" and empty: "emptied w"
    and ord: "0 \<le> ordinal_next w" "ordinal_next w \<le> max_uint32" and seg: "0 \<le> segment_next w" "segment_next w \<le> max_uint32"
  obtains c tok w1 so row w2 salt m v w3 w4 where
    "register_device (new_mux (lib_server lib) demo_services) (clock 5) w = (Inr (c, tok), w1)"
    "define_segment lib w1 = (Inr (sr_id row), w2)"
    "author_message (new_mux (lib_server lib) demo_services) (sr_id row) (clock 7) w2 = (Inr m, w3)"
    "publish_message (new_mux (lib_server lib) demo_services) m (clock 8) w3 = (Inr ''active'', w4)"
    "read_audit (new_mux (lib_server lib) demo_services) m (clock 9) w4
      = (Inr [\<lparr>ae_from = StateDraft, ae_to = StateActive, ae_actor = ''demo-campaign-author'', ae_at = pg_time (clock 8)\<rparr>], w4)"
    "campaign_open (c, so, row) (clock 7) salt m v w4" "c \<noteq> []" "tok \<noteq> []" "m \<noteq> []" "v \<noteq> []"
    "\<And>n. verify_token (se_parse (lib_server lib)) tokenSigningSecret tok (clock n) = Inr c"
proof -
  let ?call = "new_mux (lib_server lib) demo_services"
  note e = empty [unfolded emptied_def]
  from e have none: "channel_rows w = []" "ordinal_rows w = []" by simp_all
  obtain c tok h where
    1: "register_device ?call (clock 5) w = (Inr (c, tok),
       w\<lparr>channel_rows := [(c, \<lparr>chan_attributes = country_document, chan_credential = h, chan_major = 1\<rparr>)],
         id_supply := Suc (id_supply w), ordinal_next := ordinal_next w + 1,
         ordinal_rows := [(c, \<lparr>or_ordinal = ordinal_next w, or_retired = False\<rparr>)]\<rparr>)" (is "_ = (_, ?w1)")
    and c: "c \<noteq> []" "tok \<noteq> []" "\<And>n. verify_token (se_parse (lib_server lib)) tokenSigningSecret tok (clock n) = Inr c"
    by (rule registered [OF ready calm none]) (rule that)
  from defined [OF ready, of ?w1 c _ "ordinal_next w"] e calm ord obtain row where
    2: "define_segment lib ?w1 = (Inr (sr_id row), ?w1\<lparr>segment_rows := [row], segment_next := segment_next ?w1 + 1, id_supply := Suc (id_supply ?w1),
       forward_rows := [((sr_id row, 1), {to_uint32 (ordinal_next w)})], generation := 1,
       reverse_keys := [(reverse_key c, {to_uint32 (segment_next ?w1)})]\<rparr>)" (is "_ = (_, ?w2)")
    and s: "sr_ordinal row = segment_next w" "sr_id row \<noteq> []"
    by force
  have w2: "faults ?w2 = []" "map sr_id (segment_rows ?w2) = [sr_id row]" "messages ?w2 = []" "policies ?w2 = []" "variant_rows ?w2 = []"
    using e calm s by simp_all
  obtain m salt v where
    3: "author_message ?call (sr_id row) (clock 7) ?w2 = (Inr m,
       ?w2\<lparr>messages := [(m, welcome_row (clock 7) (sr_id row) salt ''draft'')], policies := [(m, row_of_policy no_policy)],
         variant_rows := [(v, m, row_of_variant welcome_variant)], id_supply := Suc (Suc (id_supply ?w2))\<rparr>)" (is "_ = (_, ?w3)")
    and m: "m \<noteq> []" "v \<noteq> []"
    by (rule authored [OF ready w2(1,2) s(2) w2(3-5) refl]) (rule that)
  obtain w4 where 4: "publish_message ?call m (clock 8) ?w3 = (Inr ''active'', w4)"
    and w4: "w4 = ?w3\<lparr>messages := [(m, welcome_row (clock 7) (sr_id row) salt ''active'')],
         audit_log := [\<lparr>ar_message = m, ar_from = ''draft'', ar_to = ''active'', ar_actor = ''demo-campaign-author'', ar_at = pg_time (clock 8)\<rparr>],
         change_log := [\<lparr>ch_seq = change_seq ?w3, ch_message = m, ch_kind = KindUpsert, ch_at = pg_time (clock 8)\<rparr>],
         change_seq := change_seq ?w3 + 1\<rparr>"
    using published [of ?w3 m "clock 7" "sr_id row" salt "lib_server lib" "clock 8"] e calm by simp
  have "sr_ordinal row = int (to_uint32 (segment_next w))" using s(1) seg by (simp add: to_uint32_small max_uint32_def)
  then have opened: "campaign_open (c, to_uint32 (segment_next w), row) (clock 7) salt m v w4"
    using e calm by (simp add: w4 campaign_open_def published_tables_def)
  have 5: "read_audit ?call m (clock 9) w4
      = (Inr [\<lparr>ae_from = StateDraft, ae_to = StateActive, ae_actor = ''demo-campaign-author'', ae_at = pg_time (clock 8)\<rparr>], w4)"
    by (rule audited) (simp_all add: w4 calm)
  show thesis
    by (rule that [OF 1 2 3 4 5 opened c(1,2) m c(3)])
qed

lemma walked:
  fixes w :: "'w deliver_world_scheme"
  assumes ready: "ready lib clock" and calm: "faults w = []" and empty: "emptied w"
    and ord: "0 \<le> ordinal_next w" "ordinal_next w \<le> max_uint32" and seg: "0 \<le> segment_next w" "segment_next w \<le> max_uint32"
  obtains r w' where "demo_walk lib (new_mux (lib_server lib) demo_services) clock w = (Inr r, w')"
    "as_documented (env_render (se_build (lib_server lib))) (clock 8) r"
proof -
  let ?call = "new_mux (lib_server lib) demo_services"
  have near: "0 \<le> clock 7" "clock 7 - 30 * second < clock n" "clock n < clock 7 + 30 * second" "clock 11 < time_add (clock 10) (30 * second)" for n
    using readyD(11) [OF ready] readyD(13,14) [OF ready, of 7] readyD(13,14) [OF ready, of 10] readyD(13,14) [OF ready, of n]
      readyD(13,14) [OF ready, of 11] unfolding time_add_def by linarith+
  obtain c tok w1 so row w2 salt m v w3 w4 where
    steps: "register_device ?call (clock 5) w = (Inr (c, tok), w1)" "define_segment lib w1 = (Inr (sr_id row), w2)"
      "author_message ?call (sr_id row) (clock 7) w2 = (Inr m, w3)" "publish_message ?call m (clock 8) w3 = (Inr ''active'', w4)"
      "read_audit ?call m (clock 9) w4
        = (Inr [\<lparr>ae_from = StateDraft, ae_to = StateActive, ae_actor = ''demo-campaign-author'', ae_at = pg_time (clock 8)\<rparr>], w4)"
    and opened: "campaign_open (c, so, row) (clock 7) salt m v w4" and m: "m \<noteq> []" "v \<noteq> []"
    and c: "c \<noteq> []" "tok \<noteq> []" "\<And>n. verify_token (se_parse (lib_server lib)) tokenSigningSecret tok (clock n) = Inr c"
    by (rule prepared [OF ready calm empty ord seg]) (rule that)
  from opened obtain ch where calm4: "faults w4 = []" and pub: "published_tables (clock 7) (sr_id row) salt m v w4"
    and tables: "reverse_keys w4 = [(reverse_key c, {so})]" "segment_rows w4 = [row]" "sr_ordinal row = int so"
      "channel_rows w4 = [(c, ch)]" "chan_major ch = 1" "bundle_cache w4 = []" "tag_cache w4 = []" "budgets w4 = Map.empty"
      "events_log w4 = []" "rl_counts w4 = (\<lambda>_. 0)"
    by (auto simp: campaign_open_def)
  obtain rsp en cache index idx where
    sync: "synchronize ?call ''sync'' tok [] (clock 10) w4 = (Inr rsp,
       w4\<lparr>bundle_cache := cache, bundle_index := index, tag_cache := [(tag_key c, rsp_etag rsp, Some (time_add (clock 10) (30 * second)))],
         budgets := [budget_key c \<mapsto> \<lparr>bc_window = idx, bc_count = 0, bc_prev = 0\<rparr>]\<rparr>)"
    and rsp: "rsp_entries rsp = [en]" "ew_message en = m" "ew_variant en = v"
      "ew_content en = env_render (se_build (lib_server lib)) (marshal_content_column welcome_variant)"
      "\<not> rsp_unchanged rsp" "\<not> rsp_is_delta rsp" "rsp_etag rsp \<noteq> []"
    by (rule synchronized [OF ready calm4 pub welcome_eligible [OF near(1) near(2,3) [of 10]] tables(1,2) refl
          tables(3-8) c(3) c(2,1)]) (rule that)
  define w6 where "w6 = w4\<lparr>bundle_cache := cache, bundle_index := index,
      tag_cache := [(tag_key c, rsp_etag rsp, Some (time_add (clock 10) (30 * second)))],
      budgets := [budget_key c \<mapsto> \<lparr>bc_window = idx, bc_count = 0, bc_prev = 0\<rparr>]\<rparr>"
  note w6 = this
  from sync have 6: "synchronize ?call ''sync'' tok [] (clock 10) w4 = (Inr rsp, w6)" by (simp only: w6)
  obtain rsp2 where 7: "synchronize ?call ''sync (second)'' tok (rsp_etag rsp) (clock 11) w6 = (Inr rsp2, w6)"
    and rsp2: "rsp_unchanged rsp2" "rsp_entries rsp2 = []" "rsp_etag rsp2 = rsp_etag rsp"
    using synchronized_again [of w6 c "rsp_etag rsp" "time_add (clock 10) (30 * second)" "clock 11" "lib_server lib" tok "''sync (second)''"]
      calm4 near(4) rsp(7) c by (auto simp: w6)
  have pub6: "published_tables (clock 7) (sr_id row) salt m v w6" using pub by (simp add: published_tables_def w6)
  obtain cell where 8: "confirm_now ?call tok m (clock 12) w6 = (Inr True, w6\<lparr>budgets := (budgets w6)(budget_key c \<mapsto> cell)\<rparr>)" (is "_ = (_, ?w8)")
    using confirmed [OF _ pub6 near(1) near(2,3) [of 12] _ c(3) c(2,1), of idx] calm4 by (auto simp: w6)
  obtain w9 where 9: "submit_impression ?call tok (impression_event (lib_uuid lib) (clock 7) en) (clock 13) ?w8
      = (Inr \<lparr>sub_accepted = 1, sub_invalid = 0, sub_rate_limited = 0\<rparr>, w9)"
    using submitted [OF _ _ _ near(1) readyD(5) [OF ready] _ _ c(3) c(2,1), of ?w8 en] calm4 tables(9,10) rsp(2,3) m
    by (auto simp: w6)
  have "only_entry rsp = Inr en" by (simp add: only_entry_def rsp(1))
  then have "demo_walk lib ?call clock w = (Inr \<lparr>walk_channel = c, walk_segment = sr_id row, walk_message = m,
      walk_audit = [\<lparr>ae_from = StateDraft, ae_to = StateActive, ae_actor = ''demo-campaign-author'', ae_at = pg_time (clock 8)\<rparr>],
      walk_first = rsp, walk_second = rsp2, walk_approved = True,
      walk_submitted = \<lparr>sub_accepted = 1, sub_invalid = 0, sub_rate_limited = 0\<rparr>\<rparr>, w9)"
    by (simp add: demo_walk_def Let_def and_then_def steps 6 7 8 9)
  with that rsp rsp2 show thesis by (simp add: as_documented_def)
qed

text \<open>The foreign keys of the tables that go with a message.\<close>

definition keys_hold :: "'w store_world_scheme \<Rightarrow> bool" where
  "keys_hold w \<longleftrightarrow>
     (let ids = fst ` set (messages w)
      in fst ` set (policies w) \<union> (fst \<circ> snd) ` set (trigger_rows w) \<union> (fst \<circ> snd) ` set (condition_rows w)
         \<union> (fst \<circ> snd) ` set (variant_rows w) \<union> ch_message ` set (change_log w) \<subseteq> ids)"

lemma without_parent_none: "parent ` set rows \<subseteq> set ids \<Longrightarrow> without_parent ids parent rows = []"
  by (auto simp: without_parent_def filter_empty_conv)

lemma cleared_empty:
  assumes "keys_hold w" "change_log w = []"
  shows "emptied (cleared w)"
  using assms by (simp add: emptied_def cleared_def flush_db_def keys_hold_def without_parent_none)

text \<open>
  C34: from any database that keeps its foreign keys and whose change log is empty, with libraries that do what they
  document and no call failing, the demonstration clears what is there and its walk goes as documented; but it leaves a
  database from which no run of it gets past the clearing again, whatever its libraries, its clock and its calls do.
\<close>

theorem demonstration_runs_once:
  fixes w :: "'w demo_world_scheme"
  assumes "ready lib clock" and "faithful_wire wire" and "faults w = []" and "keys_hold w" "change_log w = []"
    and "0 \<le> ordinal_next w" "ordinal_next w \<le> max_uint32" "0 \<le> segment_next w" "segment_next w \<le> max_uint32"
  shows "\<exists>r w'. demo_session wire lib (flag_listen default_flags) clock w = (Inr r, w')
    \<and> as_documented (env_render (se_build (lib_server lib))) (clock 8) r
    \<and> (\<forall>lib' listen clock' fs. \<not> is_ok (fst (demo_session wire lib' listen clock' (w'\<lparr>faults := fs\<rparr>))))"
proof -
  have "faults (cleared w) = []" "0 \<le> ordinal_next (cleared w)" "ordinal_next (cleared w) \<le> max_uint32"
    "0 \<le> segment_next (cleared w)" "segment_next (cleared w) \<le> max_uint32"
    using assms(3,6-9) by (simp_all add: cleared_def flush_db_def)
  from walked [OF assms(1) this(1) cleared_empty [OF assms(4,5)] this(2-5)] obtain r w' where
    walk: "demo_walk lib (new_mux (lib_server lib) demo_services) clock (cleared w) = (Inr r, w')"
    and doc: "as_documented (env_render (se_build (lib_server lib))) (clock 8) r" by blast
  have "\<not> change_kept w" by (simp add: change_kept_def assms(5))
  with walk have "demo_session wire lib (flag_listen default_flags) clock w = (Inr r, w')"
    unfolding demo_session_def demo_call_answers [OF assms(2)] by (simp add: reset_calm [OF assms(3)] and_then_def wrapping_def)
  moreover have "\<not> is_ok (fst (demo_session wire lib' listen clock' (w'\<lparr>faults := fs\<rparr>)))" for lib' listen clock' fs
  proof -
    have "change_kept (w'\<lparr>faults := fs\<rparr>)" using walk_leaves_change [OF walk] by (simp add: change_kept_def)
    from reset_refused [OF this] show ?thesis
      by (cases "reset_demo_data (w'\<lparr>faults := fs\<rparr>)"; cases "fst (reset_demo_data (w'\<lparr>faults := fs\<rparr>))")
        (simp_all add: demo_session_def and_then_def wrapping_def)
  qed
  ultimately show ?thesis using doc by blast
qed

text \<open>A database with a campaign of an earlier day, and libraries that know the texts of the walk.\<close>

definition walk_libraries :: demo_libraries where
  "walk_libraries =
     (let claims = claims_json (claims_for ''u'' 0 AccessTokenTTL) in
      \<lparr>lib_server = \<lparr>se_build = \<lparr>env_gen = \<lparr>gen_uuid = \<lambda>_. ''u'', gen_salt = \<lambda>_. ''salt''\<rparr>,
          env_render = \<lambda>j. if j = claims then ''claims'' else ''value'', env_marshal = \<lambda>_. ''bits'', env_rnd = \<lambda>_. 0\<rparr>,
        se_parse = \<lambda>s. if s = ''claims'' then Some claims else if s = attributesJSON then Some country_document else None,
        se_random = \<lambda>n. Inr (replicate n CHR ''k'')\<rparr>,
       lib_new_env = \<lambda>_. Inr (), lib_compile = \<lambda>s. if s = segment_source then Inr country_is_JP else Inl IOFailure,
       lib_serialise = \<lambda>a. if a = country_is_JP then Inr ''tree'' else Inl IOFailure,
       lib_deserialise = \<lambda>t. if t = ''tree'' then Inr country_is_JP else Inl IOFailure,
       lib_jsonb = \<lambda>t. t, lib_parse_time = \<lambda>_. None,
       lib_sql = \<lambda>q (c, r). chan_attributes r = country_document, lib_uuid = ''event''\<rparr>)"

definition earlier_database :: demo_world where
  "earlier_database = deliver_world.extend (demo_cached\<lparr>change_log := []\<rparr>) (demo_world.fields [(''m'', ''c1'', ''k'')])"

lemma walk_libraries_ready: "ready walk_libraries (\<lambda>_. 0)"
  by (auto simp: ready_def walk_libraries_def Let_def attributesJSON_def second_def)

theorem demonstration_runs_once_witness:
  "\<exists>r w'. demo_session demo_wire walk_libraries (flag_listen default_flags) (\<lambda>_. 0) earlier_database = (Inr r, w')
    \<and> walk_approved r \<and> messages earlier_database \<noteq> []
    \<and> \<not> is_ok (fst (demo_session demo_wire walk_libraries (flag_listen default_flags) (\<lambda>_. 0) w'))"
proof -
  have db: "faults earlier_database = []" "keys_hold earlier_database" "change_log earlier_database = []"
    "0 \<le> ordinal_next earlier_database" "ordinal_next earlier_database \<le> max_uint32"
    "0 \<le> segment_next earlier_database" "segment_next earlier_database \<le> max_uint32" "messages earlier_database \<noteq> []"
    by (simp_all add: earlier_database_def demo_cached_def demo_deliver_def demo_delivery_def demo_members_def
        membership_world.defs payload_world.defs deliver_world.defs demo_world.defs keys_hold_def max_uint32_def)
  from demonstration_runs_once [OF walk_libraries_ready demo_wire_faithful db(1-7)] obtain r w' where
    run: "demo_session demo_wire walk_libraries (flag_listen default_flags) (\<lambda>_. 0) earlier_database = (Inr r, w')"
    and doc: "as_documented (env_render (se_build (lib_server walk_libraries))) 0 r"
    and again: "\<And>fs. \<not> is_ok (fst (demo_session demo_wire walk_libraries (flag_listen default_flags) (\<lambda>_. 0) (w'\<lparr>faults := fs\<rparr>)))"
    by blast
  from again [of "faults w'"] have "\<not> is_ok (fst (demo_session demo_wire walk_libraries (flag_listen default_flags) (\<lambda>_. 0) w'))" by simp
  with run doc db(8) show ?thesis by (auto simp: as_documented_def)
qed

end
