(* ===== verification/Spec2Isabelle.thy ===== *)
theory Spec2Isabelle
  imports Assign Hll Cursor Validate Eval SqlCompile Reports Deliver Register AdminAuth AdminWire Reach TimeSlot Mirror EndToEnd Access Process Route Walk
begin

text \<open>
  Citywalk delivers in-app messages to devices. An administrator defines campaigns; the audience of a
  campaign is a segment, a saved predicate over the attributes of channels; an experiment splits the channels
  of a campaign into variants and a holdout; a device synchronizes a payload of messages and answers with
  events; the events flow into rollups, reports and the budget that limits what is shown. This development
  models the Go code of \<^verbatim>\<open>src/internal\<close>, of \<^verbatim>\<open>src/cmd/server\<close>, of \<^verbatim>\<open>src/cmd/demo\<close> and of the generated services: every operation of every
  component that has state or computes, with the errors it returns.

  \<^bold>\<open>How the model corresponds to the code.\<close>
  A Go string is the list of its bytes, \<^verbatim>\<open>int\<close> and \<^verbatim>\<open>int64\<close> are integers with \<open>wrap64\<close> where a sum can overflow,
  \<^verbatim>\<open>float64\<close> is a rational with an explicit rounding (\<open>fl\<close>, theory Float64; no infinities or NaN), an instant is its
  nanoseconds, a duration saturates as \<^verbatim>\<open>time.Time.Sub\<close> does. An error is a value of \<open>go_error\<close>: a sentinel, the
  failure of a remote call, a formatted text, a wrap, a join; the code of a Connect error is a wrap with its
  name. A struct is a record, a Go map an association list, JSON a tree of values.
  The outside world is a record of tables and keys (theory World and its extensions in each component), and an
  operation is a function from a world to a result and a world. Each call to the database, to Redis or to a
  broker consumes one entry of the schedule \<open>faults\<close>: the call is done, or it is lost with no effect, or it has its effect
  and the answer is lost. What follows from an operation for every schedule holds under all failures of its calls.
  A transaction restores the tables of its world unless it commits, and a commit may itself be lost or not
  acknowledged.

  \<^bold>\<open>Theories, and the code they model\<close> (paths under \<^verbatim>\<open>src/internal\<close>).
  \<^item> Prelude, Text, Url, Base64, Sha256, Fnv, Float64, FloatOrder, Json, World: what the program uses of Go's standard library,
    and the calls to the outside world; with the collections of lemmas the other theories rest on.
  \<^item> Definitions. DefModel and Content: \<^verbatim>\<open>definition/model\<close>; Validate: \<^verbatim>\<open>definition/validate\<close>; Store: \<^verbatim>\<open>definition/store\<close>,
    \<^verbatim>\<open>delivery/changelog\<close>, \<^verbatim>\<open>delivery/confirm\<close>; ObjectStorage: \<^verbatim>\<open>platform/objectstorage\<close>.
  \<^item> Audiences. Registry, SavedPredicate, SqlCompile, Eval, Reach: \<^verbatim>\<open>audience/registry\<close>, \<^verbatim>\<open>predicate\<close>, \<^verbatim>\<open>sqlcompile\<close>,
    \<^verbatim>\<open>eval\<close>, \<^verbatim>\<open>reach\<close>; Membership: \<^verbatim>\<open>membership\<close> (ordinals, segments, both indexes, the recomputation of all and the
    update of one channel).
  \<^item> Experiments. Assign: \<^verbatim>\<open>experiment/assign\<close>; Allocation: the experiment half of \<^verbatim>\<open>delivery/payload/payload.go\<close>.
  \<^item> Delivery. Payload: \<^verbatim>\<open>delivery/payload\<close> and \<^verbatim>\<open>delivery/sync\<close>, with the cache of bundles; Cursor: \<^verbatim>\<open>delivery/cursor\<close>;
    Deliver: \<^verbatim>\<open>delivery/deliver\<close> and \<^verbatim>\<open>delivery/etag\<close>; Budget: \<^verbatim>\<open>governance/budget\<close> with its Lua script.
  \<^item> Events. EventModel: \<^verbatim>\<open>event/model\<close>, \<^verbatim>\<open>event/clockoffset\<close>; RateLimit: \<^verbatim>\<open>event/ratelimit\<close>; Ingest: \<^verbatim>\<open>event/ingest\<close> and the
    producer of \<^verbatim>\<open>platform/eventlog\<close>; Consumer: \<^verbatim>\<open>event/consumer\<close>; Reports: \<^verbatim>\<open>event/report\<close>, \<^verbatim>\<open>event/attribution\<close>; Hll:
    \<^verbatim>\<open>event/hll\<close>; Mirror: \<^verbatim>\<open>event/mirror\<close> and \<^verbatim>\<open>platform/clickhouse/row.go\<close>.
  \<^item> The log of events. EventLog: the consumers of \<^verbatim>\<open>platform/eventlog\<close> over several partitions.
  \<^item> The process. DeviceToken, AdminAuth (with \<^verbatim>\<open>platform/config\<close>), Register: \<^verbatim>\<open>channel/register\<close>; AdminWire and Handlers:
    \<^verbatim>\<open>platform/connectserver\<close>, whose \<open>new_mux\<close> is a function from a request to its answer; Migrate:
    \<^verbatim>\<open>platform/postgres/migrate.go\<close>; TimeSlot and Jobs: \<^verbatim>\<open>platform/jobqueue\<close> and the periodic jobs;
    Clients: \<^verbatim>\<open>platform/postgres/postgres.go\<close>, \<^verbatim>\<open>redisclient\<close>, \<^verbatim>\<open>clickhouse\<close>, \<^verbatim>\<open>observability\<close>, what a process holds of other systems;
    Process: \<^verbatim>\<open>cmd/server/main.go\<close>, from the environment to the exit; Route: \<^verbatim>\<open>src/gen/citywalk/*/v1/*v1connect\<close>, clients, paths and handlers.
  \<^item> The demonstration. Demo: \<^verbatim>\<open>cmd/demo/main.go\<close>, with the foreign keys its clearing meets; Walk: its steps, one lemma each.
  \<^item> Batches: the loop that two periodic jobs share. EndToEnd: from an accepted batch of events to the report. Triple,
    Bundles, KillSwitch, Access: the properties of the whole process, stated of \<open>new_mux\<close>.

  \<^bold>\<open>What the groups of lemmas show.\<close>
  Of the whole process: once a request to stop a campaign has been answered, no synchronization sends it, whatever requests
  and failures come in between (KillSwitch, by the invariants \<open>indexed\<close> and \<open>silenced\<close> of the cached bundles; \<open>indexed\<close> needs
  that no indexing of a bundle was lost before);
  an administrative call runs only for a principal whose role covers it, and is recorded under its name; a device's
  request writes nothing for another channel than that of its token, and beside that at most the bundle of its own segments (Access). A client's call reaches the handler of its
  procedure, and nothing is served beside those (Route). What a process opens it closes, the last first, whatever
  fails, and while it serves it holds exactly the connections its configuration names (Process, over the journal of handles). The demonstration, which is
  a series of calls to all the services, goes as its document says from any database it can clear, and leaves one that it
  cannot clear again (Walk). Of the delivery: a freshly assembled payload
  holds only messages that are active, in their window, for a segment of the channel, of a schema the device reads, within
  the size it accepts (Payload); a device that applies a delta holds what a full synchronization would give it,
  under the conditions the code relies on (Deliver, a simulation); the checks of a window never let more through than the
  cap, as long as no impression is recorded ahead of the window (Budget, with floating-point arithmetic). Of the events: a batch is accounted for
  to the last one; the rollups
  and the attributions are what a fold over the consumed prefix of the log gives, whichever transactions fail, and the reports
  count exactly those (Ingest, Consumer, Reports); a batch that is accepted adds to a report, after the worker's next
  successful run, what of it was new, and nothing when it is sent again (EndToEnd); the mirror copies every row at least once that did not
  commit behind its offset (Mirror). Of audiences: the recomputed membership
  is the evaluation of every channel, and the update of one channel moves it to where the recomputation would
  (Membership); compiled SQL holds no value of the predicate and one placeholder per argument (SqlCompile). Of definitions: what is saved
  passed the checks and reads back as it was saved, and each change of state is in the audit log (Validate, Store). Of
  experiments: the range table is a partition of the buckets, each variant gets its share, and a
  channel keeps its variant (Assign, Allocation).

  \<^bold>\<open>Interfaces.\<close> Locales state what one component relies on in another, each interpreted on the model's own definitions:
  the sink of accepted events (\<open>publisher\<close>, for the table and for the log), the buckets and the table of an experiment
  (\<open>bucket_table\<close>), the sketch of unique reach (\<open>distinct_counter\<close>), the wire forms of the definitions (\<open>codec\<close>), the step that a
  periodic job repeats (\<open>batch_job\<close> and, when no call fails, \<open>calm_batch_job\<close>), what a series of requests keeps
  (\<open>kept_by_requests\<close>), and the opening and closing of a connection around its use (\<open>connection\<close>, for each of the six). The states of a message are a linear order, the order of their list.

  \<^bold>\<open>Bounds and fuel.\<close> Two loops may not end, those of the two periodic workers that drain the log in batches (\<open>drain\<close>, \<open>mirror_drain\<close>).
  Both take fuel, and both are shown to return, whatever fails, with more fuel than there are rows left, since a full batch
  takes at least one row (theory Batches). Everything else ends by structural recursion or a measure.

  \<^bold>\<open>What stands as an argument of the model.\<close> CEL's parser, checker and interpreter; the text of JSON, of claims and of properties
  (their values are modelled); the logarithm of \<^verbatim>\<open>math\<close>; the parser of UUIDs and dates, and random numbers; the order in which the database
  returns rows of equal rank; what a migration script does; which partitions a poll
  of the broker answers for; the encoding of messages; what is served between the start and the signal.

  \<^bold>\<open>What is not modelled, and why.\<close>
  \<^item> The generated messages of \<^verbatim>\<open>gen/\<close>: accessors and reflection. The messages the handlers exchange are records of AdminWire and Handlers.
  \<^item> Metrics, log lines and what the demonstration prints: nothing reads them. Of \<^verbatim>\<open>platform/observability\<close> the model has the two providers.
  \<^item> \<^verbatim>\<open>migrations/embed.go\<close>: the embedding of a directory. The scheduler of the job queue, which is a library.

  \<^bold>\<open>Where the model is coarser than a running process.\<close> Requests run one after another: two requests that overlap are
  not interleaved, though the calls of each may fail at every point. A request reads its clock once, and that instant also
  stands for the clock of Redis. A nil slice is the empty list, but for the screens of a display
  condition, which the database tells apart. An identifier is any string, where the
  database accepts a UUID only, and the foreign keys of the events table are checked where the demonstration clears it only; a text may hold NUL, which the database refuses. White space is that of ASCII. A float is finite. How long a
  comparison of secrets takes is not in the model.
\<close>

section \<open>The kill switch of a started process\<close>

text \<open>
  Whatever its environment, a process that starts sends its events to the table or to the log, so the kill switch holds of
  every process with a Redis.
\<close>

lemma started_process_known_publisher:
  fixes h :: "'h host_world_scheme"
  shows "run out put_time environ ret h = (Inr p, h') \<Longrightarrow> known_publisher (proc_server p)"
  by (elim started_process) (auto simp: known_publisher_def process_of_server)

corollary process_kill_switch:
  fixes h :: "'h host_world_scheme"
  assumes start: "run out put_time environ ret h = (Inr p, h')" "load_config environ = Inr cfg" "redis_addr cfg \<noteq> []" and "indexed w"
    and "list_all (\<lambda>(_, _, _, fs). fs = []) before"
    and "new_mux env (proc_server p) authorization (Admin (UpdateMessageState i st)) now
        ((serve_all_requests env (proc_server p) before w)\<lparr>faults := fs\<rparr>) = (Inr resp, w1)"
    and "st \<noteq> ''active''" "list_all (\<lambda>(_, req, _, _). \<not> activates i req) later"
    and "new_mux env (proc_server p) authorization' (Sync lang tag tok) now'
        ((serve_all_requests env (proc_server p) later w1)\<lparr>faults := fs'\<rparr>) = (Inr (Synced rsp), w2)"
  shows "i \<notin> ew_message ` set (rsp_entries rsp)"
proof -
  have "srv_redis (proc_server p)" using start by (elim started_process) (simp add: process_of_server)
  from kill_switch [OF started_process_known_publisher [OF start(1)] this assms(4-)] show ?thesis .
qed

end
